(* ===== verification/Prelude.thy ===== *)
theory Prelude
  imports Main "HOL-Library.Word"
begin

text \<open>
  The vocabulary shared by the component theories: the machine integers of the
  Rust sources as words, the arithmetic of the standard library that the sources
  call (\<^verbatim>\<open>checked_add\<close>, \<^verbatim>\<open>checked_sub\<close>, \<^verbatim>\<open>saturating_add\<close>,
  \<^verbatim>\<open>count_ones\<close>, \<^verbatim>\<open>is_power_of_two\<close>), the outcome of code that can panic,
  little- and big-endian byte strings, and in-place updates of byte buffers.

  The release profile of \<^verbatim>\<open>Cargo.toml\<close> leaves overflow checks off, so a plain
  \<open>+\<close>, \<open>-\<close>, \<open>*\<close> of the sources is the wrap-around operation on words, and a shift
  uses its amount modulo the width. \<^verbatim>\<open>usize\<close> is 64 bits wide.
\<close>

unbundle bit_operations_syntax

section \<open>Machine integers\<close>

type_synonym u8 = "8 word"
type_synonym u16 = "16 word"
type_synonym u32 = "32 word"
type_synonym u64 = "64 word"
type_synonym usize = "64 word"

named_theorems checked_simps \<open>the results of checked arithmetic, read as natural numbers\<close>

definition checked_add :: "'a::len word \<Rightarrow> 'a word \<Rightarrow> 'a word option" where
  "checked_add a b = (if unat a + unat b < 2 ^ LENGTH('a) then Some (a + b) else None)"

definition checked_sub :: "'a::len word \<Rightarrow> 'a word \<Rightarrow> 'a word option" where
  "checked_sub a b = (if b \<le> a then Some (a - b) else None)"

definition saturating_add :: "'a::len word \<Rightarrow> 'a word \<Rightarrow> 'a word" where
  "saturating_add a b = (if unat a + unat b < 2 ^ LENGTH('a) then a + b else - 1)"

definition count_ones :: "'a::len word \<Rightarrow> nat" where
  "count_ones w = length (filter (bit w) [0..<LENGTH('a)])"

definition is_power_of_two :: "'a::len word \<Rightarrow> bool" where
  "is_power_of_two w = (count_ones w = 1)"

lemma unat_add_no_wrap:
  fixes a b :: "'a::len word"
  assumes "unat a + unat b < 2 ^ LENGTH('a)"
  shows "unat (a + b) = unat a + unat b"
  using assms by (simp add: unat_word_ariths)

lemma unat_sub_no_wrap:
  fixes a b :: "'a::len word"
  shows "b \<le> a \<Longrightarrow> unat (a - b) = unat a - unat b"
  by (rule unat_sub)

lemma checked_add_Some [checked_simps]:
  fixes a b :: "'a::len word"
  shows "checked_add a b = Some c \<longleftrightarrow> unat a + unat b < 2 ^ LENGTH('a) \<and> c = a + b"
  by (auto simp: checked_add_def)

lemma checked_add_None [checked_simps]:
  fixes a b :: "'a::len word"
  shows "checked_add a b = None \<longleftrightarrow> 2 ^ LENGTH('a) \<le> unat a + unat b"
  by (auto simp: checked_add_def)

lemma checked_add_unat:
  "checked_add a b = Some c \<Longrightarrow> unat c = unat a + unat b"
  by (simp add: checked_add_Some unat_add_no_wrap)

lemma unat_max_word: "unat (- 1 :: 'a::len word) = 2 ^ LENGTH('a) - 1"
  by (simp add: unsigned_minus_1_eq_mask mask_eq_exp_minus_1)

lemma unat_saturating_add:
  fixes a b :: "'a::len word"
  shows "unat (saturating_add a b) = min (unat a + unat b) (2 ^ LENGTH('a) - 1)"
  by (auto simp: saturating_add_def unat_add_no_wrap unat_max_word)

lemma unat_lt_len: "unat (w :: 'a::len word) < 2 ^ LENGTH('a)"
  by (rule unsigned_less)

lemma unat_u64_lt [simp]: "unat (w :: u64) < 18446744073709551616"
  using unat_lt_len [of w] by simp

lemma filter_single_bit:
  assumes "length (filter P [0..<n]) = 1"
  obtains k where "k < n" "P k" "\<And>i. i < n \<Longrightarrow> P i \<Longrightarrow> i = k"
proof -
  from assms obtain k where k: "filter P [0..<n] = [k]"
    by (auto simp: length_Suc_conv)
  then have "set (filter P [0..<n]) = {k}" by simp
  then have "{i. i < n \<and> P i} = {k}" by auto
  then show ?thesis using that by blast
qed

lemma count_ones_1_power:
  fixes w :: "'a::len word"
  assumes "count_ones w = 1"
  shows "\<exists>k < LENGTH('a). w = 2 ^ k"
proof -
  from assms obtain k where k: "k < LENGTH('a)" "bit w k"
    and uniq: "\<And>i. i < LENGTH('a) \<Longrightarrow> bit w i \<Longrightarrow> i = k"
    unfolding count_ones_def by (rule filter_single_bit) blast
  have "bit w i \<longleftrightarrow> bit (2 ^ k :: 'a word) i" if "i < LENGTH('a)" for i
  proof (cases "i = k")
    case True
    with k show ?thesis by (simp add: bit_exp_iff)
  next
    case False
    with uniq that have "\<not> bit w i" by blast
    with False show ?thesis by (simp add: bit_exp_iff)
  qed
  then have "w = 2 ^ k" by (rule bit_word_eqI)
  with k show ?thesis by blast
qed

lemma is_power_of_two_unat:
  fixes w :: "'a::len word"
  assumes "is_power_of_two w"
  obtains k where "k < LENGTH('a)" "unat w = 2 ^ k"
proof -
  from assms obtain k where "k < LENGTH('a)" "w = 2 ^ k"
    using count_ones_1_power by (auto simp: is_power_of_two_def)
  moreover from this have "unat w = 2 ^ k" by (intro of_nat_inverse) simp_all
  ultimately show ?thesis using that by blast
qed

lemmas power_of_two_eval = is_power_of_two_def count_ones_def upt_rec

lemma is_power_of_two_pos: "is_power_of_two w \<Longrightarrow> 0 < unat w"
  by (erule is_power_of_two_unat) simp

lemma unat_ucast_up:
  fixes w :: "'a::len word"
  assumes "LENGTH('a) \<le> LENGTH('b)"
  shows "unat (ucast w :: 'b::len word) = unat w"
proof -
  have "unat w < 2 ^ LENGTH('a)" by (rule unsigned_less)
  also have "\<dots> \<le> 2 ^ LENGTH('b)" using assms by simp
  finally show ?thesis by (simp add: unsigned_ucast_eq unsigned_take_bit_eq take_bit_nat_eq_self)
qed

lemma ucast_diff:
  fixes a b :: "'a::len word"
  assumes "LENGTH('b) \<le> LENGTH('a)"
  shows "(ucast (a - b) :: 'b::len word) = ucast a - ucast b"
proof -
  have "take_bit LENGTH('b) (uint (a - b)) = take_bit LENGTH('b) (uint a - uint b)"
    using assms by (simp add: uint_word_ariths take_bit_eq_mod mod_mod_cancel le_imp_power_dvd)
  then show ?thesis
    by (simp add: word_uint_eq_iff uint_word_ariths unsigned_ucast_eq take_bit_eq_mod mod_diff_eq)
qed

lemma ucast_add:
  fixes a b :: "'a::len word"
  assumes "LENGTH('b) \<le> LENGTH('a)"
  shows "(ucast (a + b) :: 'b::len word) = ucast a + ucast b"
proof -
  have "take_bit LENGTH('b) (uint (a + b)) = take_bit LENGTH('b) (uint a + uint b)"
    using assms by (simp add: uint_word_ariths take_bit_eq_mod mod_mod_cancel le_imp_power_dvd)
  then show ?thesis
    by (simp add: word_uint_eq_iff uint_word_ariths unsigned_ucast_eq take_bit_eq_mod mod_add_eq)
qed

section \<open>Code that can panic\<close>

text \<open>
  A panic (\<^verbatim>\<open>unwrap\<close> of an error, an index out of range, \<^verbatim>\<open>assert!\<close>, \<^verbatim>\<open>panic!\<close>)
  aborts the process: \<^verbatim>\<open>panic = 'abort'\<close> in the release profile. Operations that
  contain such a point return an \<open>outcome\<close>.
\<close>

datatype 'a outcome = Return (the_return: 'a) | Panic

primrec outcome_bind :: "'a outcome \<Rightarrow> ('a \<Rightarrow> 'b outcome) \<Rightarrow> 'b outcome" where
  "outcome_bind (Return x) f = f x"
| "outcome_bind Panic f = Panic"

definition unwrap :: "'a option \<Rightarrow> 'a outcome" where
  "unwrap x = (case x of Some v \<Rightarrow> Return v | None \<Rightarrow> Panic)"

definition unwrap_ok :: "'e + 'a \<Rightarrow> 'a outcome" where
  "unwrap_ok x = (case x of Inr v \<Rightarrow> Return v | Inl _ \<Rightarrow> Panic)"

lemma unwrap_simps [simp]:
  "unwrap (Some v) = Return v" "unwrap None = Panic"
  "unwrap_ok (Inr v) = Return v" "unwrap_ok (Inl e) = Panic"
  by (simp_all add: unwrap_def unwrap_ok_def)

lemma outcome_bind_Return:
  "outcome_bind m f = Return y \<longleftrightarrow> (\<exists>x. m = Return x \<and> f x = Return y)"
  by (cases m) auto

lemma outcome_bind_Panic:
  "outcome_bind m f = Panic \<longleftrightarrow> m = Panic \<or> (\<exists>x. m = Return x \<and> f x = Panic)"
  by (cases m) auto

lemma unwrap_eq: "unwrap x = Return v \<longleftrightarrow> x = Some v" "unwrap x = Panic \<longleftrightarrow> x = None"
  by (cases x; simp)+

lemma unwrap_ok_eq: "unwrap_ok x = Return v \<longleftrightarrow> x = Inr v" "unwrap_ok x = Panic \<longleftrightarrow> isl x"
  by (cases x; simp)+

section \<open>Buffers\<close>

text \<open>Overwriting a run of a buffer in place: \<^verbatim>\<open>dst[off..off + src.len()] = src\<close>.\<close>

definition splice :: "nat \<Rightarrow> 'a list \<Rightarrow> 'a list \<Rightarrow> 'a list" where
  "splice off src dst = take off dst @ src @ drop (off + length src) dst"

definition slice :: "nat \<Rightarrow> nat \<Rightarrow> 'a list \<Rightarrow> 'a list" where
  "slice off n xs = take n (drop off xs)"

lemma length_splice [simp]:
  "off + length src \<le> length dst \<Longrightarrow> length (splice off src dst) = length dst"
  by (simp add: splice_def)

lemma nth_splice:
  assumes "off + length src \<le> length dst" "i < length dst"
  shows "splice off src dst ! i =
    (if off \<le> i \<and> i < off + length src then src ! (i - off) else dst ! i)"
  using assms by (auto simp: splice_def nth_append)

lemma length_slice [simp]: "off + n \<le> length xs \<Longrightarrow> length (slice off n xs) = n"
  by (simp add: slice_def)

lemma nth_slice: "off + n \<le> length xs \<Longrightarrow> i < n \<Longrightarrow> slice off n xs ! i = xs ! (off + i)"
  by (simp add: slice_def)

lemma slice_splice_same:
  "off + length src \<le> length dst \<Longrightarrow> slice off (length src) (splice off src dst) = src"
  by (simp add: splice_def slice_def)

lemma slice_splice_disjoint:
  assumes "off + length src \<le> length dst" "o2 + n \<le> length dst"
    and "o2 + n \<le> off \<or> off + length src \<le> o2"
  shows "slice o2 n (splice off src dst) = slice o2 n dst"
  by (rule nth_equalityI) (use assms in \<open>auto simp: nth_slice nth_splice\<close>)

section \<open>Byte order\<close>

primrec from_le :: "u8 list \<Rightarrow> 'a::len word" where
  "from_le [] = 0"
| "from_le (b # bs) = ucast b OR push_bit 8 (from_le bs)"

definition to_le :: "'a::len word \<Rightarrow> u8 list" where
  "to_le w = map (\<lambda>i. ucast (drop_bit (8 * i) w)) [0..<LENGTH('a) div 8]"

definition from_be :: "u8 list \<Rightarrow> 'a::len word" where
  "from_be bs = from_le (rev bs)"

definition to_be :: "'a::len word \<Rightarrow> u8 list" where
  "to_be w = rev (to_le w)"

lemma length_to_le [simp]: "length (to_le (w :: 'a::len word)) = LENGTH('a) div 8"
  by (simp add: to_le_def)

lemma length_to_be [simp]: "length (to_be (w :: 'a::len word)) = LENGTH('a) div 8"
  by (simp add: to_be_def)

lemma bit_from_le:
  "bit (from_le bs :: 'a::len word) i \<longleftrightarrow>
    i < LENGTH('a) \<and> i < 8 * length bs \<and> bit (bs ! (i div 8)) (i mod 8)"
proof (induction bs arbitrary: i)
  case Nil
  then show ?case by simp
next
  case (Cons b bs)
  show ?case
  proof (cases "i < 8")
    case True
    then show ?thesis by (auto simp: bit_simps)
  next
    case False
    then obtain j where j: "i = j + 8" by (metis add.commute le_Suc_ex not_less)
    have "\<not> bit b (j + 8)" using bit_imp_le_length [of b "j + 8"] by auto
    moreover have "(j + 8) div 8 = Suc (j div 8)" by simp
    ultimately show ?thesis using Cons.IH [of j] by (auto simp: j bit_simps)
  qed
qed

lemma bit_to_le_nth:
  "k < LENGTH('a) div 8 \<Longrightarrow> bit (to_le (w :: 'a::len word) ! k) i \<longleftrightarrow> i < 8 \<and> bit w (8 * k + i)"
  by (auto simp: to_le_def bit_simps)

lemma from_le_to_le [simp]:
  fixes w :: "'a::len word"
  assumes "8 dvd LENGTH('a)"
  shows "from_le (to_le w) = w"
proof (rule bit_word_eqI)
  fix i assume i: "i < LENGTH('a)"
  with assms have "i < 8 * (LENGTH('a) div 8)" by simp
  moreover from this have "i div 8 < LENGTH('a) div 8" by (simp add: less_mult_imp_div_less mult.commute)
  ultimately show "bit (from_le (to_le w) :: 'a word) i \<longleftrightarrow> bit w i"
    using i by (simp add: bit_from_le bit_to_le_nth)
qed

lemma to_le_from_le:
  assumes "8 * length bs = LENGTH('a)"
  shows "to_le (from_le bs :: 'a::len word) = bs"
proof (rule nth_equalityI)
  show len: "length (to_le (from_le bs :: 'a word)) = length bs"
    using assms by (metis length_to_le nonzero_mult_div_cancel_left zero_neq_numeral)
  fix k assume "k < length (to_le (from_le bs :: 'a word))"
  then have k: "k < LENGTH('a) div 8" "k < length bs" using len by simp_all
  show "to_le (from_le bs :: 'a word) ! k = bs ! k"
  proof (rule bit_word_eqI)
    fix i :: nat assume "i < LENGTH(8)"
    then show "bit (to_le (from_le bs :: 'a word) ! k) i \<longleftrightarrow> bit (bs ! k) i"
      using k assms by (auto simp: bit_to_le_nth bit_from_le)
  qed
qed

lemma from_be_to_be [simp]: "8 dvd LENGTH('a) \<Longrightarrow> from_be (to_be (w :: 'a::len word)) = w"
  by (simp add: from_be_def to_be_def)

lemma to_be_from_be: "8 * length bs = LENGTH('a) \<Longrightarrow> to_be (from_be bs :: 'a::len word) = bs"
  by (simp add: from_be_def to_be_def to_le_from_le)

end
