(* ===== verification/Address_Allocator.thy ===== *)
theory Address_Allocator
  imports Prelude
begin

text \<open>
  \<^verbatim>\<open>resources/src/address_allocator.rs\<close>: the bump allocator that hands out ranges of
  the guest's address spaces. The state is the record of the source; \<open>aa_new\<close> and
  \<open>aa_allocate\<close> are \<^verbatim>\<open>new\<close> and \<^verbatim>\<open>allocate\<close>. The contract of an allocator of
  ranges is the locale \<open>range_allocator\<close>; a bump allocator on natural numbers is the
  abstract specification that \<open>aa_allocate\<close> refines.
\<close>

section \<open>The code\<close>

record address_allocator =
  pool_base :: u64
  pool_end :: u64
  alignment :: u64
  next_addr :: u64

definition aa_new :: "u64 \<Rightarrow> u64 \<Rightarrow> u64 option \<Rightarrow> address_allocator option" where
  "aa_new base sz align_size =
     (if sz = 0 then None
      else case checked_add base (sz - 1) of
        None \<Rightarrow> None
      | Some pend \<Rightarrow>
          let algn = (case align_size of Some a \<Rightarrow> a | None \<Rightarrow> 4) in
          if \<not> is_power_of_two algn \<or> algn = 0 then None
          else Some \<lparr>pool_base = base, pool_end = pend, alignment = algn, next_addr = base\<rparr>)"

definition aa_allocate :: "u64 \<Rightarrow> address_allocator \<Rightarrow> u64 option \<times> address_allocator" where
  "aa_allocate sz s =
     (if sz = 0 then (None, s)
      else
        let align_adjust =
              (if next_addr s mod alignment s \<noteq> 0
               then alignment s - (next_addr s mod alignment s) else 0)
        in case checked_add (next_addr s) align_adjust of
             None \<Rightarrow> (None, s)
           | Some addr \<Rightarrow>
               (case checked_add addr (sz - 1) of
                  None \<Rightarrow> (None, s)
                | Some end_addr \<Rightarrow>
                    if end_addr > pool_end s then (None, s)
                    else (Some addr, s\<lparr>next_addr := saturating_add end_addr 1\<rparr>)))"

section \<open>The contract of an allocator of ranges\<close>

text \<open>A sequence of requests to an allocator; the ranges granted, in order.\<close>

primrec alloc_seq ::
  "(u64 \<Rightarrow> 's \<Rightarrow> u64 option \<times> 's) \<Rightarrow> u64 list \<Rightarrow> 's \<Rightarrow> (u64 \<times> u64) list \<times> 's" where
  "alloc_seq allocate [] s = ([], s)"
| "alloc_seq allocate (sz # szs) s =
     (let (r, s') = allocate sz s; (rs, s'') = alloc_seq allocate szs s'
      in (case r of None \<Rightarrow> rs | Some a \<Rightarrow> (a, sz) # rs, s''))"

text \<open>
  \<open>floor_of s\<close> is the least address (a natural number) that is still free,
  \<open>limit_of s\<close> the end of the pool and \<open>granule s\<close> the alignment of its ranges.
\<close>

locale range_allocator =
  fixes allocate :: "u64 \<Rightarrow> 's \<Rightarrow> u64 option \<times> 's"
    and inv :: "'s \<Rightarrow> bool"
    and floor_of limit_of granule :: "'s \<Rightarrow> nat"
  assumes alloc_inv: "inv s \<Longrightarrow> inv (snd (allocate sz s))"
    and alloc_limit: "inv s \<Longrightarrow> limit_of (snd (allocate sz s)) = limit_of s"
    and alloc_granule: "inv s \<Longrightarrow> granule (snd (allocate sz s)) = granule s"
    and alloc_None: "inv s \<Longrightarrow> fst (allocate sz s) = None \<Longrightarrow> snd (allocate sz s) = s"
    and alloc_Some: "inv s \<Longrightarrow> fst (allocate sz s) = Some a \<Longrightarrow>
      0 < sz \<and> granule s dvd unat a \<and> floor_of s \<le> unat a \<and> unat a + unat sz \<le> limit_of s \<and>
      unat a + unat sz \<le> floor_of (snd (allocate sz s))"
begin

lemma alloc_seq_inv: "inv s \<Longrightarrow> inv (snd (alloc_seq allocate szs s))"
proof (induction szs arbitrary: s)
  case Nil
  then show ?case by simp
next
  case (Cons sz szs)
  then have "inv (snd (alloc_seq allocate szs (snd (allocate sz s))))"
    by (simp add: alloc_inv)
  then show ?case by (simp add: Let_def split_beta)
qed

lemma alloc_floor_mono: "inv s \<Longrightarrow> floor_of s \<le> floor_of (snd (allocate sz s))"
  using alloc_Some [of s sz] alloc_None [of s sz] by (cases "fst (allocate sz s)") fastforce+

lemma alloc_seq_bounds:
  "inv s \<Longrightarrow> (a, sz) \<in> set (fst (alloc_seq allocate szs s)) \<Longrightarrow>
    0 < sz \<and> granule s dvd unat a \<and> floor_of s \<le> unat a \<and> unat a + unat sz \<le> limit_of s"
proof (induction szs arbitrary: s)
  case Nil
  then show ?case by simp
next
  case (Cons n szs)
  let ?s' = "snd (allocate n s)"
  have mono: "floor_of s \<le> floor_of ?s'" using Cons.prems(1) by (rule alloc_floor_mono)
  have later: "0 < sz \<and> granule s dvd unat a \<and> floor_of s \<le> unat a \<and> unat a + unat sz \<le> limit_of s"
    if "(a, sz) \<in> set (fst (alloc_seq allocate szs ?s'))"
    using Cons.IH [OF alloc_inv [OF Cons.prems(1)] that] mono
      alloc_limit [OF Cons.prems(1)] alloc_granule [OF Cons.prems(1)] by simp
  show ?case
    using Cons.prems later alloc_Some [OF Cons.prems(1), of n]
    by (auto simp: Let_def split_beta split: option.splits)
qed

lemma alloc_seq_ascending:
  "inv s \<Longrightarrow> sorted_wrt (\<lambda>(a, sz) (b, tz). unat a + unat sz \<le> unat b) (fst (alloc_seq allocate szs s))"
proof (induction szs arbitrary: s)
  case Nil
  then show ?case by simp
next
  case (Cons n szs)
  let ?s' = "snd (allocate n s)"
  have inv': "inv ?s'" using Cons.prems by (rule alloc_inv)
  have rest: "unat a + unat n \<le> unat b"
    if "fst (allocate n s) = Some a" "(b, tz) \<in> set (fst (alloc_seq allocate szs ?s'))" for a b tz
    using alloc_Some [OF Cons.prems that(1)] alloc_seq_bounds [OF inv' that(2)] by linarith
  show ?case
    using Cons.IH [OF inv'] rest
    by (auto simp: Let_def split_beta split: option.splits)
qed

end

section \<open>The abstract specification\<close>

text \<open>A bump pointer that is always aligned, on natural numbers that do not wrap.\<close>

record bump =
  bump_limit :: nat
  bump_granule :: nat
  bump_next :: nat

definition round_up :: "nat \<Rightarrow> nat \<Rightarrow> nat" where
  "round_up g n = (n + g - 1) div g * g"

definition bump_allocate :: "nat \<Rightarrow> bump \<Rightarrow> nat option \<times> bump" where
  "bump_allocate n b =
     (if n = 0 \<or> bump_limit b < bump_next b + n then (None, b)
      else (Some (bump_next b),
            b\<lparr>bump_next := round_up (bump_granule b) (bump_next b + n)\<rparr>))"

definition aa_abs :: "address_allocator \<Rightarrow> bump" where
  "aa_abs s = \<lparr>bump_limit = unat (pool_end s) + 1, bump_granule = unat (alignment s),
               bump_next = round_up (unat (alignment s)) (unat (next_addr s))\<rparr>"

text \<open>
  The state invariant. Where the pool ends at the last address of the space the
  saturating addition leaves \<open>next_addr\<close> on an address that is already given out; it
  is safe only because such an address is not a multiple of an alignment above one.
\<close>

definition aa_inv :: "address_allocator \<Rightarrow> bool" where
  "aa_inv s \<longleftrightarrow> is_power_of_two (alignment s) \<and> (pool_end s < - 1 \<or> 1 < alignment s)"

section \<open>Refinement and safety\<close>

lemma round_up_alt:
  assumes "0 < g"
  shows "round_up g n = n + (if n mod g = 0 then 0 else g - n mod g)"
proof -
  obtain q r where n: "n = q * g + r" "r < g"
    using assms by (metis mod_less_divisor div_mult_mod_eq)
  show ?thesis
  proof (cases "r = 0")
    case True
    with n assms have "n + g - 1 = q * g + (g - 1)" by simp
    then have "(n + g - 1) div g = q"
      using assms by (simp only: div_mult_self3 div_less)
    with n True show ?thesis by (simp add: round_up_def)
  next
    case False
    with n have "n + g - 1 = (q + 1) * g + (r - 1)" by simp
    moreover from n have "(r - 1) div g = 0" by simp
    ultimately have "(n + g - 1) div g = q + 1" using assms
      by (metis add_0_right div_mult_self3 less_not_refl2)
    with n False show ?thesis by (simp add: round_up_def)
  qed
qed

lemma round_up_ge: "0 < g \<Longrightarrow> n \<le> round_up g n"
  by (simp add: round_up_alt)

lemma round_up_dvd: "g dvd round_up g n"
  by (simp add: round_up_def)

lemma round_up_id: "0 < g \<Longrightarrow> g dvd n \<Longrightarrow> round_up g n = n"
  by (simp add: round_up_alt dvd_imp_mod_0)

lemma round_up_pred: "1 < g \<Longrightarrow> g dvd n \<Longrightarrow> 0 < n \<Longrightarrow> round_up g (n - 1) = n"
proof -
  assume g: "1 < g" "g dvd n" "0 < n"
  then obtain q where q: "n = Suc q * g" by (metis dvd_def gr0_conv_Suc mult.commute mult_0_right neq0_conv)
  then have "n - 1 = q * g + (g - 1)" using g by simp
  then have "(n - 1) mod g = g - 1" using g by (simp only: mod_mult_self3) simp
  with g show ?thesis by (simp add: round_up_alt)
qed

lemma align_adjust_unat:
  fixes a g :: u64
  assumes "is_power_of_two g"
  shows "unat a + unat (if a mod g \<noteq> 0 then g - a mod g else 0) = round_up (unat g) (unat a)"
proof -
  have g: "0 < unat g" using assms by (rule is_power_of_two_pos)
  have le: "a mod g \<le> g"
    using g by (simp add: word_le_nat_alt unat_mod less_imp_le)
  have "a mod g = 0 \<longleftrightarrow> unat a mod unat g = 0"
    by (simp add: unat_eq_zero [symmetric] unat_mod del: unat_eq_zero)
  then show ?thesis
    using g le by (simp add: round_up_alt unat_sub unat_mod)
qed

lemma power_of_two_dvd_space:
  "is_power_of_two (g :: u64) \<Longrightarrow> unat g dvd 18446744073709551616"
proof (erule is_power_of_two_unat)
  fix k assume "k < LENGTH(64)" "unat g = 2 ^ k"
  moreover from this have "(2 :: nat) ^ k dvd 2 ^ 64" by (intro le_imp_power_dvd) simp
  ultimately show "unat g dvd 18446744073709551616" by simp
qed

abbreviation aa_free :: "address_allocator \<Rightarrow> nat" where
  "aa_free s \<equiv> round_up (unat (alignment s)) (unat (next_addr s))"

lemma unat_pred: "(w :: u64) \<noteq> 0 \<Longrightarrow> unat (w - 1) = unat w - 1 \<and> 0 < unat w"
  by (simp add: unat_gt_0 unat_sub word_le_nat_alt Suc_leI)

lemma aa_allocate_full:
  assumes "is_power_of_two (alignment s)" "unat (pool_end s) + 1 < aa_free s + unat sz"
  shows "aa_allocate sz s = (None, s)"
  using assms align_adjust_unat [OF assms(1), of "next_addr s"] unat_pred [of sz]
  by (auto simp: aa_allocate_def Let_def checked_add_def unat_add_no_wrap word_less_nat_alt
      split: option.splits)

lemma aa_allocate_fits:
  assumes pow: "is_power_of_two (alignment s)" and "sz \<noteq> 0"
    and fits: "aa_free s + unat sz \<le> unat (pool_end s) + 1"
  obtains addr lst where
    "aa_allocate sz s = (Some addr, s\<lparr>next_addr := saturating_add lst 1\<rparr>)"
    "unat addr = aa_free s" "unat lst = aa_free s + unat sz - 1"
proof -
  let ?adj = "if next_addr s mod alignment s \<noteq> 0
              then alignment s - next_addr s mod alignment s else 0"
  let ?addr = "next_addr s + ?adj" and ?lst = "next_addr s + ?adj + (sz - 1)"
  have sz: "0 < unat sz" "unat (sz - 1) = unat sz - 1" using unat_pred [OF \<open>sz \<noteq> 0\<close>] by simp_all
  have adj: "unat (next_addr s) + unat ?adj = aa_free s" using pow by (rule align_adjust_unat)
  have small: "aa_free s + unat sz \<le> 18446744073709551616"
    using fits unat_u64_lt [of "pool_end s"] by linarith
  have addr: "checked_add (next_addr s) ?adj = Some ?addr" "unat ?addr = aa_free s"
    using adj small sz by (simp_all add: checked_add_def unat_add_no_wrap)
  have lst: "checked_add ?addr (sz - 1) = Some ?lst" "unat ?lst = aa_free s + unat sz - 1"
    using addr small sz by (simp_all add: checked_add_def unat_add_no_wrap)
  have "aa_allocate sz s = (Some ?addr, s\<lparr>next_addr := saturating_add ?lst 1\<rparr>)"
    using \<open>sz \<noteq> 0\<close> addr(1) lst fits sz by (simp add: aa_allocate_def Let_def word_less_nat_alt)
  then show ?thesis using addr(2) lst(2) by (rule that)
qed

text \<open>The saturated bump pointer rounds to the same free address as the exact one.\<close>

lemma round_up_saturated:
  fixes lst :: u64
  assumes "aa_inv s" and n: "n \<le> unat (pool_end s) + 1" "0 < n" and lst: "unat lst = n - 1"
  shows "round_up (unat (alignment s)) (unat (saturating_add lst 1)) =
    round_up (unat (alignment s)) n"
proof (cases "n = 18446744073709551616")
  case True
  have pow: "is_power_of_two (alignment s)" using assms by (simp add: aa_inv_def)
  from True n have "unat (pool_end s) = 18446744073709551615"
    using unat_u64_lt [of "pool_end s"] by linarith
  then have "1 < unat (alignment s)" using assms(1)
    by (auto simp: aa_inv_def word_less_nat_alt unat_max_word)
  with True lst power_of_two_dvd_space [OF pow] show ?thesis
    using round_up_pred [of "unat (alignment s)" 18446744073709551616]
      round_up_id [of "unat (alignment s)" 18446744073709551616]
    by (simp add: unat_saturating_add)
next
  case False
  with n have "n < 18446744073709551616" using unat_u64_lt [of "pool_end s"] by linarith
  with n lst show ?thesis by (simp add: unat_saturating_add)
qed

lemma aa_allocate_bump:
  assumes "aa_inv s"
  shows "map_prod (map_option unat) aa_abs (aa_allocate sz s) = bump_allocate (unat sz) (aa_abs s)"
proof -
  have pow: "is_power_of_two (alignment s)" using assms by (simp add: aa_inv_def)
  consider "sz = 0" | "unat (pool_end s) + 1 < aa_free s + unat sz"
    | "sz \<noteq> 0" "aa_free s + unat sz \<le> unat (pool_end s) + 1" by fastforce
  then show ?thesis
  proof cases
    case 1
    then show ?thesis by (simp add: aa_allocate_def bump_allocate_def)
  next
    case 2
    then show ?thesis
      using aa_allocate_full [OF pow 2] by (simp add: bump_allocate_def aa_abs_def)
  next
    case 3
    obtain addr lst where ok: "aa_allocate sz s = (Some addr, s\<lparr>next_addr := saturating_add lst 1\<rparr>)"
      "unat addr = aa_free s" "unat lst = aa_free s + unat sz - 1"
      using pow 3 by (rule aa_allocate_fits)
    have "round_up (unat (alignment s)) (unat (saturating_add lst 1)) =
        round_up (unat (alignment s)) (aa_free s + unat sz)"
      using assms 3(2) _ ok(3) by (rule round_up_saturated) (use unat_pred [OF 3(1)] in simp)
    with ok 3 show ?thesis by (simp add: bump_allocate_def aa_abs_def unat_eq_zero)
  qed
qed

text \<open>The refined allocator fulfils the contract of an allocator of ranges.\<close>

lemma aa_allocate_fields:
  "pool_end (snd (aa_allocate sz s)) = pool_end s" "alignment (snd (aa_allocate sz s)) = alignment s"
  "fst (aa_allocate sz s) = None \<Longrightarrow> snd (aa_allocate sz s) = s"
  by (auto simp: aa_allocate_def Let_def split: option.splits if_splits)

lemma aa_allocate_Some:
  assumes "aa_inv s" "fst (aa_allocate sz s) = Some a"
  shows "0 < sz \<and> unat (alignment s) dvd unat a \<and> aa_free s \<le> unat a \<and>
    unat a + unat sz \<le> unat (pool_end s) + 1 \<and> unat a + unat sz \<le> aa_free (snd (aa_allocate sz s))"
proof -
  have g: "0 < unat (alignment s)" using assms(1) by (auto simp: aa_inv_def intro: is_power_of_two_pos)
  have "map_prod (map_option unat) aa_abs (aa_allocate sz s) = bump_allocate (unat sz) (aa_abs s)"
    using assms(1) by (rule aa_allocate_bump)
  then have "bump_allocate (unat sz) (aa_abs s) = (Some (unat a), aa_abs (snd (aa_allocate sz s)))"
    using assms(2) by (cases "aa_allocate sz s") simp
  then show ?thesis
    using g round_up_ge [OF g, of "aa_free s + unat sz"]
      round_up_dvd [of "unat (alignment s)" "unat (next_addr s)"]
    by (auto simp: bump_allocate_def aa_abs_def aa_allocate_fields word_gt_0
        unat_eq_zero split: if_splits)
qed

interpretation aa: range_allocator aa_allocate aa_inv aa_free
  "\<lambda>s. unat (pool_end s) + 1" "\<lambda>s. unat (alignment s)"
  by unfold_locales (use aa_allocate_Some in \<open>auto simp: aa_allocate_fields aa_inv_def\<close>)

lemma aa_new_Some:
  assumes "aa_new base n al = Some s"
  shows "is_power_of_two (alignment s)" "unat (pool_end s) + 1 = unat base + unat n"
    "next_addr s = base" "alignment s = (case al of Some a \<Rightarrow> a | None \<Rightarrow> 4)"
  using assms unat_pred [of n]
  by (auto simp: aa_new_def Let_def unat_add_no_wrap checked_simps
      split: if_splits option.splits)

lemma aa_new_inv:
  assumes "aa_new base n al = Some s" "unat base + unat n < 2 ^ 64 \<or> al \<noteq> Some 1"
  shows "aa_inv s"
proof -
  note new = aa_new_Some [OF assms(1)]
  have "alignment s \<noteq> 1 \<Longrightarrow> 1 < alignment s"
    using is_power_of_two_pos [OF new(1)] by (simp add: word_less_nat_alt word_unat_eq_iff)
  then show ?thesis using assms(2) new
    by (auto simp: aa_inv_def word_less_nat_alt unat_max_word split: option.splits)
qed

lemma aa_alloc_seq_bounds:
  assumes "aa_new base n al = Some s" "unat base + unat n < 2 ^ 64 \<or> al \<noteq> Some 1"
    and "(a, sz) \<in> set (fst (alloc_seq aa_allocate szs s))"
  shows "0 < sz \<and> unat (case al of Some g \<Rightarrow> g | None \<Rightarrow> 4) dvd unat a \<and>
    unat base \<le> unat a \<and> unat a + unat sz \<le> unat base + unat n"
proof -
  note new = aa_new_Some [OF assms(1)]
  have inv: "aa_inv s" using assms(1,2) by (rule aa_new_inv)
  have low: "unat base \<le> aa_free s"
    using round_up_ge [OF is_power_of_two_pos [OF new(1)], of "unat base"] new(3) by simp
  show ?thesis
    using aa.alloc_seq_bounds [OF inv assms(3)] low new(2,4) by simp
qed

lemma aa_alloc_seq_ranges:
  assumes "aa_new base n al = Some s" "unat base + unat n < 2 ^ 64 \<or> al \<noteq> Some 1"
  shows "sorted_wrt (\<lambda>(a, sz) (b, tz). unat a + unat sz \<le> unat b) (fst (alloc_seq aa_allocate szs s))"
    and "list_all (\<lambda>(a, sz). unat base \<le> unat a \<and> unat a + unat sz \<le> unat base + unat n)
      (fst (alloc_seq aa_allocate szs s))"
proof -
  show "sorted_wrt (\<lambda>(a, sz) (b, tz). unat a + unat sz \<le> unat b) (fst (alloc_seq aa_allocate szs s))"
    using aa_new_inv [OF assms] by (rule aa.alloc_seq_ascending)
  show "list_all (\<lambda>(a, sz). unat base \<le> unat a \<and> unat a + unat sz \<le> unat base + unat n)
      (fst (alloc_seq aa_allocate szs s))"
    unfolding list_all_iff by (intro ballI case_prodI2) (blast dest: aa_alloc_seq_bounds [OF assms])
qed

text \<open>
  C13. On every state of the invariant \<^verbatim>\<open>AddressAllocator::allocate\<close> computes exactly
  what a bump allocator on unbounded numbers computes: it grants a request if and only
  if the aligned range fits in the pool, grants the lowest free aligned address, and
  leaves the state unchanged on every refusal. None of the additions of the code wraps
  in a way that can be seen.
\<close>

theorem aa_allocate_refines:
  "aa_inv s \<Longrightarrow>
    map_prod (map_option unat) aa_abs (aa_allocate sz s) = bump_allocate (unat sz) (aa_abs s)"
  by (rule aa_allocate_bump)

theorem aa_allocate_refines_witness:
  "map_prod (map_option unat) aa_abs (aa_allocate 0x20 \<lparr>pool_base = 0x1000, pool_end = - 1,
      alignment = 0x100, next_addr = 0xffffffffffffff01\<rparr>) =
   (None, \<lparr>bump_limit = 2 ^ 64, bump_granule = 0x100, bump_next = 2 ^ 64\<rparr>)"
proof -
  have inv: "aa_inv \<lparr>pool_base = 0x1000, pool_end = - 1, alignment = 0x100,
      next_addr = 0xffffffffffffff01\<rparr>"
    by (simp add: aa_inv_def power_of_two_eval)
  show ?thesis
    by (subst aa_allocate_refines [OF inv]) (simp add: bump_allocate_def aa_abs_def round_up_def unat_max_word)
qed

text \<open>
  C14. Whatever is requested from a freshly made allocator, the ranges granted are
  non-empty, lie in the pool, start at multiples of the alignment, and follow one
  another in address order without overlap. The hypothesis leaves out one
  configuration: a pool that reaches the last address of the space with an alignment
  of one.
\<close>

theorem aa_alloc_seq_safe:
  assumes "aa_new base n al = Some s" "unat base + unat n < 2 ^ 64 \<or> al \<noteq> Some 1"
  shows "sorted_wrt (\<lambda>(a, sz) (b, tz). unat a + unat sz \<le> unat b) (fst (alloc_seq aa_allocate szs s))
    \<and> list_all (\<lambda>(a, sz). 0 < sz \<and> unat (case al of Some g \<Rightarrow> g | None \<Rightarrow> 4) dvd unat a \<and>
        unat base \<le> unat a \<and> unat a + unat sz \<le> unat base + unat n)
      (fst (alloc_seq aa_allocate szs s))"
  unfolding list_all_iff
  by (intro conjI aa_alloc_seq_ranges(1) [OF assms] ballI case_prodI2)
    (blast dest: aa_alloc_seq_bounds [OF assms])+

theorem aa_alloc_seq_safe_witness:
  "fst (alloc_seq aa_allocate [0x110, 0x100] \<lparr>pool_base = 0x1000, pool_end = 0x10fff,
      alignment = 0x100, next_addr = 0x1000\<rparr>) = [(0x1000, 0x110), (0x1200, 0x100)] \<and>
   sorted_wrt (\<lambda>(a, sz) (b, tz). unat a + unat sz \<le> unat b)
     (fst (alloc_seq aa_allocate [0x110, 0x100] \<lparr>pool_base = 0x1000, pool_end = 0x10fff,
      alignment = 0x100, next_addr = 0x1000\<rparr>))"
proof -
  have "aa_new 0x1000 0x10000 (Some 0x100) = Some \<lparr>pool_base = 0x1000, pool_end = 0x10fff,
      alignment = 0x100, next_addr = 0x1000\<rparr>"
    by (simp add: aa_new_def checked_add_def power_of_two_eval)
  from aa_alloc_seq_safe [OF this, of "[0x110, 0x100]"] show ?thesis
    by (simp add: aa_allocate_def Let_def checked_add_def saturating_add_def)
qed

text \<open>
  The configuration left out above is a real one: over a pool of two bytes at the
  top of the space with alignment one, the allocator grants both bytes and then grants
  the last byte a second time.
\<close>

theorem aa_top_byte_granted_twice:
  "map_option (\<lambda>s. fst (alloc_seq aa_allocate [2, 1] s)) (aa_new (- 2) 2 (Some 1)) =
    Some [(- 2, 2), (- 1, 1)]"
  by (simp add: aa_new_def aa_allocate_def Let_def checked_add_def saturating_add_def
      power_of_two_eval unat_max_word)

end
