(* ===== verification/System_Allocator.thy ===== *)
theory System_Allocator
  imports Address_Allocator
begin

text \<open>
  \<^verbatim>\<open>resources/src/system_allocator.rs\<close>: the allocator of the guest's port I/O, device
  and MMIO address spaces and of its interrupt numbers, and the builder
  \<^verbatim>\<open>AddressRanges\<close> that makes it. The page size of the host (\<^verbatim>\<open>sys_util::pagesize\<close>,
  a \<^verbatim>\<open>sysconf\<close> call) and the outcome of \<^verbatim>\<open>create_gpu_memory_allocator\<close> (a device of
  the host) are arguments.
\<close>

section \<open>The code\<close>

record 'g system_allocator =
  io_address_space :: "address_allocator option"
  device_address_space :: address_allocator
  mmio_address_space :: address_allocator
  gpu_allocator :: "'g option"
  next_irq :: u32

definition sa_new ::
  "u64 \<Rightarrow> ('e + 'g option) \<Rightarrow> u64 option \<Rightarrow> u64 option \<Rightarrow> u64 \<Rightarrow> u64 \<Rightarrow> u64 \<Rightarrow> u64 \<Rightarrow> bool \<Rightarrow> u32
    \<Rightarrow> 'g system_allocator option" where
  "sa_new page_size create_gpu io_base io_size dev_base dev_size mmio_base mmio_size gpu first_irq =
     (case (case (io_base, io_size) of
              (Some b, Some n) \<Rightarrow> map_option Some (aa_new b n (Some 0x400))
            | _ \<Rightarrow> Some None) of
        None \<Rightarrow> None
      | Some io \<Rightarrow>
          (case aa_new dev_base dev_size (Some page_size) of
             None \<Rightarrow> None
           | Some dev \<Rightarrow>
               (case aa_new mmio_base mmio_size (Some page_size) of
                  None \<Rightarrow> None
                | Some mmio \<Rightarrow>
                    (case (if gpu then (case create_gpu of Inr g \<Rightarrow> Some g | Inl _ \<Rightarrow> None)
                           else Some None) of
                       None \<Rightarrow> None
                     | Some g \<Rightarrow>
                         Some \<lparr>io_address_space = io, device_address_space = dev,
                               mmio_address_space = mmio, gpu_allocator = g,
                               next_irq = first_irq\<rparr>))))"

definition allocate_irq :: "'g system_allocator \<Rightarrow> u32 option \<times> 'g system_allocator" where
  "allocate_irq s =
     (case checked_add (next_irq s) 1 of
        Some irq_num \<Rightarrow> (Some (irq_num - 1), s\<lparr>next_irq := irq_num\<rparr>)
      | None \<Rightarrow> (None, s))"

definition allocate_io_addresses :: "u64 \<Rightarrow> 'g system_allocator \<Rightarrow> u64 option \<times> 'g system_allocator" where
  "allocate_io_addresses sz s =
     (case io_address_space s of
        None \<Rightarrow> (None, s)
      | Some a \<Rightarrow> (let (r, a') = aa_allocate sz a in (r, s\<lparr>io_address_space := Some a'\<rparr>)))"

definition allocate_device_addresses :: "u64 \<Rightarrow> 'g system_allocator \<Rightarrow> u64 option \<times> 'g system_allocator" where
  "allocate_device_addresses sz s =
     (let (r, a') = aa_allocate sz (device_address_space s) in (r, s\<lparr>device_address_space := a'\<rparr>))"

definition allocate_mmio_addresses :: "u64 \<Rightarrow> 'g system_allocator \<Rightarrow> u64 option \<times> 'g system_allocator" where
  "allocate_mmio_addresses sz s =
     (let (r, a') = aa_allocate sz (mmio_address_space s) in (r, s\<lparr>mmio_address_space := a'\<rparr>))"

definition gpu_memory_allocator :: "'g system_allocator \<Rightarrow> 'g option" where
  "gpu_memory_allocator s = gpu_allocator s"

record address_ranges =
  ar_io_base :: "u64 option"
  ar_io_size :: "u64 option"
  ar_mmio_base :: "u64 option"
  ar_mmio_size :: "u64 option"
  ar_device_base :: "u64 option"
  ar_device_size :: "u64 option"

definition ar_new :: address_ranges where
  "ar_new = \<lparr>ar_io_base = None, ar_io_size = None, ar_mmio_base = None, ar_mmio_size = None,
             ar_device_base = None, ar_device_size = None\<rparr>"

definition add_io_addresses :: "u64 \<Rightarrow> u64 \<Rightarrow> address_ranges \<Rightarrow> address_ranges" where
  "add_io_addresses base n r = r\<lparr>ar_io_base := Some base, ar_io_size := Some n\<rparr>"

definition add_mmio_addresses :: "u64 \<Rightarrow> u64 \<Rightarrow> address_ranges \<Rightarrow> address_ranges" where
  "add_mmio_addresses base n r = r\<lparr>ar_mmio_base := Some base, ar_mmio_size := Some n\<rparr>"

definition add_device_addresses :: "u64 \<Rightarrow> u64 \<Rightarrow> address_ranges \<Rightarrow> address_ranges" where
  "add_device_addresses base n r = r\<lparr>ar_device_base := Some base, ar_device_size := Some n\<rparr>"

definition create_allocator ::
  "u64 \<Rightarrow> ('e + 'g option) \<Rightarrow> u32 \<Rightarrow> bool \<Rightarrow> address_ranges \<Rightarrow> 'g system_allocator option" where
  "create_allocator page_size create_gpu first_irq gpu_allocation r =
     (case (ar_device_base r, ar_device_size r, ar_mmio_base r, ar_mmio_size r) of
        (Some db, Some ds, Some mb, Some ms) \<Rightarrow>
          sa_new page_size create_gpu (ar_io_base r) (ar_io_size r) db ds mb ms gpu_allocation first_irq
      | _ \<Rightarrow> None)"

section \<open>Interleaved requests\<close>

text \<open>
  The clients of the allocator (the PCI root, the device setup, the architecture code)
  issue their requests in any order. A run records what was granted.
\<close>

datatype sa_request = Irq | Io u64 | Device u64 | Mmio u64

datatype sa_grant = Irq_grant u32 | Io_grant u64 u64 | Device_grant u64 u64 | Mmio_grant u64 u64

definition sa_step :: "sa_request \<Rightarrow> 'g system_allocator \<Rightarrow> sa_grant option \<times> 'g system_allocator" where
  "sa_step req s = (case req of
     Irq \<Rightarrow> map_prod (map_option Irq_grant) id (allocate_irq s)
   | Io n \<Rightarrow> map_prod (map_option (\<lambda>a. Io_grant a n)) id (allocate_io_addresses n s)
   | Device n \<Rightarrow> map_prod (map_option (\<lambda>a. Device_grant a n)) id (allocate_device_addresses n s)
   | Mmio n \<Rightarrow> map_prod (map_option (\<lambda>a. Mmio_grant a n)) id (allocate_mmio_addresses n s))"

primrec sa_run :: "sa_request list \<Rightarrow> 'g system_allocator \<Rightarrow> sa_grant list \<times> 'g system_allocator" where
  "sa_run [] s = ([], s)"
| "sa_run (r # rs) s =
     (let (g, s') = sa_step r s; (gs, s'') = sa_run rs s'
      in (case g of None \<Rightarrow> gs | Some x \<Rightarrow> x # gs, s''))"

definition device_grants :: "sa_grant list \<Rightarrow> (u64 \<times> u64) list" where
  "device_grants gs = List.map_filter (\<lambda>g. case g of Device_grant a n \<Rightarrow> Some (a, n) | _ \<Rightarrow> None) gs"

definition mmio_grants :: "sa_grant list \<Rightarrow> (u64 \<times> u64) list" where
  "mmio_grants gs = List.map_filter (\<lambda>g. case g of Mmio_grant a n \<Rightarrow> Some (a, n) | _ \<Rightarrow> None) gs"

definition irq_grants :: "sa_grant list \<Rightarrow> u32 list" where
  "irq_grants gs = List.map_filter (\<lambda>g. case g of Irq_grant i \<Rightarrow> Some i | _ \<Rightarrow> None) gs"

definition device_sizes :: "sa_request list \<Rightarrow> u64 list" where
  "device_sizes rs = List.map_filter (\<lambda>r. case r of Device n \<Rightarrow> Some n | _ \<Rightarrow> None) rs"

definition mmio_sizes :: "sa_request list \<Rightarrow> u64 list" where
  "mmio_sizes rs = List.map_filter (\<lambda>r. case r of Mmio n \<Rightarrow> Some n | _ \<Rightarrow> None) rs"

lemmas run_projections = device_grants_def mmio_grants_def irq_grants_def device_sizes_def mmio_sizes_def
lemmas sa_operations = sa_step_def allocate_irq_def allocate_io_addresses_def
  allocate_device_addresses_def allocate_mmio_addresses_def

lemma run_projection_Nil [simp]:
  "device_grants [] = []" "mmio_grants [] = []" "irq_grants [] = []"
  "device_sizes [] = []" "mmio_sizes [] = []"
  by (simp_all add: run_projections map_filter_simps)

lemma run_projection_Cons [simp]:
  "device_grants (g # gs) = (case g of Device_grant a n \<Rightarrow> (a, n) # device_grants gs | _ \<Rightarrow> device_grants gs)"
  "mmio_grants (g # gs) = (case g of Mmio_grant a n \<Rightarrow> (a, n) # mmio_grants gs | _ \<Rightarrow> mmio_grants gs)"
  "irq_grants (g # gs) = (case g of Irq_grant i \<Rightarrow> i # irq_grants gs | _ \<Rightarrow> irq_grants gs)"
  "device_sizes (r # rs) = (case r of Device n \<Rightarrow> n # device_sizes rs | _ \<Rightarrow> device_sizes rs)"
  "mmio_sizes (r # rs) = (case r of Mmio n \<Rightarrow> n # mmio_sizes rs | _ \<Rightarrow> mmio_sizes rs)"
  by (simp_all add: run_projections map_filter_simps split: sa_grant.split sa_request.split)

lemma sa_run_device:
  "device_grants (fst (sa_run rs s)) = fst (alloc_seq aa_allocate (device_sizes rs) (device_address_space s))"
proof (induction rs arbitrary: s)
  case (Cons r rs)
  then show ?case
    by (cases r) (auto simp: sa_operations Let_def split_beta split: option.split)
qed simp

lemma sa_run_mmio:
  "mmio_grants (fst (sa_run rs s)) = fst (alloc_seq aa_allocate (mmio_sizes rs) (mmio_address_space s))"
proof (induction rs arbitrary: s)
  case (Cons r rs)
  then show ?case
    by (cases r) (auto simp: sa_operations Let_def split_beta split: option.split)
qed simp

lemma allocate_irq_unat:
  "allocate_irq s = (if unat (next_irq s) < 2 ^ 32 - 1
     then (Some (next_irq s), s\<lparr>next_irq := next_irq s + 1\<rparr>) else (None, s))"
  by (auto simp: allocate_irq_def checked_add_def)

lemma sa_step_irq_frame: "r \<noteq> Irq \<Longrightarrow> next_irq (snd (sa_step r s)) = next_irq s"
  by (cases r) (auto simp: sa_operations Let_def split_beta split: option.split)

lemma sa_step_no_irq: "r \<noteq> Irq \<Longrightarrow> fst (sa_step r s) \<noteq> Some (Irq_grant i)"
  by (cases r) (auto simp: sa_operations Let_def split_beta split: option.split)

lemma sa_run_irqs:
  "irq_grants (fst (sa_run rs s)) =
    map word_of_nat [unat (next_irq s)..<min (unat (next_irq s) + count_list rs Irq) (2 ^ 32 - 1)]"
proof (induction rs arbitrary: s)
  case Nil
  then show ?case by simp
next
  case (Cons r rs)
  show ?case
  proof (cases "r = Irq")
    case irq: True
    show ?thesis
    proof (cases "unat (next_irq s) < 2 ^ 32 - 1")
      case True
      then have "unat (next_irq s + 1) = Suc (unat (next_irq s))"
        by (subst unat_add_no_wrap) simp_all
      moreover have "[unat (next_irq s)..<min (unat (next_irq s) + Suc (count_list rs Irq)) (2 ^ 32 - 1)] =
          unat (next_irq s) # [Suc (unat (next_irq s))..<min (Suc (unat (next_irq s)) + count_list rs Irq) (2 ^ 32 - 1)]"
        using True by (subst upt_conv_Cons) simp_all
      ultimately show ?thesis
        using True irq Cons.IH [of "s\<lparr>next_irq := next_irq s + 1\<rparr>"]
        by (simp add: sa_step_def allocate_irq_unat Let_def split_beta del: upt_Suc min_Suc_Suc)
    next
      case False
      with irq Cons.IH [of s] show ?thesis
        by (simp add: sa_step_def allocate_irq_unat Let_def split_beta)
    qed
  next
    case False
    have "irq_grants (fst (sa_run (r # rs) s)) = irq_grants (fst (sa_run rs (snd (sa_step r s))))"
      using sa_step_no_irq [OF False, of s]
      by (auto simp: Let_def split_beta split: option.split sa_grant.split)
    with False Cons.IH [of "snd (sa_step r s)"] sa_step_irq_frame [OF False, of s]
    show ?thesis by simp
  qed
qed

lemma create_allocator_spaces:
  assumes "create_allocator page create_gpu first_irq gpu r = Some s"
  obtains db ds mb ms where
    "aa_new db ds (Some page) = Some (device_address_space s)"
    "aa_new mb ms (Some page) = Some (mmio_address_space s)"
    "ar_device_base r = Some db" "ar_device_size r = Some ds"
    "ar_mmio_base r = Some mb" "ar_mmio_size r = Some ms" "next_irq s = first_irq"
  using assms
  by (auto simp: create_allocator_def sa_new_def split: option.splits if_splits sum.splits)

text \<open>
  C15. However the requests for interrupts, port I/O, device and MMIO addresses are
  interleaved, the device ranges granted are pairwise disjoint and inside the device
  space the builder was given, the MMIO ranges likewise, and the interrupt numbers are
  the consecutive numbers from the first one on, none of them granted twice.
\<close>

theorem sa_run_isolated:
  assumes "create_allocator page create_gpu first_irq gpu
      (add_device_addresses db ds (add_mmio_addresses mb ms r)) = Some s" "page \<noteq> 1"
  shows "sorted_wrt (\<lambda>(a, n) (b, m). unat a + unat n \<le> unat b) (device_grants (fst (sa_run reqs s)))
    \<and> list_all (\<lambda>(a, n). unat db \<le> unat a \<and> unat a + unat n \<le> unat db + unat ds)
        (device_grants (fst (sa_run reqs s)))
    \<and> sorted_wrt (\<lambda>(a, n) (b, m). unat a + unat n \<le> unat b) (mmio_grants (fst (sa_run reqs s)))
    \<and> list_all (\<lambda>(a, n). unat mb \<le> unat a \<and> unat a + unat n \<le> unat mb + unat ms)
        (mmio_grants (fst (sa_run reqs s)))
    \<and> irq_grants (fst (sa_run reqs s)) = map word_of_nat
        [unat first_irq..<min (unat first_irq + count_list reqs Irq) (2 ^ 32 - 1)]
    \<and> distinct (irq_grants (fst (sa_run reqs s)))"
proof -
  have dev: "aa_new db ds (Some page) = Some (device_address_space s)"
    and mmio: "aa_new mb ms (Some page) = Some (mmio_address_space s)" and irq: "next_irq s = first_irq"
    using assms(1) by (auto elim!: create_allocator_spaces
        simp: add_device_addresses_def add_mmio_addresses_def)
  note safe = aa_alloc_seq_ranges [OF dev] aa_alloc_seq_ranges [OF mmio]
  have "distinct (irq_grants (fst (sa_run reqs s)))"
    by (auto simp: sa_run_irqs distinct_map word_of_nat_eq_iff take_bit_nat_eq_self intro!: inj_onI)
  then show ?thesis
    using assms(2) safe
    by (simp add: sa_run_device sa_run_mmio sa_run_irqs irq)
qed

theorem sa_run_isolated_witness:
  "\<exists>s :: unit system_allocator.
     create_allocator 0x1000 (Inr None :: unit + unit option) 5 False
       (add_device_addresses 0x10000000 0x10000000 (add_mmio_addresses 0x30000000 0x10000 ar_new)) = Some s
     \<and> irq_grants (fst (sa_run [Irq, Device 0x100, Irq] s)) = [5, 6]
     \<and> device_grants (fst (sa_run [Irq, Device 0x100, Irq] s)) = [(0x10000000, 0x100)]"
proof -
  let ?s = "\<lparr>io_address_space = None,
    device_address_space = \<lparr>pool_base = 0x10000000, pool_end = 0x1fffffff, alignment = 0x1000,
       next_addr = 0x10000000\<rparr>,
    mmio_address_space = \<lparr>pool_base = 0x30000000, pool_end = 0x3000ffff, alignment = 0x1000,
       next_addr = 0x30000000\<rparr>,
    gpu_allocator = None, next_irq = 5\<rparr> :: unit system_allocator"
  have new: "create_allocator 0x1000 (Inr None :: unit + unit option) 5 False
      (add_device_addresses 0x10000000 0x10000000 (add_mmio_addresses 0x30000000 0x10000 ar_new)) =
    Some ?s"
    by (simp add: create_allocator_def sa_new_def aa_new_def checked_add_def power_of_two_eval
        add_device_addresses_def add_mmio_addresses_def ar_new_def)
  have "irq_grants (fst (sa_run [Irq, Device 0x100, Irq] ?s)) = [5, 6]"
    using sa_run_isolated [OF new, of "[Irq, Device 0x100, Irq]"] by (simp add: upt_rec)
  moreover have "device_grants (fst (sa_run [Irq, Device 0x100, Irq] ?s)) = [(0x10000000, 0x100)]"
    by (simp add: sa_run_device aa_allocate_def Let_def checked_add_def del: sa_run.simps)
  ultimately show ?thesis using new by blast
qed

end
