(* ===== verification/Bus.thy ===== *)
theory Bus
  imports Prelude
begin

text \<open>
  \<^verbatim>\<open>devices/src/bus.rs\<close>: the routing of guest accesses to devices. The map from
  ranges to devices is the ordered map of the source, a list in ascending order of
  \<open>rbase\<close>, the only field its \<^verbatim>\<open>Ord\<close> looks at. A device is shared
  (\<^verbatim>\<open>Arc<Mutex<BusDevice>>\<close>), also by several ranges, so the map holds handles and a
  store holds the device behind each handle. The trait \<^verbatim>\<open>BusDevice\<close> is the locale
  \<open>bus_device\<close>.
\<close>

section \<open>The code\<close>

datatype bus_error = Overlap

record bus_range =
  rbase :: u64
  rlen :: u64
  full_addr :: bool

definition range_contains :: "bus_range \<Rightarrow> u64 \<Rightarrow> bool" where
  "range_contains r addr \<longleftrightarrow> rbase r \<le> addr \<and> addr < rbase r + rlen r"

definition range_overlaps :: "bus_range \<Rightarrow> u64 \<Rightarrow> u64 \<Rightarrow> bool" where
  "range_overlaps r base len \<longleftrightarrow> rbase r < base + len \<and> base < rbase r + rlen r"

type_synonym 'h bus = "(bus_range \<times> 'h) list"

definition bus_new :: "'h bus" where
  "bus_new = []"

text \<open>
  \<^verbatim>\<open>BTreeMap::insert\<close>: a key that compares equal keeps its place, and itself, and gets
  the new value; the old value is returned.
\<close>

fun btree_insert :: "bus_range \<Rightarrow> 'h \<Rightarrow> 'h bus \<Rightarrow> 'h bus \<times> 'h option" where
  "btree_insert r d [] = ([(r, d)], None)"
| "btree_insert r d ((k, v) # xs) =
     (if rbase r < rbase k then ((r, d) # (k, v) # xs, None)
      else if rbase r = rbase k then ((k, d) # xs, Some v)
      else (let (ys, old) = btree_insert r d xs in ((k, v) # ys, old)))"

definition first_before :: "'h bus \<Rightarrow> u64 \<Rightarrow> (bus_range \<times> 'h) option" where
  "first_before b addr =
     (case filter (\<lambda>(r, _). rbase r \<le> addr) b of [] \<Rightarrow> None | xs \<Rightarrow> Some (last xs))"

definition get_device :: "'h bus \<Rightarrow> u64 \<Rightarrow> (u64 \<times> 'h) option" where
  "get_device b addr =
     (case first_before b addr of
        Some (r, dev) \<Rightarrow>
          let off = addr - rbase r in
          if off < rlen r then (if full_addr r then Some (addr, dev) else Some (off, dev)) else None
      | None \<Rightarrow> None)"

definition bus_insert :: "'h \<Rightarrow> u64 \<Rightarrow> u64 \<Rightarrow> bool \<Rightarrow> 'h bus \<Rightarrow> (bus_error + unit) \<times> 'h bus" where
  "bus_insert dev base len full b =
     (if len = 0 then (Inl Overlap, b)
      else if list_ex (\<lambda>(r, _). range_overlaps r base len) b then (Inl Overlap, b)
      else
        let (b', old) = btree_insert \<lparr>rbase = base, rlen = len, full_addr = full\<rparr> dev b in
        (case old of Some _ \<Rightarrow> (Inl Overlap, b') | None \<Rightarrow> (Inr (), b')))"

text \<open>
  The operations of the devices are parameters: \<open>dread off data d\<close> is
  \<^verbatim>\<open>BusDevice::read\<close> with the buffer it fills, \<open>dwrite off data d\<close> is
  \<^verbatim>\<open>BusDevice::write\<close>.
\<close>

definition bus_read ::
  "(u64 \<Rightarrow> u8 list \<Rightarrow> 'd \<Rightarrow> (u8 list \<times> 'd) outcome) \<Rightarrow> 'h bus \<Rightarrow> u64 \<Rightarrow> u8 list \<Rightarrow> ('h \<Rightarrow> 'd)
    \<Rightarrow> (bool \<times> u8 list \<times> ('h \<Rightarrow> 'd)) outcome" where
  "bus_read dread b addr data st =
     (case get_device b addr of
        Some (off, dev) \<Rightarrow>
          outcome_bind (dread off data (st dev)) (\<lambda>(data', d'). Return (True, data', st(dev := d')))
      | None \<Rightarrow> Return (False, data, st))"

definition bus_write ::
  "(u64 \<Rightarrow> u8 list \<Rightarrow> 'd \<Rightarrow> 'd outcome) \<Rightarrow> 'h bus \<Rightarrow> u64 \<Rightarrow> u8 list \<Rightarrow> ('h \<Rightarrow> 'd)
    \<Rightarrow> (bool \<times> ('h \<Rightarrow> 'd)) outcome" where
  "bus_write dwrite b addr data st =
     (case get_device b addr of
        Some (off, dev) \<Rightarrow>
          outcome_bind (dwrite off data (st dev)) (\<lambda>d'. Return (True, st(dev := d')))
      | None \<Rightarrow> Return (False, st))"

section \<open>Well-formed buses\<close>

text \<open>The addresses of a range, as numbers that do not wrap.\<close>

definition range_span :: "bus_range \<Rightarrow> nat set" where
  "range_span r = {unat (rbase r)..<unat (rbase r) + unat (rlen r)}"

definition range_ok :: "bus_range \<Rightarrow> bool" where
  "range_ok r \<longleftrightarrow> 0 < rlen r \<and> unat (rbase r) + unat (rlen r) < 2 ^ 64"

definition bus_wf :: "'h bus \<Rightarrow> bool" where
  "bus_wf b \<longleftrightarrow> sorted_wrt (\<lambda>(r, _) (q, _). unat (rbase r) + unat (rlen r) \<le> unat (rbase q)) b \<and>
     (\<forall>(r, _) \<in> set b. range_ok r)"

lemma bus_wf_Nil [simp]: "bus_wf []"
  by (simp add: bus_wf_def)

lemma bus_wf_Cons:
  "bus_wf ((r, d) # b) \<longleftrightarrow> range_ok r \<and> bus_wf b \<and>
    (\<forall>(q, _) \<in> set b. unat (rbase r) + unat (rlen r) \<le> unat (rbase q))"
  by (auto simp: bus_wf_def)

lemma range_ok_unat:
  "range_ok r \<Longrightarrow> 0 < unat (rlen r) \<and> unat (rbase r + rlen r) = unat (rbase r) + unat (rlen r)"
  by (auto simp: range_ok_def unat_add_no_wrap word_gt_0 unat_gt_0)

lemma range_overlaps_span:
  assumes "range_ok r" "range_ok q"
  shows "range_overlaps r (rbase q) (rlen q) \<longleftrightarrow> range_span r \<inter> range_span q \<noteq> {}"
proof -
  have "range_overlaps r (rbase q) (rlen q) \<longleftrightarrow>
      unat (rbase r) < unat (rbase q) + unat (rlen q) \<and> unat (rbase q) < unat (rbase r) + unat (rlen r)"
    using range_ok_unat [OF assms(1)] range_ok_unat [OF assms(2)]
    by (simp add: range_overlaps_def word_less_nat_alt)
  also have "\<dots> \<longleftrightarrow> range_span r \<inter> range_span q \<noteq> {}"
    using range_ok_unat [OF assms(1)] range_ok_unat [OF assms(2)]
    by (auto simp: range_span_def)
  finally show ?thesis .
qed

lemma range_contains_span: "range_ok r \<Longrightarrow> range_contains r addr \<longleftrightarrow> unat addr \<in> range_span r"
  using range_ok_unat [of r]
  by (auto simp: range_contains_def range_span_def word_less_nat_alt word_le_nat_alt)

text \<open>Inserting a range that meets no other keeps the order and returns no old value.\<close>

lemma btree_insert_fresh:
  assumes "bus_wf b" "range_ok q" "\<forall>(r, _) \<in> set b. range_span r \<inter> range_span q = {}"
  shows "snd (btree_insert q d b) = None \<and> bus_wf (fst (btree_insert q d b)) \<and>
    set (fst (btree_insert q d b)) = insert (q, d) (set b)"
  using assms
proof (induction q d b rule: btree_insert.induct)
  case (1 r d)
  then show ?case by (simp add: bus_wf_Cons)
next
  case (2 r d k v xs)
  have ok: "range_ok k" "range_ok r" using "2.prems" by (auto simp: bus_wf_Cons)
  have apart: "unat (rbase k) + unat (rlen k) \<le> unat (rbase r) \<or>
      unat (rbase r) + unat (rlen r) \<le> unat (rbase k)"
    using "2.prems"(3) range_ok_unat [OF ok(1)] range_ok_unat [OF ok(2)]
    by (auto simp: range_span_def)
  consider "rbase r < rbase k" | "rbase k < rbase r"
    using apart range_ok_unat [OF ok(1)] range_ok_unat [OF ok(2)]
    by (fastforce simp: word_less_nat_alt)
  then show ?case
  proof cases
    case 1
    then have "unat (rbase r) + unat (rlen r) \<le> unat (rbase k)"
      using apart by (auto simp: word_less_nat_alt)
    with 1 "2.prems" show ?thesis by (fastforce simp: bus_wf_Cons)
  next
    case 2
    then have k: "unat (rbase k) + unat (rlen k) \<le> unat (rbase r)"
      using apart by (auto simp: word_less_nat_alt)
    have "\<not> rbase r < rbase k" "rbase r \<noteq> rbase k" using 2 by auto
    note IH = "2.IH" [OF this]
    have "snd (btree_insert r d xs) = None \<and> bus_wf (fst (btree_insert r d xs)) \<and>
        set (fst (btree_insert r d xs)) = insert (r, d) (set xs)"
      using IH "2.prems" by (auto simp: bus_wf_Cons)
    with 2 k "2.prems" show ?thesis
      by (auto simp: bus_wf_Cons Let_def split_beta)
  qed
qed

lemma first_before_Some:
  assumes "bus_wf b" "(r, d) \<in> set b" "unat addr \<in> range_span r"
  shows "first_before b addr = Some (r, d)"
  using assms
proof (induction b)
  case Nil
  then show ?case by simp
next
  case (Cons x b)
  obtain q e where x: "x = (q, e)" by (cases x)
  have ok: "range_ok q" using Cons.prems x by (simp add: bus_wf_Cons)
  have le: "rbase r \<le> addr" using Cons.prems(3) by (simp add: range_span_def word_le_nat_alt)
  show ?case
  proof (cases "(r, d) \<in> set b")
    case True
    then have "first_before b addr = Some (r, d)" using Cons x by (simp add: bus_wf_Cons)
    moreover have "filter (\<lambda>(r, _). rbase r \<le> addr) b \<noteq> []"
      using True le by (auto simp: filter_empty_conv)
    ultimately show ?thesis using x
      by (auto simp: first_before_def split: list.splits if_splits)
  next
    case False
    then have rd: "q = r" "e = d" using Cons.prems x by auto
    have "\<not> rbase k \<le> addr" if "(k, v) \<in> set b" for k v
      using Cons.prems(1,3) that x rd
      by (fastforce simp: bus_wf_Cons range_span_def word_le_nat_alt)
    then have "filter (\<lambda>(r, _). rbase r \<le> addr) b = []" by (auto simp: filter_empty_conv)
    then show ?thesis using x rd le by (simp add: first_before_def)
  qed
qed

lemma first_before_mem: "first_before b addr = Some (r, d) \<Longrightarrow> (r, d) \<in> set b \<and> rbase r \<le> addr"
proof -
  assume "first_before b addr = Some (r, d)"
  then have "filter (\<lambda>(r, _). rbase r \<le> addr) b \<noteq> []" "(r, d) = last (filter (\<lambda>(r, _). rbase r \<le> addr) b)"
    by (auto simp: first_before_def split: list.splits)
  then have "(r, d) \<in> set (filter (\<lambda>(r, _). rbase r \<le> addr) b)" using last_in_set by metis
  then show ?thesis by auto
qed

lemma bus_wf_range_ok: "bus_wf b \<Longrightarrow> (r, d) \<in> set b \<Longrightarrow> range_ok r"
  by (auto simp: bus_wf_def)

lemma get_device_iff:
  assumes "bus_wf b"
  shows "get_device b addr = Some (off, d) \<longleftrightarrow>
    (\<exists>r. (r, d) \<in> set b \<and> range_contains r addr \<and> off = (if full_addr r then addr else addr - rbase r))"
    (is "?L \<longleftrightarrow> ?R")
proof
  assume ?L
  then obtain r where r: "first_before b addr = Some (r, d)" "addr - rbase r < rlen r"
    "off = (if full_addr r then addr else addr - rbase r)"
    by (auto simp: get_device_def Let_def split: option.splits if_splits)
  with first_before_mem [OF r(1)] have mem: "(r, d) \<in> set b" "rbase r \<le> addr" by simp_all
  then have "unat addr \<in> range_span r" using r(2)
    by (auto simp: range_span_def word_less_nat_alt word_le_nat_alt unat_sub)
  with mem r show ?R using range_contains_span [OF bus_wf_range_ok [OF assms mem(1)]] by blast
next
  assume ?R
  then obtain r where r: "(r, d) \<in> set b" "range_contains r addr"
    "off = (if full_addr r then addr else addr - rbase r)" by blast
  have span: "unat addr \<in> range_span r"
    using r range_contains_span [OF bus_wf_range_ok [OF assms r(1)]] by simp
  then have "addr - rbase r < rlen r"
    by (auto simp: range_span_def word_less_nat_alt unat_sub word_le_nat_alt)
  then show ?L using first_before_Some [OF assms r(1) span] r(3) by (simp add: get_device_def Let_def)
qed

lemma get_device_None_iff:
  "bus_wf b \<Longrightarrow> get_device b addr = None \<longleftrightarrow> (\<forall>(r, _) \<in> set b. \<not> range_contains r addr)"
  using get_device_iff [of b addr] by (cases "get_device b addr") force+

lemma get_device_cong:
  assumes "bus_wf b" "bus_wf b'"
    and "\<And>r d. range_contains r addr \<Longrightarrow> (r, d) \<in> set b \<longleftrightarrow> (r, d) \<in> set b'"
  shows "get_device b addr = get_device b' addr"
proof (cases "get_device b addr")
  case None
  then show ?thesis
    using assms get_device_None_iff [OF assms(1), of addr] get_device_None_iff [OF assms(2), of addr]
    by fastforce
next
  case (Some x)
  obtain off d where x: "x = (off, d)" by (cases x)
  have "get_device b' addr = Some (off, d)"
    using Some x assms(3) by (auto simp: get_device_iff [OF assms(1)] get_device_iff [OF assms(2)])
  with Some x show ?thesis by simp
qed

lemma bus_insert_overlap_iff:
  assumes "bus_wf b" "0 < len" "unat base + unat len < 2 ^ 64"
  shows "list_ex (\<lambda>(r, _). range_overlaps r base len) b \<longleftrightarrow>
    (\<exists>a. unat base \<le> unat a \<and> unat a < unat base + unat len \<and> get_device b a \<noteq> None)"
proof -
  define q where "q = \<lparr>rbase = base, rlen = len, full_addr = False\<rparr>"
  have q: "range_ok q" "rbase q = base" "rlen q = len" using assms by (simp_all add: q_def range_ok_def)
  have meet: "(\<exists>a. unat base \<le> unat a \<and> unat a < unat base + unat len \<and> range_contains r a) \<longleftrightarrow>
      range_overlaps r base len" if "(r, d) \<in> set b" for r d
  proof -
    have r: "range_ok r" using assms(1) that by (rule bus_wf_range_ok)
    have "range_overlaps r base len \<longleftrightarrow> range_span r \<inter> range_span q \<noteq> {}"
      using range_overlaps_span [OF r q(1)] q by simp
    also have "\<dots> \<longleftrightarrow> (\<exists>a :: u64. unat a \<in> range_span r \<and> unat a \<in> range_span q)"
    proof -
      have "\<exists>a :: u64. unat a = n" if "n \<in> range_span q" for n
        using that assms(3) q by (intro exI [of _ "word_of_nat n"]) (auto simp: range_span_def unat_of_nat)
      then show ?thesis by (metis disjoint_iff)
    qed
    also have "\<dots> \<longleftrightarrow> (\<exists>a. unat base \<le> unat a \<and> unat a < unat base + unat len \<and> range_contains r a)"
      using q by (auto simp: range_contains_span [OF r] range_span_def)
    finally show ?thesis by simp
  qed
  have "list_ex (\<lambda>(r, _). range_overlaps r base len) b \<longleftrightarrow>
      (\<exists>r d. (r, d) \<in> set b \<and> range_overlaps r base len)"
    by (auto simp: list_ex_iff)
  also have "\<dots> \<longleftrightarrow> (\<exists>a r d. unat base \<le> unat a \<and> unat a < unat base + unat len \<and>
      (r, d) \<in> set b \<and> range_contains r a)"
    using meet by blast
  also have "\<dots> \<longleftrightarrow> (\<exists>a. unat base \<le> unat a \<and> unat a < unat base + unat len \<and> get_device b a \<noteq> None)"
    unfolding get_device_None_iff [OF assms(1)] by blast
  finally show ?thesis .
qed

lemma bus_insert_effect:
  assumes "bus_wf b" "unat base + unat len < 2 ^ 64"
  shows "case bus_insert dev base len full b of (res, b') \<Rightarrow>
    bus_wf b' \<and>
    (if len = 0 \<or>
        (\<exists>a. unat base \<le> unat a \<and> unat a < unat base + unat len \<and> get_device b a \<noteq> None)
     then res = Inl Overlap \<and> b' = b
     else res = Inr () \<and>
       (\<forall>a. get_device b' a =
         (if unat base \<le> unat a \<and> unat a < unat base + unat len
          then Some (if full then a else a - base, dev) else get_device b a)))"
proof (cases "len = 0 \<or> list_ex (\<lambda>(r, _). range_overlaps r base len) b")
  case True
  then show ?thesis
    using assms bus_insert_overlap_iff [OF assms(1) _ assms(2)]
    by (auto simp: bus_insert_def word_gt_0)
next
  case False
  let ?q = "\<lparr>rbase = base, rlen = len, full_addr = full\<rparr>"
  let ?b' = "fst (btree_insert ?q dev b)"
  have q: "range_ok ?q" using False assms by (simp add: range_ok_def word_gt_0)
  have "range_span r \<inter> range_span ?q = {}" if "(r, d) \<in> set b" for r d
    using range_overlaps_span [OF bus_wf_range_ok [OF assms(1) that] q] False that
    by (auto simp: list_ex_iff)
  then have fresh: "snd (btree_insert ?q dev b) = None" "bus_wf ?b'" "set ?b' = insert (?q, dev) (set b)"
    using btree_insert_fresh [OF assms(1) q, of dev] by auto
  have ins: "bus_insert dev base len full b = (Inr (), ?b')"
    using False fresh by (simp add: bus_insert_def Let_def split_beta)
  have inside: "range_contains ?q a \<longleftrightarrow> unat base \<le> unat a \<and> unat a < unat base + unat len" for a
    using range_contains_span [OF q, of a] by (simp add: range_span_def)
  have "get_device ?b' a = Some (if full then a else a - base, dev)" if "range_contains ?q a" for a
    unfolding get_device_iff [OF fresh(2)] using that fresh(3) by (intro exI [of _ ?q]) auto
  moreover have "get_device ?b' a = get_device b a" if "\<not> range_contains ?q a" for a
    using fresh(2) assms(1) by (rule get_device_cong) (use fresh(3) that in auto)
  ultimately show ?thesis
    using ins fresh(2) False bus_insert_overlap_iff [OF assms(1) _ assms(2)] inside
    by (auto simp: word_gt_0)
qed

lemma bus_insert_accepted:
  assumes "bus_wf b" "unat base + unat len < 2 ^ 64" "bus_insert dev base len full b = (Inr (), b')"
  shows "bus_wf b'"
    "get_device b' a = (if unat base \<le> unat a \<and> unat a < unat base + unat len
       then Some (if full then a else a - base, dev) else get_device b a)"
    "get_device b a \<noteq> None \<Longrightarrow> get_device b' a = get_device b a"
  using bus_insert_effect [OF assms(1, 2), where dev = dev and full = full] assms(3) by (auto split: if_splits)

text \<open>
  C16. The bus is a partial map from addresses to devices, and \<^verbatim>\<open>Bus::insert\<close> is its
  extension. Over a well-formed bus and a range below the top of the address space, an
  insertion fails exactly when the range is empty or one of its addresses is already
  routed to a device, and then changes nothing. Otherwise it succeeds, the bus stays
  well-formed, every address of the range is routed to the new device with the offset
  the range asks for, and every other address is routed as before.
\<close>

theorem bus_insert_routes:
  assumes "bus_wf b" "unat base + unat len < 2 ^ 64"
  shows "case bus_insert dev base len full b of (res, b') \<Rightarrow>
    bus_wf b' \<and>
    (if len = 0 \<or>
        (\<exists>a. unat base \<le> unat a \<and> unat a < unat base + unat len \<and> get_device b a \<noteq> None)
     then res = Inl Overlap \<and> b' = b
     else res = Inr () \<and>
       (\<forall>a. get_device b' a =
         (if unat base \<le> unat a \<and> unat a < unat base + unat len
          then Some (if full then a else a - base, dev) else get_device b a)))"
  using assms by (rule bus_insert_effect)

theorem bus_insert_routes_witness:
  "bus_wf [(\<lparr>rbase = 0x10, rlen = 0x10, full_addr = False\<rparr>, 0 :: nat)] \<and>
   fst (bus_insert 1 0x0f 0x10 False [(\<lparr>rbase = 0x10, rlen = 0x10, full_addr = False\<rparr>, 0 :: nat)]) =
     Inl Overlap \<and>
   get_device (snd (bus_insert 1 0x20 0x05 False
     [(\<lparr>rbase = 0x10, rlen = 0x10, full_addr = False\<rparr>, 0 :: nat)])) 0x21 = Some (1, 1)"
proof -
  let ?b = "[(\<lparr>rbase = 0x10, rlen = 0x10, full_addr = False\<rparr>, 0 :: nat)]"
  have wf: "bus_wf ?b" by (simp add: bus_wf_def range_ok_def)
  have "fst (bus_insert 1 0x0f 0x10 False ?b) = Inl Overlap"
    by (simp add: bus_insert_def range_overlaps_def)
  moreover have "get_device (snd (bus_insert 1 0x20 0x05 False ?b)) 0x21 = Some (1, 1)"
  proof -
    have "\<not> (\<exists>a. unat (0x20 :: u64) \<le> unat a \<and> unat a < unat (0x20 :: u64) + unat (5 :: u64) \<and>
        get_device ?b a \<noteq> None)"
      by (auto simp: get_device_None_iff [OF wf] range_contains_def word_less_nat_alt)
    then show ?thesis
      using bus_insert_routes [OF wf, where base = "0x20" and len = 5 and dev = 1 and full = False] by (auto simp: split_beta)
  qed
  ultimately show ?thesis using wf by simp
qed

text \<open>
  The hypothesis on the top of the space is needed: \<^verbatim>\<open>base + len\<close> wraps to zero for
  a range that ends at the last address, no overlap with it is seen, and a second device
  is accepted on addresses that are already routed.
\<close>

theorem bus_insert_top_overlap:
  "fst (bus_insert (1 :: nat) 0xfffffffffffff800 0x800 False
     (snd (bus_insert 0 0xfffffffffffff000 0x1000 False bus_new))) = Inr () \<and>
   get_device (snd (bus_insert (0 :: nat) 0xfffffffffffff000 0x1000 False bus_new)) 0xfffffffffffff900
     = Some (0x900, 0)"
  by (simp add: bus_insert_def bus_new_def range_overlaps_def get_device_def first_before_def Let_def)

section \<open>Devices on a bus\<close>

text \<open>
  The trait \<^verbatim>\<open>BusDevice\<close> as a contract: \<open>accepts d off n\<close> says at which offsets and
  with how many bytes the device may be accessed; there, a device that satisfies its invariant neither panics
  nor changes the length of the buffer, and it keeps the invariant.
\<close>

definition devices_ready ::
  "('d \<Rightarrow> bool) \<Rightarrow> ('d \<Rightarrow> u64 \<Rightarrow> nat \<Rightarrow> bool) \<Rightarrow> nat \<Rightarrow> 'h bus \<Rightarrow> ('h \<Rightarrow> 'd) \<Rightarrow> bool" where
  "devices_ready dinv accepts w b st \<longleftrightarrow> (\<forall>(r, h) \<in> set b. dinv (st h) \<and>
     (\<forall>addr n. range_contains r addr \<longrightarrow> n \<le> w \<longrightarrow>
       accepts (st h) (if full_addr r then addr else addr - rbase r) n))"

text \<open>A sequence of accesses by the guest, each with the buffer it carries.\<close>

datatype bus_access = Read_access u64 "u8 list" | Write_access u64 "u8 list"

primrec access_width :: "bus_access \<Rightarrow> nat" where
  "access_width (Read_access addr data) = length data"
| "access_width (Write_access addr data) = length data"

primrec bus_run ::
  "(u64 \<Rightarrow> u8 list \<Rightarrow> 'd \<Rightarrow> (u8 list \<times> 'd) outcome) \<Rightarrow> (u64 \<Rightarrow> u8 list \<Rightarrow> 'd \<Rightarrow> 'd outcome) \<Rightarrow> 'h bus
    \<Rightarrow> bus_access list \<Rightarrow> ('h \<Rightarrow> 'd) \<Rightarrow> ('h \<Rightarrow> 'd) outcome" where
  "bus_run dread dwrite b [] st = Return st"
| "bus_run dread dwrite b (x # xs) st =
     outcome_bind
       (case x of
          Read_access addr data \<Rightarrow>
            outcome_bind (bus_read dread b addr data st) (\<lambda>(_, _, st'). Return st')
        | Write_access addr data \<Rightarrow>
            outcome_bind (bus_write dwrite b addr data st) (\<lambda>(_, st'). Return st'))
       (bus_run dread dwrite b xs)"

locale bus_device =
  fixes dread :: "u64 \<Rightarrow> u8 list \<Rightarrow> 'd \<Rightarrow> (u8 list \<times> 'd) outcome"
    and dwrite :: "u64 \<Rightarrow> u8 list \<Rightarrow> 'd \<Rightarrow> 'd outcome"
    and dinv :: "'d \<Rightarrow> bool"
    and accepts :: "'d \<Rightarrow> u64 \<Rightarrow> nat \<Rightarrow> bool"
  assumes read_total: "dinv d \<Longrightarrow> accepts d off (length data) \<Longrightarrow>
      \<exists>data' d'. dread off data d = Return (data', d') \<and> length data' = length data \<and>
        dinv d' \<and> accepts d' = accepts d"
    and write_total: "dinv d \<Longrightarrow> accepts d off (length data) \<Longrightarrow>
      \<exists>d'. dwrite off data d = Return d' \<and> dinv d' \<and> accepts d' = accepts d"
begin

lemma ready_at:
  assumes "bus_wf b" "devices_ready dinv accepts w b st" "get_device b addr = Some (off, h)"
  shows "dinv (st h)" "n \<le> w \<Longrightarrow> accepts (st h) off n"
  using assms by (auto simp: devices_ready_def get_device_iff)

lemma ready_upd:
  "devices_ready dinv accepts w b st \<Longrightarrow> dinv d' \<Longrightarrow> accepts d' = accepts (st h) \<Longrightarrow>
    devices_ready dinv accepts w b (st(h := d'))"
  by (auto simp: devices_ready_def)

lemma bus_read_total:
  assumes "bus_wf b" "devices_ready dinv accepts w b st" "length data \<le> w"
  shows "\<exists>data' st'. bus_read dread b addr data st = Return (get_device b addr \<noteq> None, data', st') \<and>
    length data' = length data \<and> devices_ready dinv accepts w b st'"
proof (cases "get_device b addr")
  case None
  then show ?thesis using assms by (simp add: bus_read_def)
next
  case (Some x)
  obtain off h where x: "get_device b addr = Some (off, h)" using Some by (cases x) auto
  obtain data' d' where "dread off data (st h) = Return (data', d')" "length data' = length data"
    "dinv d'" "accepts d' = accepts (st h)"
    using read_total [OF ready_at(1) [OF assms(1, 2) x] ready_at(2) [OF assms(1, 2) x assms(3)]] by blast
  then show ?thesis using x ready_upd [OF assms(2), of d' h] by (simp add: bus_read_def)
qed

lemma bus_write_total:
  assumes "bus_wf b" "devices_ready dinv accepts w b st" "length data \<le> w"
  shows "\<exists>st'. bus_write dwrite b addr data st = Return (get_device b addr \<noteq> None, st') \<and>
    devices_ready dinv accepts w b st'"
proof (cases "get_device b addr")
  case None
  then show ?thesis using assms by (simp add: bus_write_def)
next
  case (Some x)
  obtain off h where x: "get_device b addr = Some (off, h)" using Some by (cases x) auto
  obtain d' where "dwrite off data (st h) = Return d'" "dinv d'" "accepts d' = accepts (st h)"
    using write_total [OF ready_at(1) [OF assms(1, 2) x] ready_at(2) [OF assms(1, 2) x assms(3)]] by blast
  then show ?thesis using x ready_upd [OF assms(2), of d' h] by (simp add: bus_write_def)
qed

lemma bus_run_total:
  assumes "bus_wf b"
  shows "devices_ready dinv accepts w b st \<Longrightarrow> \<forall>x \<in> set xs. access_width x \<le> w \<Longrightarrow>
    \<exists>st'. bus_run dread dwrite b xs st = Return st' \<and> devices_ready dinv accepts w b st'"
proof (induction xs arbitrary: st)
  case Nil
  then show ?case by simp
next
  case (Cons x xs)
  show ?case
  proof (cases x)
    case (Read_access addr data)
    with bus_read_total [OF assms Cons.prems(1), of data addr] Cons.prems(2) Cons.IH show ?thesis by fastforce
  next
    case (Write_access addr data)
    with bus_write_total [OF assms Cons.prems(1), of data addr] Cons.prems(2) Cons.IH show ?thesis by fastforce
  qed
qed

end

end
