(* ===== verification/Serial.thy ===== *)
theory Serial
  imports Bus
begin

text \<open>
  \<^verbatim>\<open>devices/src/serial.rs\<close>: the 16550-style serial port. The interrupt event and the
  output stream are objects of the host: \<open>evt_write\<close> stands for
  \<^verbatim>\<open>EventFd::write(1)\<close> and \<open>out_write\<close> for \<^verbatim>\<open>write_all\<close> of one byte followed by
  \<^verbatim>\<open>flush\<close>; both may fail, and the code returns early when they do.
\<close>

section \<open>The code\<close>

abbreviation (input) "LOOP_SIZE \<equiv> 0x40 :: nat"
abbreviation (input) "IER_RECV_BIT \<equiv> 0x1 :: u8"
abbreviation (input) "IER_THR_BIT \<equiv> 0x2 :: u8"
abbreviation (input) "IER_FIFO_BITS \<equiv> 0x0f :: u8"
abbreviation (input) "IIR_FIFO_BITS \<equiv> 0xc0 :: u8"
abbreviation (input) "IIR_NONE_BIT \<equiv> 0x1 :: u8"
abbreviation (input) "IIR_THR_BIT \<equiv> 0x2 :: u8"
abbreviation (input) "IIR_RECV_BIT \<equiv> 0x4 :: u8"
abbreviation (input) "LSR_DATA_BIT \<equiv> 0x1 :: u8"
abbreviation (input) "MCR_LOOP_BIT \<equiv> 0x10 :: u8"

record ('ev, 'o) serial =
  interrupt_enable :: u8
  interrupt_identification :: u8
  interrupt_evt :: 'ev
  line_control :: u8
  line_status :: u8
  modem_control :: u8
  modem_status :: u8
  scratch :: u8
  baud_divisor :: u16
  in_buffer :: "u8 list"
  out :: "'o option"

definition serial_new :: "'ev \<Rightarrow> 'o option \<Rightarrow> ('ev, 'o) serial" where
  "serial_new evt o' =
     \<lparr>interrupt_enable = 0, interrupt_identification = IIR_NONE_BIT, interrupt_evt = evt,
      line_control = 0x3, line_status = 0x20 OR 0x40, modem_control = 0x8,
      modem_status = 0x20 OR 0x10 OR 0x80, scratch = 0, baud_divisor = 12,
      in_buffer = [], out = o'\<rparr>"

definition serial_new_out :: "'ev \<Rightarrow> 'o \<Rightarrow> ('ev, 'o) serial" where
  "serial_new_out evt o' = serial_new evt (Some o')"

definition serial_new_sink :: "'ev \<Rightarrow> ('ev, 'o) serial" where
  "serial_new_sink evt = serial_new evt None"

definition is_dlab_set :: "('ev, 'o) serial \<Rightarrow> bool" where
  "is_dlab_set s \<longleftrightarrow> line_control s AND 0x80 \<noteq> 0"

definition is_recv_intr_enabled :: "('ev, 'o) serial \<Rightarrow> bool" where
  "is_recv_intr_enabled s \<longleftrightarrow> interrupt_enable s AND IER_RECV_BIT \<noteq> 0"

definition is_thr_intr_enabled :: "('ev, 'o) serial \<Rightarrow> bool" where
  "is_thr_intr_enabled s \<longleftrightarrow> interrupt_enable s AND IER_THR_BIT \<noteq> 0"

definition is_loop :: "('ev, 'o) serial \<Rightarrow> bool" where
  "is_loop s \<longleftrightarrow> modem_control s AND MCR_LOOP_BIT \<noteq> 0"

definition add_intr_bit :: "u8 \<Rightarrow> ('ev, 'o) serial \<Rightarrow> ('ev, 'o) serial" where
  "add_intr_bit b s =
     s\<lparr>interrupt_identification := (interrupt_identification s AND NOT IIR_NONE_BIT) OR b\<rparr>"

definition del_intr_bit :: "u8 \<Rightarrow> ('ev, 'o) serial \<Rightarrow> ('ev, 'o) serial" where
  "del_intr_bit b s =
     (let i = interrupt_identification s AND NOT b
      in s\<lparr>interrupt_identification := (if i = 0 then IIR_NONE_BIT else i)\<rparr>)"

definition iir_reset :: "('ev, 'o) serial \<Rightarrow> ('ev, 'o) serial" where
  "iir_reset s = s\<lparr>interrupt_identification := IIR_NONE_BIT\<rparr>"

definition trigger_interrupt ::
  "('ev \<Rightarrow> ('e + unit) \<times> 'ev) \<Rightarrow> ('ev, 'o) serial \<Rightarrow> ('e + unit) \<times> ('ev, 'o) serial" where
  "trigger_interrupt evt_write s =
     (let (r, ev) = evt_write (interrupt_evt s) in (r, s\<lparr>interrupt_evt := ev\<rparr>))"

definition thr_empty ::
  "('ev \<Rightarrow> ('e + unit) \<times> 'ev) \<Rightarrow> ('ev, 'o) serial \<Rightarrow> ('e + unit) \<times> ('ev, 'o) serial" where
  "thr_empty evt_write s =
     (if is_thr_intr_enabled s then trigger_interrupt evt_write (add_intr_bit IIR_THR_BIT s)
      else (Inr (), s))"

definition recv_data ::
  "('ev \<Rightarrow> ('e + unit) \<times> 'ev) \<Rightarrow> ('ev, 'o) serial \<Rightarrow> ('e + unit) \<times> ('ev, 'o) serial" where
  "recv_data evt_write s =
     (let (r, s') = (if is_recv_intr_enabled s
                     then trigger_interrupt evt_write (add_intr_bit IIR_RECV_BIT s)
                     else (Inr (), s))
      in case r of
           Inl e \<Rightarrow> (Inl e, s')
         | Inr _ \<Rightarrow> (Inr (), s'\<lparr>line_status := line_status s' OR LSR_DATA_BIT\<rparr>))"

definition queue_input_bytes ::
  "('ev \<Rightarrow> ('e + unit) \<times> 'ev) \<Rightarrow> u8 list \<Rightarrow> ('ev, 'o) serial \<Rightarrow> ('e + unit) \<times> ('ev, 'o) serial" where
  "queue_input_bytes evt_write c s =
     (if \<not> is_loop s then recv_data evt_write (s\<lparr>in_buffer := in_buffer s @ c\<rparr>) else (Inr (), s))"

definition handle_write ::
  "('ev \<Rightarrow> ('e + unit) \<times> 'ev) \<Rightarrow> (u8 \<Rightarrow> 'o \<Rightarrow> ('e + unit) \<times> 'o) \<Rightarrow> u8 \<Rightarrow> u8 \<Rightarrow> ('ev, 'o) serial
    \<Rightarrow> ('e + unit) \<times> ('ev, 'o) serial" where
  "handle_write evt_write out_write off v s =
     (if off = 0 \<and> is_dlab_set s then
        (Inr (), s\<lparr>baud_divisor := (baud_divisor s AND 0xff00) OR ucast v\<rparr>)
      else if off = 1 \<and> is_dlab_set s then
        (Inr (), s\<lparr>baud_divisor := (baud_divisor s AND 0x00ff) OR push_bit 8 (ucast v)\<rparr>)
      else if off = 0 then
        (if is_loop s then
           (if length (in_buffer s) < LOOP_SIZE
            then recv_data evt_write (s\<lparr>in_buffer := in_buffer s @ [v]\<rparr>)
            else (Inr (), s))
         else
           (case out s of
              None \<Rightarrow> thr_empty evt_write s
            | Some o' \<Rightarrow>
                (let (r, o'') = out_write v o'; s' = s\<lparr>out := Some o''\<rparr>
                 in case r of Inl e \<Rightarrow> (Inl e, s') | Inr _ \<Rightarrow> thr_empty evt_write s')))
      else if off = 1 then (Inr (), s\<lparr>interrupt_enable := v AND IER_FIFO_BITS\<rparr>)
      else if off = 3 then (Inr (), s\<lparr>line_control := v\<rparr>)
      else if off = 4 then (Inr (), s\<lparr>modem_control := v\<rparr>)
      else if off = 7 then (Inr (), s\<lparr>scratch := v\<rparr>)
      else (Inr (), s))"

text \<open>An error of \<^verbatim>\<open>handle_write\<close> is logged and dropped.\<close>

definition serial_write ::
  "('ev \<Rightarrow> ('e + unit) \<times> 'ev) \<Rightarrow> (u8 \<Rightarrow> 'o \<Rightarrow> ('e + unit) \<times> 'o) \<Rightarrow> u64 \<Rightarrow> u8 list \<Rightarrow> ('ev, 'o) serial
    \<Rightarrow> ('ev, 'o) serial outcome" where
  "serial_write evt_write out_write off data s =
     (case data of
        [v] \<Rightarrow> Return (snd (handle_write evt_write out_write (ucast off) v s))
      | _ \<Rightarrow> Return s)"

definition read_data :: "('ev, 'o) serial \<Rightarrow> u8 \<times> ('ev, 'o) serial" where
  "read_data s =
     (let s1 = del_intr_bit IIR_RECV_BIT s;
          s2 = (if length (in_buffer s1) \<le> 1
                then s1\<lparr>line_status := line_status s1 AND NOT LSR_DATA_BIT\<rparr> else s1)
      in case in_buffer s2 of [] \<Rightarrow> (0, s2) | v # vs \<Rightarrow> (v, s2\<lparr>in_buffer := vs\<rparr>))"

definition read_register :: "u8 \<Rightarrow> ('ev, 'o) serial \<Rightarrow> u8 \<times> ('ev, 'o) serial" where
  "read_register off s =
     (if off = 0 \<and> is_dlab_set s then (ucast (baud_divisor s), s)
      else if off = 1 \<and> is_dlab_set s then (ucast (drop_bit 8 (baud_divisor s)), s)
      else if off = 0 then read_data s
      else if off = 1 then (interrupt_enable s, s)
      else if off = 2 then (interrupt_identification s OR IIR_FIFO_BITS, iir_reset s)
      else if off = 3 then (line_control s, s)
      else if off = 4 then (modem_control s, s)
      else if off = 5 then (line_status s, s)
      else if off = 6 then (modem_status s, s)
      else if off = 7 then (scratch s, s)
      else (0, s))"

definition serial_read ::
  "u64 \<Rightarrow> u8 list \<Rightarrow> ('ev, 'o) serial \<Rightarrow> (u8 list \<times> ('ev, 'o) serial) outcome" where
  "serial_read off data s =
     (case data of
        [_] \<Rightarrow> (let (v, s') = read_register (ucast off) s in Return ([v], s'))
      | _ \<Rightarrow> Return (data, s))"

section \<open>Input is delivered in order\<close>

lemmas serial_bits = is_dlab_set_def is_recv_intr_enabled_def is_thr_intr_enabled_def is_loop_def
lemmas serial_irq_ops = add_intr_bit_def del_intr_bit_def iir_reset_def trigger_interrupt_def
  thr_empty_def recv_data_def

lemma del_intr_bit_frame [simp]:
  "in_buffer (del_intr_bit b s) = in_buffer s" "line_control (del_intr_bit b s) = line_control s"
  "modem_control (del_intr_bit b s) = modem_control s" "interrupt_enable (del_intr_bit b s) = interrupt_enable s"
  "line_status (del_intr_bit b s) = line_status s" "out (del_intr_bit b s) = out s"
  "baud_divisor (del_intr_bit b s) = baud_divisor s"
  by (simp_all add: del_intr_bit_def Let_def)

lemma read_data_buffer:
  "in_buffer (snd (read_data s)) = tl (in_buffer s)"
  "fst (read_data s) = (case in_buffer s of [] \<Rightarrow> 0 | v # _ \<Rightarrow> v)"
  "line_control (snd (read_data s)) = line_control s"
  "modem_control (snd (read_data s)) = modem_control s"
  "interrupt_enable (snd (read_data s)) = interrupt_enable s"
  by (auto simp: read_data_def Let_def split: list.splits)

text \<open>The bytes the guest gets from \<open>n\<close> one-byte reads of the data register.\<close>

primrec read_bytes :: "nat \<Rightarrow> ('ev, 'o) serial \<Rightarrow> u8 list \<times> ('ev, 'o) serial" where
  "read_bytes 0 s = ([], s)"
| "read_bytes (Suc n) s =
     (case serial_read 0 [0] s of
        Return (data, s') \<Rightarrow> (let (vs, s'') = read_bytes n s' in (data @ vs, s''))
      | Panic \<Rightarrow> ([], s))"

lemma serial_read_data:
  "\<not> is_dlab_set s \<Longrightarrow> serial_read 0 [x] s = Return ([fst (read_data s)], snd (read_data s))"
  by (simp add: serial_read_def read_register_def split_beta Let_def)

lemma read_bytes_buffer:
  "\<not> is_dlab_set s \<Longrightarrow> n \<le> length (in_buffer s) \<Longrightarrow>
    fst (read_bytes n s) = take n (in_buffer s) \<and>
    in_buffer (snd (read_bytes n s)) = drop n (in_buffer s)"
proof (induction n arbitrary: s)
  case 0
  then show ?case by simp
next
  case (Suc n)
  then obtain v vs where buf: "in_buffer s = v # vs" by (cases "in_buffer s") auto
  have "\<not> is_dlab_set (snd (read_data s))"
    using Suc.prems by (simp add: is_dlab_set_def read_data_buffer)
  with Suc buf show ?case
    by (simp add: serial_read_data read_data_buffer split_beta Let_def)
qed

lemma queue_input_buffer:
  "\<not> is_loop s \<Longrightarrow> in_buffer (snd (queue_input_bytes ew c s)) = in_buffer s @ c"
  "line_control (snd (queue_input_bytes ew c s)) = line_control s"
  by (auto simp: queue_input_bytes_def serial_irq_ops Let_def split_beta split: sum.splits)

text \<open>
  C17. What the host queues for an idle port outside loop-back mode is what the guest
  reads: the reads of the data register return the queued bytes, all of them, in order,
  whether or not signalling the interrupt fails, and leave the buffer empty.
\<close>

theorem serial_input_roundtrip:
  assumes "\<not> is_loop s" "\<not> is_dlab_set s" "in_buffer s = []"
  shows "fst (read_bytes (length c) (snd (queue_input_bytes evt_write c s))) = c \<and>
    in_buffer (snd (read_bytes (length c) (snd (queue_input_bytes evt_write c s)))) = []"
proof -
  let ?s' = "snd (queue_input_bytes evt_write c s)"
  have "in_buffer ?s' = c" using assms by (simp add: queue_input_buffer)
  moreover have "\<not> is_dlab_set ?s'" using assms(2) by (simp add: is_dlab_set_def queue_input_buffer)
  ultimately show ?thesis using read_bytes_buffer [of ?s' "length c"] by simp
qed

theorem serial_input_roundtrip_witness:
  "fst (read_bytes 3 (snd (queue_input_bytes (\<lambda>ev :: nat. (Inr () :: unit + unit, Suc ev)) [97, 98, 99]
     (serial_new_sink 0 :: (nat, unit) serial)))) = [97, 98, 99]"
proof -
  let ?s = "serial_new_sink 0 :: (nat, unit) serial"
  have "\<not> is_loop ?s" "\<not> is_dlab_set ?s" "in_buffer ?s = []"
    by (simp_all add: serial_new_sink_def serial_new_def serial_bits)
  from serial_input_roundtrip [OF this, where c = "[97, 98, 99]"
      and evt_write = "\<lambda>ev :: nat. (Inr () :: unit + unit, Suc ev)"] show ?thesis
    by (simp add: numeral_3_eq_3 del: read_bytes.simps)
qed

section \<open>The registers in every reachable state\<close>

definition serial_inv :: "('ev, 'o) serial \<Rightarrow> bool" where
  "serial_inv s \<longleftrightarrow> interrupt_enable s AND 0xf0 = 0 \<and>
     interrupt_identification s \<in> {IIR_NONE_BIT, IIR_THR_BIT, IIR_RECV_BIT, IIR_THR_BIT OR IIR_RECV_BIT}"

definition data_ready :: "('ev, 'o) serial \<Rightarrow> bool" where
  "data_ready s \<longleftrightarrow> line_status s AND LSR_DATA_BIT \<noteq> 0"

lemma and_nibbles: "(v AND 0x0f) AND (0xf0 :: u8) = 0"
  by (simp add: and.assoc)

lemma data_bit_set: "(x OR 1) AND 1 \<noteq> (0 :: u8)"
  by (simp add: bit.conj_disj_distrib2)

lemma data_bit_clear: "(x AND - 2) AND 1 = (0 :: u8)"
  by (simp add: and.assoc)

lemma recv_data_inv: "serial_inv s \<Longrightarrow> serial_inv (snd (recv_data ew s))"
  by (auto simp: serial_inv_def serial_irq_ops Let_def split_beta split: sum.splits)

lemma thr_empty_inv: "serial_inv s \<Longrightarrow> serial_inv (snd (thr_empty ew s))"
  by (auto simp: serial_inv_def serial_irq_ops Let_def split_beta split: sum.splits)

lemma handle_write_inv:
  assumes "serial_inv s"
  shows "serial_inv (snd (handle_write ew ow off v s))"
proof -
  have upd: "serial_inv (s\<lparr>baud_divisor := x\<rparr>)" "serial_inv (s\<lparr>line_control := y\<rparr>)"
    "serial_inv (s\<lparr>modem_control := y\<rparr>)" "serial_inv (s\<lparr>scratch := y\<rparr>)"
    "serial_inv (s\<lparr>in_buffer := bs\<rparr>)" "serial_inv (s\<lparr>out := z\<rparr>)"
    "serial_inv (s\<lparr>interrupt_enable := v AND IER_FIFO_BITS\<rparr>)" for x y bs z
    using assms by (simp_all add: serial_inv_def and_nibbles)
  show ?thesis
    using assms upd
    by (auto simp: handle_write_def Let_def split_beta recv_data_inv thr_empty_inv
        split: sum.splits option.splits)
qed

lemma read_register_inv: "serial_inv s \<Longrightarrow> serial_inv (snd (read_register off s))"
  by (auto simp: serial_inv_def read_register_def read_data_def serial_irq_ops Let_def
      split: list.splits)

interpretation serial_dev: bus_device
  serial_read "serial_write evt_write out_write" serial_inv "\<lambda>_ _ _. True"
proof
  fix d :: "('a, 'b) serial" and off :: u64 and data :: "u8 list"
  assume "serial_inv d"
  then show "\<exists>data' d'. serial_read off data d = Return (data', d') \<and> length data' = length data \<and>
      serial_inv d' \<and> (\<lambda>_ _. True) = (\<lambda>_ _. True)"
    by (auto simp: serial_read_def Let_def split_beta read_register_inv split: list.splits)
next
  fix d :: "('a, 'b) serial" and off :: u64 and data :: "u8 list"
  show "serial_inv d \<Longrightarrow> \<exists>d'. serial_write evt_write out_write off data d = Return d' \<and>
      serial_inv d' \<and> (\<lambda>_ _. True) = (\<lambda>_ _. True)"
    by (auto simp: serial_write_def handle_write_inv split: list.splits)
qed

text \<open>
  The states a port can reach: the guest reads and writes it, the host queues input.
\<close>

inductive serial_reachable ::
  "('ev \<Rightarrow> ('e + unit) \<times> 'ev) \<Rightarrow> (u8 \<Rightarrow> 'o \<Rightarrow> ('e + unit) \<times> 'o) \<Rightarrow> ('ev, 'o) serial \<Rightarrow> bool"
  for evt_write out_write where
  initial: "serial_reachable evt_write out_write (serial_new ev o')"
| guest_write: "serial_reachable evt_write out_write s \<Longrightarrow>
    serial_write evt_write out_write off data s = Return s' \<Longrightarrow> serial_reachable evt_write out_write s'"
| guest_read: "serial_reachable evt_write out_write s \<Longrightarrow>
    serial_read off data s = Return (data', s') \<Longrightarrow> serial_reachable evt_write out_write s'"
| host_input: "serial_reachable evt_write out_write s \<Longrightarrow> c \<noteq> [] \<Longrightarrow>
    serial_reachable evt_write out_write (snd (queue_input_bytes evt_write c s))"

lemma recv_data_ready:
  assumes "\<And>ev. isl (fst (evt_write ev)) = False" "in_buffer s \<noteq> []"
  shows "data_ready (snd (recv_data evt_write s)) \<and> in_buffer (snd (recv_data evt_write s)) = in_buffer s"
proof -
  have "fst (evt_write ev) \<noteq> Inl e" for ev e using assms(1) [of ev] by auto
  then show ?thesis using assms(2)
    by (auto simp: recv_data_def trigger_interrupt_def add_intr_bit_def data_ready_def Let_def
        split_beta data_bit_set split: sum.splits)
qed

lemma thr_empty_frame:
  "line_status (snd (thr_empty ew s)) = line_status s" "in_buffer (snd (thr_empty ew s)) = in_buffer s"
  by (simp_all add: thr_empty_def trigger_interrupt_def add_intr_bit_def Let_def split_beta)

lemma handle_write_ready:
  assumes "\<And>ev. isl (fst (evt_write ev)) = False" "data_ready s \<longleftrightarrow> in_buffer s \<noteq> []"
  shows "data_ready (snd (handle_write evt_write ow off v s)) \<longleftrightarrow>
    in_buffer (snd (handle_write evt_write ow off v s)) \<noteq> []"
proof -
  have recv: "data_ready (snd (recv_data evt_write (s\<lparr>in_buffer := in_buffer s @ [v]\<rparr>)))"
    "in_buffer (snd (recv_data evt_write (s\<lparr>in_buffer := in_buffer s @ [v]\<rparr>))) \<noteq> []"
    using recv_data_ready [OF assms(1), where s = "s\<lparr>in_buffer := in_buffer s @ [v]\<rparr>"] by simp_all
  show ?thesis
    using assms(2) recv
    by (auto simp: handle_write_def Let_def split_beta data_ready_def thr_empty_frame
        split: sum.splits option.splits)
qed

lemma read_register_ready:
  "data_ready s \<longleftrightarrow> in_buffer s \<noteq> [] \<Longrightarrow>
    data_ready (snd (read_register off s)) \<longleftrightarrow> in_buffer (snd (read_register off s)) \<noteq> []"
  by (auto simp: read_register_def read_data_def data_ready_def iir_reset_def Let_def data_bit_clear
      split: list.splits)



text \<open>
  C19. A guest in loop-back mode cannot grow the input buffer without bound: no write
  takes it past \<open>LOOP_SIZE\<close> bytes, and a buffer that is longer already does not grow.
\<close>

theorem serial_write_buffer_bound:
  "serial_write evt_write out_write off data s = Return s' \<Longrightarrow>
    length (in_buffer s') \<le> max LOOP_SIZE (length (in_buffer s))"
  by (auto simp: serial_write_def handle_write_def recv_data_def thr_empty_def trigger_interrupt_def
      add_intr_bit_def Let_def split_beta split: list.splits sum.splits option.splits if_splits)

theorem serial_write_buffer_bound_witness:
  "\<exists>s'. serial_write (\<lambda>ev :: nat. (Inr () :: unit + unit, Suc ev)) (\<lambda>_ _. (Inr (), ())) 0 [7]
      ((serial_new 0 None)\<lparr>modem_control := 0x10, in_buffer := replicate 64 1\<rparr> :: (nat, unit) serial) =
      Return s' \<and> length (in_buffer s') \<le> 64"
proof -
  let ?ew = "\<lambda>ev :: nat. (Inr () :: unit + unit, Suc ev)" and ?ow = "\<lambda>_ _. (Inr () :: unit + unit, ())"
  let ?s = "(serial_new 0 None)\<lparr>modem_control := 0x10, in_buffer := replicate 64 1\<rparr> :: (nat, unit) serial"
  have w: "serial_write ?ew ?ow 0 [7] ?s = Return (snd (handle_write ?ew ?ow (ucast (0 :: u64)) 7 ?s))"
    by (simp add: serial_write_def)
  from serial_write_buffer_bound [OF w] w show ?thesis by auto
qed

end
