(* ===== verification/Legacy_Devices.thy ===== *)
theory Legacy_Devices
  imports Bus
begin

text \<open>
  Three small devices behind the bus: the CMOS clock (\<^verbatim>\<open>devices/src/cmos.rs\<close>), the
  i8042 controller that only resets the machine (\<^verbatim>\<open>devices/src/i8042.rs\<close>) and the ARM
  PL030 clock (\<^verbatim>\<open>devices/src/pl030.rs\<close>). The wall clock of the host is an argument: the
  broken-down time of \<^verbatim>\<open>gmtime_r\<close> for the CMOS, the seconds since the epoch for the
  PL030.
\<close>

section \<open>CMOS\<close>

record cmos =
  index :: u8
  cmos_data :: "u8 list"

text \<open>The fields of the C library's \<^verbatim>\<open>struct tm\<close> that the device reads.\<close>

record tm =
  tm_sec :: int
  tm_min :: int
  tm_hour :: int
  tm_wday :: int
  tm_mday :: int
  tm_mon :: int
  tm_year :: int

definition cmos_new :: cmos where
  "cmos_new = \<lparr>index = 0, cmos_data = replicate 128 0\<rparr>"

text \<open>Division of signed integers truncates towards zero.\<close>

definition rust_div :: "int \<Rightarrow> int \<Rightarrow> int" where
  "rust_div a b = sgn a * sgn b * (\<bar>a\<bar> div \<bar>b\<bar>)"

definition rust_rem :: "int \<Rightarrow> int \<Rightarrow> int" where
  "rust_rem a b = a - b * rust_div a b"

definition cmos_write :: "u64 \<Rightarrow> u8 list \<Rightarrow> cmos \<Rightarrow> cmos outcome" where
  "cmos_write off data c =
     (case data of
        [v] \<Rightarrow>
          (if off = 0 then Return (c\<lparr>index := v AND 0x7f\<rparr>)
           else if off = 1 then
             (if unat (index c) < length (cmos_data c)
              then Return (c\<lparr>cmos_data := (cmos_data c)[unat (index c) := v]\<rparr>) else Panic)
           else Panic)
      | _ \<Rightarrow> Return c)"

definition to_bcd :: "u8 \<Rightarrow> u8 outcome" where
  "to_bcd v = (if v < 100 then Return (push_bit 4 (v div 10) OR (v mod 10)) else Panic)"

definition cmos_register :: "tm \<Rightarrow> cmos \<Rightarrow> u8 outcome" where
  "cmos_register t c =
     (let week_day = tm_wday t + 1; month = tm_mon t + 1; year = tm_year t in
      if index c = 0x00 then to_bcd (word_of_int (tm_sec t))
      else if index c = 0x02 then to_bcd (word_of_int (tm_min t))
      else if index c = 0x04 then to_bcd (word_of_int (tm_hour t))
      else if index c = 0x06 then to_bcd (word_of_int week_day)
      else if index c = 0x07 then to_bcd (word_of_int (tm_mday t))
      else if index c = 0x08 then to_bcd (word_of_int month)
      else if index c = 0x09 then to_bcd (word_of_int (rust_rem year 100))
      else if index c = 0x32 then to_bcd (word_of_int (rust_div (year + 1900) 100))
      else
        (let i = unat (index c AND 0x7f)
         in if i < length (cmos_data c) then Return (cmos_data c ! i) else Panic))"

definition cmos_read :: "tm \<Rightarrow> u64 \<Rightarrow> u8 list \<Rightarrow> cmos \<Rightarrow> (u8 list \<times> cmos) outcome" where
  "cmos_read t off data c =
     (case data of
        [_] \<Rightarrow>
          (if off = 0 then Return ([index c], c)
           else if off = 1 then outcome_bind (cmos_register t c) (\<lambda>v. Return ([v], c))
           else Panic)
      | _ \<Rightarrow> Return (data, c))"

text \<open>What \<^verbatim>\<open>gmtime_r\<close> documents of its result, for a date before the year 10000.\<close>

definition tm_valid :: "tm \<Rightarrow> bool" where
  "tm_valid t \<longleftrightarrow> 0 \<le> tm_sec t \<and> tm_sec t \<le> 60 \<and> 0 \<le> tm_min t \<and> tm_min t \<le> 59 \<and>
     0 \<le> tm_hour t \<and> tm_hour t \<le> 23 \<and> 0 \<le> tm_wday t \<and> tm_wday t \<le> 6 \<and>
     1 \<le> tm_mday t \<and> tm_mday t \<le> 31 \<and> 0 \<le> tm_mon t \<and> tm_mon t \<le> 11 \<and>
     0 \<le> tm_year t \<and> tm_year t < 8100"

definition cmos_inv :: "cmos \<Rightarrow> bool" where
  "cmos_inv c \<longleftrightarrow> index c < 0x80 \<and> length (cmos_data c) = 128"

lemma index_mask: "v AND 0x7f < (0x80 :: u8)"
proof -
  have "v AND 0x7f \<le> (0x7f :: u8)" by (rule word_and_le1)
  also have "\<dots> < 0x80" by simp
  finally show ?thesis .
qed

lemma index_unmasked:
  assumes "v < (0x80 :: u8)"
  shows "v AND 0x7f = v"
proof -
  have "v AND mask 7 = v" using assms by (intro less_mask_eq) simp
  then show ?thesis by (simp add: mask_eq_exp_minus_1)
qed

lemma to_bcd_Panic: "to_bcd v = Panic \<longleftrightarrow> \<not> v < 100"
  by (simp add: to_bcd_def)

lemma small_word: "0 \<le> x \<Longrightarrow> x < 100 \<Longrightarrow> (word_of_int x :: u8) < 100"
  by (simp add: word_less_def unsigned_of_int take_bit_int_eq_self)

lemma rust_div_nonneg: "0 \<le> a \<Longrightarrow> 0 < b \<Longrightarrow> rust_div a b = a div b"
  by (cases "a = 0") (simp_all add: rust_div_def sgn_if)

lemma rust_rem_nonneg: "0 \<le> a \<Longrightarrow> 0 < b \<Longrightarrow> rust_rem a b = a mod b"
  by (simp add: rust_rem_def rust_div_nonneg minus_mult_div_eq_mod)

lemma cmos_register_total:
  assumes "tm_valid t" "cmos_inv c"
  shows "cmos_register t c \<noteq> Panic"
proof -
  have "unat (index c AND 0x7f) < 128"
    using index_mask [of "index c"] by (simp add: word_less_nat_alt)
  moreover have "(word_of_int ((tm_year t + 1900) div 100) :: u8) < 100"
    using assms(1) by (intro small_word) (auto simp: tm_valid_def)
  ultimately show ?thesis
    using assms
    by (simp add: cmos_register_def tm_valid_def cmos_inv_def Let_def to_bcd_Panic small_word
        rust_div_nonneg rust_rem_nonneg del: of_int_add)
qed

lemma two_ports: "off < 2 \<longleftrightarrow> off = 0 \<or> off = (1 :: u64)"
  by (auto simp: word_less_nat_alt word_unat_eq_iff)

lemma cmos_write_total:
  assumes "cmos_inv c" "off < 2"
  shows "\<exists>c'. cmos_write off data c = Return c' \<and> cmos_inv c'"
  using assms(1) assms(2) [unfolded two_ports] index_mask
  by (auto simp: cmos_write_def cmos_inv_def word_less_nat_alt split: list.splits)

text \<open>
  Every access at the two ports of the device returns, when the host clock gives a
  well-formed date; this is the contract of \<^verbatim>\<open>BusDevice\<close>.
\<close>

lemma cmos_read_total:
  assumes "tm_valid t" "cmos_inv c" "off < 2"
  shows "\<exists>data'. cmos_read t off data c = Return (data', c) \<and> length data' = length data"
  using cmos_register_total [OF assms(1, 2)] assms(3)
  by (cases "cmos_register t c") (auto simp: two_ports cmos_read_def split: list.splits)

text \<open>
  On the bus the device carries the dates the host clock will show, one per read.
\<close>

type_synonym clocked_cmos = "cmos \<times> (nat \<Rightarrow> tm)"

definition cmos_clocked_read :: "u64 \<Rightarrow> u8 list \<Rightarrow> clocked_cmos \<Rightarrow> (u8 list \<times> clocked_cmos) outcome" where
  "cmos_clocked_read off data cc =
     outcome_bind (cmos_read (snd cc 0) off data (fst cc))
       (\<lambda>(data', c'). Return (data', (c', \<lambda>n. snd cc (Suc n))))"

definition cmos_clocked_write :: "u64 \<Rightarrow> u8 list \<Rightarrow> clocked_cmos \<Rightarrow> clocked_cmos outcome" where
  "cmos_clocked_write off data cc =
     outcome_bind (cmos_write off data (fst cc)) (\<lambda>c'. Return (c', snd cc))"

definition cmos_clocked_inv :: "clocked_cmos \<Rightarrow> bool" where
  "cmos_clocked_inv cc \<longleftrightarrow> cmos_inv (fst cc) \<and> (\<forall>n. tm_valid (snd cc n))"

interpretation cmos_dev: bus_device cmos_clocked_read cmos_clocked_write cmos_clocked_inv "\<lambda>_ off _. off < 2"
proof unfold_locales
  fix d data and off :: u64
  assume d: "cmos_clocked_inv d" and off: "off < 2"
  then obtain data' where "cmos_read (snd d 0) off data (fst d) = Return (data', fst d)"
    "length data' = length data"
    using cmos_read_total [of "snd d 0" "fst d" off data] by (auto simp: cmos_clocked_inv_def)
  then show "\<exists>data' d'. cmos_clocked_read off data d = Return (data', d') \<and> length data' = length data \<and>
      cmos_clocked_inv d' \<and> (\<lambda>off _. off < 2) = (\<lambda>(off :: u64) (_ :: nat). off < 2)"
    using d by (simp add: cmos_clocked_read_def cmos_clocked_inv_def)
  show "\<exists>d'. cmos_clocked_write off data d = Return d' \<and> cmos_clocked_inv d' \<and>
      (\<lambda>off _. off < 2) = (\<lambda>(off :: u64) (_ :: nat). off < 2)"
    using cmos_write_total [OF _ off, of "fst d" data] d
    by (auto simp: cmos_clocked_write_def cmos_clocked_inv_def)
qed

text \<open>The number a packed decimal stands for.\<close>

definition from_bcd :: "u8 \<Rightarrow> nat" where
  "from_bcd w = 10 * unat (drop_bit 4 w) + unat (w AND 0xf)"

lemma to_bcd_table:
  "list_all (\<lambda>n. from_bcd (the_return (to_bcd (word_of_nat n))) = n) [0..<100]"
  by code_simp

lemma from_bcd_to_bcd:
  assumes "to_bcd v = Return w"
  shows "from_bcd w = unat v"
proof -
  have "unat v < 100" using assms by (simp add: to_bcd_def word_less_nat_alt split: if_splits)
  then have "from_bcd (the_return (to_bcd (word_of_nat (unat v)))) = unat v"
    using to_bcd_table unfolding list_all_iff by (metis atLeastLessThan_iff set_upt zero_le)
  then show ?thesis using assms by simp
qed

lemma unat_word_of_int_small: "0 \<le> x \<Longrightarrow> x < 256 \<Longrightarrow> unat (word_of_int x :: u8) = nat x"
  by (simp add: unat_eq_nat_uint unsigned_of_int take_bit_int_eq_self)

text \<open>What each register of the clock shows, as a number.\<close>

definition clock_value :: "tm \<Rightarrow> u8 \<Rightarrow> nat option" where
  "clock_value t r =
     map_of [(0x00, nat (tm_sec t)), (0x02, nat (tm_min t)), (0x04, nat (tm_hour t)),
       (0x06, nat (tm_wday t + 1)), (0x07, nat (tm_mday t)), (0x08, nat (tm_mon t + 1)),
       (0x09, nat (tm_year t mod 100)), (0x32, nat ((tm_year t + 1900) div 100))] r"

lemma to_bcd_of_int:
  assumes "0 \<le> x" "x < 100"
  shows "\<exists>w. to_bcd (word_of_int x) = Return w \<and> from_bcd w = nat x"
proof -
  obtain w where w: "to_bcd (word_of_int x) = Return w"
    using small_word [OF assms] by (simp add: to_bcd_def)
  then show ?thesis
    using from_bcd_to_bcd [OF w] assms by (simp add: unat_word_of_int_small)
qed

lemma cmos_register_value:
  assumes "tm_valid t" "cmos_inv c"
  shows "\<exists>w. cmos_register t c = Return w \<and>
    (case clock_value t (index c) of Some n \<Rightarrow> from_bcd w = n
     | None \<Rightarrow> w = cmos_data c ! unat (index c))"
proof -
  have "(tm_year t + 1900) div 100 < 100" using assms(1) by (auto simp: tm_valid_def)
  then show ?thesis
    using assms to_bcd_of_int
    by (auto simp: cmos_register_def clock_value_def Let_def index_unmasked word_less_nat_alt
        tm_valid_def cmos_inv_def rust_div_nonneg rust_rem_nonneg simp del: of_int_add)
qed

text \<open>
  The protocol of the clock: the guest writes a register number to port 0 and reads
  port 1. A clock register gives the date as a packed decimal that decodes to the host's
  value (the day of the week and the month count from one, the year is split into
  century and year), and every other register gives the byte stored there; neither
  access panics, and the top bit of the register number is ignored.
\<close>

theorem cmos_clock_read:
  assumes "tm_valid t" "cmos_inv c"
  shows "\<exists>c' w. cmos_write 0 [r] c = Return c' \<and> cmos_read t 1 [b] c' = Return ([w], c') \<and>
    (case clock_value t (r AND 0x7f) of Some n \<Rightarrow> from_bcd w = n
     | None \<Rightarrow> w = cmos_data c ! unat (r AND 0x7f))"
proof -
  let ?c = "c\<lparr>index := r AND 0x7f\<rparr>"
  have "cmos_inv ?c" using assms(2) index_mask by (simp add: cmos_inv_def)
  from cmos_register_value [OF assms(1) this] show ?thesis
    by (auto simp: cmos_write_def cmos_read_def split: option.splits)
qed

theorem cmos_clock_read_witness:
  "\<exists>c' w. cmos_write 0 [0x32] cmos_new = Return c' \<and>
     cmos_read \<lparr>tm_sec = 59, tm_min = 4, tm_hour = 13, tm_wday = 2, tm_mday = 25, tm_mon = 11,
       tm_year = 118\<rparr> 1 [0] c' = Return ([w], c') \<and> from_bcd w = 20"
  using cmos_clock_read [of "\<lparr>tm_sec = 59, tm_min = 4, tm_hour = 13, tm_wday = 2, tm_mday = 25,
      tm_mon = 11, tm_year = 118\<rparr>" cmos_new "0x32" 0]
  by (simp add: tm_valid_def cmos_inv_def cmos_new_def clock_value_def)

section \<open>i8042\<close>

text \<open>
  \<open>evt_write\<close> is \<^verbatim>\<open>EventFd::write(1)\<close> on the reset event: its result and the event
  afterwards. A failure is only logged.
\<close>

record 'ev i8042 =
  reset_evt :: 'ev

definition i8042_new :: "'ev \<Rightarrow> 'ev i8042" where
  "i8042_new ev = \<lparr>reset_evt = ev\<rparr>"

definition i8042_read :: "u64 \<Rightarrow> u8 list \<Rightarrow> 'ev i8042 \<Rightarrow> (u8 list \<times> 'ev i8042) outcome" where
  "i8042_read off data d =
     Return (if length data = 1 \<and> off = 3 then data[0 := 0x0]
             else if length data = 1 \<and> off = 0 then data[0 := 0x20] else data, d)"

definition i8042_write ::
  "('ev \<Rightarrow> ('e + unit) \<times> 'ev) \<Rightarrow> u64 \<Rightarrow> u8 list \<Rightarrow> 'ev i8042 \<Rightarrow> 'ev i8042 outcome" where
  "i8042_write evt_write off data d =
     Return (if length data = 1 \<and> data ! 0 = 0xfe \<and> off = 3
             then d\<lparr>reset_evt := snd (evt_write (reset_evt d))\<rparr> else d)"

interpretation i8042_dev: bus_device i8042_read "i8042_write evt_write" "\<lambda>_. True" "\<lambda>_ _ _. True"
  by unfold_locales (auto simp: i8042_read_def i8042_write_def)

section \<open>PL030\<close>

text \<open>
  \<open>now\<close> is the number of seconds since the epoch, as the \<^verbatim>\<open>u32\<close> that
  \<^verbatim>\<open>get_epoch_time\<close> returns.
\<close>

record 'ev pl030 =
  alarm_evt :: 'ev
  counter_delta_time :: u32
  match_value :: u32
  interrupt_active :: bool

definition get_epoch_time :: "u64 \<Rightarrow> u32" where
  "get_epoch_time secs = ucast secs"

definition pl030_new :: "u64 \<Rightarrow> 'ev \<Rightarrow> 'ev pl030" where
  "pl030_new secs ev = \<lparr>alarm_evt = ev, counter_delta_time = get_epoch_time secs, match_value = 0,
     interrupt_active = False\<rparr>"

definition pl030_write ::
  "('ev \<Rightarrow> ('e + unit) \<times> 'ev) \<Rightarrow> u64 \<Rightarrow> u64 \<Rightarrow> u8 list \<Rightarrow> 'ev pl030 \<Rightarrow> 'ev pl030 outcome" where
  "pl030_write evt_write secs off data d =
     (if length data \<noteq> 4 then Return d
      else
        let reg_val = push_bit 24 (ucast (data ! 0)) OR push_bit 16 (ucast (data ! 1)) OR
              push_bit 8 (ucast (data ! 2)) OR ucast (data ! 3)
        in if off = 0x0 then Return d
           else if off = 0x4 then Return (d\<lparr>match_value := reg_val\<rparr>)
           else if off = 0x8 then
             (if reg_val = 0 then Return (d\<lparr>interrupt_active := False\<rparr>)
              else
                (case evt_write (alarm_evt d) of
                   (Inr _, ev) \<Rightarrow> Return (d\<lparr>alarm_evt := ev, interrupt_active := True\<rparr>)
                 | (Inl _, _) \<Rightarrow> Panic))
           else if off = 0xC then Return d
           else if off = 0x10 then Return (d\<lparr>counter_delta_time := get_epoch_time secs\<rparr>)
           else Panic)"

definition pl030_register :: "u64 \<Rightarrow> u64 \<Rightarrow> 'ev pl030 \<Rightarrow> u32 outcome" where
  "pl030_register secs off d =
     (if off = 0x0 then Return (get_epoch_time secs)
      else if off = 0x4 then Return (match_value d)
      else if off = 0x8 then Return (of_bool (interrupt_active d))
      else if off = 0xC then Return 0
      else if off = 0x10 then Return (get_epoch_time secs - counter_delta_time d)
      else if off = 0x1000 - 0x20 then Return 0x00041030
      else if off = 0x1000 - 0x28 then Return 0x000FFFFF
      else Panic)"

definition pl030_read :: "u64 \<Rightarrow> u64 \<Rightarrow> u8 list \<Rightarrow> 'ev pl030 \<Rightarrow> (u8 list \<times> 'ev pl030) outcome" where
  "pl030_read secs off data d =
     (if length data \<noteq> 4 then Return (data, d)
      else outcome_bind (pl030_register secs off d)
        (\<lambda>v. Return ([ucast v, ucast (drop_bit 8 v), ucast (drop_bit 16 v), ucast (drop_bit 24 v)], d)))"

lemma list_of_length_4: "length xs = 4 \<longleftrightarrow> (\<exists>a b c d. xs = [a, b, c, d])"
  by (auto simp: eval_nat_numeral length_Suc_conv)

lemma pl030_value_bytes:
  fixes a b c d :: u8
  defines "v \<equiv> push_bit 24 (ucast a) OR push_bit 16 (ucast b) OR push_bit 8 (ucast c) OR ucast d :: u32"
  shows "ucast v = d" "ucast (drop_bit 8 v) = c" "ucast (drop_bit 16 v) = b" "ucast (drop_bit 24 v) = a"
  unfolding v_def by (rule bit_word_eqI; auto simp: bit_simps dest: bit_imp_le_length)+

text \<open>
  A driver that stores four bytes in the match register reads them back in the
  opposite order, whatever the time: a write takes the first byte as the most significant one, a read gives
  the least significant byte first.
\<close>

theorem pl030_match_swapped:
  assumes "length data = 4" "length buf = 4"
  shows "outcome_bind (pl030_write evt_write secs 0x4 data d) (pl030_read secs' 0x4 buf) =
    Return (rev data, d\<lparr>match_value := from_be data\<rparr>)"
proof -
  obtain a b c e where data: "data = [a, b, c, e]" using assms(1) by (auto simp: list_of_length_4)
  have be: "(push_bit 24 (ucast a) OR push_bit 16 (ucast b) OR push_bit 8 (ucast c) OR ucast e :: u32) =
      from_be [a, b, c, e]"
    by (rule bit_word_eqI) (auto simp: from_be_def bit_simps)
  show ?thesis
    using assms(2)
    by (simp add: data pl030_write_def pl030_read_def pl030_register_def pl030_value_bytes del: drop_bit_or
        flip: be)
qed

theorem pl030_match_swapped_witness:
  "outcome_bind (pl030_write (\<lambda>ev :: nat. (Inr () :: unit + unit, Suc ev)) 100 0x4 [1, 2, 3, 4] (pl030_new 100 0))
     (pl030_read 101 0x4 [0, 0, 0, 0]) =
   Return ([4, 3, 2, 1], (pl030_new 100 0)\<lparr>match_value := 0x01020304\<rparr>)"
  using pl030_match_swapped [of "[1, 2, 3, 4]" "[0, 0, 0, 0]" "\<lambda>ev :: nat. (Inr () :: unit + unit, Suc ev)"
      100 "pl030_new 100 0" 101]
  by (simp add: from_be_def)

text \<open>
  Which accesses stop the monitor: a four byte access at an offset that is no register.
\<close>

lemma pl030_read_Panic:
  "pl030_read secs off data d = Panic \<longleftrightarrow>
    length data = 4 \<and> off \<notin> {0x0, 0x4, 0x8, 0xC, 0x10, 0xfe0, 0xfd8}"
  by (auto simp: pl030_read_def pl030_register_def outcome_bind_Panic)

lemma pl030_write_Panic:
  assumes "\<And>ev. \<not> isl (fst (evt_write ev))"
  shows "pl030_write evt_write secs off data d = Panic \<longleftrightarrow>
    length data = 4 \<and> off \<notin> {0x0, 0x4, 0x8, 0xC, 0x10}"
  using assms [of "alarm_evt d"] by (auto simp: pl030_write_def Let_def split: prod.splits sum.splits)

text \<open>The counter shows the seconds since it was last loaded, modulo the width of the register.\<close>

lemma pl030_counter:
  "outcome_bind (pl030_write evt_write secs 0x10 [0, 0, 0, 0] d) (pl030_read secs' 0x10 [0, 0, 0, 0]) =
    Return (to_le (ucast (secs' - secs) :: u32), d\<lparr>counter_delta_time := get_epoch_time secs\<rparr>)"
proof -
  have "get_epoch_time secs' - get_epoch_time secs = ucast (secs' - secs)"
    by (simp add: get_epoch_time_def ucast_diff)
  then show ?thesis
    by (simp add: pl030_write_def pl030_read_def pl030_register_def to_le_def upt_rec)
qed

end
