(* ===== verification/Pci_Configuration.thy ===== *)
theory Pci_Configuration
  imports Prelude
begin

text \<open>
  The configuration space of a PCI node (\<^verbatim>\<open>devices/src/pci/pci_configuration.rs\<close>):
  64 registers of 32 bits with a mask of writable bits each, base address registers and
  the linked list of capabilities. Indices and byte offsets (\<^verbatim>\<open>usize\<close>) are natural
  numbers: all of them are below 256 where the code adds to them.
\<close>

section \<open>Classes, subclasses and capabilities\<close>

datatype pci_interrupt_pin = IntA | IntB | IntC | IntD

primrec to_mask :: "pci_interrupt_pin \<Rightarrow> u32" where
  "to_mask IntA = 0"
| "to_mask IntB = 1"
| "to_mask IntC = 2"
| "to_mask IntD = 3"

datatype pci_header_type = DeviceHeader | BridgeHeader

datatype pci_class_code =
    TooOld | MassStorage | NetworkController | DisplayController | MultimediaController
  | MemoryController | BridgeDevice | SimpleCommunicationController | BaseSystemPeripheral
  | InputDevice | DockingStation | Processor | SerialBusController | WirelessController
  | IntelligentIoController | EncryptionController | DataAcquisitionSignalProcessing | OtherClass

primrec class_register_value :: "pci_class_code \<Rightarrow> u8" where
  "class_register_value TooOld = 0"
| "class_register_value MassStorage = 1"
| "class_register_value NetworkController = 2"
| "class_register_value DisplayController = 3"
| "class_register_value MultimediaController = 4"
| "class_register_value MemoryController = 5"
| "class_register_value BridgeDevice = 6"
| "class_register_value SimpleCommunicationController = 7"
| "class_register_value BaseSystemPeripheral = 8"
| "class_register_value InputDevice = 9"
| "class_register_value DockingStation = 10"
| "class_register_value Processor = 11"
| "class_register_value SerialBusController = 12"
| "class_register_value WirelessController = 13"
| "class_register_value IntelligentIoController = 14"
| "class_register_value EncryptionController = 15"
| "class_register_value DataAcquisitionSignalProcessing = 16"
| "class_register_value OtherClass = 0xff"

datatype pci_multimedia_subclass =
  VideoController | AudioController | TelephonyDevice | AudioDevice | OtherMultimedia

primrec multimedia_register_value :: "pci_multimedia_subclass \<Rightarrow> u8" where
  "multimedia_register_value VideoController = 0x00"
| "multimedia_register_value AudioController = 0x01"
| "multimedia_register_value TelephonyDevice = 0x02"
| "multimedia_register_value AudioDevice = 0x03"
| "multimedia_register_value OtherMultimedia = 0x80"

datatype pci_bridge_subclass =
    HostBridge | IsaBridge | EisaBridge | McaBridge | PciToPciBridge | PcmciaBridge | NuBusBridge
  | CardBusBridge | RACEwayBridge | PciToPciSemiTransparentBridge | InfiniBrandToPciHostBridge
  | OtherBridgeDevice

primrec bridge_register_value :: "pci_bridge_subclass \<Rightarrow> u8" where
  "bridge_register_value HostBridge = 0x00"
| "bridge_register_value IsaBridge = 0x01"
| "bridge_register_value EisaBridge = 0x02"
| "bridge_register_value McaBridge = 0x03"
| "bridge_register_value PciToPciBridge = 0x04"
| "bridge_register_value PcmciaBridge = 0x05"
| "bridge_register_value NuBusBridge = 0x06"
| "bridge_register_value CardBusBridge = 0x07"
| "bridge_register_value RACEwayBridge = 0x08"
| "bridge_register_value PciToPciSemiTransparentBridge = 0x09"
| "bridge_register_value InfiniBrandToPciHostBridge = 0x0a"
| "bridge_register_value OtherBridgeDevice = 0x80"

datatype pci_serialbus_subclass = Firewire | ACCESSbus | SSA | USB

primrec serialbus_register_value :: "pci_serialbus_subclass \<Rightarrow> u8" where
  "serialbus_register_value Firewire = 0x00"
| "serialbus_register_value ACCESSbus = 0x01"
| "serialbus_register_value SSA = 0x02"
| "serialbus_register_value USB = 0x03"

datatype pci_capability_id =
    ListID | PowerManagement | AcceleratedGraphicsPort | VitalProductData | SlotIdentification
  | MessageSignalledInterrupts | CompactPCIHotSwap | PCIX | HyperTransport | VendorSpecific
  | Debugport | CompactPCICentralResourceControl | PCIStandardHotPlugController
  | BridgeSubsystemVendorDeviceID | AGPTargetPCIPCIbridge | SecureDevice | PCIExpress | MSIX
  | SATADataIndexConf | PCIAdvancedFeatures | PCIEnhancedAllocation

primrec capability_id_value :: "pci_capability_id \<Rightarrow> u8" where
  "capability_id_value ListID = 0"
| "capability_id_value PowerManagement = 0x01"
| "capability_id_value AcceleratedGraphicsPort = 0x02"
| "capability_id_value VitalProductData = 0x03"
| "capability_id_value SlotIdentification = 0x04"
| "capability_id_value MessageSignalledInterrupts = 0x05"
| "capability_id_value CompactPCIHotSwap = 0x06"
| "capability_id_value PCIX = 0x07"
| "capability_id_value HyperTransport = 0x08"
| "capability_id_value VendorSpecific = 0x09"
| "capability_id_value Debugport = 0x0A"
| "capability_id_value CompactPCICentralResourceControl = 0x0B"
| "capability_id_value PCIStandardHotPlugController = 0x0C"
| "capability_id_value BridgeSubsystemVendorDeviceID = 0x0D"
| "capability_id_value AGPTargetPCIPCIbridge = 0x0E"
| "capability_id_value SecureDevice = 0x0F"
| "capability_id_value PCIExpress = 0x10"
| "capability_id_value MSIX = 0x11"
| "capability_id_value SATADataIndexConf = 0x12"
| "capability_id_value PCIAdvancedFeatures = 0x13"
| "capability_id_value PCIEnhancedAllocation = 0x14"

section \<open>The registers\<close>

record pci_configuration =
  registers :: "u32 list"
  writable_bits :: "u32 list"
  num_bars :: nat
  last_capability :: "(nat \<times> nat) option"

text \<open>The subclass, a trait object in the code, is given by its register value.\<close>

definition pc_new ::
  "u16 \<Rightarrow> u16 \<Rightarrow> pci_class_code \<Rightarrow> u8 \<Rightarrow> pci_header_type \<Rightarrow> u16 \<Rightarrow> u16 \<Rightarrow> pci_configuration" where
  "pc_new vendor_id device_id class_code subclass header_type subsystem_vendor_id subsystem_id =
     (let regs = replicate 64 0;
          regs = regs[0 := push_bit 16 (ucast device_id) OR ucast vendor_id];
          regs = regs[2 := push_bit 24 (ucast (class_register_value class_code)) OR
                           push_bit 16 (ucast subclass)];
          regs = (case header_type of DeviceHeader \<Rightarrow> regs | BridgeHeader \<Rightarrow> regs[3 := 0x00010000]);
          regs = regs[11 := push_bit 16 (ucast subsystem_id) OR ucast subsystem_vendor_id]
      in \<lparr>registers = regs, writable_bits = replicate 64 0xffffffff, num_bars = 0,
          last_capability = None\<rparr>)"

definition read_reg :: "pci_configuration \<Rightarrow> nat \<Rightarrow> u32" where
  "read_reg c reg_idx = (if reg_idx < length (registers c) then registers c ! reg_idx else 0xffffffff)"

definition write_reg :: "nat \<Rightarrow> u32 \<Rightarrow> pci_configuration \<Rightarrow> pci_configuration" where
  "write_reg reg_idx val c =
     (if reg_idx < length (registers c)
      then c\<lparr>registers := (registers c)[reg_idx := val AND writable_bits c ! reg_idx]\<rparr> else c)"

text \<open>The common body of \<^verbatim>\<open>write_word\<close> and \<^verbatim>\<open>write_byte\<close>: \<open>ones\<close> is the mask of the
  field, \<open>shift\<close> its place in the register.\<close>

definition write_field :: "u32 \<Rightarrow> nat \<Rightarrow> nat \<Rightarrow> u32 \<Rightarrow> pci_configuration \<Rightarrow> pci_configuration" where
  "write_field ones shift reg_idx val c =
     (if reg_idx < length (registers c) then
        let writable_mask = writable_bits c ! reg_idx;
            msk = push_bit shift ones AND writable_mask;
            shifted_value = push_bit shift val AND writable_mask;
            r = registers c ! reg_idx
        in c\<lparr>registers := (registers c)[reg_idx := (r AND NOT msk) OR shifted_value]\<rparr>
      else c)"

definition write_word :: "nat \<Rightarrow> u16 \<Rightarrow> pci_configuration \<Rightarrow> pci_configuration" where
  "write_word off val c =
     (if off mod 4 = 0 then write_field 0xffff 0 (off div 4) (ucast val) c
      else if off mod 4 = 2 then write_field 0xffff 16 (off div 4) (ucast val) c
      else c)"

definition write_byte :: "nat \<Rightarrow> u8 \<Rightarrow> pci_configuration \<Rightarrow> pci_configuration" where
  "write_byte off val c = write_field 0xff ((off mod 4) * 8) (off div 4) (ucast val) c"

section \<open>Base address registers and interrupts\<close>

definition add_bar :: "u64 \<Rightarrow> u64 \<Rightarrow> u32 \<Rightarrow> u32 \<Rightarrow> pci_configuration \<Rightarrow> nat option \<times> pci_configuration" where
  "add_bar addr sz addr_mask mem_type c =
     (if num_bars c \<ge> 6 then (None, c)
      else if count_ones sz \<noteq> 1 then (None, c)
      else case checked_add addr sz of
        None \<Rightarrow> (None, c)
      | Some end_addr \<Rightarrow>
          if end_addr > 0xffffffff then (None, c)
          else
            let bar_idx = 4 + num_bars c in
            (Some bar_idx,
             c\<lparr>registers := (registers c)[bar_idx := (ucast addr AND addr_mask) OR mem_type],
               writable_bits := (writable_bits c)[bar_idx := ucast (NOT (sz - 1))],
               num_bars := num_bars c + 1\<rparr>))"

definition add_memory_region :: "u64 \<Rightarrow> u64 \<Rightarrow> pci_configuration \<Rightarrow> nat option \<times> pci_configuration" where
  "add_memory_region addr sz c = add_bar addr sz 0xfffffff0 0 c"

definition add_io_region :: "u64 \<Rightarrow> u64 \<Rightarrow> pci_configuration \<Rightarrow> nat option \<times> pci_configuration" where
  "add_io_region addr sz c = add_bar addr sz 0xfffffffc 0x00000001 c"

definition get_bar_addr :: "pci_configuration \<Rightarrow> nat \<Rightarrow> u32 outcome" where
  "get_bar_addr c bar_num =
     (let bar_idx = 4 + bar_num in
      if bar_idx < length (registers c) then Return (registers c ! bar_idx AND 0xfffffff0) else Panic)"

definition set_irq :: "u8 \<Rightarrow> pci_interrupt_pin \<Rightarrow> pci_configuration \<Rightarrow> pci_configuration" where
  "set_irq line pin c =
     (let pin_idx = to_mask pin + 1 in
      c\<lparr>registers := (registers c)[15 :=
         (registers c ! 15 AND 0xffff0000) OR push_bit 8 pin_idx OR ucast line]\<rparr>)"

section \<open>Capabilities\<close>

definition next_dword :: "nat \<Rightarrow> nat \<Rightarrow> nat" where
  "next_dword off len = (let nxt = off + len in (nxt + 3) - (nxt + 3) mod 4)"

primrec write_bytes :: "nat \<Rightarrow> u8 list \<Rightarrow> pci_configuration \<Rightarrow> pci_configuration" where
  "write_bytes off [] c = c"
| "write_bytes off (b # bs) c = write_bytes (Suc off) bs (write_byte off b c)"

definition add_capability ::
  "pci_capability_id \<Rightarrow> u8 list \<Rightarrow> pci_configuration \<Rightarrow> nat option \<times> pci_configuration" where
  "add_capability cid bs c =
     (let total_len = length bs + 2 in
      if length bs < 1 then (None, c)
      else
        let (cap_offset, tail_offset) =
              (case last_capability c of
                 Some (off, len) \<Rightarrow> (next_dword off len, off + 1)
               | None \<Rightarrow> (0x40, 0x34))
        in if cap_offset + (length bs + 2) > 192 then (None, c)
           else
             let c = c\<lparr>registers := (registers c)[1 := registers c ! 1 OR 0x00100000]\<rparr>;
                 c = write_byte tail_offset (word_of_nat cap_offset) c;
                 c = write_byte cap_offset (capability_id_value cid) c;
                 c = write_byte (cap_offset + 1) 0 c;
                 c = write_bytes (cap_offset + 2) bs c
             in (Some cap_offset, c\<lparr>last_capability := Some (cap_offset, total_len)\<rparr>))"

section \<open>The invariant\<close>

text \<open>
  The two arrays have 64 entries, at most six base address registers are in use, and
  only those have bits that are not writable.
\<close>

definition pc_inv :: "pci_configuration \<Rightarrow> bool" where
  "pc_inv c \<longleftrightarrow> length (registers c) = 64 \<and> length (writable_bits c) = 64 \<and> num_bars c \<le> 6 \<and>
     (\<forall>i < 64. i < 4 \<or> 4 + num_bars c \<le> i \<longrightarrow> writable_bits c ! i = 0xffffffff)"

lemma pc_new_inv: "pc_inv (pc_new vid did cc sub ht svid sid)"
  by (auto simp: pc_inv_def pc_new_def Let_def split: pci_header_type.splits)

lemma write_reg_inv: "pc_inv c \<Longrightarrow> pc_inv (write_reg i v c)"
  by (auto simp: pc_inv_def write_reg_def)

lemma write_field_inv: "pc_inv c \<Longrightarrow> pc_inv (write_field m k i v c)"
  by (auto simp: pc_inv_def write_field_def Let_def)

lemma write_word_inv: "pc_inv c \<Longrightarrow> pc_inv (write_word off v c)"
  by (simp add: write_word_def write_field_inv)

lemma write_byte_inv: "pc_inv c \<Longrightarrow> pc_inv (write_byte off v c)"
  by (simp add: write_byte_def write_field_inv)

lemma write_bytes_inv: "pc_inv c \<Longrightarrow> pc_inv (write_bytes off bs c)"
  by (induction bs arbitrary: off c) (simp_all add: write_byte_inv)

lemma add_bar_inv: "pc_inv c \<Longrightarrow> pc_inv (snd (add_bar addr sz msk ty c))"
  by (auto simp: pc_inv_def add_bar_def Let_def nth_list_update split: option.splits)

lemma set_irq_inv: "pc_inv c \<Longrightarrow> pc_inv (set_irq line pin c)"
  by (simp add: pc_inv_def set_irq_def Let_def)

lemma pc_inv_registers: "pc_inv c \<Longrightarrow> pc_inv (c\<lparr>registers := (registers c)[i := v]\<rparr>)"
  by (simp add: pc_inv_def)

lemma pc_inv_last: "pc_inv (c\<lparr>last_capability := l\<rparr>) \<longleftrightarrow> pc_inv c"
  by (simp add: pc_inv_def)

lemma add_capability_inv: "pc_inv c \<Longrightarrow> pc_inv (snd (add_capability cid bs c))"
  by (simp add: add_capability_def Let_def split_beta pc_inv_last write_bytes_inv write_byte_inv
      pc_inv_registers)

lemmas pc_op_inv = pc_new_inv write_reg_inv write_word_inv write_byte_inv add_bar_inv set_irq_inv
  add_capability_inv

section \<open>The bytes of the space\<close>

definition cfg_byte :: "pci_configuration \<Rightarrow> nat \<Rightarrow> u8" where
  "cfg_byte c off = ucast (drop_bit ((off mod 4) * 8) (read_reg c (off div 4)))"

lemma bit_ff: "bit (0xff :: u32) n \<longleftrightarrow> n < 8"
proof -
  have eq: "(0xff :: u32) = mask 8" by (simp add: mask_eq_exp_minus_1)
  show ?thesis unfolding eq by (simp only: bit_mask_iff possible_bit_word) auto
qed

lemma bit_all_ones: "bit (0xffffffff :: u32) n \<longleftrightarrow> n < 32"
proof -
  have "(0xffffffff :: u32) = - 1" by simp
  then show ?thesis by (simp only: bit_minus_1_iff possible_bit_word) simp
qed

lemma all_ones_and [simp]: "(0xffffffff :: u32) AND w = w"
  by (rule bit_word_eqI) (auto simp: bit_simps bit_all_ones simp del: bit_numeral_word_iff)

lemma byte_of_field:
  fixes r :: u32 and v :: u8
  assumes "k < 4" "j < 4"
  shows "(ucast (drop_bit (j * 8)
      ((r AND NOT (push_bit (k * 8) 0xff AND 0xffffffff)) OR (push_bit (k * 8) (ucast v) AND 0xffffffff))) :: u8) =
    (if j = k then v else ucast (drop_bit (j * 8) r))"
proof (rule bit_word_eqI)
  fix i :: nat assume i: "i < LENGTH(8)"
  have "j * 8 + i < 32" using assms i by simp
  moreover have "k * 8 \<le> j * 8 + i \<and> j * 8 + i - k * 8 < 8 \<longleftrightarrow> j = k"
    using i by auto
  moreover have "\<not> bit v n" if "\<not> n < 8" for n
    using that bit_imp_le_length [of v n] by auto
  ultimately show "bit (ucast (drop_bit (j * 8)
      ((r AND NOT (push_bit (k * 8) 0xff AND 0xffffffff)) OR (push_bit (k * 8) (ucast v) AND 0xffffffff))) :: u8) i =
    bit (if j = k then v else ucast (drop_bit (j * 8) r)) i"
    using i assms by (auto simp: bit_simps bit_ff bit_all_ones simp del: bit_numeral_word_iff)
qed

lemma cfg_byte_write_byte:
  assumes "pc_inv c" "off < 256" "o' < 256" "writable_bits c ! (off div 4) = 0xffffffff"
  shows "cfg_byte (write_byte off v c) o' = (if o' = off then v else cfg_byte c o')"
proof (cases "o' div 4 = off div 4")
  case True
  then have "o' = off \<longleftrightarrow> o' mod 4 = off mod 4" by (metis div_mod_decomp)
  then show ?thesis
    using True assms byte_of_field [of "off mod 4" "o' mod 4" "registers c ! (off div 4)" v]
    by (auto simp: cfg_byte_def write_byte_def write_field_def read_reg_def Let_def pc_inv_def)
next
  case False
  moreover from this have "o' \<noteq> off" by auto
  moreover have "o' div 4 < 64" "off div 4 < 64" using assms(2, 3) by auto
  ultimately show ?thesis
    using assms
    by (simp add: cfg_byte_def write_byte_def write_field_def read_reg_def Let_def pc_inv_def)
qed

lemma write_byte_same [simp]:
  "writable_bits (write_byte off v c) = writable_bits c"
  "num_bars (write_byte off v c) = num_bars c"
  "last_capability (write_byte off v c) = last_capability c"
  by (simp_all add: write_byte_def write_field_def Let_def)

lemma write_bytes_same [simp]:
  "writable_bits (write_bytes off bs c) = writable_bits c"
  "num_bars (write_bytes off bs c) = num_bars c"
  "last_capability (write_bytes off bs c) = last_capability c"
  by (induction bs arbitrary: off c) simp_all

lemma cfg_byte_write_bytes:
  assumes "pc_inv c" "0x40 \<le> off" "off + length bs \<le> 256" "o' < 256"
  shows "cfg_byte (write_bytes off bs c) o' =
    (if off \<le> o' \<and> o' < off + length bs then bs ! (o' - off) else cfg_byte c o')"
  using assms
proof (induction bs arbitrary: off c)
  case Nil
  then show ?case by auto
next
  case (Cons b bs)
  have w: "writable_bits c ! (off div 4) = 0xffffffff"
    using Cons.prems by (auto simp: pc_inv_def)
  have "o' = off \<or> o' < off \<or> off < o'" by arith
  then show ?case
    using Cons.IH [of "write_byte off b c" "Suc off"] Cons.prems cfg_byte_write_byte [OF _ _ _ w, of o' b]
    by (auto simp: write_byte_inv nth_Cons' Suc_diff_Suc)
qed

section \<open>The list of capabilities\<close>

text \<open>
  The linked list that starts at byte \<open>p\<close>, all of it above \<open>lo\<close>: an entry is its
  offset, its identifier and its bytes.
\<close>

type_synonym cap_entry = "nat \<times> u8 \<times> u8 list"

fun cap_chain :: "pci_configuration \<Rightarrow> nat \<Rightarrow> nat \<Rightarrow> cap_entry list \<Rightarrow> bool" where
  "cap_chain c p lo [] \<longleftrightarrow> cfg_byte c p = 0"
| "cap_chain c p lo ((off, i, bs) # cs) \<longleftrightarrow>
     lo \<le> off \<and> off mod 4 = 0 \<and> bs \<noteq> [] \<and> off + 2 + length bs \<le> 192 \<and> cfg_byte c p = word_of_nat off \<and>
     cfg_byte c off = i \<and> (\<forall>k < length bs. cfg_byte c (off + 2 + k) = bs ! k) \<and>
     cap_chain c (off + 1) (off + 2 + length bs) cs"

text \<open>The byte that ends the list, and the first byte above it.\<close>

fun cap_tail :: "nat \<Rightarrow> nat \<Rightarrow> cap_entry list \<Rightarrow> nat \<times> nat" where
  "cap_tail p lo [] = (p, lo)"
| "cap_tail p lo ((off, i, bs) # cs) = cap_tail (off + 1) (off + 2 + length bs) cs"

lemma cap_tail_bounds:
  "cap_chain c p lo cs \<Longrightarrow> p < lo \<Longrightarrow>
    lo \<le> snd (cap_tail p lo cs) \<and> fst (cap_tail p lo cs) < snd (cap_tail p lo cs) \<and>
    (fst (cap_tail p lo cs) = p \<or> lo < fst (cap_tail p lo cs))"
proof (induction cs arbitrary: p lo)
  case Nil
  then show ?case by simp
next
  case (Cons e cs)
  obtain off i bs where e: "e = (off, i, bs)" by (cases e)
  show ?case using Cons.IH [of "off + 1" "off + 2 + length bs"] Cons.prems by (auto simp: e)
qed

lemma cap_chain_append:
  assumes "cap_chain c p lo cs" "p < lo" "16 \<le> p" "cap_tail p lo cs = (tp, e)"
    and "\<And>x. 16 \<le> x \<Longrightarrow> x < e \<Longrightarrow> x \<noteq> tp \<Longrightarrow> cfg_byte c' x = cfg_byte c x"
    and "cap_chain c' tp e [entry]"
  shows "cap_chain c' p lo (cs @ [entry])"
  using assms
proof (induction cs arbitrary: p lo)
  case Nil
  then show ?case by simp
next
  case (Cons x cs)
  obtain off i bs where x: "x = (off, i, bs)" by (cases x)
  let ?lo = "off + 2 + length bs"
  have ch: "cap_chain c (off + 1) ?lo cs" using Cons.prems(1) by (simp add: x)
  have tl: "cap_tail (off + 1) ?lo cs = (tp, e)" using Cons.prems(4) by (simp add: x)
  have b: "?lo \<le> e" "tp = off + 1 \<or> ?lo < tp" using cap_tail_bounds [OF ch] tl by auto
  have "cap_chain c' (off + 1) ?lo (cs @ [entry])"
    using Cons.prems(1, 2, 3) by (intro Cons.IH [OF ch _ _ tl Cons.prems(5, 6)]) (simp_all add: x)
  moreover have "cfg_byte c' y = cfg_byte c y" if "p \<le> y" "y < ?lo" "y \<noteq> off + 1" for y
    using Cons.prems(3) Cons.prems(5) [of y] that b by auto
  ultimately show ?case using Cons.prems(1, 2) by (auto simp: x)
qed

text \<open>The invariant that ties the list in the registers to \<^verbatim>\<open>last_capability\<close>.\<close>

definition caps_ok :: "pci_configuration \<Rightarrow> cap_entry list \<Rightarrow> bool" where
  "caps_ok c cs \<longleftrightarrow> cap_chain c 0x34 0x40 cs \<and>
     last_capability c =
       (if cs = [] then None else Some (fst (last cs), length (snd (snd (last cs))) + 2))"

lemma cap_tail_last:
  "cs \<noteq> [] \<Longrightarrow> cap_tail p lo cs =
    (fst (last cs) + 1, fst (last cs) + 2 + length (snd (snd (last cs))))"
  by (induction p lo cs rule: cap_tail.induct) auto

lemma next_dword_props: "off + len \<le> next_dword off len" "next_dword off len mod 4 = 0"
  by (simp_all add: next_dword_def Let_def flip: minus_mod_eq_div_mult) 

lemma cap_tail_writable:
  assumes "pc_inv c" "t = 0x34 \<or> 0x40 \<le> t" "t < 256"
  shows "writable_bits c ! (t div 4) = 0xffffffff"
  using assms by (auto simp: pc_inv_def)

lemma cfg_byte_status:
  "4 \<le> x div 4 \<Longrightarrow> cfg_byte (c\<lparr>registers := (registers c)[1 := v]\<rparr>) x = cfg_byte c x"
  by (simp add: cfg_byte_def read_reg_def)

lemma cfg_byte_last [simp]: "cfg_byte (c\<lparr>last_capability := l\<rparr>) x = cfg_byte c x"
  by (simp add: cfg_byte_def read_reg_def)

text \<open>The bytes of the space after a capability was written at \<open>off\<close> and linked from \<open>t\<close>.\<close>

lemma cfg_byte_capability:
  assumes inv: "pc_inv c" and t: "t = 0x34 \<or> 0x40 \<le> t" "t < off"
    and off: "0x40 \<le> off" "off + 2 + length bs \<le> 192" and x: "16 \<le> x" "x < 256"
  shows "cfg_byte (write_bytes (off + 2) bs (write_byte (off + 1) 0 (write_byte off i
      (write_byte t (word_of_nat off) (c\<lparr>registers := (registers c)[1 := v]\<rparr>))))) x =
    (if x = t then word_of_nat off else if x = off then i else if x = off + 1 then 0
     else if off + 2 \<le> x \<and> x < off + 2 + length bs then bs ! (x - (off + 2)) else cfg_byte c x)"
proof -
  let ?c1 = "c\<lparr>registers := (registers c)[1 := v]\<rparr>"
  let ?c2 = "write_byte t (word_of_nat off) ?c1"
  let ?c3 = "write_byte off i ?c2"
  let ?c4 = "write_byte (off + 1) 0 ?c3"
  have i1: "pc_inv ?c1" using inv by (rule pc_inv_registers)
  have i4: "pc_inv ?c2" "pc_inv ?c3" "pc_inv ?c4" using i1 by (simp_all add: write_byte_inv)
  have c1: "cfg_byte ?c1 x = cfg_byte c x" using x by (intro cfg_byte_status) simp
  have c2: "cfg_byte ?c2 x = (if x = t then word_of_nat off else cfg_byte ?c1 x)"
    using t off x by (intro cfg_byte_write_byte [OF i1] cap_tail_writable [OF i1]) auto
  have c3: "cfg_byte ?c3 x = (if x = off then i else cfg_byte ?c2 x)"
    using off x by (intro cfg_byte_write_byte [OF i4(1)] cap_tail_writable [OF i4(1)]) auto
  have c4: "cfg_byte ?c4 x = (if x = off + 1 then 0 else cfg_byte ?c3 x)"
    using off x by (intro cfg_byte_write_byte [OF i4(2)] cap_tail_writable [OF i4(2)]) auto
  have c5: "cfg_byte (write_bytes (off + 2) bs ?c4) x =
      (if off + 2 \<le> x \<and> x < off + 2 + length bs then bs ! (x - (off + 2)) else cfg_byte ?c4 x)"
    using off x by (intro cfg_byte_write_bytes [OF i4(3)]) auto
  show ?thesis unfolding c5 c4 c3 c2 c1 using t by auto
qed

lemma add_capability_ok:
  assumes inv: "pc_inv c" and ok: "caps_ok c cs" and add: "add_capability cid bs c = (Some off, c')"
  shows "caps_ok c' (cs @ [(off, capability_id_value cid, bs)])"
proof -
  define i where "i = capability_id_value cid"
  obtain t e where te: "cap_tail 0x34 0x40 cs = (t, e)" by (cases "cap_tail 0x34 0x40 cs")
  have ch: "cap_chain c 0x34 0x40 cs" using ok by (simp add: caps_ok_def)
  have b: "0x40 \<le> e" "t < e" "t = 0x34 \<or> 0x40 < t" using cap_tail_bounds [OF ch] te by auto
  have place: "e \<le> off" "off mod 4 = 0" "off + 2 + length bs \<le> 192" "bs \<noteq> []"
    and c': "c' = (write_bytes (off + 2) bs (write_byte (off + 1) 0 (write_byte off i
      (write_byte t (word_of_nat off) (c\<lparr>registers := (registers c)[1 := registers c ! 1 OR 0x00100000]\<rparr>)))))
      \<lparr>last_capability := Some (off, length bs + 2)\<rparr>"
    using add ok te next_dword_props [of "fst (last cs)" "length (snd (snd (last cs))) + 2"]
    by (auto simp: add_capability_def caps_ok_def Let_def i_def cap_tail_last Suc_le_eq
        split: if_splits)
  have bytes: "cfg_byte c' x = (if x = t then word_of_nat off else if x = off then i
      else if x = off + 1 then 0
      else if off + 2 \<le> x \<and> x < off + 2 + length bs then bs ! (x - (off + 2)) else cfg_byte c x)"
    if "16 \<le> x" "x < 256" for x
    unfolding c' cfg_byte_last by (rule cfg_byte_capability [OF inv]) (use b place that in auto)
  have small: "off < 192" using place by simp
  have "cap_chain c' t e [(off, i, bs)]"
    using b place bytes [of t] bytes [of off] bytes [of "off + 1"] bytes [of "off + 2 + k" for k]
    by auto
  then have "cap_chain c' 0x34 0x40 (cs @ [(off, i, bs)])"
    using bytes b place small by (intro cap_chain_append [OF ch _ _ te]) auto
  then show ?thesis by (simp add: caps_ok_def c' i_def)
qed

text \<open>Adding capabilities one after the other: those that were accepted, with their offsets.\<close>

fun add_capabilities ::
  "(pci_capability_id \<times> u8 list) list \<Rightarrow> pci_configuration \<Rightarrow> cap_entry list \<times> pci_configuration" where
  "add_capabilities [] c = ([], c)"
| "add_capabilities ((cid, bs) # xs) c =
     (case add_capability cid bs c of
        (Some off, c') \<Rightarrow>
          (let (cs, c'') = add_capabilities xs c' in ((off, capability_id_value cid, bs) # cs, c''))
      | (None, c') \<Rightarrow> add_capabilities xs c')"

text \<open>
  The walk of a guest driver over the list: from the pointer at byte \<open>p\<close>, the offset and
  the identifier of each entry, for at most \<open>n\<close> entries.
\<close>

fun cap_walk :: "nat \<Rightarrow> pci_configuration \<Rightarrow> nat \<Rightarrow> (nat \<times> u8) list" where
  "cap_walk 0 c p = []"
| "cap_walk (Suc n) c p =
     (let off = unat (cfg_byte c p) in
      if off = 0 then [] else (off, cfg_byte c off) # cap_walk n c (off + 1))"

lemma add_capability_None: "add_capability cid bs c = (None, c') \<Longrightarrow> c' = c"
  by (auto simp: add_capability_def Let_def split_beta split: if_splits)

lemma add_capabilities_ok:
  "pc_inv c \<Longrightarrow> caps_ok c cs \<Longrightarrow> add_capabilities xs c = (new, c') \<Longrightarrow> caps_ok c' (cs @ new)"
proof (induction xs c arbitrary: cs new rule: add_capabilities.induct)
  case (2 cid bs xs c)
  obtain r c1 where r: "add_capability cid bs c = (r, c1)" by (cases "add_capability cid bs c")
  have inv: "pc_inv c1" using add_capability_inv [OF "2.prems"(1)] r by (metis snd_conv)
  show ?case
  proof (cases r)
    case None
    then have "c1 = c" using r add_capability_None by blast
    then show ?thesis
      using "2.IH"(1) [OF r [symmetric] None inv, of cs new] "2.prems"(2, 3) r None by simp
  next
    case (Some off)
    have "caps_ok c1 (cs @ [(off, capability_id_value cid, bs)])"
      using "2.prems" r Some by (auto intro: add_capability_ok)
    from "2.IH"(2) [OF r [symmetric] Some inv this] show ?thesis
      using "2.prems"(3) r Some by (auto split: prod.splits)
  qed
qed simp

lemma cap_chain_walk:
  assumes "cap_chain c p lo cs" "0 < lo" "length cs < n"
  shows "cap_walk n c p = map (\<lambda>(off, i, bs). (off, i)) cs"
  using assms
proof (induction cs arbitrary: p lo n)
  case Nil
  then show ?case by (cases n) auto
next
  case (Cons e cs)
  obtain off i bs where e: "e = (off, i, bs)" by (cases e)
  obtain m where n: "n = Suc m" using Cons.prems(3) by (cases n) auto
  have "off < 192" using Cons.prems(1) by (simp add: e)
  then have "unat (word_of_nat off :: u8) = off" by (simp add: unsigned_of_nat take_bit_nat_eq_self)
  then show ?case using Cons.IH [of "off + 1" "off + 2 + length bs" m] Cons.prems by (auto simp: e n)
qed

lemma cap_chain_length: "cap_chain c p lo cs \<Longrightarrow> lo \<le> 192 \<Longrightarrow> 3 * length cs + lo \<le> 192"
proof (induction cs arbitrary: p lo)
  case (Cons e cs)
  obtain off i bs where e: "e = (off, i, bs)" by (cases e)
  have "1 \<le> length bs" using Cons.prems by (simp add: e Suc_le_eq)
  then show ?case using Cons.IH [of "off + 1" "off + 2 + length bs"] Cons.prems by (auto simp: e)
qed simp

lemma pc_new_caps: "caps_ok (pc_new vid did cc sub ht svid sid) []"
  by (auto simp: caps_ok_def cfg_byte_def read_reg_def pc_new_def Let_def split: pci_header_type.splits)

text \<open>
  C20. Whatever capabilities are added to a new configuration space, a driver that
  follows the list from byte 0x34 finds exactly the accepted ones, in the order they were
  added, each at an aligned offset in the capability area with its identifier and its
  bytes, no two overlapping; it stops after at most 42 entries.
\<close>

theorem pci_capability_list:
  assumes "add_capabilities xs (pc_new vid did cc sub ht svid sid) = (cs, c)"
  shows "cap_walk 43 c 0x34 = map (\<lambda>(off, i, bs). (off, i)) cs \<and>
    (\<forall>(off, i, bs) \<in> set cs. off mod 4 = 0 \<and> 0x40 \<le> off \<and> off + 2 + length bs \<le> 192 \<and>
       map (\<lambda>k. cfg_byte c (off + 2 + k)) [0..<length bs] = bs) \<and>
    sorted_wrt (\<lambda>(off, _, bs) (off', _). off + 2 + length bs \<le> off') cs"
proof -
  have ch: "cap_chain c 0x34 0x40 cs"
    using add_capabilities_ok [OF pc_new_inv pc_new_caps assms] by (simp add: caps_ok_def)
  have entries: "(\<forall>(off, i, bs) \<in> set cs. off mod 4 = 0 \<and> lo \<le> off \<and> off + 2 + length bs \<le> 192 \<and>
       map (\<lambda>k. cfg_byte c (off + 2 + k)) [0..<length bs] = bs) \<and>
    sorted_wrt (\<lambda>(off, _, bs) (off', _). off + 2 + length bs \<le> off') cs"
    if "cap_chain c p lo cs" for p lo
    using that
  proof (induction cs arbitrary: p lo)
    case (Cons e cs)
    obtain off i bs where e: "e = (off, i, bs)" by (cases e)
    have "map (\<lambda>k. cfg_byte c (off + 2 + k)) [0..<length bs] = bs"
      using Cons.prems by (intro nth_equalityI) (auto simp: e)
    then show ?case using Cons.IH [of "off + 1" "off + 2 + length bs"] Cons.prems by (force simp: e)
  qed simp
  show ?thesis using cap_chain_walk [OF ch] cap_chain_length [OF ch] entries [OF ch] by simp
qed

theorem pci_capability_list_witness:
  "\<exists>cs c. add_capabilities [(VendorSpecific, [4, 0xAA]), (MSIX, [])] (pc_new 1 2 NetworkController 0 DeviceHeader 3 4)
     = (cs, c) \<and> cs = [(0x40, 0x09, [4, 0xAA])] \<and> cap_walk 43 c 0x34 = [(0x40, 0x09)]"
proof -
  let ?r = "add_capabilities [(VendorSpecific, [4, 0xAA]), (MSIX, [])]
    (pc_new 1 2 NetworkController 0 DeviceHeader 3 4)"
  have "fst ?r = [(0x40, 0x09, [4, 0xAA])]"
    by (simp add: add_capability_def pc_new_def Let_def)
  moreover have "cap_walk 43 (snd ?r) 0x34 = map (\<lambda>(off, i, bs). (off, i)) (fst ?r)"
    using pci_capability_list [OF prod.collapse [symmetric]] by blast
  ultimately show ?thesis 
    by (intro exI [of _ "fst ?r"] exI [of _ "snd ?r"]) (simp add: prod_eq_iff del: add_capabilities.simps)
qed

section \<open>The protocol of base address registers\<close>

lemma add_bar_Some:
  assumes "add_bar addr sz msk ty c = (Some i, c')"
  shows "i = 4 + num_bars c" "i < 10" "unat addr + unat sz < 2 ^ 32" "sz \<noteq> 0"
    "c' = c\<lparr>registers := (registers c)[i := (ucast addr AND msk) OR ty],
       writable_bits := (writable_bits c)[i := ucast (NOT (sz - 1))], num_bars := num_bars c + 1\<rparr>"
proof -
  obtain e where e: "checked_add addr sz = Some e" "e \<le> 0xffffffff"
    using assms by (auto simp: add_bar_def Let_def split: option.splits if_splits)
  then show "unat addr + unat sz < 2 ^ 32"
    using unat_add_no_wrap [of addr sz] by (simp add: checked_add_Some word_le_nat_alt)
  show "sz \<noteq> 0" using assms by (auto simp: add_bar_def count_ones_def split: if_splits)
  show "i = 4 + num_bars c" "i < 10"
    "c' = c\<lparr>registers := (registers c)[i := (ucast addr AND msk) OR ty],
       writable_bits := (writable_bits c)[i := ucast (NOT (sz - 1))], num_bars := num_bars c + 1\<rparr>"
    using assms by (auto simp: add_bar_def Let_def split: option.splits if_splits)
qed

lemma ucast_NOT_size: "(ucast (NOT (sz - 1 :: u64)) :: u32) = NOT (ucast sz - 1)"
proof -
  have "(ucast (sz - 1) :: u32) = ucast sz - 1"
    by (simp add: ucast_diff)
  moreover have "(ucast (NOT (sz - 1)) :: u32) = NOT (ucast (sz - 1))"
    by (rule bit_word_eqI) (simp add: bit_simps)
  ultimately show ?thesis by simp
qed



text \<open>
  A dword write to the register of an I/O region clears its type bit, which is not
  writable: writing back the very value just read turns the region into a memory region.
  The same write byte by byte keeps the bit.
\<close>

theorem pci_io_bar_type_lost:
  "let c = snd (add_io_region 0xc000 0x10 (pc_new 1 2 NetworkController 0 DeviceHeader 3 4)) in
   read_reg c 4 = 0xc001 \<and> read_reg (write_reg 4 0xc001 c) 4 = 0xc000 \<and>
   read_reg (write_byte 16 0x01 (write_byte 17 0xc0 c)) 4 = 0xc001"
  by (simp add: add_io_region_def add_bar_def checked_add_def pc_new_def Let_def count_ones_def upt_rec
      read_reg_def write_reg_def write_byte_def write_field_def)

end
