(* ===== verification/Proxy.thy ===== *)
theory Proxy
  imports Bus
begin

text \<open>
  Devices that run in a child process (\<^verbatim>\<open>devices/src/proxy.rs\<close>): the fixed size messages,
  the loop of the child, and the calls of the parent, which sends a command over a
  datagram socket and waits for the answer with a time-out. Both ends of the socket are
  queues of messages; how far the child gets before the parent's wait times out is a
  schedule.
\<close>

section \<open>The operations of a device\<close>

text \<open>The methods of \<^verbatim>\<open>BusDevice\<close>, with the two that concern PCI configuration.\<close>

record 'd device_ops =
  op_read :: "u64 \<Rightarrow> u8 list \<Rightarrow> 'd \<Rightarrow> (u8 list \<times> 'd) outcome"
  op_write :: "u64 \<Rightarrow> u8 list \<Rightarrow> 'd \<Rightarrow> 'd outcome"
  op_config_write :: "usize \<Rightarrow> u64 \<Rightarrow> u8 list \<Rightarrow> 'd \<Rightarrow> 'd outcome"
  op_config_read :: "usize \<Rightarrow> 'd \<Rightarrow> u32 outcome"

section \<open>Messages\<close>

datatype command = Cmd_Read | Cmd_Write | Cmd_ReadConfig | Cmd_WriteConfig | Cmd_Shutdown

primrec command_code :: "command \<Rightarrow> u32" where
  "command_code Cmd_Read = 0"
| "command_code Cmd_Write = 1"
| "command_code Cmd_ReadConfig = 2"
| "command_code Cmd_WriteConfig = 3"
| "command_code Cmd_Shutdown = 4"

text \<open>
  The message of \<^verbatim>\<open>send_cmd\<close> and of \<^verbatim>\<open>send_config_cmd\<close>; the native byte order is
  little endian. Data that does not fit into the buffer panics.
\<close>

definition send_cmd_msg :: "command \<Rightarrow> u64 \<Rightarrow> u32 \<Rightarrow> u8 list \<Rightarrow> u8 list outcome" where
  "send_cmd_msg cmd off len data =
     (let buf = replicate 24 0;
          buf = splice 0 (to_le (command_code cmd)) buf;
          buf = splice 4 (to_le len) buf;
          buf = splice 8 (to_le off) buf
      in if 16 + length data \<le> 24 then Return (splice 16 data buf) else Panic)"

definition send_config_msg :: "command \<Rightarrow> u32 \<Rightarrow> u64 \<Rightarrow> u8 list \<Rightarrow> u8 list outcome" where
  "send_config_msg cmd reg_idx off data =
     (let buf = replicate 24 0;
          buf = splice 0 (to_le (command_code cmd)) buf;
          buf = splice 4 (to_le reg_idx) buf;
          buf = splice 8 (to_le off) buf;
          buf = splice 16 (to_le (word_of_nat (length data) :: u32)) buf
      in if 20 + length data \<le> 24 then Return (splice 20 data buf) else Panic)"

abbreviation read_u32 :: "nat \<Rightarrow> u8 list \<Rightarrow> u32" where
  "read_u32 i buf \<equiv> from_le (slice i 4 buf)"

abbreviation read_u64 :: "nat \<Rightarrow> u8 list \<Rightarrow> u64" where
  "read_u64 i buf \<equiv> from_le (slice i 8 buf)"

section \<open>The child process\<close>

text \<open>
  One turn of the loop of \<^verbatim>\<open>child_proc\<close> for a message that was received: the answer, if
  one is sent, whether the loop goes on, and the device.
\<close>

definition child_turn :: "'d device_ops \<Rightarrow> u8 list \<Rightarrow> 'd \<Rightarrow> (u8 list option \<times> bool \<times> 'd) outcome" where
  "child_turn ops buf d =
     (if length buf \<noteq> 24 then Return (None, False, d)
      else
        let cmd = read_u32 0 buf in
        if cmd = command_code Cmd_Read then
          (let len = unat (read_u32 4 buf); off = read_u64 8 buf in
           if 16 + len \<le> 24 then
             outcome_bind (op_read ops off (slice 16 len buf) d)
               (\<lambda>(data, d'). Return (Some (splice 16 data buf), True, d'))
           else Panic)
        else if cmd = command_code Cmd_Write then
          (let len = unat (read_u32 4 buf); off = read_u64 8 buf in
           if 16 + len \<le> 24 then
             outcome_bind (op_write ops off (slice 16 len buf) d) (\<lambda>d'. Return (Some buf, True, d'))
           else Panic)
        else if cmd = command_code Cmd_ReadConfig then
          (let reg_idx = ucast (read_u32 4 buf) in
           outcome_bind (op_config_read ops reg_idx d)
             (\<lambda>v. Return (Some (buf[16 := ucast v, 17 := ucast (drop_bit 8 v), 18 := ucast (drop_bit 16 v),
                 19 := ucast (drop_bit 24 v)]), True, d)))
        else if cmd = command_code Cmd_WriteConfig then
          (let reg_idx = ucast (read_u32 4 buf);
               off = ucast (read_u32 8 buf);
               len = unat (read_u32 16 buf)
           in if 20 + len \<le> 24 then
                outcome_bind (op_config_write ops reg_idx off (slice 20 len buf) d)
                  (\<lambda>d'. Return (Some buf, True, d'))
              else Panic)
        else if cmd = command_code Cmd_Shutdown then Return (Some buf, False, d)
        else Return (None, False, d))"

text \<open>
  The parent and its child: the two queues of the socket pair, the device while the child
  runs (a child that leaves its loop or panics is gone), and how many messages the child
  handles during each wait of the parent.
\<close>

record 'd proxy =
  to_child :: "u8 list list"
  to_parent :: "u8 list list"
  child :: "'d option"
  schedule :: "nat \<Rightarrow> nat"

definition proxy_new :: "'d \<Rightarrow> (nat \<Rightarrow> nat) \<Rightarrow> 'd proxy" where
  "proxy_new d sched = \<lparr>to_child = [], to_parent = [], child = Some d, schedule = sched\<rparr>"

definition child_step :: "'d device_ops \<Rightarrow> 'd proxy \<Rightarrow> 'd proxy" where
  "child_step ops s =
     (case (child s, to_child s) of
        (Some d, m # ms) \<Rightarrow>
          (case child_turn ops m d of
             Panic \<Rightarrow> s\<lparr>to_child := ms, child := None\<rparr>
           | Return (reply, running, d') \<Rightarrow>
               s\<lparr>to_child := ms, to_parent := to_parent s @ (case reply of Some r \<Rightarrow> [r] | None \<Rightarrow> []),
                 child := (if running then Some d' else None)\<rparr>)
      | _ \<Rightarrow> s)"

section \<open>The calls of the parent\<close>

text \<open>A message cannot be sent to a child that is gone.\<close>

definition sock_send :: "u8 list \<Rightarrow> 'd proxy \<Rightarrow> (unit + unit) \<times> 'd proxy" where
  "sock_send m s = (if child s = None then (Inl (), s) else (Inr (), s\<lparr>to_child := to_child s @ [m]\<rparr>))"

text \<open>The wait: the child works as far as the schedule lets it, then the oldest answer is
  taken, or the wait has timed out.\<close>

definition sock_recv :: "'d device_ops \<Rightarrow> 'd proxy \<Rightarrow> (unit + u8 list) \<times> 'd proxy" where
  "sock_recv ops s =
     (let s' = ((child_step ops) ^^ (schedule s 0)) (s\<lparr>schedule := \<lambda>n. schedule s (Suc n)\<rparr>) in
      case to_parent s' of [] \<Rightarrow> (Inl (), s') | m # ms \<Rightarrow> (Inr m, s'\<lparr>to_parent := ms\<rparr>))"

definition recv_resp :: "'d device_ops \<Rightarrow> u8 list \<Rightarrow> 'd proxy \<Rightarrow> (u8 list \<times> 'd proxy) outcome" where
  "recv_resp ops data s =
     (case sock_recv ops s of
        (Inl _, s') \<Rightarrow> Return (data, s')
      | (Inr m, s') \<Rightarrow>
          if 16 + length data \<le> 24 then Return (slice 16 (length data) m, s') else Panic)"

definition proxy_wait :: "'d device_ops \<Rightarrow> 'd proxy \<Rightarrow> 'd proxy" where
  "proxy_wait ops s = snd (sock_recv ops s)"

definition proxy_read :: "'d device_ops \<Rightarrow> u64 \<Rightarrow> u8 list \<Rightarrow> 'd proxy \<Rightarrow> (u8 list \<times> 'd proxy) outcome" where
  "proxy_read ops off data s =
     outcome_bind (send_cmd_msg Cmd_Read off (word_of_nat (length data)) [])
       (\<lambda>m. case sock_send m s of
          (Inl _, s') \<Rightarrow> Return (data, s')
        | (Inr _, s') \<Rightarrow> recv_resp ops data s')"

definition proxy_write :: "'d device_ops \<Rightarrow> u64 \<Rightarrow> u8 list \<Rightarrow> 'd proxy \<Rightarrow> 'd proxy outcome" where
  "proxy_write ops off data s =
     outcome_bind (send_cmd_msg Cmd_Write off (word_of_nat (length data)) data)
       (\<lambda>m. case sock_send m s of
          (Inl _, s') \<Rightarrow> Return s'
        | (Inr _, s') \<Rightarrow> Return (proxy_wait ops s'))"

definition proxy_config_register_write ::
  "'d device_ops \<Rightarrow> usize \<Rightarrow> u64 \<Rightarrow> u8 list \<Rightarrow> 'd proxy \<Rightarrow> 'd proxy outcome" where
  "proxy_config_register_write ops reg_idx off data s =
     outcome_bind (send_config_msg Cmd_WriteConfig (ucast reg_idx) off data)
       (\<lambda>m. case sock_send m s of
          (Inl _, s') \<Rightarrow> Return s'
        | (Inr _, s') \<Rightarrow> Return (proxy_wait ops s'))"

definition proxy_config_register_read :: "'d device_ops \<Rightarrow> usize \<Rightarrow> 'd proxy \<Rightarrow> (u32 \<times> 'd proxy) outcome" where
  "proxy_config_register_read ops reg_idx s =
     (let data = replicate 4 0 in
      outcome_bind (send_config_msg Cmd_ReadConfig (ucast reg_idx) 0 [])
        (\<lambda>m. outcome_bind
           (case sock_send m s of
              (Inl _, s') \<Rightarrow> Return (data, s')
            | (Inr _, s') \<Rightarrow> recv_resp ops data s')
           (\<lambda>(data, s'). Return (from_le data, s'))))"

definition proxy_drop :: "'d proxy \<Rightarrow> 'd proxy outcome" where
  "proxy_drop s =
     outcome_bind (send_cmd_msg Cmd_Shutdown 0 0 []) (\<lambda>m. Return (snd (sock_send m s)))"

section \<open>The messages decode to what was encoded\<close>

lemma zero_tail: "off + n \<le> m \<Longrightarrow> slice off n (replicate m x) = replicate n x"
  by (simp add: slice_def)

lemma send_cmd_msg_decodes:
  assumes "length data \<le> 8"
  shows "\<exists>m. send_cmd_msg cmd off len data = Return m \<and> length m = 24 \<and>
    read_u32 0 m = command_code cmd \<and> read_u32 4 m = len \<and> read_u64 8 m = off \<and>
    slice 16 (length data) m = data \<and> (data = [] \<longrightarrow> (\<forall>n \<le> 8. slice 16 n m = replicate n 0))"
proof -
  let ?b1 = "splice 0 (to_le (command_code cmd)) (replicate 24 0)"
  let ?b2 = "splice 4 (to_le len) ?b1"
  let ?b3 = "splice 8 (to_le off) ?b2"
  have len: "length ?b1 = 24" "length ?b2 = 24" "length ?b3 = 24" by (simp_all add: length_splice)
  have "send_cmd_msg cmd off len data = Return (splice 16 data ?b3)"
    using assms by (simp add: send_cmd_msg_def Let_def)
  moreover have "read_u32 0 (splice 16 data ?b3) = command_code cmd"
    using assms len slice_splice_same [of 0 "to_le (command_code cmd)" "replicate 24 0"]
    by (simp add: slice_splice_disjoint)
  moreover have "read_u32 4 (splice 16 data ?b3) = len"
    using assms len slice_splice_same [of 4 "to_le len" ?b1] by (simp add: slice_splice_disjoint)
  moreover have "read_u64 8 (splice 16 data ?b3) = off"
    using assms len slice_splice_same [of 8 "to_le off" ?b2] by (simp add: slice_splice_disjoint)
  moreover have "slice 16 (length data) (splice 16 data ?b3) = data"
    using assms len by (simp add: slice_splice_same)
  moreover have "slice 16 n (splice 16 [] ?b3) = replicate n 0" if "n \<le> 8" for n
    using that len by (simp add: slice_splice_disjoint zero_tail)
  ultimately show ?thesis using assms len by (auto simp: length_splice)
qed

lemma slice_splice_prefix:
  "off + length src \<le> length dst \<Longrightarrow> n \<le> length src \<Longrightarrow> slice off n (splice off src dst) = take n src"
  by (simp add: splice_def slice_def)

lemma low_half_le: "(from_le (take 4 (to_le (w :: u64))) :: u32) = ucast w"
proof (rule bit_word_eqI)
  fix i :: nat assume "i < LENGTH(32)"
  then show "bit (from_le (take 4 (to_le w)) :: u32) i \<longleftrightarrow> bit (ucast w :: u32) i"
    by (auto simp: bit_from_le bit_to_le_nth bit_simps)
qed

lemma send_config_msg_decodes:
  assumes "length data \<le> 4"
  shows "\<exists>m. send_config_msg cmd reg_idx off data = Return m \<and> length m = 24 \<and>
    read_u32 0 m = command_code cmd \<and> read_u32 4 m = reg_idx \<and> read_u32 8 m = ucast off \<and>
    read_u32 16 m = word_of_nat (length data) \<and> slice 20 (length data) m = data"
proof -
  let ?len = "word_of_nat (length data) :: u32"
  let ?b1 = "splice 0 (to_le (command_code cmd)) (replicate 24 0)"
  let ?b2 = "splice 4 (to_le reg_idx) ?b1"
  let ?b3 = "splice 8 (to_le off) ?b2"
  let ?b4 = "splice 16 (to_le ?len) ?b3"
  have len: "length ?b1 = 24" "length ?b2 = 24" "length ?b3 = 24" "length ?b4 = 24"
    by (simp_all add: length_splice)
  have "send_config_msg cmd reg_idx off data = Return (splice 20 data ?b4)"
    using assms by (simp add: send_config_msg_def Let_def)
  moreover have "read_u32 0 (splice 20 data ?b4) = command_code cmd"
    using assms len slice_splice_same [of 0 "to_le (command_code cmd)" "replicate 24 0"]
    by (simp add: slice_splice_disjoint)
  moreover have "read_u32 4 (splice 20 data ?b4) = reg_idx"
    using assms len slice_splice_same [of 4 "to_le reg_idx" ?b1] by (simp add: slice_splice_disjoint)
  moreover have "read_u32 8 (splice 20 data ?b4) = ucast off"
    using assms len by (simp add: slice_splice_disjoint slice_splice_prefix low_half_le)
  moreover have "read_u32 16 (splice 20 data ?b4) = ?len"
    using assms len slice_splice_same [of 16 "to_le ?len" ?b3] by (simp add: slice_splice_disjoint)
  moreover have "slice 20 (length data) (splice 20 data ?b4) = data"
    using assms len by (simp add: slice_splice_same)
  ultimately show ?thesis using assms len by (auto simp: length_splice)
qed

section \<open>A panic of the device does not reach the parent\<close>

text \<open>
  A device fills the buffer it is given (a slice has a fixed length), and every answer in
  the queue is a whole message.
\<close>

definition ops_sized :: "'d device_ops \<Rightarrow> bool" where
  "ops_sized ops \<longleftrightarrow> (\<forall>off data d data' d'. op_read ops off data d = Return (data', d') \<longrightarrow>
     length data' = length data)"

definition proxy_inv :: "'d device_ops \<Rightarrow> 'd proxy \<Rightarrow> bool" where
  "proxy_inv ops s \<longleftrightarrow> ops_sized ops \<and> (\<forall>m \<in> set (to_parent s). length m = 24)"

lemma child_turn_sized:
  assumes "ops_sized ops" "child_turn ops m d = Return (Some r, running, d')"
  shows "length r = 24"
proof -
  have m: "length m = 24" using assms(2) by (auto simp: child_turn_def split: if_splits)
  have rd: "length data' = n"
    if "op_read ops off (slice 16 n m) d = Return (data', d2)" "16 + n \<le> 24" for off n data' d2
    using assms(1) that m unfolding ops_sized_def by fastforce
  show ?thesis
    using assms(2) m
    by (auto simp: child_turn_def Let_def outcome_bind_Return split: if_splits prod.splits dest!: rd)
qed

lemma child_step_inv: "proxy_inv ops s \<Longrightarrow> proxy_inv ops (child_step ops s)"
  by (auto simp: proxy_inv_def child_step_def child_turn_sized
      split: option.splits list.splits outcome.splits prod.splits)

lemma child_steps_inv: "proxy_inv ops s \<Longrightarrow> proxy_inv ops ((child_step ops ^^ n) s)"
  by (induction n) (simp_all add: child_step_inv)

lemma sock_send_inv: "proxy_inv ops s \<Longrightarrow> proxy_inv ops (snd (sock_send m s))"
  by (simp add: sock_send_def proxy_inv_def)

lemma sock_recv_inv:
  assumes "proxy_inv ops s" "sock_recv ops s = (r, s')"
  shows "proxy_inv ops s'" "r = Inr m \<Longrightarrow> length m = 24"
proof -
  let ?s = "s\<lparr>schedule := \<lambda>n. schedule s (Suc n)\<rparr>"
  have "proxy_inv ops ?s" using assms(1) by (simp add: proxy_inv_def)
  then have "proxy_inv ops ((child_step ops ^^ schedule s 0) ?s)" by (rule child_steps_inv)
  then show "proxy_inv ops s'" "r = Inr m \<Longrightarrow> length m = 24"
    using assms(2) by (auto simp: sock_recv_def Let_def proxy_inv_def split: list.splits)
qed

lemma recv_resp_total:
  assumes "proxy_inv ops s" "length data \<le> 8"
  shows "\<exists>data' s'. recv_resp ops data s = Return (data', s') \<and> length data' = length data \<and>
    proxy_inv ops s'"
  using sock_recv_inv [OF assms(1)] assms(2)
  by (cases "sock_recv ops s") (auto simp: recv_resp_def split: sum.splits)

lemma proxy_wait_inv: "proxy_inv ops s \<Longrightarrow> proxy_inv ops (proxy_wait ops s)"
  by (metis proxy_wait_def sock_recv_inv(1) prod.collapse)

lemma proxy_read_total:
  assumes "proxy_inv ops s" "length data \<le> 8"
  shows "\<exists>data' s'. proxy_read ops off data s = Return (data', s') \<and> length data' = length data \<and>
    proxy_inv ops s'"
proof -
  obtain m where "send_cmd_msg Cmd_Read off (word_of_nat (length data)) [] = Return m"
    using send_cmd_msg_decodes [of "[]" Cmd_Read off "word_of_nat (length data)"] by auto
  moreover obtain r s1 where s1: "sock_send m s = (r, s1)" by (cases "sock_send m s")
  moreover have "proxy_inv ops s1" using sock_send_inv [OF assms(1), of m] s1 by simp
  ultimately show ?thesis using recv_resp_total [of ops s1] assms(2)
    by (cases r) (auto simp: proxy_read_def)
qed

lemma proxy_write_total:
  assumes "proxy_inv ops s" "length data \<le> 8"
  shows "\<exists>s'. proxy_write ops off data s = Return s' \<and> proxy_inv ops s'"
proof -
  obtain m where "send_cmd_msg Cmd_Write off (word_of_nat (length data)) data = Return m"
    using send_cmd_msg_decodes [OF assms(2)] by blast
  moreover obtain r s1 where s1: "sock_send m s = (r, s1)" by (cases "sock_send m s")
  moreover have "proxy_inv ops s1" using sock_send_inv [OF assms(1), of m] s1 by simp
  ultimately show ?thesis using proxy_wait_inv [of ops s1]
    by (cases r) (auto simp: proxy_write_def)
qed

lemma proxy_config_write_total:
  assumes "proxy_inv ops s" "length data \<le> 4"
  shows "\<exists>s'. proxy_config_register_write ops reg_idx off data s = Return s' \<and> proxy_inv ops s'"
proof -
  obtain m where "send_config_msg Cmd_WriteConfig (ucast reg_idx) off data = Return m"
    using send_config_msg_decodes [OF assms(2)] by blast
  moreover obtain r s1 where s1: "sock_send m s = (r, s1)" by (cases "sock_send m s")
  moreover have "proxy_inv ops s1" using sock_send_inv [OF assms(1), of m] s1 by simp
  ultimately show ?thesis using proxy_wait_inv [of ops s1]
    by (cases r) (auto simp: proxy_config_register_write_def)
qed

lemma proxy_config_read_total:
  assumes "proxy_inv ops s"
  shows "\<exists>v s'. proxy_config_register_read ops reg_idx s = Return (v, s') \<and> proxy_inv ops s'"
proof -
  obtain m where "send_config_msg Cmd_ReadConfig (ucast reg_idx) 0 [] = Return m"
    using send_config_msg_decodes [of "[]" Cmd_ReadConfig "ucast reg_idx" 0] by auto
  moreover obtain r s1 where s1: "sock_send m s = (r, s1)" by (cases "sock_send m s")
  moreover have "proxy_inv ops s1" using sock_send_inv [OF assms, of m] s1 by simp
  ultimately show ?thesis using recv_resp_total [of ops s1 "replicate 4 0"]
    by (cases r) (auto simp: proxy_config_register_read_def)
qed

text \<open>
  The contract of a bus device holds of every proxy, whatever the device behind it does
  and however slow the child is, for accesses of at most eight bytes.
\<close>

interpretation proxy_dev: bus_device "proxy_read ops" "proxy_write ops" "proxy_inv ops" "\<lambda>_ _ n. n \<le> 8"
  by unfold_locales (auto dest: proxy_read_total proxy_write_total)

section \<open>A proxy is transparent\<close>

lemma child_step_idle [simp]: "to_child s = [] \<Longrightarrow> child_step ops s = s"
  by (simp add: child_step_def split: option.splits)

lemma child_steps_idle: "to_child s = [] \<Longrightarrow> (child_step ops ^^ n) s = s"
  by (induction n) simp_all

lemma sock_recv_timely:
  assumes "to_child s = [m]" "to_parent s = []" "child s = Some d" "0 < schedule s 0"
    and "child_turn ops m d = Return (Some r, True, d')"
  shows "sock_recv ops s =
    (Inr r, s\<lparr>to_child := [], child := Some d', schedule := \<lambda>n. schedule s (Suc n)\<rparr>)"
proof -
  obtain k where k: "schedule s 0 = Suc k" using assms(4) gr0_conv_Suc by auto
  show ?thesis
    using assms by (simp add: sock_recv_def k funpow_Suc_right child_steps_idle Let_def child_step_def
        del: funpow.simps)
qed

lemma len_roundtrip: "n \<le> 8 \<Longrightarrow> unat (word_of_nat n :: u32) = n"
  by (simp add: unsigned_of_nat take_bit_nat_eq_self)

lemma narrow_widen: "unat w < 2 ^ 32 \<Longrightarrow> ucast (ucast (w :: u64) :: u32) = w"
  by (simp add: word_unat_eq_iff unsigned_ucast_eq unsigned_take_bit_eq take_bit_nat_eq_self)

lemma child_turn_read:
  assumes "length m = 24" "read_u32 0 m = command_code Cmd_Read" "read_u32 4 m = word_of_nat n" "n \<le> 8"
    and "op_read ops (read_u64 8 m) (slice 16 n m) d = Return (data', d')"
  shows "child_turn ops m d = Return (Some (splice 16 data' m), True, d')"
  using assms by (simp add: child_turn_def Let_def len_roundtrip)

lemma sock_send_running:
  "child s = Some d \<Longrightarrow> sock_send m s = (Inr (), s\<lparr>to_child := to_child s @ [m]\<rparr>)"
  by (simp add: sock_send_def)

text \<open>What the proxy looks like after a call that the child answered in time.\<close>

definition proxy_served :: "'d \<Rightarrow> 'd proxy \<Rightarrow> 'd proxy" where
  "proxy_served d s = s\<lparr>child := Some d, schedule := \<lambda>n. schedule s (Suc n)\<rparr>"

lemma proxy_read_served:
  assumes "to_child s = []" "to_parent s = []" "child s = Some d" "0 < schedule s 0" "length data \<le> 8"
    and "op_read ops off (replicate (length data) 0) d = Return (data', d')" "length data' = length data"
  shows "proxy_read ops off data s = Return (data', proxy_served d' s)"
proof -
  obtain m where m: "send_cmd_msg Cmd_Read off (word_of_nat (length data)) [] = Return m"
    "length m = 24" "read_u32 0 m = command_code Cmd_Read" "read_u32 4 m = word_of_nat (length data)"
    "read_u64 8 m = off" "slice 16 (length data) m = replicate (length data) 0"
    using send_cmd_msg_decodes [of "[]" Cmd_Read off "word_of_nat (length data)"] assms(5) by auto
  have "child_turn ops m d = Return (Some (splice 16 data' m), True, d')"
    using assms(5, 6) m child_turn_read [of m "length data" ops d data' d'] by simp
  then have "sock_recv ops (s\<lparr>to_child := [m]\<rparr>) = (Inr (splice 16 data' m), proxy_served d' s)"
    using assms sock_recv_timely [of "s\<lparr>to_child := [m]\<rparr>" m d ops] by (simp add: proxy_served_def)
  then show ?thesis
    using assms m slice_splice_same [of 16 data' m]
    by (simp add: proxy_read_def sock_send_running recv_resp_def)
qed

lemma proxy_write_served:
  assumes "to_child s = []" "to_parent s = []" "child s = Some d" "0 < schedule s 0" "length data \<le> 8"
    and "op_write ops off data d = Return d'"
  shows "proxy_write ops off data s = Return (proxy_served d' s)"
proof -
  obtain m where m: "send_cmd_msg Cmd_Write off (word_of_nat (length data)) data = Return m"
    "length m = 24" "read_u32 0 m = command_code Cmd_Write" "read_u32 4 m = word_of_nat (length data)"
    "read_u64 8 m = off" "slice 16 (length data) m = data"
    using send_cmd_msg_decodes [OF assms(5)] by blast
  have "child_turn ops m d = Return (Some m, True, d')"
    using assms(5, 6) m by (simp add: child_turn_def Let_def len_roundtrip)
  then have "sock_recv ops (s\<lparr>to_child := [m]\<rparr>) = (Inr m, proxy_served d' s)"
    using assms sock_recv_timely [of "s\<lparr>to_child := [m]\<rparr>" m d ops] by (simp add: proxy_served_def)
  then show ?thesis
    using assms m by (simp add: proxy_write_def sock_send_running proxy_wait_def)
qed

lemma proxy_config_write_served:
  assumes "to_child s = []" "to_parent s = []" "child s = Some d" "0 < schedule s 0" "length data \<le> 4"
    and "unat reg_idx < 2 ^ 32" "unat off < 2 ^ 32" "op_config_write ops reg_idx off data d = Return d'"
  shows "proxy_config_register_write ops reg_idx off data s = Return (proxy_served d' s)"
proof -
  obtain m where m: "send_config_msg Cmd_WriteConfig (ucast reg_idx) off data = Return m"
    "length m = 24" "read_u32 0 m = command_code Cmd_WriteConfig" "read_u32 4 m = ucast reg_idx"
    "read_u32 8 m = ucast off" "read_u32 16 m = word_of_nat (length data)" "slice 20 (length data) m = data"
    using send_config_msg_decodes [OF assms(5)] by blast
  have "child_turn ops m d = Return (Some m, True, d')"
    using assms(5-8) m by (simp add: child_turn_def Let_def len_roundtrip narrow_widen)
  then have "sock_recv ops (s\<lparr>to_child := [m]\<rparr>) = (Inr m, proxy_served d' s)"
    using assms sock_recv_timely [of "s\<lparr>to_child := [m]\<rparr>" m d ops] by (simp add: proxy_served_def)
  then show ?thesis
    using assms m by (simp add: proxy_config_register_write_def sock_send_running proxy_wait_def)
qed

lemma config_bytes:
  assumes "length m = 24"
  shows "from_le (slice 16 4 (m[16 := ucast v, 17 := ucast (drop_bit 8 v), 18 := ucast (drop_bit 16 v),
    19 := ucast (drop_bit 24 v)])) = (v :: u32)"
proof -
  let ?m = "m[16 := ucast v, 17 := ucast (drop_bit 8 v), 18 := ucast (drop_bit 16 v), 19 := ucast (drop_bit 24 v)]"
  have four: "[0..<4] = [0, 1, 2, 3 :: nat]" by (simp add: upt_rec)
  have "slice 16 4 ?m = map (\<lambda>i. ?m ! (16 + i)) [0..<4]"
    using assms by (intro nth_equalityI) (simp_all add: nth_slice)
  also have "\<dots> = to_le v" using assms by (simp add: four to_le_def)
  finally show ?thesis by simp
qed

lemma proxy_config_read_served:
  assumes "to_child s = []" "to_parent s = []" "child s = Some d" "0 < schedule s 0"
    and "unat reg_idx < 2 ^ 32" "op_config_read ops reg_idx d = Return v"
  shows "proxy_config_register_read ops reg_idx s = Return (v, proxy_served d s)"
proof -
  obtain m where m: "send_config_msg Cmd_ReadConfig (ucast reg_idx) 0 [] = Return m"
    "length m = 24" "read_u32 0 m = command_code Cmd_ReadConfig" "read_u32 4 m = ucast reg_idx"
    using send_config_msg_decodes [of "[]" Cmd_ReadConfig "ucast reg_idx" 0] by auto
  let ?r = "m[16 := ucast v, 17 := ucast (drop_bit 8 v), 18 := ucast (drop_bit 16 v), 19 := ucast (drop_bit 24 v)]"
  have "child_turn ops m d = Return (Some ?r, True, d)"
    using assms(5, 6) m by (simp add: child_turn_def Let_def narrow_widen)
  then have "sock_recv ops (s\<lparr>to_child := [m]\<rparr>) = (Inr ?r, proxy_served d s)"
    using assms sock_recv_timely [of "s\<lparr>to_child := [m]\<rparr>" m d ops] by (simp add: proxy_served_def)
  then show ?thesis
    using assms m config_bytes [OF m(2), of v]
    by (simp add: proxy_config_register_read_def sock_send_running recv_resp_def)
qed

text \<open>
  C22. A proxy whose child answers in time behaves as the device itself: a read of at most
  eight bytes gives what the device gives on a zeroed buffer, a write of at most eight bytes
  and a configuration write of at most four reach the device unchanged, a configuration
  read returns the device's value, and no message is left over. Register numbers and
  offsets of configuration accesses travel as 32 bits.
\<close>

theorem proxy_transparent:
  assumes "to_child s = []" "to_parent s = []" "child s = Some d" "0 < schedule s 0"
  shows "(length data \<le> 8 \<and> op_read ops off (replicate (length data) 0) d = Return (data', d1) \<and>
      length data' = length data \<longrightarrow> proxy_read ops off data s = Return (data', proxy_served d1 s)) \<and>
    (length data \<le> 8 \<and> op_write ops off data d = Return d2 \<longrightarrow>
      proxy_write ops off data s = Return (proxy_served d2 s)) \<and>
    (length data \<le> 4 \<and> unat reg_idx < 2 ^ 32 \<and> unat off < 2 ^ 32 \<and>
      op_config_write ops reg_idx off data d = Return d3 \<longrightarrow>
      proxy_config_register_write ops reg_idx off data s = Return (proxy_served d3 s)) \<and>
    (unat reg_idx < 2 ^ 32 \<and> op_config_read ops reg_idx d = Return v \<longrightarrow>
      proxy_config_register_read ops reg_idx s = Return (v, proxy_served d s))"
  using assms
  by (auto intro: proxy_read_served proxy_write_served proxy_config_write_served proxy_config_read_served)

text \<open>A device with one byte of memory, for the examples; a configuration access panics.\<close>

definition cell_ops :: "u8 device_ops" where
  "cell_ops = \<lparr>op_read = \<lambda>off data d. Return (map (\<lambda>_. d) data, d),
     op_write = \<lambda>off data d. Return (if data = [] then d else hd data),
     op_config_write = \<lambda>_ _ _ _. Panic, op_config_read = \<lambda>_ _. Panic\<rparr>"

theorem proxy_transparent_witness:
  "proxy_read cell_ops 0 [1, 2] (proxy_new 7 (\<lambda>_. 1)) = Return ([7, 7], proxy_new 7 (\<lambda>_. 1)) \<and>
   proxy_write cell_ops 0 [1, 2] (proxy_new 7 (\<lambda>_. 1)) = Return (proxy_new 1 (\<lambda>_. 1))"
  using proxy_transparent [of "proxy_new 7 (\<lambda>_. 1)" 7 "[1, 2]" cell_ops 0 "[7, 7]" 7 1]
  by (simp add: cell_ops_def proxy_new_def proxy_served_def)

text \<open>
  C23. Isolation: on a bus of proxied devices no sequence of accesses of at most eight
  bytes panics in the parent, even when the devices panic, the children are gone, or their
  answers come late.
\<close>

theorem proxy_isolates:
  assumes "bus_wf b" "ops_sized ops" "\<forall>(r, h) \<in> set b. \<forall>m \<in> set (to_parent (st h)). length m = 24"
    and "\<forall>x \<in> set xs. access_width x \<le> 8"
  shows "\<exists>st'. bus_run (proxy_read ops) (proxy_write ops) b xs st = Return st'"
proof -
  have "devices_ready (proxy_inv ops) (\<lambda>_ _ n. n \<le> 8) 8 b st"
    using assms(2, 3) by (auto simp: devices_ready_def proxy_inv_def)
  then show ?thesis using proxy_dev.bus_run_total [OF assms(1) _ assms(4)] by blast
qed

definition broken_ops :: "u8 device_ops" where
  "broken_ops = \<lparr>op_read = \<lambda>_ _ _. Panic, op_write = \<lambda>_ _ _. Panic,
     op_config_write = \<lambda>_ _ _ _. Panic, op_config_read = \<lambda>_ _. Panic\<rparr>"

theorem proxy_isolates_witness:
  "\<exists>st'. bus_run (proxy_read broken_ops) (proxy_write broken_ops)
     (snd (bus_insert () 0x1000 0x100 False bus_new))
     [Read_access 0x1004 [0, 0], Write_access 0x1004 [1]] (\<lambda>_. proxy_new 0 (\<lambda>n. n)) = Return st'"
  by (rule proxy_isolates)
    (simp_all add: bus_insert_def bus_new_def bus_wf_def range_ok_def ops_sized_def broken_ops_def proxy_new_def)

section \<open>A late answer\<close>



end
