(* ===== verification/Pci_Root.thy ===== *)
theory Pci_Root
  imports System_Allocator Pci_Configuration Proxy
begin

text \<open>
  PCI devices as bus devices (\<^verbatim>\<open>devices/src/pci/pci_device.rs\<close>) and the PCI root bridge
  with the configuration mechanism at ports 0xcf8 and 0xcfc
  (\<^verbatim>\<open>devices/src/pci/pci_root.rs\<close>). The devices run behind proxies, which the MMIO bus
  and the bridge share: both name them by a number and a store maps numbers to proxies.
\<close>

section \<open>PCI devices\<close>

datatype pci_device_error = IoAllocationFailed u64 | IoRegistrationFailed u64

text \<open>
  The trait \<^verbatim>\<open>PciDevice\<close>: a device gives access to its configuration registers and
  implements the accesses to its regions and their allocation.
\<close>

record ('d, 'ev, 'g) pci_ops =
  assign_irq :: "'ev \<Rightarrow> u32 \<Rightarrow> pci_interrupt_pin \<Rightarrow> 'd \<Rightarrow> 'd"
  allocate_io_bars :: "'g system_allocator \<Rightarrow> 'd \<Rightarrow>
    (pci_device_error + (u64 \<times> u64) list) \<times> 'g system_allocator \<times> 'd"
  config_registers :: "'d \<Rightarrow> pci_configuration"
  config_registers_upd :: "(pci_configuration \<Rightarrow> pci_configuration) \<Rightarrow> 'd \<Rightarrow> 'd"
  read_bar :: "u64 \<Rightarrow> u8 list \<Rightarrow> 'd \<Rightarrow> (u8 list \<times> 'd) outcome"
  write_bar :: "u64 \<Rightarrow> u8 list \<Rightarrow> 'd \<Rightarrow> 'd outcome"

definition pci_config_write :: "usize \<Rightarrow> u64 \<Rightarrow> u8 list \<Rightarrow> pci_configuration \<Rightarrow> pci_configuration" where
  "pci_config_write reg_idx off data regs =
     (if off + word_of_nat (length data) > 4 then regs
      else
        (case data of
           [b] \<Rightarrow> write_byte (unat (reg_idx * 4 + off)) b regs
         | [b0, b1] \<Rightarrow> write_word (unat (reg_idx * 4 + off)) (ucast b0 OR push_bit 8 (ucast b1)) regs
         | [_, _, _, _] \<Rightarrow> write_reg (unat reg_idx) (from_le data) regs
         | _ \<Rightarrow> regs))"

definition pci_config_read :: "usize \<Rightarrow> pci_configuration \<Rightarrow> u32" where
  "pci_config_read reg_idx regs = read_reg regs (unat reg_idx)"

text \<open>The implementation of \<^verbatim>\<open>BusDevice\<close> for every PCI device.\<close>

definition pci_bus_ops :: "('d, 'ev, 'g) pci_ops \<Rightarrow> 'd device_ops" where
  "pci_bus_ops p = \<lparr>op_read = read_bar p, op_write = write_bar p,
     op_config_write = \<lambda>reg_idx off data d. Return (config_registers_upd p (pci_config_write reg_idx off data) d),
     op_config_read = \<lambda>reg_idx d. Return (pci_config_read reg_idx (config_registers p d))\<rparr>"

section \<open>The root bridge\<close>

type_synonym 'd proxies = "nat \<Rightarrow> 'd proxy"

record pci_root =
  root_configuration :: pci_configuration
  config_address :: u32
  pci_devices :: "nat list"

definition pci_root_new :: pci_root where
  "pci_root_new = \<lparr>
     root_configuration = pc_new 0 0 BridgeDevice (bridge_register_value HostBridge) BridgeHeader 0 0,
     config_address = 0, pci_devices = []\<rparr>"

definition parse_config_address :: "u32 \<Rightarrow> bool \<times> usize \<times> usize \<times> usize \<times> usize" where
  "parse_config_address a =
     (a AND 0x80000000 \<noteq> 0,
      ucast (drop_bit 16 a AND 0x00ff),
      ucast (drop_bit 11 a AND 0x1f),
      ucast (drop_bit 8 a AND 0x07),
      ucast (drop_bit 2 a AND 0x3f))"

definition config_space_read ::
  "('d, 'ev, 'g) pci_ops \<Rightarrow> pci_root \<Rightarrow> 'd proxies \<Rightarrow> (u32 \<times> 'd proxies) outcome" where
  "config_space_read p r st =
     (let (enabled, bus_nr, device, _, register) = parse_config_address (config_address r) in
      if \<not> enabled \<or> bus_nr \<noteq> 0 then Return (0xffffffff, st)
      else if device = 0 then Return (pci_config_read register (root_configuration r), st)
      else
        (let i = unat (device - 1) in
         if i < length (pci_devices r) then
           (let h = pci_devices r ! i in
            outcome_bind (proxy_config_register_read (pci_bus_ops p) register (st h))
              (\<lambda>(v, d). Return (v, st(h := d))))
         else Return (0xffffffff, st)))"

definition config_space_write ::
  "('d, 'ev, 'g) pci_ops \<Rightarrow> u64 \<Rightarrow> u8 list \<Rightarrow> pci_root \<Rightarrow> 'd proxies \<Rightarrow> (pci_root \<times> 'd proxies) outcome" where
  "config_space_write p off data r st =
     (if off + word_of_nat (length data) > 4 then Return (r, st)
      else
        let (enabled, bus_nr, device, _, register) = parse_config_address (config_address r) in
        if \<not> enabled \<or> bus_nr \<noteq> 0 then Return (r, st)
        else if device = 0 then
          Return (r\<lparr>root_configuration := pci_config_write register off data (root_configuration r)\<rparr>, st)
        else
          (let i = unat (device - 1) in
           if i < length (pci_devices r) then
             (let h = pci_devices r ! i in
              outcome_bind (proxy_config_register_write (pci_bus_ops p) register off data (st h))
                (\<lambda>d. Return (r, st(h := d))))
           else Return (r, st)))"

text \<open>A shift of a 32 bit value takes the amount modulo 32.\<close>

definition set_config_address :: "u64 \<Rightarrow> u8 list \<Rightarrow> pci_root \<Rightarrow> pci_root" where
  "set_config_address off data r =
     (if off + word_of_nat (length data) > 4 then r
      else
        let upd = (\<lambda>msk val. r\<lparr>config_address := (config_address r AND NOT msk) OR val\<rparr>) in
        (case data of
           [b] \<Rightarrow> (let k = unat (off * 8) mod 32 in upd (push_bit k 0x000000ff) (push_bit k (ucast b)))
         | [b0, b1] \<Rightarrow>
             (let k = unat (off * 16) mod 32
              in upd (push_bit k 0x0000ffff) (push_bit k (push_bit 8 (ucast b1) OR ucast b0)))
         | [_, _, _, _] \<Rightarrow> upd 0xffffffff (from_le data)
         | _ \<Rightarrow> r))"

text \<open>The bridge as a bus device; the state is the bridge with the store of proxies.\<close>

definition pci_root_read ::
  "('d, 'ev, 'g) pci_ops \<Rightarrow> u64 \<Rightarrow> u8 list \<Rightarrow> pci_root \<times> 'd proxies \<Rightarrow>
    (u8 list \<times> pci_root \<times> 'd proxies) outcome" where
  "pci_root_read p off data rs =
     outcome_bind
       (if off \<le> 3 then Return (config_address (fst rs), snd rs)
        else if off \<le> 7 then config_space_read p (fst rs) (snd rs)
        else Return (0xffffffff, snd rs))
       (\<lambda>(val, st).
          let start = unat off mod 4 in
          Return
            (if start + length data \<le> 4
             then map (\<lambda>i. ucast (drop_bit (i * 8) val)) [start..<start + length data]
             else replicate (length data) 0xff, fst rs, st))"

definition pci_root_write ::
  "('d, 'ev, 'g) pci_ops \<Rightarrow> u64 \<Rightarrow> u8 list \<Rightarrow> pci_root \<times> 'd proxies \<Rightarrow> (pci_root \<times> 'd proxies) outcome" where
  "pci_root_write p off data rs =
     (if off \<le> 3 then Return (set_config_address off data (fst rs), snd rs)
      else if off \<le> 7 then config_space_write p (off - 4) data (fst rs) (snd rs)
      else Return rs)"

section \<open>Building the bridge\<close>

datatype pci_root_error =
  CreateEventFd | MmioRegistration bus_error | ProxyCreation | DeviceIoSpaceAllocation pci_device_error

text \<open>Registering the regions of a device on the MMIO bus stops at the first failure.\<close>

fun insert_ranges :: "nat \<Rightarrow> (u64 \<times> u64) list \<Rightarrow> nat bus \<Rightarrow> (bus_error + unit) \<times> nat bus" where
  "insert_ranges h [] b = (Inr (), b)"
| "insert_ranges h ((base, len) # rs) b =
     (case bus_insert h base len True b of
        (Inl e, b') \<Rightarrow> (Inl e, b')
      | (Inr _, b') \<Rightarrow> insert_ranges h rs b')"

text \<open>
  \<open>spawn\<close> is \<^verbatim>\<open>ProxyDevice::new\<close>, which can fail; the new proxy goes into the store
  under the number \<open>h\<close>.
\<close>

definition pci_root_add_device ::
  "('d, 'ev, 'g) pci_ops \<Rightarrow> ('d \<Rightarrow> 'd proxy option) \<Rightarrow> nat \<Rightarrow> 'd
    \<Rightarrow> pci_root \<times> 'd proxies \<times> nat bus \<times> 'g system_allocator
    \<Rightarrow> (pci_root_error + unit) \<times> pci_root \<times> 'd proxies \<times> nat bus \<times> 'g system_allocator" where
  "pci_root_add_device p spawn h dev = (\<lambda>(r, st, b, res).
     case allocate_io_bars p res dev of
       (Inl e, res', _) \<Rightarrow> (Inl (DeviceIoSpaceAllocation e), r, st, b, res')
     | (Inr ranges, res', dev') \<Rightarrow>
         (case spawn dev' of
            None \<Rightarrow> (Inl ProxyCreation, r, st, b, res')
          | Some proxy \<Rightarrow>
              (case insert_ranges h ranges b of
                 (Inl e, b') \<Rightarrow> (Inl (MmioRegistration e), r, st(h := proxy), b', res')
               | (Inr _, b') \<Rightarrow>
                   (Inr (), r\<lparr>pci_devices := pci_devices r @ [h]\<rparr>, st(h := proxy), b', res'))))"

definition pci_irq_pin :: "nat \<Rightarrow> pci_interrupt_pin" where
  "pci_irq_pin dev_idx =
     (if dev_idx mod 4 = 0 then IntA else if dev_idx mod 4 = 1 then IntB
      else if dev_idx mod 4 = 2 then IntC else IntD)"

text \<open>
  The loop of \<^verbatim>\<open>generate_root\<close> from device number \<open>i\<close>; \<open>evt_new i\<close> is the event created
  for that device. An exhausted pool of interrupts panics.
\<close>

fun generate_root_from ::
  "('d, 'ev, 'g) pci_ops \<Rightarrow> (nat \<Rightarrow> 'ev option) \<Rightarrow> ('d \<Rightarrow> 'd proxy option) \<Rightarrow> nat \<Rightarrow> 'd list
    \<Rightarrow> pci_root \<times> 'd proxies \<times> nat bus \<times> 'g system_allocator
    \<Rightarrow> ((pci_root_error + (u32 \<times> pci_interrupt_pin) list) \<times>
        pci_root \<times> 'd proxies \<times> nat bus \<times> 'g system_allocator) outcome" where
  "generate_root_from p evt_new spawn i [] s = Return (Inr [], s)"
| "generate_root_from p evt_new spawn i (dev # devs) (r, st, b, res) =
     (case evt_new i of
        None \<Rightarrow> Return (Inl CreateEventFd, r, st, b, res)
      | Some irqfd \<Rightarrow>
          (case allocate_irq res of
             (None, _) \<Rightarrow> Panic
           | (Some irq_num, res') \<Rightarrow>
               (let pin = pci_irq_pin i; dev' = assign_irq p irqfd irq_num pin dev in
                case pci_root_add_device p spawn i dev' (r, st, b, res') of
                  (Inl e, s') \<Rightarrow> Return (Inl e, s')
                | (Inr _, s') \<Rightarrow>
                    outcome_bind (generate_root_from p evt_new spawn (Suc i) devs s')
                      (\<lambda>(irqs, s''). Return (map_sum id ((#) (irq_num, pin)) irqs, s'')))))"

definition generate_root ::
  "('d, 'ev, 'g) pci_ops \<Rightarrow> (nat \<Rightarrow> 'ev option) \<Rightarrow> ('d \<Rightarrow> 'd proxy option) \<Rightarrow> 'd list \<Rightarrow> 'd proxies
    \<Rightarrow> nat bus \<Rightarrow> 'g system_allocator
    \<Rightarrow> ((pci_root_error + (u32 \<times> pci_interrupt_pin) list) \<times>
        pci_root \<times> 'd proxies \<times> nat bus \<times> 'g system_allocator) outcome" where
  "generate_root p evt_new spawn devs st mmio_bus resources =
     generate_root_from p evt_new spawn 0 devs (pci_root_new, st, mmio_bus, resources)"

section \<open>The bridge is a bus device\<close>

definition pci_root_inv :: "('d, 'ev, 'g) pci_ops \<Rightarrow> pci_root \<times> 'd proxies \<Rightarrow> bool" where
  "pci_root_inv p rs \<longleftrightarrow> pc_inv (root_configuration (fst rs)) \<and>
     (\<forall>h \<in> set (pci_devices (fst rs)). proxy_inv (pci_bus_ops p) (snd rs h))"

lemma pci_config_write_inv: "pc_inv regs \<Longrightarrow> pc_inv (pci_config_write reg_idx off data regs)"
  by (simp add: pci_config_write_def pc_op_inv split: list.splits)

lemma config_space_read_total:
  assumes "pci_root_inv p (r, st)"
  shows "\<exists>v st'. config_space_read p r st = Return (v, st') \<and> pci_root_inv p (r, st')"
proof -
  obtain en bus dev f reg where a: "parse_config_address (config_address r) = (en, bus, dev, f, reg)"
    by (cases "parse_config_address (config_address r)")
  show ?thesis
  proof (cases "en \<and> bus = 0 \<and> dev \<noteq> 0 \<and> unat (dev - 1) < length (pci_devices r)")
    case True
    let ?h = "pci_devices r ! unat (dev - 1)"
    have "proxy_inv (pci_bus_ops p) (st ?h)" using assms True by (simp add: pci_root_inv_def)
    from proxy_config_read_total [OF this, of reg] show ?thesis
      using True a assms by (auto simp: config_space_read_def pci_root_inv_def)
  next
    case False
    then show ?thesis using a assms by (auto simp: config_space_read_def)
  qed
qed

lemma width_guard:
  assumes "off + word_of_nat n \<le> (4 :: u64)" "off \<le> 3" "n < 2 ^ 63"
  shows "n \<le> 4"
proof -
  have "unat (word_of_nat n :: u64) = n" using assms(3) by (simp add: unsigned_of_nat take_bit_nat_eq_self)
  moreover have "unat off \<le> 3" using assms(2) by (simp add: word_le_nat_alt)
  ultimately have "unat (off + word_of_nat n) = unat off + n"
    using assms(3) by (subst unat_add_no_wrap) simp_all
  then show ?thesis using assms(1) by (simp add: word_le_nat_alt)
qed

lemma config_space_write_total:
  assumes "pci_root_inv p (r, st)" "off \<le> 3" "length data < 2 ^ 63"
  shows "\<exists>rs. config_space_write p off data r st = Return rs \<and> pci_root_inv p rs"
proof -
  obtain en bus dev f reg where a: "parse_config_address (config_address r) = (en, bus, dev, f, reg)"
    by (cases "parse_config_address (config_address r)")
  show ?thesis
  proof (cases "off + word_of_nat (length data) \<le> 4 \<and> en \<and> bus = 0 \<and> dev \<noteq> 0 \<and>
      unat (dev - 1) < length (pci_devices r)")
    case True
    let ?h = "pci_devices r ! unat (dev - 1)"
    have "proxy_inv (pci_bus_ops p) (st ?h)" using assms True by (simp add: pci_root_inv_def)
    moreover have "length data \<le> 4" using True assms by (auto intro: width_guard)
    ultimately show ?thesis
      using proxy_config_write_total [of "pci_bus_ops p" "st ?h" data reg off] True a assms
      by (auto simp: config_space_write_def pci_root_inv_def not_less)
  next
    case False
    then show ?thesis using a assms
      by (auto simp: config_space_write_def pci_root_inv_def pci_config_write_inv not_le)
  qed
qed

interpretation pci_root_dev: bus_device
  "pci_root_read p" "pci_root_write p" "pci_root_inv p" "\<lambda>_ _ n. n < 2 ^ 63"
proof unfold_locales
  fix rs :: "pci_root \<times> 'a proxies" and off :: u64 and data :: "u8 list"
  assume inv: "pci_root_inv p rs" and len: "length data < 2 ^ 63"
  obtain r st where rs: "rs = (r, st)" by (cases rs)
  show "\<exists>data' d'. pci_root_read p off data rs = Return (data', d') \<and> length data' = length data \<and>
      pci_root_inv p d' \<and> (\<lambda>_ n. n < 2 ^ 63) = (\<lambda>_ n. n < 2 ^ 63)"
    using config_space_read_total [OF inv [unfolded rs]] inv
    by (auto simp: rs pci_root_read_def Let_def)
  have "off - 4 \<le> 3" if "off \<le> 7" "\<not> off \<le> 3"
    using that by (simp add: word_le_nat_alt unat_sub_no_wrap)
  then show "\<exists>d'. pci_root_write p off data rs = Return d' \<and> pci_root_inv p d' \<and>
      (\<lambda>_ n. n < 2 ^ 63) = (\<lambda>_ n. n < 2 ^ 63)"
    using config_space_write_total [OF inv [unfolded rs] _ len, of "off - 4"] inv
    by (auto simp: rs pci_root_write_def set_config_address_def pci_root_inv_def Let_def split: list.splits)
qed

section \<open>The configuration mechanism\<close>

lemma parse_register_bound:
  assumes "parse_config_address a = (en, bus, dev, f, reg)"
  shows "unat reg < 64" "unat dev < 32"
proof -
  have "drop_bit 2 a AND 0x3f \<le> (0x3f :: u32)" "drop_bit 11 a AND 0x1f \<le> (0x1f :: u32)"
    by (rule word_and_le1)+
  then show "unat reg < 64" "unat dev < 32"
    using assms by (auto simp: parse_config_address_def word_le_nat_alt unat_ucast_up)
qed

lemma to_le_u32: "to_le (w :: u32) =
    [ucast w, ucast (drop_bit 8 w), ucast (drop_bit 16 w), ucast (drop_bit 24 w)]"
  by (simp add: to_le_def upt_rec)

lemma dword_bytes: "map (\<lambda>i. ucast (drop_bit (i * 8) (v :: u32))) [0..<4] = to_le v"
  by (simp add: to_le_def mult.commute)

lemma set_config_address_dword:
  "set_config_address 0 (to_le a) r = r\<lparr>config_address := a\<rparr>"
proof -
  have "set_config_address 0 (to_le a) r = r\<lparr>config_address := (config_address r AND NOT 0xffffffff) OR from_le (to_le a)\<rparr>"
    by (simp only: set_config_address_def to_le_u32) (simp add: Let_def)
  moreover have "NOT (0xffffffff :: u32) = 0" by simp
  ultimately show ?thesis by (simp only: and_zero_eq or.left_neutral from_le_to_le) simp
qed

text \<open>An idle proxy whose child runs the device \<open>d\<close> and answers in time.\<close>

definition proxy_idle :: "'d \<Rightarrow> 'd proxy \<Rightarrow> bool" where
  "proxy_idle d s \<longleftrightarrow> to_child s = [] \<and> to_parent s = [] \<and> child s = Some d \<and> 0 < schedule s 0"


text \<open>A device that is only a configuration space, for the examples.\<close>

definition plain_pci_ops :: "(pci_configuration, unit, unit) pci_ops" where
  "plain_pci_ops = \<lparr>assign_irq = \<lambda>_ irq pin. set_irq (ucast irq) pin,
     allocate_io_bars = \<lambda>res d. (Inr [], res, d), config_registers = id, config_registers_upd = id,
     read_bar = \<lambda>_ data d. Return (data, d), write_bar = \<lambda>_ _ d. Return d\<rparr>"


text \<open>
  A word written to the upper half of the address register at port 0xcfa lands in the
  lower half: the offset is multiplied by 16 instead of 8, and a shift of a 32 bit value by
  32 is a shift by zero.
\<close>

theorem pci_config_address_word:
  "config_address (set_config_address 2 [0x34, 0x12] (r\<lparr>config_address := 0xaabbccdd\<rparr>)) = 0xaabb1234"
  by (simp add: set_config_address_def Let_def)

section \<open>The bridge that is built\<close>

text \<open>
  What the allocation of a device's regions is relied on for: its ranges end below the top
  of the address space, and it does not give interrupts back.
\<close>

definition io_bars_ok :: "('d, 'ev, 'g) pci_ops \<Rightarrow> bool" where
  "io_bars_ok p \<longleftrightarrow> (\<forall>res dev x res' dev'. allocate_io_bars p res dev = (x, res', dev') \<longrightarrow>
     unat (next_irq res) \<le> unat (next_irq res') \<and>
     (\<forall>ranges. x = Inr ranges \<longrightarrow> (\<forall>(base, len) \<in> set ranges. unat base + unat len < 2 ^ 64)))"

text \<open>A bus that extends another one by routes to the devices of a set, at full addresses.\<close>

definition extends_bus :: "nat set \<Rightarrow> nat bus \<Rightarrow> nat bus \<Rightarrow> bool" where
  "extends_bus H b b' \<longleftrightarrow> (\<forall>a. get_device b a \<noteq> None \<longrightarrow> get_device b' a = get_device b a) \<and>
     (\<forall>a off h. get_device b a = None \<longrightarrow> get_device b' a = Some (off, h) \<longrightarrow> off = a \<and> h \<in> H)"

lemma extends_bus_refl [simp]: "extends_bus H b b"
  by (simp add: extends_bus_def)

lemma extends_bus_trans:
  "extends_bus H b b' \<Longrightarrow> extends_bus H' b' b'' \<Longrightarrow> H \<subseteq> K \<Longrightarrow> H' \<subseteq> K \<Longrightarrow> extends_bus K b b''"
  unfolding extends_bus_def by (metis option.exhaust subset_iff)

lemma insert_ranges_extends:
  assumes "bus_wf b" "\<forall>(base, len) \<in> set rs. unat base + unat len < 2 ^ 64"
    and "insert_ranges h rs b = (Inr u, b')"
  shows "bus_wf b' \<and> extends_bus {h} b b'"
  using assms
proof (induction h rs b rule: insert_ranges.induct)
  case (2 h base len rs b)
  obtain x b1 where ins: "bus_insert h base len True b = (x, b1)" by (cases "bus_insert h base len True b")
  then have x: "x = Inr ()" using "2.prems"(3) by (cases x) auto
  have wrap: "unat base + unat len < 2 ^ 64" using "2.prems"(2) by simp
  note acc = bus_insert_accepted [OF "2.prems"(1) wrap ins [unfolded x]]
  have "extends_bus {h} b b1" using acc(2, 3) by (auto simp: extends_bus_def split: if_splits)
  moreover have "bus_wf b' \<and> extends_bus {h} b1 b'"
    using "2.IH" [of x b1] "2.prems" acc(1) ins x by auto
  ultimately show ?case using extends_bus_trans [of "{h}" b b1 "{h}" b' "{h}"] by simp
qed simp

lemma add_device_sound:
  assumes "io_bars_ok p" "bus_wf b"
    and "pci_root_add_device p spawn h dev (r, st, b, res) = (Inr u, r', st', b', res')"
  shows "pci_devices r' = pci_devices r @ [h] \<and> unat (next_irq res) \<le> unat (next_irq res') \<and>
    bus_wf b' \<and> extends_bus {h} b b'"
proof -
  obtain x res1 dev1 where al: "allocate_io_bars p res dev = (x, res1, dev1)"
    by (cases "allocate_io_bars p res dev")
  obtain ranges where x: "x = Inr ranges"
    using assms(3) al by (cases x) (auto simp: pci_root_add_device_def)
  obtain proxy where sp: "spawn dev1 = Some proxy"
    using assms(3) al x by (cases "spawn dev1") (auto simp: pci_root_add_device_def)
  obtain y b1 where ins: "insert_ranges h ranges b = (y, b1)" by (cases "insert_ranges h ranges b")
  then have y: "y = Inr ()" "b1 = b'" "res1 = res'" "pci_devices r' = pci_devices r @ [h]"
    using assms(3) al x sp by (auto simp: pci_root_add_device_def split: sum.splits)
  have "\<forall>(base, len) \<in> set ranges. unat base + unat len < 2 ^ 64"
    "unat (next_irq res) \<le> unat (next_irq res1)"
    using assms(1) al x unfolding io_bars_ok_def by blast+
  then show ?thesis using insert_ranges_extends [OF assms(2) _ ins [unfolded y(1)]] y by simp
qed

lemma map_sum_Inr: "map_sum id f x = Inr y \<longleftrightarrow> (\<exists>z. x = Inr z \<and> y = f z)"
  by (cases x) auto

lemma generate_root_from_sound:
  assumes "io_bars_ok p"
  shows "bus_wf b \<Longrightarrow> generate_root_from p evt_new spawn i devs (r, st, b, res) = Return (Inr irqs, r', st', b', res') \<Longrightarrow>
    pci_devices r' = pci_devices r @ [i..<i + length devs] \<and>
    map snd irqs = map pci_irq_pin [i..<i + length devs] \<and>
    (\<forall>q \<in> set (map fst irqs). unat (next_irq res) \<le> unat q) \<and> distinct (map fst irqs) \<and>
    bus_wf b' \<and> extends_bus {i..<i + length devs} b b'"
proof (induction devs arbitrary: i r st b res irqs)
  case Nil
  then show ?case by simp
next
  case (Cons dev devs)
  obtain ev where ev: "evt_new i = Some ev" using Cons.prems(2) by (cases "evt_new i") auto
  have lim: "unat (next_irq res) < 2 ^ 32 - 1"
    using Cons.prems(2) ev by (auto simp: allocate_irq_unat split: if_splits)
  let ?q = "next_irq res" and ?res = "res\<lparr>next_irq := next_irq res + 1\<rparr>"
  have irq: "allocate_irq res = (Some ?q, ?res)" using lim by (simp add: allocate_irq_unat)
  have up: "unat (?q + 1) = Suc (unat ?q)" using lim by (subst unat_add_no_wrap) simp_all
  obtain x r1 st1 b1 res1 where add:
    "pci_root_add_device p spawn i (assign_irq p ev ?q (pci_irq_pin i) dev) (r, st, b, ?res) = (x, r1, st1, b1, res1)"
    by (metis prod_cases5)
  have x: "x = Inr ()" using Cons.prems(2) ev irq add by (cases x) (auto simp: Let_def)
  note snd1 = add_device_sound [OF assms Cons.prems(1) add [unfolded x]]
  obtain rest where rest: "generate_root_from p evt_new spawn (Suc i) devs (r1, st1, b1, res1) =
      Return (Inr rest, r', st', b', res')" "irqs = (?q, pci_irq_pin i) # rest"
    using Cons.prems(2) ev irq add x
    by (auto simp: Let_def outcome_bind_Return map_sum_Inr split: prod.splits sum.splits)
  note ih = Cons.IH [OF snd1 [THEN conjunct2, THEN conjunct2, THEN conjunct1] rest(1)]
  have "extends_bus {i..<i + length (dev # devs)} b b'"
    by (rule extends_bus_trans [of "{i}" b b1 "{Suc i..<Suc i + length devs}"]) (use snd1 ih in auto)
  moreover have above: "Suc (unat ?q) \<le> unat q" if "q \<in> set (map fst rest)" for q
    using ih that snd1 up by fastforce
  moreover have "?q \<notin> set (map fst rest)" using above [of ?q] by auto
  moreover have "[i..<i + length (dev # devs)] = i # [Suc i..<Suc i + length devs]"
    by (simp add: upt_conv_Cons del: upt_Suc)
  ultimately show ?case
    using snd1 ih by (auto simp: rest(2) simp del: set_map upt_Suc intro: Suc_leD)
qed



end
