(* ===== verification/Io_Bus.thy ===== *)
theory Io_Bus
  imports Serial Legacy_Devices Pci_Root
begin

text \<open>
  The port space of an x86 machine (\<^verbatim>\<open>setup_io_bus\<close> in \<^verbatim>\<open>x86_64/src/lib.rs\<close>): four
  serial ports, the CMOS clock, the i8042, ports that are ignored and the PCI bridge, on
  one bus. Trait objects are the constructors of a sum type.
\<close>

section \<open>The devices\<close>

datatype ('ev, 'o, 'd) io_device =
    Io_Serial "('ev, 'o) serial"
  | Io_Cmos clocked_cmos
  | Io_I8042 "'ev i8042"
  | Io_NoDevice
  | Io_Pci "pci_root \<times> 'd proxies"

text \<open>\<open>Io_NoDevice\<close> has the methods that the trait provides: they do nothing.\<close>

fun io_read ::
  "('d, 'e, 'g) pci_ops \<Rightarrow> u64 \<Rightarrow> u8 list \<Rightarrow> ('ev, 'o, 'd) io_device
    \<Rightarrow> (u8 list \<times> ('ev, 'o, 'd) io_device) outcome" where
  "io_read p off data (Io_Serial s) =
     outcome_bind (serial_read off data s) (\<lambda>(data', s'). Return (data', Io_Serial s'))"
| "io_read p off data (Io_Cmos c) =
     outcome_bind (cmos_clocked_read off data c) (\<lambda>(data', c'). Return (data', Io_Cmos c'))"
| "io_read p off data (Io_I8042 d) =
     outcome_bind (i8042_read off data d) (\<lambda>(data', d'). Return (data', Io_I8042 d'))"
| "io_read p off data Io_NoDevice = Return (data, Io_NoDevice)"
| "io_read p off data (Io_Pci r) =
     outcome_bind (pci_root_read p off data r) (\<lambda>(data', r'). Return (data', Io_Pci r'))"

fun io_write ::
  "('ev \<Rightarrow> ('x + unit) \<times> 'ev) \<Rightarrow> (u8 \<Rightarrow> 'o \<Rightarrow> ('x + unit) \<times> 'o) \<Rightarrow> ('d, 'e, 'g) pci_ops \<Rightarrow> u64 \<Rightarrow> u8 list
    \<Rightarrow> ('ev, 'o, 'd) io_device \<Rightarrow> ('ev, 'o, 'd) io_device outcome" where
  "io_write evt_write out_write p off data (Io_Serial s) =
     outcome_bind (serial_write evt_write out_write off data s) (\<lambda>s'. Return (Io_Serial s'))"
| "io_write evt_write out_write p off data (Io_Cmos c) =
     outcome_bind (cmos_clocked_write off data c) (\<lambda>c'. Return (Io_Cmos c'))"
| "io_write evt_write out_write p off data (Io_I8042 d) =
     outcome_bind (i8042_write evt_write off data d) (\<lambda>d'. Return (Io_I8042 d'))"
| "io_write evt_write out_write p off data Io_NoDevice = Return Io_NoDevice"
| "io_write evt_write out_write p off data (Io_Pci r) =
     outcome_bind (pci_root_write p off data r) (\<lambda>r'. Return (Io_Pci r'))"

section \<open>Setting up the bus\<close>

datatype io_handle = Com1 | Com2 | Com3 | Com4 | Cmos_dev | I8042_dev | Nul_device | Pci_dev

datatype arch_error = Arch_CreateEventFd | Arch_CloneEventFd | Arch_RegisterIrqfd

text \<open>The result of an insertion is unwrapped; a host call that fails ends the set-up.\<close>

definition insert_unwrap :: "'h \<Rightarrow> u64 \<Rightarrow> u64 \<Rightarrow> 'h bus \<Rightarrow> 'h bus outcome" where
  "insert_unwrap h base len b =
     (case bus_insert h base len False b of (Inl _, _) \<Rightarrow> Panic | (Inr _, b') \<Rightarrow> Return b')"

definition or_fail :: "'e \<Rightarrow> 'a option \<Rightarrow> ('a \<Rightarrow> ('e + 'b) outcome) \<Rightarrow> ('e + 'b) outcome" where
  "or_fail e x k = (case x of None \<Rightarrow> Return (Inl e) | Some v \<Rightarrow> k v)"

text \<open>
  The host calls, in their order: \<open>evt_new i\<close> creates the \<open>i\<close>th event, \<open>evt_clone i e\<close> is the
  \<open>i\<close>th clone, \<open>register_irqfd e irq\<close> connects an event to an interrupt line.
\<close>

definition setup_io_bus ::
  "(nat \<Rightarrow> 'ev option) \<Rightarrow> (nat \<Rightarrow> 'ev \<Rightarrow> 'ev option) \<Rightarrow> ('ev \<Rightarrow> u32 \<Rightarrow> unit option) \<Rightarrow> (nat \<Rightarrow> tm) \<Rightarrow> 'o \<Rightarrow> 'ev
    \<Rightarrow> (pci_root \<times> 'd proxies) option
    \<Rightarrow> (arch_error + io_handle bus \<times> (io_handle \<Rightarrow> ('ev, 'o, 'd) io_device)) outcome" where
  "setup_io_bus evt_new evt_clone register_irqfd clock stdout exit_evt pci =
     or_fail Arch_CreateEventFd (evt_new 0) (\<lambda>com_evt_1_3.
     or_fail Arch_CreateEventFd (evt_new 1) (\<lambda>com_evt_2_4.
     or_fail Arch_CloneEventFd (evt_clone 0 com_evt_1_3) (\<lambda>evt1.
     outcome_bind (insert_unwrap Com1 0x3f8 0x8 bus_new) (\<lambda>io_bus.
     or_fail Arch_CloneEventFd (evt_clone 1 com_evt_2_4) (\<lambda>evt2.
     outcome_bind (insert_unwrap Com2 0x2f8 0x8 io_bus) (\<lambda>io_bus.
     or_fail Arch_CloneEventFd (evt_clone 2 com_evt_1_3) (\<lambda>evt3.
     outcome_bind (insert_unwrap Com3 0x3e8 0x8 io_bus) (\<lambda>io_bus.
     or_fail Arch_CloneEventFd (evt_clone 3 com_evt_2_4) (\<lambda>evt4.
     outcome_bind (insert_unwrap Com4 0x2e8 0x8 io_bus) (\<lambda>io_bus.
     outcome_bind (insert_unwrap Cmos_dev 0x70 0x2 io_bus) (\<lambda>io_bus.
     or_fail Arch_CloneEventFd (evt_clone 4 exit_evt) (\<lambda>evt5.
     outcome_bind (insert_unwrap I8042_dev 0x061 0x4 io_bus) (\<lambda>io_bus.
     outcome_bind (insert_unwrap Nul_device 0x040 0x8 io_bus) (\<lambda>io_bus.
     outcome_bind (insert_unwrap Nul_device 0x0ed 0x1 io_bus) (\<lambda>io_bus.
     outcome_bind (insert_unwrap Nul_device 0x0f0 0x2 io_bus) (\<lambda>io_bus.
     outcome_bind (insert_unwrap (if pci = None then Nul_device else Pci_dev) 0xcf8 0x8 io_bus) (\<lambda>io_bus.
     or_fail Arch_RegisterIrqfd (register_irqfd com_evt_1_3 4) (\<lambda>_.
     or_fail Arch_RegisterIrqfd (register_irqfd com_evt_2_4 3) (\<lambda>_.
     Return (Inr (io_bus, \<lambda>h. case h of
         Com1 \<Rightarrow> Io_Serial (serial_new_out evt1 stdout)
       | Com2 \<Rightarrow> Io_Serial (serial_new_sink evt2)
       | Com3 \<Rightarrow> Io_Serial (serial_new_sink evt3)
       | Com4 \<Rightarrow> Io_Serial (serial_new_sink evt4)
       | Cmos_dev \<Rightarrow> Io_Cmos (cmos_new, clock)
       | I8042_dev \<Rightarrow> Io_I8042 (i8042_new evt5)
       | Nul_device \<Rightarrow> Io_NoDevice
       | Pci_dev \<Rightarrow> (case pci of Some r \<Rightarrow> Io_Pci r | None \<Rightarrow> Io_NoDevice))))))))))))))))))))))"

section \<open>The port map\<close>

definition port_map :: "bool \<Rightarrow> io_handle bus" where
  "port_map pci = map (\<lambda>(base, len, h). (\<lparr>rbase = base, rlen = len, full_addr = False\<rparr>, h))
     [(0x040, 8, Nul_device), (0x061, 4, I8042_dev), (0x070, 2, Cmos_dev), (0x0ed, 1, Nul_device),
      (0x0f0, 2, Nul_device), (0x2e8, 8, Com4), (0x2f8, 8, Com2), (0x3e8, 8, Com3), (0x3f8, 8, Com1),
      (0xcf8, 8, if pci then Pci_dev else Nul_device)]"

lemma insert_unwrap_step:
  "insert_unwrap h base len b =
     (if len = 0 \<or> list_ex (\<lambda>(r, _). range_overlaps r base len) b then Panic
      else case btree_insert \<lparr>rbase = base, rlen = len, full_addr = False\<rparr> h b of
        (b', None) \<Rightarrow> Return b' | (b', Some _) \<Rightarrow> Panic)"
  by (auto simp: insert_unwrap_def bus_insert_def Let_def split: prod.splits option.splits)

lemmas port_step = insert_unwrap_step range_overlaps_def bus_new_def

lemma setup_io_bus_returns:
  "setup_io_bus evt_new evt_clone register_irqfd clock stdout exit_evt pci \<noteq> Panic"
  by (simp add: setup_io_bus_def or_fail_def port_step split: option.split)

lemma setup_io_bus_ports:
  assumes "setup_io_bus evt_new evt_clone register_irqfd clock stdout exit_evt pci = Return (Inr (b, st))"
  shows "b = port_map (pci \<noteq> None)"
    "\<exists>e. st Com1 = Io_Serial (serial_new_out e stdout)"
    "h \<in> {Com2, Com3, Com4} \<Longrightarrow> \<exists>e. st h = Io_Serial (serial_new_sink e)"
    "st Cmos_dev = Io_Cmos (cmos_new, clock)"
    "\<exists>e. st I8042_dev = Io_I8042 (i8042_new e)"
    "st Nul_device = Io_NoDevice"
    "st Pci_dev = (case pci of Some r \<Rightarrow> Io_Pci r | None \<Rightarrow> Io_NoDevice)"
  using assms
  by (auto simp: setup_io_bus_def or_fail_def port_step port_map_def split: option.splits if_splits)

lemma port_map_wf: "bus_wf (port_map pci)"
  by (simp add: bus_wf_def port_map_def range_ok_def)

section \<open>Every device keeps the contract\<close>

primrec io_inv :: "('d, 'e, 'g) pci_ops \<Rightarrow> ('ev, 'o, 'd) io_device \<Rightarrow> bool" where
  "io_inv p (Io_Serial s) = serial_inv s"
| "io_inv p (Io_Cmos c) = cmos_clocked_inv c"
| "io_inv p (Io_I8042 d) = True"
| "io_inv p Io_NoDevice = True"
| "io_inv p (Io_Pci r) = pci_root_inv p r"

text \<open>A slice is shorter than \<open>2 ^ 63\<close> bytes.\<close>

primrec io_accepts :: "('ev, 'o, 'd) io_device \<Rightarrow> u64 \<Rightarrow> nat \<Rightarrow> bool" where
  "io_accepts (Io_Serial s) = (\<lambda>_ _. True)"
| "io_accepts (Io_Cmos c) = (\<lambda>off _. off < 2)"
| "io_accepts (Io_I8042 d) = (\<lambda>_ _. True)"
| "io_accepts Io_NoDevice = (\<lambda>_ _. True)"
| "io_accepts (Io_Pci r) = (\<lambda>_ n. n < 2 ^ 63)"

lemma io_read_total:
  assumes "io_inv p d" "io_accepts d off (length data)"
  shows "\<exists>data' d'. io_read p off data d = Return (data', d') \<and> length data' = length data \<and>
    io_inv p d' \<and> io_accepts d' = io_accepts d"
proof (cases d)
  case (Io_Serial s)
  then obtain data' s' where "serial_read off data s = Return (data', s')" "length data' = length data"
    "serial_inv s'" using serial_dev.read_total [of s off data] assms by auto
  then show ?thesis using Io_Serial by simp
next
  case (Io_Cmos c)
  then obtain data' c' where "cmos_clocked_read off data c = Return (data', c')" "length data' = length data"
    "cmos_clocked_inv c'" using cmos_dev.read_total [of c off data] assms by auto
  then show ?thesis using Io_Cmos by simp
next
  case (Io_Pci r)
  then obtain data' r' where "pci_root_read p off data r = Return (data', r')" "length data' = length data"
    "pci_root_inv p r'" using pci_root_dev.read_total [of p r data off] assms by auto
  then show ?thesis using Io_Pci by simp
qed (simp_all add: i8042_read_def)

lemma io_write_total:
  assumes "io_inv p d" "io_accepts d off (length data)"
  shows "\<exists>d'. io_write evt_write out_write p off data d = Return d' \<and> io_inv p d' \<and>
    io_accepts d' = io_accepts d"
proof (cases d)
  case (Io_Serial s)
  then obtain s' where "serial_write evt_write out_write off data s = Return s'" "serial_inv s'"
    using serial_dev.write_total [of s evt_write out_write off data] assms by auto
  then show ?thesis using Io_Serial by simp
next
  case (Io_Cmos c)
  then obtain c' where "cmos_clocked_write off data c = Return c'" "cmos_clocked_inv c'"
    using cmos_dev.write_total [of c off data] assms by auto
  then show ?thesis using Io_Cmos by simp
next
  case (Io_Pci r)
  then obtain r' where "pci_root_write p off data r = Return r'" "pci_root_inv p r'"
    using pci_root_dev.write_total [of p r data off] assms by auto
  then show ?thesis using Io_Pci by simp
qed (simp_all add: i8042_write_def)

interpretation io_dev: bus_device "io_read p" "io_write evt_write out_write p" "io_inv p" io_accepts
  by unfold_locales (use io_read_total io_write_total in blast)+

section \<open>No access of the guest stops the monitor\<close>

lemma serial_new_inv: "serial_inv (serial_new_out e o')" "serial_inv (serial_new_sink e)"
  by (simp_all add: serial_inv_def serial_new_out_def serial_new_sink_def serial_new_def)

lemma cmos_ports: "range_contains \<lparr>rbase = 0x70, rlen = 2, full_addr = False\<rparr> addr \<Longrightarrow> addr - 0x70 < 2"
  by (auto simp: range_contains_def word_less_nat_alt word_le_nat_alt unat_sub_no_wrap)

lemma setup_io_bus_ready:
  assumes "setup_io_bus evt_new evt_clone register_irqfd clock stdout exit_evt pci = Return (Inr (b, st))"
    and "\<forall>n. tm_valid (clock n)" "\<forall>r. pci = Some r \<longrightarrow> pci_root_inv p r"
  shows "devices_ready (io_inv p) io_accepts (2 ^ 63 - 1) b st"
proof -
  note ports = setup_io_bus_ports [OF assms(1)]
  have sinks: "\<exists>e. st Com2 = Io_Serial (serial_new_sink e)" "\<exists>e. st Com3 = Io_Serial (serial_new_sink e)"
    "\<exists>e. st Com4 = Io_Serial (serial_new_sink e)" using ports(3) by auto
  have "io_inv p (st h)" for h
  proof (cases h)
    case Cmos_dev
    then show ?thesis using ports(4) assms(2)
      by (simp add: cmos_clocked_inv_def cmos_inv_def cmos_new_def)
  next
    case Pci_dev
    then show ?thesis using ports(7) assms(3) by (cases pci) simp_all
  qed (use ports(2, 5, 6) sinks serial_new_inv in auto)
  moreover have "io_accepts (st h) off n" if "h \<noteq> Cmos_dev" "n \<le> 2 ^ 63 - 1" for h off n
    using that ports(2, 5, 6, 7) sinks by (cases h) (auto split: option.splits)
  moreover have "io_accepts (st Cmos_dev) (addr - 0x70) n"
    if "range_contains \<lparr>rbase = 0x70, rlen = 2, full_addr = False\<rparr> addr" for addr n
    using that cmos_ports ports(4) by simp
  ultimately show ?thesis
    by (auto simp: devices_ready_def ports(1) port_map_def simp del: io_accepts.simps)
qed

text \<open>
  C27. The port space of the machine: setting up the bus never panics, since no two of the
  fixed ranges overlap; and on the bus it builds no sequence of reads and writes by the
  guest, of any width and at any port, panics, as long as the host clock gives valid dates.
  This holds whatever the devices behind the PCI bridge do, because they are proxied.
\<close>

theorem io_bus_never_panics:
  fixes evt_write :: "'ev \<Rightarrow> ('x + unit) \<times> 'ev"
  assumes "\<forall>n. tm_valid (clock n)" "\<forall>r. pci = Some r \<longrightarrow> pci_root_inv p r"
    and "\<forall>x \<in> set xs. access_width x < 2 ^ 63"
  shows "setup_io_bus evt_new evt_clone register_irqfd clock stdout exit_evt pci \<noteq> Panic \<and>
    (\<forall>b st. setup_io_bus evt_new evt_clone register_irqfd clock stdout exit_evt pci = Return (Inr (b, st)) \<longrightarrow>
       (\<exists>st'. bus_run (io_read p) (io_write evt_write out_write p) b xs st = Return st'))"
proof (intro conjI allI impI)
  show "setup_io_bus evt_new evt_clone register_irqfd clock stdout exit_evt pci \<noteq> Panic"
    by (rule setup_io_bus_returns)
  fix b st
  assume built: "setup_io_bus evt_new evt_clone register_irqfd clock stdout exit_evt pci = Return (Inr (b, st))"
  have "bus_wf b" using setup_io_bus_ports(1) [OF built] port_map_wf by simp
  moreover have "\<forall>x \<in> set xs. access_width x \<le> 2 ^ 63 - 1" using assms(3) by auto
  ultimately show "\<exists>st'. bus_run (io_read p) (io_write evt_write out_write p) b xs st = Return st'"
    using io_dev.bus_run_total [OF _ setup_io_bus_ready [OF built assms(1, 2)]] by blast
qed

theorem io_bus_never_panics_witness:
  "\<exists>b st st'. setup_io_bus (\<lambda>i. Some i) (\<lambda>_ e. Some e) (\<lambda>_ _. Some ())
       (\<lambda>_. \<lparr>tm_sec = 59, tm_min = 4, tm_hour = 13, tm_wday = 2, tm_mday = 25, tm_mon = 11, tm_year = 118\<rparr>)
       () (7 :: nat) (Some (pci_root_new, \<lambda>_. proxy_new (pc_new 1 2 NetworkController 0 DeviceHeader 3 4) (\<lambda>_. 1))) = Return (Inr (b, st)) \<and>
     bus_run (io_read plain_pci_ops)
       (io_write (\<lambda>ev. (Inr () :: unit + unit, Suc ev)) (\<lambda>_ _. (Inr (), ())) plain_pci_ops) b
       [Write_access 0x70 [0x32], Read_access 0x71 [0], Read_access 0xcfc [0, 0, 0, 0], Write_access 0x64 [0xfe]] st
       = Return st'"
proof -
  let ?t = "\<lparr>tm_sec = 59, tm_min = 4, tm_hour = 13, tm_wday = 2, tm_mday = 25, tm_mon = 11, tm_year = 118\<rparr>"
  let ?pci = "Some (pci_root_new, \<lambda>_. proxy_new (pc_new 1 2 NetworkController 0 DeviceHeader 3 4) (\<lambda>_. 1))"
  let ?s = "setup_io_bus (\<lambda>i. Some i) (\<lambda>_ e. Some e) (\<lambda>_ _. Some ()) (\<lambda>_. ?t) () (7 :: nat) ?pci"
  have valid: "\<forall>n :: nat. tm_valid ?t" by (simp add: tm_valid_def)
  have pci: "\<forall>r. ?pci = Some r \<longrightarrow> pci_root_inv plain_pci_ops r"
    by (simp add: pci_root_inv_def pci_root_new_def pc_new_inv)
  obtain b st where s: "?s = Return (Inr (b, st))"
    by (simp add: setup_io_bus_def or_fail_def port_step)
  then show ?thesis
    using io_bus_never_panics [OF valid pci, of "[Write_access 0x70 [0x32], Read_access 0x71 [0],
        Read_access 0xcfc [0, 0, 0, 0], Write_access 0x64 [0xfe]]" "\<lambda>i. Some i" "\<lambda>_ e. Some e" "\<lambda>_ _. Some ()"
        "()" 7 "\<lambda>ev. (Inr () :: unit + unit, Suc ev)" "\<lambda>_ _. (Inr (), ())"]
    by auto
qed

text \<open>
  Shutting the machine down from the guest: the byte 0xfe written to port 0x64 signals
  the exit event, once, and no other byte written to a port of the i8042 does.
\<close>

theorem io_bus_reset:
  assumes "setup_io_bus evt_new evt_clone register_irqfd clock stdout exit_evt pci = Return (Inr (b, st))"
    and "st I8042_dev = Io_I8042 d" "0x61 \<le> port" "port \<le> 0x64"
  shows "bus_write (io_write evt_write out_write p) b port [v] st =
    Return (True, if v = 0xfe \<and> port = 0x64
      then st(I8042_dev := Io_I8042 (d\<lparr>reset_evt := snd (evt_write (reset_evt d))\<rparr>)) else st)"
proof -
  have "port = 0x61 \<or> port = 0x62 \<or> port = 0x63 \<or> port = 0x64"
    using assms(3, 4) by (simp add: word_le_nat_alt word_unat_eq_iff) arith
  moreover have "get_device b port = Some (port - 0x61, I8042_dev)" if "port \<in> {0x61, 0x62, 0x63, 0x64}"
    using that setup_io_bus_ports(1) [OF assms(1)]
    by (auto simp: port_map_def get_device_def first_before_def)
  ultimately show ?thesis
    using assms(2) by (auto simp: bus_write_def i8042_write_def fun_upd_idem_iff)
qed

theorem io_bus_reset_witness:
  "\<exists>b (st :: io_handle \<Rightarrow> (nat, unit, pci_configuration) io_device). setup_io_bus (\<lambda>i. Some i) (\<lambda>_ e. Some e) (\<lambda>_ _. Some ())
       (\<lambda>_. \<lparr>tm_sec = 59, tm_min = 4, tm_hour = 13, tm_wday = 2, tm_mday = 25, tm_mon = 11, tm_year = 118\<rparr>)
       () 7 None = Return (Inr (b, st)) \<and>
     bus_write (io_write (\<lambda>ev. (Inr () :: unit + unit, Suc ev)) (\<lambda>_ _. (Inr (), ())) plain_pci_ops) b 0x64 [0xfe] st =
       Return (True, st(I8042_dev := Io_I8042 \<lparr>reset_evt = 8\<rparr>))"
proof -
  let ?t = "\<lparr>tm_sec = 59, tm_min = 4, tm_hour = 13, tm_wday = 2, tm_mday = 25, tm_mon = 11, tm_year = 118\<rparr>"
  obtain b and st :: "io_handle \<Rightarrow> (nat, unit, pci_configuration) io_device" where
    s: "setup_io_bus (\<lambda>i. Some i) (\<lambda>_ e. Some e) (\<lambda>_ _. Some ()) (\<lambda>_. ?t) () 7 None = Return (Inr (b, st))"
      "st I8042_dev = Io_I8042 (i8042_new 7)"
    by (simp add: setup_io_bus_def or_fail_def port_step)
  from io_bus_reset [OF s, where port = "0x64" and v = "0xfe" and p = plain_pci_ops
      and evt_write = "\<lambda>ev. (Inr () :: unit + unit, Suc ev)" and out_write = "\<lambda>_ _. (Inr (), ())"] s(1) show ?thesis
    by (intro exI [of _ b] exI [of _ st]) (simp add: i8042_new_def)
qed

end
