(* ===== verification/Guest_Memory.thy ===== *)
theory Guest_Memory
  imports Prelude
begin

text \<open>
  The memory of the guest: addresses (\<^verbatim>\<open>sys_util/src/guest_address.rs\<close>), one anonymous
  mapping (\<^verbatim>\<open>sys_util/src/mmap.rs\<close>) and the list of regions that make up guest memory
  (\<^verbatim>\<open>sys_util/src/guest_memory.rs\<close>). A mapping is the list of its bytes. The calls that
  create a mapping, discard pages, or read and write a file are arguments.
\<close>

section \<open>Addresses\<close>

type_synonym guest_address = u64

definition offset_from :: "guest_address \<Rightarrow> guest_address \<Rightarrow> u64" where
  "offset_from a base = a - base"

definition unchecked_add :: "guest_address \<Rightarrow> u64 \<Rightarrow> guest_address" where
  "unchecked_add a off = a + off"

section \<open>Mappings\<close>

datatype mmap_error =
  InvalidAddress | InvalidOffset | InvalidRange usize usize | ReadFromSource | SystemCallFailed

type_synonym mapping = "u8 list"

definition mapping_size :: "mapping \<Rightarrow> usize" where
  "mapping_size m = word_of_nat (length m)"

text \<open>\<open>mmap sz\<close> is the system call: the fresh bytes, or a failure.\<close>

definition mapping_new :: "(usize \<Rightarrow> mapping option) \<Rightarrow> usize \<Rightarrow> mmap_error + mapping" where
  "mapping_new mmap sz = (case mmap sz of None \<Rightarrow> Inl SystemCallFailed | Some m \<Rightarrow> Inr m)"

definition range_end :: "mapping \<Rightarrow> usize \<Rightarrow> usize \<Rightarrow> mmap_error + usize" where
  "range_end m off count =
     (case checked_add off count of
        None \<Rightarrow> Inl InvalidAddress
      | Some mem_end \<Rightarrow> if mem_end > mapping_size m then Inl InvalidAddress else Inr mem_end)"

definition write_slice :: "u8 list \<Rightarrow> mapping \<Rightarrow> usize \<Rightarrow> (mmap_error + nat) \<times> mapping" where
  "write_slice buf m off =
     (if off \<ge> mapping_size m then (Inl InvalidAddress, m)
      else
        let n = min (length buf) (length m - unat off) in
        (Inr n, splice (unat off) (take n buf) m))"

text \<open>The number of bytes read, with the buffer afterwards.\<close>

definition read_slice :: "u8 list \<Rightarrow> mapping \<Rightarrow> usize \<Rightarrow> mmap_error + nat \<times> u8 list" where
  "read_slice buf m off =
     (if off \<ge> mapping_size m then Inl InvalidAddress
      else
        let n = min (length buf) (length m - unat off) in
        Inr (n, splice 0 (slice (unat off) n m) buf))"

text \<open>An object is written and read as its bytes in memory.\<close>

definition write_obj :: "u8 list \<Rightarrow> mapping \<Rightarrow> usize \<Rightarrow> (mmap_error + unit) \<times> mapping" where
  "write_obj val m off =
     (case range_end m off (word_of_nat (length val)) of
        Inl e \<Rightarrow> (Inl e, m)
      | Inr _ \<Rightarrow> (Inr (), splice (unat off) val m))"

definition read_obj :: "nat \<Rightarrow> mapping \<Rightarrow> usize \<Rightarrow> mmap_error + u8 list" where
  "read_obj n m off =
     (case range_end m off (word_of_nat n) of
        Inl e \<Rightarrow> Inl e
      | Inr _ \<Rightarrow> Inr (slice (unat off) n m))"

text \<open>
  \<open>read_exact n src\<close> fills a buffer of \<open>n\<close> bytes: whether it could, the bytes it stored (all
  \<open>n\<close> of them on success) and the source afterwards.
\<close>

definition read_to_mapping ::
  "(nat \<Rightarrow> 's \<Rightarrow> bool \<times> u8 list \<times> 's) \<Rightarrow> usize \<Rightarrow> mapping \<Rightarrow> usize \<Rightarrow> 's
    \<Rightarrow> (mmap_error + unit) \<times> mapping \<times> 's" where
  "read_to_mapping read_exact mem_offset m count src =
     (case range_end m mem_offset count of
        Inl _ \<Rightarrow> (Inl (InvalidRange mem_offset count), m, src)
      | Inr mem_end \<Rightarrow>
          (let (ok, bytes, src') = read_exact (unat (mem_end - mem_offset)) src;
               m' = splice (unat mem_offset) bytes m
           in (if ok then Inr () else Inl ReadFromSource, m', src')))"

definition write_from_mapping ::
  "(u8 list \<Rightarrow> 's \<Rightarrow> bool \<times> 's) \<Rightarrow> usize \<Rightarrow> mapping \<Rightarrow> usize \<Rightarrow> 's \<Rightarrow> (mmap_error + unit) \<times> 's" where
  "write_from_mapping write_all mem_offset m count dst =
     (case range_end m mem_offset count of
        Inl _ \<Rightarrow> (Inl (InvalidRange mem_offset count), dst)
      | Inr mem_end \<Rightarrow>
          (let (ok, dst') = write_all (slice (unat mem_offset) (unat (mem_end - mem_offset)) m) dst
           in (if ok then Inr () else Inl ReadFromSource, dst')))"

text \<open>\<open>madvise off n m\<close> discards bytes of the mapping, or fails.\<close>

definition remove_mapping_range ::
  "(usize \<Rightarrow> usize \<Rightarrow> mapping \<Rightarrow> mapping option) \<Rightarrow> usize \<Rightarrow> usize \<Rightarrow> mapping \<Rightarrow> (mmap_error + unit) \<times> mapping" where
  "remove_mapping_range madvise mem_offset count m =
     (case range_end m mem_offset count of
        Inl _ \<Rightarrow> (Inl (InvalidRange mem_offset count), m)
      | Inr _ \<Rightarrow>
          (case madvise mem_offset count m of
             None \<Rightarrow> (Inl (InvalidRange mem_offset count), m)
           | Some m' \<Rightarrow> (Inr (), m')))"

section \<open>Guest memory\<close>

datatype gm_error =
    InvalidGuestAddress guest_address
  | MemoryAccess guest_address mmap_error
  | MemoryMappingFailed mmap_error
  | MemoryRegionOverlap

record memory_region =
  mapping :: mapping
  guest_base :: guest_address

type_synonym guest_memory = "memory_region list"

definition region_end :: "memory_region \<Rightarrow> guest_address" where
  "region_end r = unchecked_add (guest_base r) (mapping_size (mapping r))"

fun gm_new_from :: "(usize \<Rightarrow> mapping option) \<Rightarrow> memory_region list \<Rightarrow> (guest_address \<times> u64) list \<Rightarrow> gm_error + guest_memory" where
  "gm_new_from mmap regions [] = Inr regions"
| "gm_new_from mmap regions (rng # ranges) =
     (if regions \<noteq> [] \<and>
         (case checked_add (guest_base (last regions)) (mapping_size (mapping (last regions))) of
            None \<Rightarrow> True
          | Some a \<Rightarrow> a > fst rng)
      then Inl MemoryRegionOverlap
      else
        (case mapping_new mmap (snd rng) of
           Inl e \<Rightarrow> Inl (MemoryMappingFailed e)
         | Inr m \<Rightarrow> gm_new_from mmap (regions @ [\<lparr>mapping = m, guest_base = fst rng\<rparr>]) ranges))"

definition gm_new :: "(usize \<Rightarrow> mapping option) \<Rightarrow> (guest_address \<times> u64) list \<Rightarrow> gm_error + guest_memory" where
  "gm_new mmap ranges = gm_new_from mmap [] ranges"

text \<open>\<^verbatim>\<open>Iterator::max_by_key\<close> returns the last of several maximal elements.\<close>

primrec max_by_base :: "memory_region \<Rightarrow> memory_region list \<Rightarrow> memory_region" where
  "max_by_base best [] = best"
| "max_by_base best (r # rs) = max_by_base (if guest_base r \<ge> guest_base best then r else best) rs"

definition end_addr :: "guest_memory \<Rightarrow> guest_address" where
  "end_addr gm = (case gm of [] \<Rightarrow> 0 | r # rs \<Rightarrow> region_end (max_by_base r rs))"

definition memory_size :: "guest_memory \<Rightarrow> u64" where
  "memory_size gm = sum_list (map (\<lambda>r. mapping_size (mapping r)) gm)"

definition num_regions :: "guest_memory \<Rightarrow> u64" where
  "num_regions gm = word_of_nat (length gm)"

definition address_in_range :: "guest_memory \<Rightarrow> guest_address \<Rightarrow> bool" where
  "address_in_range gm addr \<longleftrightarrow> addr < end_addr gm"

definition checked_offset :: "guest_memory \<Rightarrow> guest_address \<Rightarrow> u64 \<Rightarrow> guest_address option" where
  "checked_offset gm addr off =
     (case checked_add addr off of
        None \<Rightarrow> None
      | Some a \<Rightarrow> if a < end_addr gm then Some a else None)"

text \<open>
  \<open>cb\<close> is the action on the mapping that holds the address: its result, and the mapping
  afterwards.
\<close>

fun do_in_region ::
  "guest_address \<Rightarrow> (mapping \<Rightarrow> usize \<Rightarrow> (gm_error + 'a) \<times> mapping) \<Rightarrow> guest_memory \<Rightarrow> (gm_error + 'a) \<times> guest_memory" where
  "do_in_region addr cb [] = (Inl (InvalidGuestAddress addr), [])"
| "do_in_region addr cb (r # rs) =
     (if addr \<ge> guest_base r \<and> addr < region_end r
      then (let (x, m) = cb (mapping r) (offset_from addr (guest_base r)) in (x, r\<lparr>mapping := m\<rparr> # rs))
      else (let (x, rs') = do_in_region addr cb rs in (x, r # rs')))"

abbreviation map_err :: "('e \<Rightarrow> 'f) \<Rightarrow> 'e + 'a \<Rightarrow> 'f + 'a" where
  "map_err f \<equiv> map_sum f id"

definition write_slice_at_addr :: "u8 list \<Rightarrow> guest_address \<Rightarrow> guest_memory \<Rightarrow> (gm_error + nat) \<times> guest_memory" where
  "write_slice_at_addr buf addr =
     do_in_region addr (\<lambda>m off. map_prod (map_err (MemoryAccess addr)) id (write_slice buf m off))"

definition read_slice_at_addr :: "u8 list \<Rightarrow> guest_address \<Rightarrow> guest_memory \<Rightarrow> gm_error + nat \<times> u8 list" where
  "read_slice_at_addr buf addr gm =
     fst (do_in_region addr (\<lambda>m off. (map_err (MemoryAccess addr) (read_slice buf m off), m)) gm)"

definition read_obj_from_addr :: "nat \<Rightarrow> guest_address \<Rightarrow> guest_memory \<Rightarrow> gm_error + u8 list" where
  "read_obj_from_addr n addr gm =
     fst (do_in_region addr (\<lambda>m off. (map_err (MemoryAccess addr) (read_obj n m off), m)) gm)"

definition write_obj_at_addr :: "u8 list \<Rightarrow> guest_address \<Rightarrow> guest_memory \<Rightarrow> (gm_error + unit) \<times> guest_memory" where
  "write_obj_at_addr val addr =
     do_in_region addr (\<lambda>m off. map_prod (map_err (MemoryAccess addr)) id (write_obj val m off))"

text \<open>The file travels through the action; it is untouched when no region holds the address.\<close>

definition with_file :: "'s \<Rightarrow> (gm_error + (gm_error + 'a) \<times> 's) \<times> guest_memory \<Rightarrow> (gm_error + 'a) \<times> 's \<times> guest_memory" where
  "with_file s x = (case x of (Inl e, gm) \<Rightarrow> (Inl e, s, gm) | (Inr (y, s'), gm) \<Rightarrow> (y, s', gm))"

definition read_to_memory ::
  "(nat \<Rightarrow> 's \<Rightarrow> bool \<times> u8 list \<times> 's) \<Rightarrow> guest_address \<Rightarrow> 's \<Rightarrow> usize \<Rightarrow> guest_memory
    \<Rightarrow> (gm_error + unit) \<times> 's \<times> guest_memory" where
  "read_to_memory read_exact addr src count gm =
     with_file src (do_in_region addr
       (\<lambda>m off. let (x, m', src') = read_to_mapping read_exact off m count src
                in (Inr (map_err (MemoryAccess addr) x, src'), m')) gm)"

definition write_from_memory ::
  "(u8 list \<Rightarrow> 's \<Rightarrow> bool \<times> 's) \<Rightarrow> guest_address \<Rightarrow> 's \<Rightarrow> usize \<Rightarrow> guest_memory
    \<Rightarrow> (gm_error + unit) \<times> 's \<times> guest_memory" where
  "write_from_memory write_all addr dst count gm =
     with_file dst (do_in_region addr
       (\<lambda>m off. let (x, dst') = write_from_mapping write_all off m count dst
                in (Inr (map_err (MemoryAccess addr) x, dst'), m)) gm)"

definition remove_range ::
  "(usize \<Rightarrow> usize \<Rightarrow> mapping \<Rightarrow> mapping option) \<Rightarrow> guest_address \<Rightarrow> u64 \<Rightarrow> guest_memory
    \<Rightarrow> (gm_error + unit) \<times> guest_memory" where
  "remove_range madvise addr count =
     do_in_region addr
       (\<lambda>m off. map_prod (map_err (MemoryAccess addr)) id (remove_mapping_range madvise off count m))"

section \<open>Memory as a map from addresses to bytes\<close>

definition region_span :: "memory_region \<Rightarrow> nat set" where
  "region_span r = {unat (guest_base r)..<unat (guest_base r) + length (mapping r)}"

text \<open>
  Regions in ascending order that do not overlap, none of which reaches the top of the
  address space.
\<close>

definition gm_wf :: "guest_memory \<Rightarrow> bool" where
  "gm_wf gm \<longleftrightarrow>
     (\<forall>r \<in> set gm. mapping r \<noteq> [] \<and> unat (guest_base r) + length (mapping r) < 2 ^ 64) \<and>
     sorted_wrt (\<lambda>r q. unat (guest_base r) + length (mapping r) \<le> unat (guest_base q)) gm"

fun gm_byte :: "guest_memory \<Rightarrow> nat \<Rightarrow> u8 option" where
  "gm_byte [] a = None"
| "gm_byte (r # rs) a =
     (if a \<in> region_span r then Some (mapping r ! (a - unat (guest_base r))) else gm_byte rs a)"

text \<open>The region that holds an address.\<close>

fun region_of :: "guest_memory \<Rightarrow> nat \<Rightarrow> memory_region option" where
  "region_of [] a = None"
| "region_of (r # rs) a = (if a \<in> region_span r then Some r else region_of rs a)"

text \<open>\<open>n\<close> bytes from an address that lie in one region.\<close>

definition gm_fits :: "guest_memory \<Rightarrow> nat \<Rightarrow> nat \<Rightarrow> bool" where
  "gm_fits gm a n \<longleftrightarrow>
     (case region_of gm a of None \<Rightarrow> False
      | Some r \<Rightarrow> a + n \<le> unat (guest_base r) + length (mapping r))"

lemma mapping_size_unat: "length m < 2 ^ 64 \<Longrightarrow> unat (mapping_size m) = length m"
  by (simp add: mapping_size_def unsigned_of_nat take_bit_nat_eq_self)

lemma region_end_unat:
  assumes "unat (guest_base r) + length (mapping r) < 2 ^ 64"
  shows "unat (region_end r) = unat (guest_base r) + length (mapping r)"
  using assms by (simp add: region_end_def unchecked_add_def unat_add_no_wrap mapping_size_unat)

lemma in_region_iff:
  assumes "unat (guest_base r) + length (mapping r) < 2 ^ 64"
  shows "addr \<ge> guest_base r \<and> addr < region_end r \<longleftrightarrow> unat addr \<in> region_span r"
  using region_end_unat [OF assms] by (simp add: region_span_def word_le_nat_alt word_less_nat_alt)

lemma gm_wf_Cons:
  "gm_wf (r # rs) \<longleftrightarrow> mapping r \<noteq> [] \<and> unat (guest_base r) + length (mapping r) < 2 ^ 64 \<and>
    (\<forall>q \<in> set rs. unat (guest_base r) + length (mapping r) \<le> unat (guest_base q)) \<and> gm_wf rs"
  by (auto simp: gm_wf_def)

lemma range_end_iff:
  assumes "length m < 2 ^ 64" "n < 2 ^ 64"
  shows "range_end m off (word_of_nat n) =
    (if unat off + n \<le> length m then Inr (off + word_of_nat n) else Inl InvalidAddress)"
proof -
  have n: "unat (word_of_nat n :: u64) = n"
    using assms(2) by (simp add: unsigned_of_nat take_bit_nat_eq_self)
  then have "unat (off + word_of_nat n) = unat off + n" if "unat off + n < 2 ^ 64"
    using that by (subst unat_add_no_wrap) simp_all
  then show ?thesis
    using assms n
    by (auto simp: range_end_def checked_simps mapping_size_unat word_less_nat_alt split: option.split)
qed

fun gm_update :: "guest_memory \<Rightarrow> nat \<Rightarrow> mapping \<Rightarrow> guest_memory" where
  "gm_update [] a m = []"
| "gm_update (r # rs) a m =
     (if a \<in> region_span r then r\<lparr>mapping := m\<rparr> # rs else r # gm_update rs a m)"

lemma do_in_region_eq:
  "gm_wf gm \<Longrightarrow> do_in_region addr cb gm =
    (case region_of gm (unat addr) of
       None \<Rightarrow> (Inl (InvalidGuestAddress addr), gm)
     | Some r \<Rightarrow> (let (x, m) = cb (mapping r) (addr - guest_base r) in (x, gm_update gm (unat addr) m)))"
proof (induction gm)
  case (Cons r rs)
  then have wf: "gm_wf rs" "unat (guest_base r) + length (mapping r) < 2 ^ 64" by (simp_all add: gm_wf_Cons)
  show ?case
    using Cons.IH [OF wf(1)] in_region_iff [OF wf(2), of addr]
    by (auto simp: offset_from_def Let_def split_beta split: option.splits)
qed simp

lemma region_of_Some:
  "region_of gm a = Some r \<Longrightarrow> r \<in> set gm \<and> a \<in> region_span r"
  by (induction gm) (auto split: if_splits)

lemma gm_wf_region:
  assumes "gm_wf gm" "region_of gm a = Some r"
  shows "unat (guest_base r) + length (mapping r) < 2 ^ 64" "unat (guest_base r) \<le> a"
    "a < unat (guest_base r) + length (mapping r)"
  using assms region_of_Some [OF assms(2)] by (auto simp: gm_wf_def region_span_def)

text \<open>Regions are disjoint, so every address of a region is found there.\<close>

lemma region_of_unique:
  assumes "gm_wf gm" "r \<in> set gm" "a \<in> region_span r"
  shows "region_of gm a = Some r"
  using assms
proof (induction gm)
  case (Cons q gm)
  show ?case
  proof (cases "q = r")
    case False
    then have r: "r \<in> set gm" using Cons.prems by simp
    then have "unat (guest_base q) + length (mapping q) \<le> unat (guest_base r)"
      using Cons.prems(1) by (simp add: gm_wf_Cons)
    then have "a \<notin> region_span q" using Cons.prems(3) by (auto simp: region_span_def)
    then show ?thesis using Cons r by (simp add: gm_wf_Cons)
  qed (use Cons.prems in simp)
qed simp

lemma gm_byte_region:
  "gm_byte gm a = map_option (\<lambda>r. mapping r ! (a - unat (guest_base r))) (region_of gm a)"
  by (induction gm) auto

lemma gm_byte_in:
  assumes "gm_wf gm" "region_of gm a = Some r" "b \<in> region_span r"
  shows "gm_byte gm b = Some (mapping r ! (b - unat (guest_base r)))"
  using region_of_unique [OF assms(1) _ assms(3)] region_of_Some [OF assms(2)] by (simp add: gm_byte_region)

lemma gm_update_region_of:
  assumes "gm_wf gm" "region_of gm a = Some r" "length m = length (mapping r)"
  shows "region_of (gm_update gm a m) b =
    (if b \<in> region_span r then Some (r\<lparr>mapping := m\<rparr>) else region_of gm b)"
  using assms
proof (induction gm)
  case (Cons q gm)
  have sp: "region_span (q\<lparr>mapping := m\<rparr>) = region_span q" if "length m = length (mapping q)"
    using that by (simp add: region_span_def)
  show ?case
  proof (cases "a \<in> region_span q")
    case True
    then show ?thesis using Cons.prems sp by auto
  next
    case False
    then have r: "region_of gm a = Some r" using Cons.prems by simp
    then have "unat (guest_base q) + length (mapping q) \<le> unat (guest_base r)"
      using Cons.prems(1) region_of_Some [OF r] by (simp add: gm_wf_Cons)
    then have "b \<notin> region_span q" if "b \<in> region_span r" using that by (auto simp: region_span_def)
    then show ?thesis using Cons r False by (auto simp: gm_wf_Cons)
  qed
qed simp

lemma gm_update_bases: "x \<in> set (gm_update gm a m) \<Longrightarrow> \<exists>y \<in> set gm. guest_base x = guest_base y"
  by (induction gm) (auto split: if_splits)

lemma gm_update_wf:
  assumes "gm_wf gm" "region_of gm a = Some r" "length m = length (mapping r)"
  shows "gm_wf (gm_update gm a m)"
  using assms
proof (induction gm)
  case (Cons q gm)
  have "unat (guest_base q) + length (mapping q) \<le> unat (guest_base x)"
    if "x \<in> set (gm_update gm a m)" for x
    using gm_update_bases [OF that] Cons.prems(1) by (auto simp: gm_wf_Cons)
  then show ?case using Cons by (auto simp: gm_wf_Cons split: if_splits)
qed simp

section \<open>Reading and writing objects\<close>

lemma slice_bytes:
  assumes "gm_wf gm" "region_of gm (unat addr) = Some r"
    and "unat addr + n \<le> unat (guest_base r) + length (mapping r)"
  shows "slice (unat (addr - guest_base r)) n (mapping r) =
    map (\<lambda>i. the (gm_byte gm (unat addr + i))) [0..<n]"
proof (rule nth_equalityI)
  note reg = gm_wf_region [OF assms(1, 2)]
  have off: "unat (addr - guest_base r) = unat addr - unat (guest_base r)"
    using reg(2) by (simp add: unat_sub_no_wrap word_le_nat_alt)
  show len: "length (slice (unat (addr - guest_base r)) n (mapping r)) =
      length (map (\<lambda>i. the (gm_byte gm (unat addr + i))) [0..<n])"
    using assms(3) reg off by simp
  fix i assume "i < length (slice (unat (addr - guest_base r)) n (mapping r))"
  then have i: "i < n" using len by simp
  have "unat addr + i \<in> region_span r" using i assms(3) reg by (auto simp: region_span_def)
  then show "slice (unat (addr - guest_base r)) n (mapping r) ! i =
      map (\<lambda>i. the (gm_byte gm (unat addr + i))) [0..<n] ! i"
    using i assms(3) reg off gm_byte_in [OF assms(1, 2)] by (simp add: nth_slice)
qed

lemma read_obj_eq:
  assumes "gm_wf gm" "n < 2 ^ 64"
  shows "read_obj_from_addr n addr gm =
    (case region_of gm (unat addr) of
       None \<Rightarrow> Inl (InvalidGuestAddress addr)
     | Some r \<Rightarrow>
         if unat addr + n \<le> unat (guest_base r) + length (mapping r)
         then Inr (map (\<lambda>i. the (gm_byte gm (unat addr + i))) [0..<n])
         else Inl (MemoryAccess addr InvalidAddress))"
proof (cases "region_of gm (unat addr)")
  case None
  then show ?thesis by (simp add: read_obj_from_addr_def do_in_region_eq [OF assms(1)])
next
  case (Some r)
  note reg = gm_wf_region [OF assms(1) Some]
  have off: "unat (addr - guest_base r) = unat addr - unat (guest_base r)"
    using reg(2) by (simp add: unat_sub_no_wrap word_le_nat_alt)
  show ?thesis
    using Some reg off assms(2) slice_bytes [OF assms(1) Some]
    by (auto simp: read_obj_from_addr_def do_in_region_eq [OF assms(1)] read_obj_def range_end_iff)
qed

lemma write_obj_eq:
  assumes "gm_wf gm" "length val < 2 ^ 64"
  shows "write_obj_at_addr val addr gm =
    (case region_of gm (unat addr) of
       None \<Rightarrow> (Inl (InvalidGuestAddress addr), gm)
     | Some r \<Rightarrow>
         if unat addr + length val \<le> unat (guest_base r) + length (mapping r)
         then (Inr (), gm_update gm (unat addr) (splice (unat addr - unat (guest_base r)) val (mapping r)))
         else (Inl (MemoryAccess addr InvalidAddress), gm_update gm (unat addr) (mapping r)))"
proof (cases "region_of gm (unat addr)")
  case None
  then show ?thesis by (simp add: write_obj_at_addr_def do_in_region_eq [OF assms(1)])
next
  case (Some r)
  note reg = gm_wf_region [OF assms(1) Some]
  have off: "unat (addr - guest_base r) = unat addr - unat (guest_base r)"
    using reg(2) by (simp add: unat_sub_no_wrap word_le_nat_alt)
  show ?thesis
    using Some reg off assms(2)
    by (auto simp: write_obj_at_addr_def do_in_region_eq [OF assms(1)] write_obj_def range_end_iff)
qed

lemma gm_update_same: "region_of gm a = Some r \<Longrightarrow> gm_update gm a (mapping r) = gm"
  by (induction gm) (auto split: if_splits)

lemma gm_fits_iff:
  "gm_fits gm a n \<longleftrightarrow> (\<exists>r. region_of gm a = Some r \<and> a + n \<le> unat (guest_base r) + length (mapping r))"
  by (auto simp: gm_fits_def split: option.splits)

lemma write_obj_fits:
  assumes "gm_wf gm" "length val < 2 ^ 64" "gm_fits gm (unat addr) (length val)"
  obtains gm' where "write_obj_at_addr val addr gm = (Inr (), gm')" "gm_wf gm'" "gm_fits gm' = gm_fits gm"
    "\<And>b. gm_byte gm' b = (if unat addr \<le> b \<and> b < unat addr + length val
       then Some (val ! (b - unat addr)) else gm_byte gm b)"
proof -
  obtain r where r: "region_of gm (unat addr) = Some r"
    and n: "unat addr + length val \<le> unat (guest_base r) + length (mapping r)"
    using assms(3) by (auto simp: gm_fits_iff)
  note reg = gm_wf_region [OF assms(1) r]
  let ?m = "splice (unat addr - unat (guest_base r)) val (mapping r)"
  let ?gm = "gm_update gm (unat addr) ?m"
  have len: "length ?m = length (mapping r)" using n reg by simp
  note look = gm_update_region_of [OF assms(1) r len]
  have "write_obj_at_addr val addr gm = (Inr (), ?gm)"
    using r n by (simp add: write_obj_eq [OF assms(1, 2)])
  moreover have "gm_wf ?gm" by (rule gm_update_wf [OF assms(1) r len])
  moreover have "gm_fits ?gm = gm_fits gm"
  proof (intro ext)
    fix a k
    show "gm_fits ?gm a k = gm_fits gm a k"
      using len look [of a] region_of_unique [OF assms(1), of r a] region_of_Some [OF r]
      by (simp add: gm_fits_def)
  qed
  moreover have "gm_byte ?gm b = (if unat addr \<le> b \<and> b < unat addr + length val
      then Some (val ! (b - unat addr)) else gm_byte gm b)" for b
  proof (cases "b \<in> region_span r")
    case True
    then have "b - unat (guest_base r) < length (mapping r)" by (auto simp: region_span_def)
    then show ?thesis
      using True look [of b] gm_byte_in [OF assms(1) r True] n reg
      by (auto simp: gm_byte_region nth_splice region_span_def)
  next
    case False
    then have "\<not> (unat addr \<le> b \<and> b < unat addr + length val)" using n reg by (auto simp: region_span_def)
    then show ?thesis using False look [of b] by (auto simp: gm_byte_region)
  qed
  ultimately show ?thesis by (rule that)
qed

lemma write_obj_unfit:
  assumes "gm_wf gm" "length val < 2 ^ 64" "\<not> gm_fits gm (unat addr) (length val)"
  shows "\<exists>e. write_obj_at_addr val addr gm = (Inl e, gm)"
proof (cases "region_of gm (unat addr)")
  case None
  then show ?thesis by (simp add: write_obj_eq [OF assms(1, 2)])
next
  case (Some r)
  then show ?thesis
    using assms(3) gm_update_same [OF Some] by (simp add: write_obj_eq [OF assms(1, 2)] gm_fits_iff)
qed

lemma read_obj_fits:
  assumes "gm_wf gm" "n < 2 ^ 64"
  shows "read_obj_from_addr n addr gm = Inr bs \<longleftrightarrow>
    gm_fits gm (unat addr) n \<and> bs = map (\<lambda>i. the (gm_byte gm (unat addr + i))) [0..<n]"
  by (auto simp: read_obj_eq [OF assms] gm_fits_iff split: option.splits)

section \<open>The contract of a byte store\<close>

text \<open>
  What the clients of guest memory rely on: a load gives the bytes of the view, a store
  changes exactly the bytes it covers, and both succeed exactly where the bytes fit.
\<close>

locale byte_store =
  fixes load :: "nat \<Rightarrow> u64 \<Rightarrow> 'm \<Rightarrow> u8 list option"
    and store :: "u8 list \<Rightarrow> u64 \<Rightarrow> 'm \<Rightarrow> 'm option"
    and minv :: "'m \<Rightarrow> bool"
    and fits :: "'m \<Rightarrow> nat \<Rightarrow> nat \<Rightarrow> bool"
    and view :: "'m \<Rightarrow> nat \<Rightarrow> u8 option"
  assumes load_eq: "minv m \<Longrightarrow> n < 2 ^ 64 \<Longrightarrow> load n a m =
      (if fits m (unat a) n then Some (map (\<lambda>i. the (view m (unat a + i))) [0..<n]) else None)"
    and store_fits: "minv m \<Longrightarrow> length bs < 2 ^ 64 \<Longrightarrow> fits m (unat a) (length bs) \<Longrightarrow>
      \<exists>m'. store bs a m = Some m' \<and> minv m' \<and> fits m' = fits m \<and>
        (\<forall>b. view m' b = (if unat a \<le> b \<and> b < unat a + length bs then Some (bs ! (b - unat a)) else view m b))"
    and store_unfit: "minv m \<Longrightarrow> length bs < 2 ^ 64 \<Longrightarrow> \<not> fits m (unat a) (length bs) \<Longrightarrow> store bs a m = None"
begin

lemma store_Some:
  assumes "minv m" "length bs < 2 ^ 64" "store bs a m = Some m'"
  shows "fits m (unat a) (length bs)" "minv m'" "fits m' = fits m"
    "view m' b = (if unat a \<le> b \<and> b < unat a + length bs then Some (bs ! (b - unat a)) else view m b)"
proof -
  show f: "fits m (unat a) (length bs)" using store_unfit [OF assms(1, 2), of a] assms(3) by fastforce
  show "minv m'" "fits m' = fits m"
    "view m' b = (if unat a \<le> b \<and> b < unat a + length bs then Some (bs ! (b - unat a)) else view m b)"
    using store_fits [OF assms(1, 2) f] assms(3) by auto
qed

lemma load_same:
  assumes "minv m" "length bs < 2 ^ 64" "store bs a m = Some m'"
  shows "load (length bs) a m' = Some bs"
proof -
  note st = store_Some [OF assms]
  have "map (\<lambda>i. the (view m' (unat a + i))) [0..<length bs] = bs"
    by (rule nth_equalityI) (simp_all add: st(4))
  then show ?thesis using load_eq [OF st(2) assms(2)] st(1, 3) by simp
qed

lemma load_other:
  assumes "minv m" "length bs < 2 ^ 64" "store bs a m = Some m'" "n < 2 ^ 64"
    and "unat c + n \<le> unat a \<or> unat a + length bs \<le> unat c"
  shows "load n c m' = load n c m"
proof -
  note st = store_Some [OF assms(1-3)]
  have "map (\<lambda>i. the (view m' (unat c + i))) [0..<n] = map (\<lambda>i. the (view m (unat c + i))) [0..<n]"
    using assms(5) by (auto simp: st(4))
  then show ?thesis using load_eq [OF st(2) assms(4)] load_eq [OF assms(1, 4)] st(3) by simp
qed

end

definition gm_load :: "nat \<Rightarrow> guest_address \<Rightarrow> guest_memory \<Rightarrow> u8 list option" where
  "gm_load n a gm = (case read_obj_from_addr n a gm of Inr bs \<Rightarrow> Some bs | Inl _ \<Rightarrow> None)"

definition gm_store :: "u8 list \<Rightarrow> guest_address \<Rightarrow> guest_memory \<Rightarrow> guest_memory option" where
  "gm_store bs a gm = (case write_obj_at_addr bs a gm of (Inr _, gm') \<Rightarrow> Some gm' | (Inl _, _) \<Rightarrow> None)"

interpretation guest_mem: byte_store gm_load gm_store gm_wf gm_fits gm_byte
proof unfold_locales
  fix m :: guest_memory and n a and bs :: "u8 list"
  assume wf: "gm_wf m"
  show "gm_load n a m = (if gm_fits m (unat a) n then Some (map (\<lambda>i. the (gm_byte m (unat a + i))) [0..<n]) else None)"
    if "n < 2 ^ 64"
    using read_obj_fits [OF wf that, of a] by (cases "read_obj_from_addr n a m") (auto simp: gm_load_def)
  assume len: "length bs < 2 ^ 64"
  show "\<exists>m'. gm_store bs a m = Some m' \<and> gm_wf m' \<and> gm_fits m' = gm_fits m \<and>
      (\<forall>b. gm_byte m' b = (if unat a \<le> b \<and> b < unat a + length bs then Some (bs ! (b - unat a)) else gm_byte m b))"
    if "gm_fits m (unat a) (length bs)"
    by (rule write_obj_fits [OF wf len that]) (simp add: gm_store_def)
  show "gm_store bs a m = None" if "\<not> gm_fits m (unat a) (length bs)"
    using write_obj_unfit [OF wf len that] by (auto simp: gm_store_def)
qed

lemma gm_store_Some: "write_obj_at_addr bs a gm = (Inr (), gm') \<Longrightarrow> gm_store bs a gm = Some gm'"
  by (simp add: gm_store_def)

lemma gm_load_iff: "gm_load n a gm = Some bs \<longleftrightarrow> read_obj_from_addr n a gm = Inr bs"
  by (auto simp: gm_load_def split: sum.splits)

text \<open>
  C28. Guest memory behaves as memory: after a successful write the object is read back
  from its address, every object that does not overlap it reads as before, and the
  layout is kept.
\<close>

theorem guest_memory_write_read:
  assumes "gm_wf gm" "length val < 2 ^ 64" "write_obj_at_addr val addr gm = (Inr (), gm')"
  shows "gm_wf gm' \<and> read_obj_from_addr (length val) addr gm' = Inr val \<and>
    (\<forall>n c bs. n < 2 ^ 64 \<and> (unat c + n \<le> unat addr \<or> unat addr + length val \<le> unat c) \<longrightarrow>
       (read_obj_from_addr n c gm' = Inr bs \<longleftrightarrow> read_obj_from_addr n c gm = Inr bs))"
proof -
  note st = gm_store_Some [OF assms(3)]
  show ?thesis
    using guest_mem.store_Some(2) [OF assms(1, 2) st] guest_mem.load_same [OF assms(1, 2) st]
      guest_mem.load_other [OF assms(1, 2) st]
    unfolding gm_load_iff [symmetric] by auto
qed

definition example_memory :: guest_memory where
  "example_memory = [\<lparr>mapping = replicate 8 0, guest_base = 0x1000\<rparr>, \<lparr>mapping = replicate 8 0, guest_base = 0x2000\<rparr>]"

lemma example_memory_wf: "gm_wf example_memory"
  by (simp add: example_memory_def gm_wf_def)

theorem guest_memory_write_read_witness:
  "\<exists>gm'. write_obj_at_addr [1, 2] 0x1004 example_memory = (Inr (), gm') \<and>
     read_obj_from_addr 2 0x1004 gm' = Inr [1, 2] \<and>
     (read_obj_from_addr 2 0x2000 gm' = Inr [0, 0] \<longleftrightarrow> read_obj_from_addr 2 0x2000 example_memory = Inr [0, 0])"
proof -
  obtain gm' where w: "write_obj_at_addr [1, 2] 0x1004 example_memory = (Inr (), gm')"
    by (simp add: write_obj_eq [OF example_memory_wf])
      (simp add: example_memory_def region_span_def)
  have len: "length [1, 2 :: u8] = 2" by simp
  have r: "read_obj_from_addr 2 0x1004 gm' = Inr [1, 2] \<and>
    (\<forall>n c bs. n < 2 ^ 64 \<and> (unat c + n \<le> unat (0x1004 :: u64) \<or> unat (0x1004 :: u64) + 2 \<le> unat c) \<longrightarrow>
       (read_obj_from_addr n c gm' = Inr bs \<longleftrightarrow> read_obj_from_addr n c example_memory = Inr bs))"
    using guest_memory_write_read [OF example_memory_wf _ w, unfolded len] by simp
  then have "read_obj_from_addr 2 0x2000 gm' = Inr [0, 0] \<longleftrightarrow> read_obj_from_addr 2 0x2000 example_memory = Inr [0, 0]"
    by simp
  with r w show ?thesis by blast
qed

section \<open>Creating guest memory\<close>

text \<open>What is relied on of \<^verbatim>\<open>mmap\<close>: it returns as many bytes as it was asked for, at
  least one.\<close>

definition mmap_ok :: "(usize \<Rightarrow> mapping option) \<Rightarrow> bool" where
  "mmap_ok mmap \<longleftrightarrow> (\<forall>sz m. mmap sz = Some m \<longrightarrow> length m = unat sz \<and> m \<noteq> [])"

text \<open>The regions before the last are well formed; the last may still reach beyond the top.\<close>

definition gm_pre_wf :: "guest_memory \<Rightarrow> bool" where
  "gm_pre_wf gm \<longleftrightarrow> gm = [] \<or> gm_wf (butlast gm) \<and> mapping (last gm) \<noteq> [] \<and>
     length (mapping (last gm)) < 2 ^ 64 \<and>
     (\<forall>r \<in> set (butlast gm). unat (guest_base r) + length (mapping r) \<le> unat (guest_base (last gm)))"

lemma gm_wf_snoc:
  "gm_wf (gm @ [r]) \<longleftrightarrow> gm_wf gm \<and> mapping r \<noteq> [] \<and> unat (guest_base r) + length (mapping r) < 2 ^ 64 \<and>
    (\<forall>q \<in> set gm. unat (guest_base q) + length (mapping q) \<le> unat (guest_base r))"
  by (auto simp: gm_wf_def sorted_wrt_append)

lemma gm_pre_wf_full:
  assumes "gm_pre_wf gm" "gm \<noteq> [] \<Longrightarrow> unat (guest_base (last gm)) + length (mapping (last gm)) < 2 ^ 64"
  shows "gm_wf gm"
proof (cases "gm = []")
  case False
  then have "gm = butlast gm @ [last gm]" by simp
  then show ?thesis using assms False gm_wf_snoc [of "butlast gm" "last gm"] by (simp add: gm_pre_wf_def)
qed (simp add: gm_wf_def)

lemma gm_new_from_sound:
  assumes "mmap_ok mmap"
  shows "gm_pre_wf regions \<Longrightarrow> gm_new_from mmap regions ranges = Inr gm \<Longrightarrow>
    gm_pre_wf gm \<and> map (\<lambda>r. (guest_base r, length (mapping r))) gm =
      map (\<lambda>r. (guest_base r, length (mapping r))) regions @ map (\<lambda>(b, n). (b, unat n)) ranges"
proof (induction ranges arbitrary: regions)
  case (Cons rng ranges)
  obtain m where m: "mmap (snd rng) = Some m" "length m = unat (snd rng)" "m \<noteq> []"
    using Cons.prems(2) assms
    by (auto simp: mapping_new_def mmap_ok_def split: if_splits option.splits)
  let ?r = "\<lparr>mapping = m, guest_base = fst rng\<rparr>"
  have next_ok: "regions \<noteq> [] \<Longrightarrow> unat (guest_base (last regions)) + length (mapping (last regions)) < 2 ^ 64 \<and>
      unat (guest_base (last regions)) + length (mapping (last regions)) \<le> unat (fst rng)"
    using Cons.prems
    by (auto simp: checked_simps mapping_size_unat gm_pre_wf_def word_less_nat_alt unat_add_no_wrap
        split: option.splits if_splits)
  then have wf: "gm_wf regions" using Cons.prems(1) by (blast intro: gm_pre_wf_full)
  have "unat (guest_base r) + length (mapping r) \<le> unat (fst rng)" if "r \<in> set regions" for r
  proof (cases "r = last regions")
    case False
    have ne: "regions \<noteq> []" using that by auto
    have "r \<in> set (butlast regions @ [last regions])" using that by (simp only: append_butlast_last_id [OF ne])
    then have "r \<in> set (butlast regions)" using False by simp
    then show ?thesis using next_ok Cons.prems(1) that by (fastforce simp: gm_pre_wf_def)
  next
    case True
    moreover have "regions \<noteq> []" using that by auto
    ultimately show ?thesis using next_ok by simp
  qed
  then have "gm_pre_wf (regions @ [?r])" using wf m by (simp add: gm_pre_wf_def)
  moreover have "gm_new_from mmap (regions @ [?r]) ranges = Inr gm"
    using Cons.prems(2) m(1) by (simp add: mapping_new_def split: if_splits)
  ultimately show ?case using Cons.IH m by (cases rng) auto
qed simp

lemma max_by_base_last:
  "gm_wf (r # rs) \<Longrightarrow> max_by_base r rs = last (r # rs)"
proof (induction rs arbitrary: r)
  case (Cons q rs)
  have "guest_base q \<ge> guest_base r" using Cons.prems by (auto simp: gm_wf_Cons word_le_nat_alt)
  then show ?case using Cons by (simp add: gm_wf_Cons)
qed simp

lemma end_addr_last: "gm_wf gm \<Longrightarrow> gm \<noteq> [] \<Longrightarrow> end_addr gm = region_end (last gm)"
  by (cases gm) (simp_all add: end_addr_def max_by_base_last del: last.simps)

lemma region_of_None: "region_of gm a = None \<longleftrightarrow> (\<forall>r \<in> set gm. a \<notin> region_span r)"
  by (induction gm) auto

text \<open>
  C29. Creating guest memory from a list of ranges, when the last range ends below the top
  of the address space: on success the regions are the ranges, in order and disjoint, the
  bytes that exist are exactly those of the ranges, and the end of memory is the end of the
  last range. Overlapping or unsorted ranges are refused.
\<close>

theorem guest_memory_new:
  assumes "mmap_ok mmap" "gm_new mmap ranges = Inr gm" "ranges \<noteq> []"
    and "unat (fst (last ranges)) + unat (snd (last ranges)) < 2 ^ 64"
  shows "gm_wf gm \<and> map (\<lambda>r. (guest_base r, length (mapping r))) gm = map (\<lambda>(b, n). (b, unat n)) ranges \<and>
    (\<forall>a. gm_byte gm a \<noteq> None \<longleftrightarrow> (\<exists>(b, n) \<in> set ranges. unat b \<le> a \<and> a < unat b + unat n)) \<and>
    unat (end_addr gm) = unat (fst (last ranges)) + unat (snd (last ranges)) \<and>
    sorted_wrt (\<lambda>(b, n) (b', _). unat b + unat n \<le> unat b') ranges"
proof -
  let ?shape = "\<lambda>r. (guest_base r, length (mapping r))"
  have pre: "gm_pre_wf gm" "map ?shape gm = map (\<lambda>(b, n). (b, unat n)) ranges"
    using gm_new_from_sound [OF assms(1), of "[]" ranges gm] assms(2) by (simp_all add: gm_new_def gm_pre_wf_def)
  then have ne: "gm \<noteq> []" using assms(3) by auto
  have "?shape (last gm) = (\<lambda>(b, n). (b, unat n)) (last ranges)"
    using pre(2) ne assms(3) by (metis (no_types, lifting) last_map)
  then have l: "guest_base (last gm) = fst (last ranges)" "length (mapping (last gm)) = unat (snd (last ranges))"
    by (simp_all add: split_beta)
  have wf: "gm_wf gm" using pre(1) l assms(4) by (auto intro: gm_pre_wf_full)
  have "unat (end_addr gm) = unat (fst (last ranges)) + unat (snd (last ranges))"
    using end_addr_last [OF wf ne] region_end_unat [of "last gm"] l assms(4) by simp
  moreover have "gm_byte gm a \<noteq> None \<longleftrightarrow> (\<exists>(b, n) \<in> set ranges. unat b \<le> a \<and> a < unat b + unat n)" for a
  proof -
    have "gm_byte gm a \<noteq> None \<longleftrightarrow> (\<exists>(b, k) \<in> set (map ?shape gm). unat b \<le> a \<and> a < unat b + k)"
      using region_of_None [of gm a] by (auto simp: gm_byte_region region_span_def)
    then show ?thesis unfolding pre(2) by (simp add: split_beta)
  qed
  moreover have "sorted_wrt (\<lambda>(b, n) (b', _). unat b + unat n \<le> unat b') ranges"
  proof -
    have "sorted_wrt (\<lambda>(b, k) (b', _). unat b + k \<le> unat b') (map ?shape gm)"
      using wf by (simp add: gm_wf_def sorted_wrt_map)
    then show ?thesis unfolding pre(2) by (simp add: sorted_wrt_map case_prod_unfold)
  qed
  ultimately show ?thesis using wf pre(2) by blast
qed

definition zero_mmap :: "usize \<Rightarrow> mapping option" where
  "zero_mmap sz = (if sz = 0 then None else Some (replicate (unat sz) 0))"

lemma zero_mmap_ok: "mmap_ok zero_mmap"
  by (auto simp: mmap_ok_def zero_mmap_def unat_eq_0 split: if_splits)

theorem guest_memory_new_witness:
  "\<exists>gm. gm_new zero_mmap [(0x1000, 8), (0x2000, 8)] = Inr gm \<and> gm_wf gm \<and> unat (end_addr gm) = 0x2008"
proof -
  obtain gm where gm: "gm_new zero_mmap [(0x1000, 8), (0x2000, 8)] = Inr gm"
    by (simp add: gm_new_def mapping_new_def zero_mmap_def checked_add_def mapping_size_def)
  from guest_memory_new [OF zero_mmap_ok gm] show ?thesis by (auto simp: gm)
qed

text \<open>
  The end of the last region is not checked when memory is created, although
  \<^verbatim>\<open>region_end\<close> relies on it: a last range that crosses the top of the address space is
  accepted, the end of memory wraps around to a low address, and none of its bytes can be
  read.
\<close>

theorem guest_memory_last_region_wraps:
  "\<exists>gm. gm_new zero_mmap [(0xfffffffffffff000, 0x2000)] = Inr gm \<and> end_addr gm = 0x1000 \<and>
     read_obj_from_addr 1 0xfffffffffffff000 gm = Inl (InvalidGuestAddress 0xfffffffffffff000)"
  by (simp add: gm_new_def mapping_new_def zero_mmap_def end_addr_def region_end_def unchecked_add_def
      mapping_size_def read_obj_from_addr_def)

end
