(* ===== verification/Virtqueue.thy ===== *)
theory Virtqueue
  imports Guest_Memory
begin

text \<open>
  Virtio queues (\<^verbatim>\<open>devices/src/virtio/queue.rs\<close>): descriptor chains in guest memory, the
  iterator over the available ring, and the used ring. Guest memory does not change during
  an operation of the device, and the memory fence has no counterpart. The reads and
  writes that the code unwraps panic when they fail.
\<close>

section \<open>Reading numbers from guest memory\<close>

definition read_num :: "guest_memory \<Rightarrow> guest_address \<Rightarrow> nat \<Rightarrow> 'a::len word outcome" where
  "read_num mem a n = outcome_bind (unwrap_ok (read_obj_from_addr n a mem)) (\<lambda>bs. Return (from_le bs))"

definition write_num :: "'a::len word \<Rightarrow> guest_address \<Rightarrow> guest_memory \<Rightarrow> guest_memory outcome" where
  "write_num v a mem =
     (case write_obj_at_addr (to_le v) a mem of (Inr _, mem') \<Rightarrow> Return mem' | (Inl _, _) \<Rightarrow> Panic)"

section \<open>Descriptor chains\<close>

record descriptor_chain =
  dc_table :: guest_address
  dc_queue_size :: u16
  dc_ttl :: u16
  dc_index :: u16
  dc_addr :: guest_address
  dc_len :: u32
  dc_flags :: u16
  dc_next :: u16

definition has_next :: "descriptor_chain \<Rightarrow> bool" where
  "has_next c \<longleftrightarrow> dc_flags c AND 0x1 \<noteq> 0 \<and> dc_ttl c > 1"

definition is_write_only :: "descriptor_chain \<Rightarrow> bool" where
  "is_write_only c \<longleftrightarrow> dc_flags c AND 0x2 \<noteq> 0"

definition is_read_only :: "descriptor_chain \<Rightarrow> bool" where
  "is_read_only c \<longleftrightarrow> dc_flags c AND 0x2 = 0"

definition chain_is_valid :: "guest_memory \<Rightarrow> descriptor_chain \<Rightarrow> bool" where
  "chain_is_valid mem c =
     (if checked_offset mem (dc_addr c) (ucast (dc_len c)) = None then False
      else if has_next c \<and> dc_next c \<ge> dc_queue_size c then False
      else True)"

definition checked_new :: "guest_memory \<Rightarrow> guest_address \<Rightarrow> u16 \<Rightarrow> u16 \<Rightarrow> descriptor_chain option outcome" where
  "checked_new mem table queue_size index =
     (if index \<ge> queue_size then Return None
      else case checked_offset mem table (ucast index * 16) of
        None \<Rightarrow> Return None
      | Some desc_head \<Rightarrow>
          outcome_bind (read_num mem desc_head 8) (\<lambda>addr.
          if checked_offset mem desc_head 16 = None then Return None
          else
            outcome_bind (read_num mem (unchecked_add desc_head 8) 4) (\<lambda>len.
            outcome_bind (read_num mem (unchecked_add desc_head 12) 2) (\<lambda>flags.
            outcome_bind (read_num mem (unchecked_add desc_head 14) 2) (\<lambda>nxt.
            let chain = \<lparr>dc_table = table, dc_queue_size = queue_size, dc_ttl = queue_size,
                  dc_index = index, dc_addr = addr, dc_len = len, dc_flags = flags, dc_next = nxt\<rparr>
            in Return (if chain_is_valid mem chain then Some chain else None))))))"

definition next_descriptor :: "guest_memory \<Rightarrow> descriptor_chain \<Rightarrow> descriptor_chain option outcome" where
  "next_descriptor mem c =
     (if has_next c then
        outcome_bind (checked_new mem (dc_table c) (dc_queue_size c) (dc_next c))
          (\<lambda>x. Return (map_option (\<lambda>d. d\<lparr>dc_ttl := dc_ttl c - 1\<rparr>) x))
      else Return None)"

lemma next_descriptor_ttl:
  assumes "next_descriptor mem c = Return (Some d)"
  shows "unat (dc_ttl d) = unat (dc_ttl c) - 1" "1 < unat (dc_ttl c)"
proof -
  have "has_next c" using assms by (auto simp: next_descriptor_def split: if_splits)
  then show ttl: "1 < unat (dc_ttl c)" by (simp add: has_next_def word_less_nat_alt)
  have "dc_ttl d = dc_ttl c - 1"
    using assms by (auto simp: next_descriptor_def outcome_bind_Return split: if_splits)
  then show "unat (dc_ttl d) = unat (dc_ttl c) - 1"
    using ttl by (simp add: unat_sub_no_wrap word_le_nat_alt)
qed

lemma next_descriptor_less:
  "next_descriptor mem c = Return (Some d) \<Longrightarrow> unat (dc_ttl d) < unat (dc_ttl c)"
  using next_descriptor_ttl by fastforce

text \<open>The iterator \<^verbatim>\<open>DescIter\<close>, run to its end: the descriptors of a chain.\<close>

function desc_iter :: "guest_memory \<Rightarrow> descriptor_chain \<Rightarrow> descriptor_chain list outcome" where
  "desc_iter mem c =
     (case next_descriptor mem c of
        Panic \<Rightarrow> Panic
      | Return None \<Rightarrow> Return [c]
      | Return (Some d) \<Rightarrow> outcome_bind (desc_iter mem d) (\<lambda>cs. Return (c # cs)))"
  by pat_completeness auto
termination
  by (relation "measure (\<lambda>(mem, c). unat (dc_ttl c))") (auto dest: next_descriptor_less)

declare desc_iter.simps [simp del]

definition desc_readable :: "descriptor_chain list \<Rightarrow> descriptor_chain list" where
  "desc_readable cs = takeWhile is_read_only cs"

definition desc_writable :: "descriptor_chain list \<Rightarrow> descriptor_chain list" where
  "desc_writable cs = dropWhile is_read_only cs"

section \<open>Queues\<close>

record queue =
  q_max_size :: u16
  q_size :: u16
  q_ready :: bool
  q_desc_table :: guest_address
  q_avail_ring :: guest_address
  q_used_ring :: guest_address
  q_next_avail :: u16
  q_next_used :: u16

definition queue_new :: "u16 \<Rightarrow> queue" where
  "queue_new max_size = \<lparr>q_max_size = max_size, q_size = 0, q_ready = False, q_desc_table = 0,
     q_avail_ring = 0, q_used_ring = 0, q_next_avail = 0, q_next_used = 0\<rparr>"

definition actual_size :: "queue \<Rightarrow> u16" where
  "actual_size q = min (q_size q) (q_max_size q)"

definition ring_in_range :: "guest_memory \<Rightarrow> guest_address \<Rightarrow> u64 \<Rightarrow> bool" where
  "ring_in_range mem base sz =
     (case checked_add base sz of None \<Rightarrow> False | Some v \<Rightarrow> address_in_range mem v)"

definition queue_is_valid :: "queue \<Rightarrow> guest_memory \<Rightarrow> bool" where
  "queue_is_valid q mem =
     (let queue_size = ucast (actual_size q) :: u64;
          desc_table_size = 16 * queue_size;
          avail_ring_size = 6 + 2 * queue_size;
          used_ring_size = 6 + 8 * queue_size
      in if \<not> q_ready q then False
         else if q_size q > q_max_size q \<or> q_size q = 0 \<or> q_size q AND (q_size q - 1) \<noteq> 0 then False
         else if \<not> ring_in_range mem (q_desc_table q) desc_table_size then False
         else if \<not> ring_in_range mem (q_avail_ring q) avail_ring_size then False
         else if \<not> ring_in_range mem (q_used_ring q) used_ring_size then False
         else True)"

text \<open>The iterator over the available ring; the queue's \<^verbatim>\<open>next_avail\<close>, which it borrows, is
  threaded beside it.\<close>

record avail_iter =
  ai_table :: guest_address
  ai_avail_ring :: guest_address
  ai_next_index :: u16
  ai_last_index :: u16
  ai_queue_size :: u16

definition empty_iter :: avail_iter where
  "empty_iter = \<lparr>ai_table = 0, ai_avail_ring = 0, ai_next_index = 0, ai_last_index = 0, ai_queue_size = 0\<rparr>"

definition queue_iter :: "queue \<Rightarrow> guest_memory \<Rightarrow> avail_iter outcome" where
  "queue_iter q mem =
     (if \<not> queue_is_valid q mem then Return empty_iter
      else
        let queue_size = actual_size q; avail_ring = q_avail_ring q in
        outcome_bind (unwrap (checked_offset mem avail_ring 2)) (\<lambda>index_addr.
        outcome_bind (read_num mem index_addr 2) (\<lambda>last_index.
        let queue_len = last_index - q_next_avail q in
        Return (if queue_len > queue_size then empty_iter
          else \<lparr>ai_table = q_desc_table q, ai_avail_ring = avail_ring, ai_next_index = q_next_avail q,
                ai_last_index = last_index, ai_queue_size = queue_size\<rparr>))))"

text \<open>The offset of a slot of the ring is computed with 16 bits.\<close>

definition avail_next ::
  "guest_memory \<Rightarrow> avail_iter \<Rightarrow> u16 \<Rightarrow> (descriptor_chain option \<times> avail_iter \<times> u16) outcome" where
  "avail_next mem it next_avail =
     (if ai_next_index it = ai_last_index it then Return (None, it, next_avail)
      else if ai_queue_size it = 0 then Panic
      else
        let off = ucast (4 + (ai_next_index it mod ai_queue_size it) * 2 :: u16) :: u64 in
        case checked_offset mem (ai_avail_ring it) off of
          None \<Rightarrow> Return (None, it, next_avail)
        | Some avail_addr \<Rightarrow>
            outcome_bind (read_num mem avail_addr 2) (\<lambda>desc_index.
            let it' = it\<lparr>ai_next_index := ai_next_index it + 1\<rparr> in
            outcome_bind (checked_new mem (ai_table it) (ai_queue_size it) desc_index) (\<lambda>ret.
            Return (ret, it', if ret \<noteq> None then next_avail + 1 else next_avail))))"

definition add_used :: "guest_memory \<Rightarrow> u16 \<Rightarrow> u32 \<Rightarrow> queue \<Rightarrow> (guest_memory \<times> queue) outcome" where
  "add_used mem desc_index len q =
     (if desc_index \<ge> actual_size q then Return (mem, q)
      else
        let used_ring = q_used_ring q;
            next_used = ucast (q_next_used q mod actual_size q) :: u64;
            used_elem = unchecked_add used_ring (4 + next_used * 8)
        in outcome_bind (write_num (ucast desc_index :: u32) used_elem mem) (\<lambda>mem.
           outcome_bind (write_num len (unchecked_add used_elem 4) mem) (\<lambda>mem.
           let q = q\<lparr>q_next_used := q_next_used q + 1\<rparr> in
           outcome_bind (write_num (q_next_used q) (unchecked_add used_ring 2) mem) (\<lambda>mem.
           Return (mem, q)))))"

section \<open>Chains are bounded\<close>

text \<open>What holds of every descriptor handed to a device.\<close>

definition desc_ok :: "guest_memory \<Rightarrow> guest_address \<Rightarrow> u16 \<Rightarrow> descriptor_chain \<Rightarrow> bool" where
  "desc_ok mem table queue_size c \<longleftrightarrow> dc_table c = table \<and> dc_queue_size c = queue_size \<and>
     dc_index c < queue_size \<and> unat (dc_addr c) + unat (dc_len c) < unat (end_addr mem)"

lemma checked_offset_Some:
  "checked_offset mem a off = Some b \<longleftrightarrow>
    unat a + unat off < 2 ^ 64 \<and> b = a + off \<and> unat a + unat off < unat (end_addr mem)"
  by (auto simp: checked_offset_def checked_simps word_less_nat_alt unat_add_no_wrap split: option.split)

lemma chain_is_valid_bounds:
  "chain_is_valid mem c \<Longrightarrow> unat (dc_addr c) + unat (dc_len c) < unat (end_addr mem)"
  using checked_offset_Some [of mem "dc_addr c" "ucast (dc_len c)"]
  by (auto simp: chain_is_valid_def unat_ucast_up split: if_splits)

lemma checked_new_ok:
  assumes "checked_new mem table qs i = Return (Some c)"
  shows "desc_ok mem table qs c" "dc_index c = i" "dc_ttl c = qs"
proof -
  have "i < qs" using assms by (auto simp: checked_new_def not_le split: if_splits)
  moreover have "chain_is_valid mem c" "dc_table c = table" "dc_queue_size c = qs" "dc_index c = i" "dc_ttl c = qs"
    using assms by (auto simp: checked_new_def outcome_bind_Return Let_def split: if_splits option.splits)
  ultimately show "desc_ok mem table qs c" "dc_index c = i" "dc_ttl c = qs"
    using chain_is_valid_bounds by (auto simp: desc_ok_def)
qed

lemma next_descriptor_ok:
  assumes "next_descriptor mem c = Return (Some d)" "desc_ok mem table qs c"
  shows "desc_ok mem table qs d"
proof -
  obtain e where "checked_new mem (dc_table c) (dc_queue_size c) (dc_next c) = Return (Some e)"
    "d = e\<lparr>dc_ttl := dc_ttl c - 1\<rparr>"
    using assms(1) by (auto simp: next_descriptor_def outcome_bind_Return split: if_splits)
  then show ?thesis using checked_new_ok(1) assms(2) by (fastforce simp: desc_ok_def)
qed

lemma desc_iter_bounded:
  "desc_iter mem c = Return cs \<Longrightarrow> desc_ok mem table qs c \<Longrightarrow> 0 < unat (dc_ttl c) \<Longrightarrow>
    length cs \<le> unat (dc_ttl c) \<and> (\<forall>d \<in> set cs. desc_ok mem table qs d) \<and> cs \<noteq> [] \<and> hd cs = c"
proof (induction mem c arbitrary: cs rule: desc_iter.induct)
  case (1 mem c)
  show ?case
  proof (cases "next_descriptor mem c")
    case (Return x)
    show ?thesis
    proof (cases x)
      case None
      then show ?thesis using "1.prems" Return by (auto simp: desc_iter.simps [of mem c] Suc_le_eq)
    next
      case (Some d)
      then have n: "next_descriptor mem c = Return (Some d)" using Return by simp
      obtain ds where ds: "desc_iter mem d = Return ds" "cs = c # ds"
        using "1.prems"(1) n by (auto simp: desc_iter.simps [of mem c] outcome_bind_Return)
      have "0 < unat (dc_ttl d)" using next_descriptor_ttl [OF n] by simp
      then have "length ds \<le> unat (dc_ttl d) \<and> (\<forall>e \<in> set ds. desc_ok mem table qs e)"
        using "1.IH" [OF Return Some ds(1) next_descriptor_ok [OF n "1.prems"(2)]] by blast
      then show ?thesis using ds(2) next_descriptor_ttl [OF n] "1.prems"(2) by auto
    qed
  qed (use "1.prems" in \<open>simp add: desc_iter.simps [of mem c]\<close>)
qed

text \<open>
  C30. Whatever the guest writes into the descriptor table, cycles included, the chain from
  any accepted head has at most as many descriptors as the queue; each one names an
  entry of the table, and each of its buffers ends below the end of guest memory.
\<close>

theorem descriptor_chain_bounded:
  assumes "checked_new mem table queue_size index = Return (Some c)" "desc_iter mem c = Return cs"
  shows "length cs \<le> unat queue_size \<and> hd cs = c \<and> dc_index c = index \<and>
    (\<forall>d \<in> set cs. dc_index d < queue_size \<and> unat (dc_addr d) + unat (dc_len d) < unat (end_addr mem)) \<and>
    set (desc_readable cs) \<subseteq> {d. is_read_only d} \<and> desc_readable cs @ desc_writable cs = cs"
proof -
  note new = checked_new_ok [OF assms(1)]
  have "0 < unat (dc_ttl c)" using new by (auto simp: desc_ok_def word_less_nat_alt)
  from desc_iter_bounded [OF assms(2) new(1) this] show ?thesis
    using new by (auto simp: desc_ok_def desc_readable_def desc_writable_def dest: set_takeWhileD)
qed

section \<open>Draining the available ring\<close>

text \<open>The loop \<^verbatim>\<open>for desc in queue.iter(mem)\<close> of the devices, which ends at the first \<^verbatim>\<open>None\<close>.\<close>

lemma avail_next_progress:
  assumes "avail_next mem it na = Return (Some c, it', na')"
  shows "unat (ai_last_index it' - ai_next_index it') < unat (ai_last_index it - ai_next_index it)"
    "it' = it\<lparr>ai_next_index := ai_next_index it + 1\<rparr>" "na' = na + 1"
proof -
  have ne: "ai_next_index it \<noteq> ai_last_index it" using assms by (auto simp: avail_next_def)
  show it': "it' = it\<lparr>ai_next_index := ai_next_index it + 1\<rparr>" "na' = na + 1"
    using assms by (auto simp: avail_next_def Let_def outcome_bind_Return split: if_splits option.splits)
  define d where "d = ai_last_index it - ai_next_index it"
  have "d \<noteq> 0" using ne by (simp add: d_def)
  then have "unat (d - 1) < unat d" by (simp add: unat_sub_no_wrap word_le_nat_alt Suc_le_eq unat_gt_0)
  then show "unat (ai_last_index it' - ai_next_index it') < unat (ai_last_index it - ai_next_index it)"
    by (simp add: it' d_def algebra_simps)
qed

function avail_drain ::
  "guest_memory \<Rightarrow> avail_iter \<Rightarrow> u16 \<Rightarrow> (descriptor_chain list \<times> u16) outcome" where
  "avail_drain mem it na =
     (case avail_next mem it na of
        Panic \<Rightarrow> Panic
      | Return (None, _, na') \<Rightarrow> Return ([], na')
      | Return (Some c, it', na') \<Rightarrow>
          outcome_bind (avail_drain mem it' na') (\<lambda>(cs, na''). Return (c # cs, na'')))"
  by pat_completeness auto
termination
  by (relation "measure (\<lambda>(mem, it, na). unat (ai_last_index it - ai_next_index it))")
    (auto dest: avail_next_progress(1))

declare avail_drain.simps [simp del]

definition queue_drain :: "guest_memory \<Rightarrow> queue \<Rightarrow> (descriptor_chain list \<times> queue) outcome" where
  "queue_drain mem q =
     outcome_bind (queue_iter q mem) (\<lambda>it.
     outcome_bind (avail_drain mem it (q_next_avail q)) (\<lambda>(cs, na).
     Return (cs, q\<lparr>q_next_avail := na\<rparr>)))"

section \<open>Rings inside a region\<close>

text \<open>The table and both rings lie in mapped memory, each in one region.\<close>

definition queue_placed :: "guest_memory \<Rightarrow> queue \<Rightarrow> bool" where
  "queue_placed mem q \<longleftrightarrow> (let n = unat (actual_size q) in
     gm_fits mem (unat (q_desc_table q)) (16 * n) \<and> gm_fits mem (unat (q_avail_ring q)) (6 + 2 * n) \<and>
     gm_fits mem (unat (q_used_ring q)) (6 + 8 * n))"

lemma gm_fits_sub:
  assumes "gm_wf mem" "gm_fits mem a n" "a \<le> b" "b + k \<le> a + n" "0 < k"
  shows "gm_fits mem b k"
proof -
  obtain r where r: "region_of mem a = Some r" "a + n \<le> unat (guest_base r) + length (mapping r)"
    using assms(2) by (auto simp: gm_fits_iff)
  have "b \<in> region_span r" using gm_wf_region [OF assms(1) r(1)] r(2) assms by (auto simp: region_span_def)
  then have "region_of mem b = Some r"
    using region_of_unique [OF assms(1)] region_of_Some [OF r(1)] by blast
  then show ?thesis using r(2) assms by (simp add: gm_fits_iff)
qed

lemma gm_fits_top: "gm_wf mem \<Longrightarrow> gm_fits mem a n \<Longrightarrow> a + n < 2 ^ 64"
  using gm_wf_region(1) by (fastforce simp: gm_fits_iff)

lemma read_num_fits:
  "gm_wf mem \<Longrightarrow> n < 2 ^ 64 \<Longrightarrow> gm_fits mem (unat a) n \<Longrightarrow> \<exists>v. read_num mem a n = Return v"
  by (simp add: read_num_def iffD2 [OF read_obj_fits])

lemma checked_new_total:
  assumes "gm_wf mem" "gm_fits mem (unat table) (16 * unat qs)"
  shows "\<exists>x. checked_new mem table qs i = Return x"
proof (cases "i < qs \<and> checked_offset mem table (ucast i * 16) \<noteq> None")
  case True
  then obtain h where h: "checked_offset mem table (ucast i * 16) = Some h" by auto
  have i: "unat (ucast i * 16 :: u64) = 16 * unat i"
    using unat_lt_len [of i] by (simp add: unat_word_ariths unat_ucast_up)
  have hd: "unat h = unat table + 16 * unat i"
    using h i by (simp add: checked_offset_Some unat_add_no_wrap)
  have lt: "unat i < unat qs" using True by (simp add: word_less_nat_alt)
  have fit: "gm_fits mem (unat h + k) n" if "k + n \<le> 16" "0 < n" for k n
    by (rule gm_fits_sub [OF assms]) (use that hd lt in auto)
  have top: "unat h + 16 < 2 ^ 64" using gm_fits_top [OF assms(1) fit [of 0 16]] by simp
  have add: "unat (unchecked_add h (of_nat k)) = unat h + k" if "k \<le> 16" for k
    using that top by (simp add: unchecked_add_def unat_add_no_wrap unsigned_of_nat take_bit_nat_eq_self)
  obtain v1 where v1: "read_num mem h 8 = Return (v1 :: u64)"
    using read_num_fits [OF assms(1), of 8 h] fit [of 0 8] by auto
  obtain v2 where v2: "read_num mem (unchecked_add h 8) 4 = Return (v2 :: u32)"
    using read_num_fits [OF assms(1), of 4 "unchecked_add h 8"] fit [of 8 4] add [of 8] by auto
  obtain v3 where v3: "read_num mem (unchecked_add h 12) 2 = Return (v3 :: u16)"
    using read_num_fits [OF assms(1), of 2 "unchecked_add h 12"] fit [of 12 2] add [of 12] by auto
  obtain v4 where v4: "read_num mem (unchecked_add h 14) 2 = Return (v4 :: u16)"
    using read_num_fits [OF assms(1), of 2 "unchecked_add h 14"] fit [of 14 2] add [of 14] by auto
  show ?thesis using True h v1 v2 v3 v4 by (simp add: checked_new_def Let_def)
next
  case False
  then show ?thesis by (auto simp: checked_new_def not_less)
qed

lemma desc_iter_total:
  "gm_wf mem \<Longrightarrow> gm_fits mem (unat table) (16 * unat qs) \<Longrightarrow> dc_table c = table \<Longrightarrow> dc_queue_size c = qs \<Longrightarrow>
    \<exists>cs. desc_iter mem c = Return cs"
proof (induction mem c rule: desc_iter.induct)
  case (1 mem c)
  have "\<exists>x. next_descriptor mem c = Return x"
    using checked_new_total [OF "1.prems"(1), of table qs "dc_next c"] "1.prems"
    by (auto simp: next_descriptor_def)
  then obtain x where x: "next_descriptor mem c = Return x" ..
  show ?case
  proof (cases x)
    case (Some d)
    have "dc_table d = table" "dc_queue_size d = qs"
      using x Some "1.prems"(3, 4) checked_new_ok(1)
      by (fastforce simp: next_descriptor_def outcome_bind_Return desc_ok_def split: if_splits)+
    then obtain cs where "desc_iter mem d = Return cs" using "1.IH" [OF x Some "1.prems"(1, 2)] by auto
    then show ?thesis using x Some by (simp add: desc_iter.simps [of mem c])
  qed (use x in \<open>simp add: desc_iter.simps [of mem c]\<close>)
qed

text \<open>The iterator of a queue whose slots are addressed without wrap-around.\<close>

definition iter_of :: "queue \<Rightarrow> avail_iter \<Rightarrow> bool" where
  "iter_of q it \<longleftrightarrow> ai_table it = q_desc_table q \<and> ai_avail_ring it = q_avail_ring q \<and>
     ai_queue_size it = actual_size q \<and> actual_size q \<noteq> 0"

definition slot_offset :: "queue \<Rightarrow> u16 \<Rightarrow> u64" where
  "slot_offset q i = ucast (4 + (i mod actual_size q) * 2 :: u16)"

lemma slot_offset_unat:
  assumes "actual_size q \<noteq> 0" "actual_size q \<le> 0x4000"
  shows "unat (slot_offset q i) = 4 + 2 * (unat i mod unat (actual_size q))"
proof -
  have n: "0 < unat (actual_size q)" "unat (actual_size q) \<le> 0x4000"
    using assms by (simp_all add: unat_gt_0 word_le_nat_alt)
  then have "unat i mod unat (actual_size q) < 0x4000"
    by (meson mod_less_divisor less_le_trans)
  then have "unat (4 + (i mod actual_size q) * 2) = 4 + 2 * (unat i mod unat (actual_size q))"
    by (simp add: unat_word_ariths unat_mod)
  then show ?thesis by (simp add: slot_offset_def unat_ucast_up)
qed

lemma slot_fits:
  assumes "gm_wf mem" "queue_placed mem q" "actual_size q \<noteq> 0" "actual_size q \<le> 0x4000"
  shows "gm_fits mem (unat (q_avail_ring q + slot_offset q i)) 2"
    "unat (q_avail_ring q + slot_offset q i) = unat (q_avail_ring q) + unat (slot_offset q i)"
proof -
  let ?n = "unat (actual_size q)"
  have fit: "gm_fits mem (unat (q_avail_ring q)) (6 + 2 * ?n)" using assms(2) by (simp add: queue_placed_def Let_def)
  have "unat i mod ?n < ?n" using assms(3) by (simp add: unat_gt_0)
  then have off: "unat (slot_offset q i) + 2 \<le> 6 + 2 * ?n" using slot_offset_unat [OF assms(3, 4)] by simp
  then show eq: "unat (q_avail_ring q + slot_offset q i) = unat (q_avail_ring q) + unat (slot_offset q i)"
    using gm_fits_top [OF assms(1) fit] by (simp add: unat_add_no_wrap)
  show "gm_fits mem (unat (q_avail_ring q + slot_offset q i)) 2"
    by (rule gm_fits_sub [OF assms(1) fit]) (use eq off in auto)
qed

lemma avail_next_total:
  assumes "gm_wf mem" "queue_placed mem q" "actual_size q \<le> 0x4000" "iter_of q it"
  shows "\<exists>x. avail_next mem it na = Return x"
proof (cases "ai_next_index it = ai_last_index it \<or>
    checked_offset mem (q_avail_ring q) (slot_offset q (ai_next_index it)) = None")
  case True
  then show ?thesis using assms(4) by (auto simp: avail_next_def iter_of_def slot_offset_def)
next
  case False
  let ?a = "q_avail_ring q + slot_offset q (ai_next_index it)"
  have nz: "actual_size q \<noteq> 0" using assms(4) by (simp add: iter_of_def)
  have a: "checked_offset mem (q_avail_ring q) (slot_offset q (ai_next_index it)) = Some ?a"
    using False by (auto simp: checked_offset_Some)
  obtain i where i: "read_num mem ?a 2 = Return (i :: u16)"
    using read_num_fits [OF assms(1) _ slot_fits(1) [OF assms(1, 2) nz assms(3)], of "ai_next_index it"] by auto
  obtain x where "checked_new mem (q_desc_table q) (actual_size q) i = Return x"
    using checked_new_total [OF assms(1), of "q_desc_table q" "actual_size q" i] assms(2)
    by (auto simp: queue_placed_def Let_def)
  then show ?thesis using a i assms(4) by (simp add: avail_next_def iter_of_def slot_offset_def Let_def)
qed

lemma avail_drain_total:
  "gm_wf mem \<Longrightarrow> queue_placed mem q \<Longrightarrow> actual_size q \<le> 0x4000 \<Longrightarrow> iter_of q it \<Longrightarrow>
    \<exists>x. avail_drain mem it na = Return x"
proof (induction mem it na rule: avail_drain.induct)
  case (1 mem it na)
  obtain c it' na' where x: "avail_next mem it na = Return (c, it', na')"
    using avail_next_total [OF "1.prems"] by (metis prod_cases3)
  show ?case
  proof (cases c)
    case (Some d)
    then have "iter_of q it'" using avail_next_progress(2) x "1.prems"(4) by (fastforce simp: iter_of_def)
    then show ?thesis using "1.IH" [OF x refl Some refl] "1.prems" x Some
      by (auto simp: avail_drain.simps [of mem it])
  qed (use x in \<open>simp add: avail_drain.simps [of mem it]\<close>)
qed

lemma queue_iter_total:
  assumes "gm_wf mem" "queue_placed mem q"
  shows "\<exists>it. queue_iter q mem = Return it \<and>
    (it = empty_iter \<or> iter_of q it \<and> ai_next_index it = q_next_avail q)"
proof (cases "queue_is_valid q mem")
  case True
  let ?n = "unat (actual_size q)"
  have nz: "actual_size q \<noteq> 0"
    using True by (auto simp: queue_is_valid_def Let_def actual_size_def min_def split: if_splits)
  have fit: "gm_fits mem (unat (q_avail_ring q)) (6 + 2 * ?n)" using assms(2) by (simp add: queue_placed_def Let_def)
  have "unat (6 + 2 * ucast (actual_size q) :: u64) = 6 + 2 * ?n"
    using unat_lt_len [of "actual_size q"] by (simp add: unat_word_ariths unat_ucast_up)
  then have "unat (q_avail_ring q) + (6 + 2 * ?n) < unat (end_addr mem)"
    using True
    by (auto simp: queue_is_valid_def Let_def ring_in_range_def address_in_range_def checked_simps
        word_less_nat_alt unat_add_no_wrap split: if_splits option.splits)
  then have a: "checked_offset mem (q_avail_ring q) 2 = Some (q_avail_ring q + 2)"
    using gm_fits_top [OF assms(1) fit] by (simp add: checked_offset_Some)
  have "unat (q_avail_ring q + 2) = unat (q_avail_ring q) + 2"
    using gm_fits_top [OF assms(1) fit] by (simp add: unat_add_no_wrap)
  then have "gm_fits mem (unat (q_avail_ring q + 2)) 2" by (intro gm_fits_sub [OF assms(1) fit]) auto
  then obtain l where "read_num mem (q_avail_ring q + 2) 2 = Return (l :: u16)"
    using read_num_fits [OF assms(1), of 2 "q_avail_ring q + 2"] by auto
  then show ?thesis using True a nz by (simp add: queue_iter_def Let_def iter_of_def)
qed (simp add: queue_iter_def)

lemma empty_iter_drain: "avail_drain mem empty_iter na = Return ([], na)"
  by (simp add: avail_drain.simps avail_next_def empty_iter_def)

lemma avail_next_desc:
  assumes "avail_next mem it na = Return (Some c, it', na')"
  shows "\<exists>i. checked_new mem (ai_table it) (ai_queue_size it) i = Return (Some c) \<and>
    checked_offset mem (ai_avail_ring it) (ucast (4 + (ai_next_index it mod ai_queue_size it) * 2 :: u16)) \<noteq> None \<and>
    read_num mem (ai_avail_ring it + ucast (4 + (ai_next_index it mod ai_queue_size it) * 2 :: u16)) 2 = Return i"
  using assms
  by (auto simp: avail_next_def Let_def outcome_bind_Return checked_offset_Some split: if_splits option.splits)

lemma avail_drain_descs:
  "avail_drain mem it na = Return (cs, na') \<Longrightarrow>
    \<forall>c \<in> set cs. dc_table c = ai_table it \<and> dc_queue_size c = ai_queue_size it"
proof (induction mem it na arbitrary: cs na' rule: avail_drain.induct)
  case (1 mem it na)
  obtain x it1 na1 where n: "avail_next mem it na = Return (x, it1, na1)"
    using "1.prems" by (cases "avail_next mem it na") (auto simp: avail_drain.simps [of mem it])
  show ?case
  proof (cases x)
    case (Some c)
    obtain ds where ds: "avail_drain mem it1 na1 = Return (ds, na')" "cs = c # ds"
      using "1.prems" n Some by (auto simp: avail_drain.simps [of mem it] outcome_bind_Return)
    have "dc_table c = ai_table it" "dc_queue_size c = ai_queue_size it"
      using avail_next_desc [of mem it na c it1 na1] n Some checked_new_ok(1)
      by (fastforce simp: desc_ok_def)+
    moreover have "ai_table it1 = ai_table it" "ai_queue_size it1 = ai_queue_size it"
      using avail_next_progress(2) n Some by fastforce+
    ultimately show ?thesis using "1.IH" [OF n refl Some refl ds(1)] ds(2) by auto
  qed (use "1.prems" n in \<open>auto simp: avail_drain.simps [of mem it]\<close>)
qed

text \<open>
  C31. A device that drains a queue whose table and rings lie in mapped memory never panics,
  whatever the guest writes there: the loop over the available ring ends, every chain it
  hands out can be followed to its end, and only \<^verbatim>\<open>next_avail\<close> changes. The size of the
  queue is at most 2^14, so that the 16 bit offsets of the ring do not wrap.
\<close>

theorem queue_drain_never_panics:
  assumes "gm_wf mem" "queue_placed mem q" "actual_size q \<le> 0x4000"
  shows "\<exists>cs na. queue_drain mem q = Return (cs, q\<lparr>q_next_avail := na\<rparr>) \<and>
    (\<forall>c \<in> set cs. \<exists>ds. desc_iter mem c = Return ds)"
proof -
  obtain it where it: "queue_iter q mem = Return it" "it = empty_iter \<or> iter_of q it"
    using queue_iter_total [OF assms(1, 2)] by blast
  show ?thesis
  proof (cases "it = empty_iter")
    case True
    then show ?thesis using it(1)
      by (intro exI [of _ "[]"] exI [of _ "q_next_avail q"]) (simp add: queue_drain_def empty_iter_drain)
  next
    case False
    then have of_q: "iter_of q it" using it(2) by simp
    obtain cs na where dr: "avail_drain mem it (q_next_avail q) = Return (cs, na)"
      using avail_drain_total [OF assms of_q, of "q_next_avail q"] by auto
    have "\<exists>ds. desc_iter mem c = Return ds" if "c \<in> set cs" for c
      using avail_drain_descs [OF dr] that of_q assms(2) desc_iter_total [OF assms(1)]
      by (auto simp: iter_of_def queue_placed_def Let_def)
    then show ?thesis using it(1) dr by (auto simp: queue_drain_def)
  qed
qed

text \<open>A queue of two descriptors in 128 bytes of memory: one chain is available, at entry 1.\<close>

definition example_vq_memory :: guest_memory where
  "example_vq_memory = [\<lparr>mapping =
     replicate 16 0 @ [0x70, 0x10, 0, 0, 0, 0, 0, 0, 8, 0, 0, 0, 2, 0, 0, 0] @
     [0, 0, 1, 0, 1, 0, 0, 0, 0, 0, 0, 0] @ replicate 84 0, guest_base = 0x1000\<rparr>]"

definition example_queue :: queue where
  "example_queue = \<lparr>q_max_size = 256, q_size = 2, q_ready = True, q_desc_table = 0x1000,
     q_avail_ring = 0x1020, q_used_ring = 0x1030, q_next_avail = 0, q_next_used = 0\<rparr>"

lemma example_vq_wf: "gm_wf example_vq_memory"
  by (simp add: example_vq_memory_def gm_wf_def)

lemma example_vq_fits: "gm_fits example_vq_memory a n \<longleftrightarrow> 0x1000 \<le> a \<and> a < 0x1080 \<and> a + n \<le> 0x1080"
  by (auto simp: example_vq_memory_def gm_fits_iff region_span_def)

lemma example_queue_size: "actual_size example_queue = 2"
  by (simp add: actual_size_def example_queue_def)

lemma example_queue_placed: "queue_placed example_vq_memory example_queue"
  by (simp add: queue_placed_def example_vq_fits example_queue_size Let_def) (simp add: example_queue_def)

theorem queue_drain_never_panics_witness:
  "\<exists>cs na. queue_drain example_vq_memory example_queue = Return (cs, example_queue\<lparr>q_next_avail := na\<rparr>)"
  using queue_drain_never_panics [OF example_vq_wf example_queue_placed] by (auto simp: example_queue_size)

lemma example_vq_region:
  "0x1000 \<le> a \<Longrightarrow> a < 0x1080 \<Longrightarrow> region_of example_vq_memory a = Some (hd example_vq_memory)"
  "guest_base (hd example_vq_memory) = 0x1000" "length (mapping (hd example_vq_memory)) = 128"
  by (simp_all add: example_vq_memory_def region_span_def)

lemma example_vq_read:
  assumes "0x1000 \<le> unat a" "unat a + n \<le> 0x1080" "0 < n"
  shows "read_num example_vq_memory a n =
    Return (from_le (slice (unat a - 0x1000) n (mapping (hd example_vq_memory))))"
proof -
  let ?r = "hd example_vq_memory"
  have r: "region_of example_vq_memory (unat a) = Some ?r" using assms by (intro example_vq_region(1)) simp_all
  have "unat (a - guest_base ?r) = unat a - 0x1000"
    using assms(1) by (simp add: example_vq_region(2) unat_sub_no_wrap word_le_nat_alt)
  then have "map (\<lambda>i. the (gm_byte example_vq_memory (unat a + i))) [0..<n] = slice (unat a - 0x1000) n (mapping ?r)"
    using slice_bytes [OF example_vq_wf r, of n] assms(2) by (simp add: example_vq_region(2, 3))
  then show ?thesis
    using assms(2) r by (simp add: read_num_def read_obj_eq [OF example_vq_wf] example_vq_region(2, 3))
qed

section \<open>The heads of the chains\<close>

text \<open>Slot \<open>i\<close> of the available ring holds the head \<open>c\<close>; or it holds a head that is refused.\<close>

definition avail_entry :: "guest_memory \<Rightarrow> queue \<Rightarrow> u16 \<Rightarrow> descriptor_chain \<Rightarrow> bool" where
  "avail_entry mem q i c \<longleftrightarrow> (\<exists>d. read_num mem (q_avail_ring q + slot_offset q i) 2 = Return d \<and>
     checked_new mem (q_desc_table q) (actual_size q) d = Return (Some c))"

definition avail_refused :: "guest_memory \<Rightarrow> queue \<Rightarrow> u16 \<Rightarrow> bool" where
  "avail_refused mem q i \<longleftrightarrow> checked_offset mem (q_avail_ring q) (slot_offset q i) = None \<or>
     (\<exists>d. read_num mem (q_avail_ring q + slot_offset q i) 2 = Return d \<and>
        checked_new mem (q_desc_table q) (actual_size q) d = Return None)"

lemma avail_next_None:
  assumes "avail_next mem it na = Return (None, it', na')" "iter_of q it"
  shows "na' = na" "ai_next_index it = ai_last_index it \<or> avail_refused mem q (ai_next_index it)"
  using assms
  by (auto simp: avail_next_def Let_def outcome_bind_Return iter_of_def avail_refused_def slot_offset_def
      checked_offset_Some split: if_splits option.splits)

lemma avail_drain_heads:
  "avail_drain mem it na = Return (cs, na') \<Longrightarrow> iter_of q it \<Longrightarrow>
    na' = na + word_of_nat (length cs) \<and> length cs \<le> unat (ai_last_index it - ai_next_index it) \<and>
    (\<forall>k < length cs. avail_entry mem q (ai_next_index it + word_of_nat k) (cs ! k)) \<and>
    (length cs < unat (ai_last_index it - ai_next_index it) \<longrightarrow>
       avail_refused mem q (ai_next_index it + word_of_nat (length cs)))"
proof (induction mem it na arbitrary: cs na' rule: avail_drain.induct)
  case (1 mem it na)
  obtain x it1 na1 where n: "avail_next mem it na = Return (x, it1, na1)"
    using "1.prems"(1) by (cases "avail_next mem it na") (auto simp: avail_drain.simps [of mem it])
  show ?case
  proof (cases x)
    case None
    then have "cs = []" "na' = na1" using "1.prems"(1) n by (auto simp: avail_drain.simps [of mem it])
    then show ?thesis using avail_next_None [of mem it na it1 na1 q] n None "1.prems"(2) by auto
  next
    case (Some c)
    obtain ds where ds: "avail_drain mem it1 na1 = Return (ds, na')" "cs = c # ds"
      using "1.prems"(1) n Some by (auto simp: avail_drain.simps [of mem it] outcome_bind_Return)
    note p = avail_next_progress [OF n [unfolded Some]]
    have it1: "iter_of q it1" using "1.prems"(2) p(2) by (simp add: iter_of_def)
    have entry: "avail_entry mem q (ai_next_index it) c"
      using avail_next_desc [OF n [unfolded Some]] "1.prems"(2)
      by (auto simp: avail_entry_def iter_of_def slot_offset_def)
    have ne: "ai_last_index it - ai_next_index it \<noteq> 0" using n Some by (auto simp: avail_next_def)
    have len: "unat (ai_last_index it - ai_next_index it) = Suc (unat (ai_last_index it1 - ai_next_index it1))"
    proof -
      have "unat (ai_last_index it - ai_next_index it - 1) = unat (ai_last_index it - ai_next_index it) - 1"
        using ne by (simp add: unat_sub_no_wrap word_le_nat_alt Suc_le_eq unat_gt_0)
      then show ?thesis using ne by (simp add: p(2) algebra_simps unat_eq_0 [symmetric])
    qed
    note ih = "1.IH" [OF n refl Some refl ds(1) it1]
    have "avail_entry mem q (ai_next_index it + word_of_nat k) (cs ! k)" if "k < length cs" for k
      using that entry ih by (cases k) (auto simp: ds(2) p(2) algebra_simps)
    then show ?thesis using ih len by (auto simp: ds(2) p(2, 3) algebra_simps)
  qed
qed


lemma example_vq_bytes: "mapping (hd example_vq_memory) = replicate 16 0 @
    [0x70, 0x10, 0, 0, 0, 0, 0, 0, 8, 0, 0, 0, 2, 0, 0, 0] @ [0, 0, 1, 0, 1, 0, 0, 0, 0, 0, 0, 0] @ replicate 84 0"
  by (simp add: example_vq_memory_def)

lemma example_vq_end: "end_addr example_vq_memory = 0x1080"
  by (simp add: example_vq_memory_def end_addr_def region_end_def unchecked_add_def mapping_size_def)

definition example_chain :: descriptor_chain where
  "example_chain = \<lparr>dc_table = 0x1000, dc_queue_size = 2, dc_ttl = 2, dc_index = 1, dc_addr = 0x1070,
     dc_len = 8, dc_flags = 2, dc_next = 0\<rparr>"

lemma example_vq_chain: "checked_new example_vq_memory 0x1000 2 1 = Return (Some example_chain)"
proof -
  have off: "checked_offset example_vq_memory 0x1000 (ucast (1 :: u16) * 16) = Some 0x1010"
    "checked_offset example_vq_memory 0x1010 16 \<noteq> None"
    "checked_offset example_vq_memory 0x1070 (ucast (8 :: u32)) \<noteq> None"
    by (simp_all add: checked_offset_def checked_add_def example_vq_end)
  have "read_num example_vq_memory 0x1010 8 = Return (0x1070 :: u64)"
    "read_num example_vq_memory 0x1018 4 = Return (8 :: u32)"
    "read_num example_vq_memory 0x101c 2 = Return (2 :: u16)"
    "read_num example_vq_memory 0x101e 2 = Return (0 :: u16)"
    by (simp_all add: example_vq_read example_vq_bytes slice_def)
  then show ?thesis
    using off
    by (auto simp: checked_new_def unchecked_add_def chain_is_valid_def has_next_def example_chain_def
        Let_def word_le_nat_alt)
qed

theorem descriptor_chain_bounded_witness:
  "checked_new example_vq_memory 0x1000 2 1 = Return (Some example_chain) \<and>
   desc_iter example_vq_memory example_chain = Return [example_chain] \<and>
   length [example_chain] \<le> unat (2 :: u16) \<and> unat (dc_addr example_chain) + unat (dc_len example_chain) < 0x1080"
proof -
  have it: "desc_iter example_vq_memory example_chain = Return [example_chain]"
    by (simp add: desc_iter.simps next_descriptor_def has_next_def example_chain_def)
  show ?thesis
    using descriptor_chain_bounded [OF example_vq_chain it] it example_vq_chain by (simp add: example_vq_end)
qed

lemma example_vq_valid: "queue_is_valid example_queue example_vq_memory"
  by (simp add: queue_is_valid_def example_queue_size Let_def ring_in_range_def checked_add_def
      address_in_range_def example_vq_end) (simp add: example_queue_def)

lemma example_vq_index: "read_num example_vq_memory (q_avail_ring example_queue + 2) 2 = Return (1 :: u16)"
  by (simp add: example_queue_def example_vq_read example_vq_bytes slice_def)

lemma example_vq_drain: "queue_drain example_vq_memory example_queue =
    Return ([example_chain], example_queue\<lparr>q_next_avail := 1\<rparr>)"
proof -
  let ?it = "\<lparr>ai_table = 0x1000, ai_avail_ring = 0x1020, ai_next_index = 0, ai_last_index = 1, ai_queue_size = 2\<rparr>"
  have "checked_offset example_vq_memory (q_avail_ring example_queue) 2 = Some (q_avail_ring example_queue + 2)"
    by (simp add: checked_offset_def checked_add_def example_vq_end example_queue_def)
  then have "queue_iter example_queue example_vq_memory = Return ?it"
    using example_vq_index
    by (simp add: queue_iter_def example_vq_valid example_queue_size Let_def) (simp add: example_queue_def)
  moreover have "checked_offset example_vq_memory 0x1020 4 = Some 0x1024"
    by (simp add: checked_offset_def checked_add_def example_vq_end)
  moreover have "read_num example_vq_memory 0x1024 2 = Return (1 :: u16)"
    by (simp add: example_vq_read example_vq_bytes slice_def)
  ultimately show ?thesis
    by (simp add: queue_drain_def avail_drain.simps avail_next_def Let_def example_vq_chain)
      (simp add: example_queue_def)
qed


text \<open>
  The check of a queue against the end of memory overlooks holes between the regions:
  a queue whose available ring lies in a hole passes it, and looking at the queue panics.
\<close>

theorem queue_in_hole_panics:
  "let mem = [\<lparr>mapping = replicate 8 0, guest_base = 0x1000\<rparr>, \<lparr>mapping = replicate 128 0, guest_base = 0x2000\<rparr>];
       q = \<lparr>q_max_size = 256, q_size = 2, q_ready = True, q_desc_table = 0x2000, q_avail_ring = 0x1800,
         q_used_ring = 0x2030, q_next_avail = 0, q_next_used = 0\<rparr>
   in gm_wf mem \<and> queue_is_valid q mem \<and> queue_iter q mem = Panic"
proof -
  let ?mem = "[\<lparr>mapping = replicate 8 0, guest_base = 0x1000\<rparr>, \<lparr>mapping = replicate 128 0, guest_base = 0x2000\<rparr>]"
  let ?q = "\<lparr>q_max_size = 256, q_size = 2, q_ready = True, q_desc_table = 0x2000, q_avail_ring = 0x1800,
    q_used_ring = 0x2030, q_next_avail = 0, q_next_used = 0\<rparr>"
  have wf: "gm_wf ?mem" by (simp add: gm_wf_def)
  have end_a: "end_addr ?mem = 0x2080"
    by (simp add: end_addr_def region_end_def unchecked_add_def mapping_size_def)
  have size_q: "actual_size ?q = 2" by (simp add: actual_size_def)
  have valid: "queue_is_valid ?q ?mem"
    by (simp add: queue_is_valid_def size_q Let_def ring_in_range_def checked_add_def address_in_range_def end_a)
  moreover have "checked_offset ?mem 0x1800 2 = Some 0x1802"
    by (simp add: checked_offset_def checked_add_def end_a)
  moreover have "read_num ?mem 0x1802 2 = (Panic :: u16 outcome)"
    by (simp add: read_num_def read_obj_eq [OF wf] region_span_def)
  ultimately show ?thesis using wf by (simp add: queue_iter_def Let_def)
qed

section \<open>The used ring\<close>

lemma write_num_store:
  "write_num v a mem = (case gm_store (to_le v) a mem of Some mem' \<Rightarrow> Return mem' | None \<Rightarrow> Panic)"
  by (auto simp: write_num_def gm_store_def split: prod.splits sum.splits)

lemma read_num_load:
  "read_num mem a n = (case gm_load n a mem of Some bs \<Rightarrow> Return (from_le bs) | None \<Rightarrow> Panic)"
  by (auto simp: read_num_def gm_load_def split: sum.splits)

text \<open>A number that is written is read back; whatever does not overlap it stays.\<close>

lemma write_num_fits:
  fixes v :: "'a::len word"
  assumes "gm_wf mem" "gm_fits mem (unat a) n" "8 * n = LENGTH('a)" "n < 2 ^ 64"
  obtains mem' where "write_num v a mem = Return mem'" "gm_wf mem'" "gm_fits mem' = gm_fits mem"
    "read_num mem' a n = Return v"
    "\<And>b. \<not> (unat a \<le> b \<and> b < unat a + n) \<Longrightarrow> gm_byte mem' b = gm_byte mem b"
    "\<And>c k. k < 2 ^ 64 \<Longrightarrow> unat c + k \<le> unat a \<or> unat a + n \<le> unat c \<Longrightarrow>
       (read_num mem' c k :: 'b::len word outcome) = read_num mem c k"
proof -
  have len: "length (to_le v) = n"
    using assms(3) by (metis length_to_le nonzero_mult_div_cancel_left zero_neq_numeral)
  have dvd: "8 dvd LENGTH('a)" using assms(3) by (metis dvd_triv_left)
  obtain mem' where st: "gm_store (to_le v) a mem = Some mem'"
    using guest_mem.store_fits [OF assms(1), of "to_le v" a] assms(2, 4) len by auto
  note eff = guest_mem.store_Some [OF assms(1) _ st]
  have "gm_load n a mem' = Some (to_le v)"
    using guest_mem.load_same [OF assms(1) _ st] len assms(4) by simp
  moreover have "gm_load k c mem' = gm_load k c mem"
    if "k < 2 ^ 64" "unat c + k \<le> unat a \<or> unat a + n \<le> unat c" for c k
    using guest_mem.load_other [OF assms(1) _ st that(1)] that(2) len assms(4) by simp
  ultimately show ?thesis
    using st eff len assms(4) dvd by (intro that [of mem']) (auto simp: write_num_store read_num_load)
qed

text \<open>Slot \<open>i\<close> of the used ring.\<close>

definition used_slot :: "queue \<Rightarrow> u16 \<Rightarrow> guest_address" where
  "used_slot q i = q_used_ring q + (4 + ucast (i mod actual_size q) * 8)"

lemma used_slot_place:
  assumes "gm_wf mem" "queue_placed mem q" "actual_size q \<noteq> 0"
  shows "unat (used_slot q i) = unat (q_used_ring q) + 4 + 8 * (unat i mod unat (actual_size q))"
    "unat (used_slot q i + 4) = unat (used_slot q i) + 4"
    "unat (q_used_ring q + 2) = unat (q_used_ring q) + 2"
    "gm_fits mem (unat (used_slot q i)) 4" "gm_fits mem (unat (used_slot q i) + 4) 4"
    "gm_fits mem (unat (q_used_ring q) + 2) 2"
proof -
  let ?n = "unat (actual_size q)"
  have fit: "gm_fits mem (unat (q_used_ring q)) (6 + 8 * ?n)" using assms(2) by (simp add: queue_placed_def Let_def)
  note lim = gm_fits_top [OF assms(1) fit]
  have m: "unat i mod ?n < ?n" using assms(3) by (simp add: unat_gt_0)
  have off: "unat (4 + ucast (i mod actual_size q) * 8 :: u64) = 4 + 8 * (unat i mod ?n)"
    using m unat_lt_len [of "actual_size q"]
    by (simp add: unat_word_ariths unat_ucast_up unat_mod)
  show a: "unat (used_slot q i) = unat (q_used_ring q) + 4 + 8 * (unat i mod ?n)"
    using off lim m by (simp add: used_slot_def unat_add_no_wrap)
  show "unat (used_slot q i + 4) = unat (used_slot q i) + 4" using a lim m by (simp add: unat_add_no_wrap)
  show "unat (q_used_ring q + 2) = unat (q_used_ring q) + 2" using lim by (simp add: unat_add_no_wrap)
  show "gm_fits mem (unat (used_slot q i)) 4" "gm_fits mem (unat (used_slot q i) + 4) 4"
    "gm_fits mem (unat (q_used_ring q) + 2) 2"
    using a m by (auto intro!: gm_fits_sub [OF assms(1) fit])
qed

text \<open>What the driver finds in slot \<open>i\<close>: the head of a chain and the bytes written to it.\<close>

definition used_entry :: "guest_memory \<Rightarrow> queue \<Rightarrow> u16 \<Rightarrow> u32 outcome \<times> u32 outcome" where
  "used_entry mem q i = (read_num mem (used_slot q i) 4, read_num mem (used_slot q i + 4) 4)"

lemma add_used_eq:
  assumes "d < actual_size q"
  shows "add_used mem d l q =
    outcome_bind (write_num (ucast d :: u32) (used_slot q (q_next_used q)) mem) (\<lambda>mem.
    outcome_bind (write_num l (used_slot q (q_next_used q) + 4) mem) (\<lambda>mem.
    outcome_bind (write_num (q_next_used q + 1) (q_used_ring q + 2) mem) (\<lambda>mem.
    Return (mem, q\<lparr>q_next_used := q_next_used q + 1\<rparr>))))"
proof -
  have "\<not> actual_size q \<le> d" using assms by (simp add: not_le)
  then show ?thesis by (simp add: add_used_def unchecked_add_def used_slot_def Let_def)
qed

lemma add_used_effect:
  assumes "gm_wf mem" "queue_placed mem q" "d < actual_size q"
  obtains mem' where "add_used mem d l q = Return (mem', q\<lparr>q_next_used := q_next_used q + 1\<rparr>)"
    "gm_wf mem'" "gm_fits mem' = gm_fits mem"
    "used_entry mem' q (q_next_used q) = (Return (ucast d), Return l)"
    "read_num mem' (q_used_ring q + 2) 2 = Return (q_next_used q + 1)"
    "\<And>j. unat j mod unat (actual_size q) \<noteq> unat (q_next_used q) mod unat (actual_size q) \<Longrightarrow>
       used_entry mem' q j = used_entry mem q j"
    "\<And>b. \<not> (unat (q_used_ring q) \<le> b \<and> b < unat (q_used_ring q) + 6 + 8 * unat (actual_size q)) \<Longrightarrow>
       gm_byte mem' b = gm_byte mem b"
proof -
  let ?n = "unat (actual_size q)" and ?i = "q_next_used q"
  have pos: "actual_size q \<noteq> 0" using assms(3) by (metis word_not_simps(1))
  have m: "unat ?i mod ?n < ?n" using pos by (simp add: unat_gt_0)
  note place = used_slot_place [OF assms(1, 2) pos]
  obtain m1 where m1: "write_num (ucast d :: u32) (used_slot q ?i) mem = Return m1" "gm_wf m1" "gm_fits m1 = gm_fits mem"
    "read_num m1 (used_slot q ?i) 4 = Return (ucast d :: u32)"
    "\<And>b. \<not> (unat (used_slot q ?i) \<le> b \<and> b < unat (used_slot q ?i) + 4) \<Longrightarrow> gm_byte m1 b = gm_byte mem b"
    "\<And>c k. k < 2 ^ 64 \<Longrightarrow> unat c + k \<le> unat (used_slot q ?i) \<or> unat (used_slot q ?i) + 4 \<le> unat c \<Longrightarrow>
       (read_num m1 c k :: u32 outcome) = read_num mem c k"
    by (rule write_num_fits [OF assms(1) place(4), of "ucast d :: u32"]) auto
  obtain m2 where m2: "write_num l (used_slot q ?i + 4) m1 = Return m2" "gm_wf m2" "gm_fits m2 = gm_fits mem"
    "read_num m2 (used_slot q ?i + 4) 4 = Return l"
    "\<And>b. \<not> (unat (used_slot q ?i) + 4 \<le> b \<and> b < unat (used_slot q ?i) + 8) \<Longrightarrow> gm_byte m2 b = gm_byte m1 b"
    "\<And>c k. k < 2 ^ 64 \<Longrightarrow> unat c + k \<le> unat (used_slot q ?i) + 4 \<or> unat (used_slot q ?i) + 8 \<le> unat c \<Longrightarrow>
       (read_num m2 c k :: u32 outcome) = read_num m1 c k"
    by (rule write_num_fits [OF m1(2), of "used_slot q ?i + 4" 4 l]) (use place m1(3) in \<open>auto simp: add.assoc\<close>)
  obtain m3 where m3: "write_num (?i + 1) (q_used_ring q + 2) m2 = Return m3" "gm_wf m3" "gm_fits m3 = gm_fits mem"
    "read_num m3 (q_used_ring q + 2) 2 = Return (?i + 1)"
    "\<And>b. \<not> (unat (q_used_ring q) + 2 \<le> b \<and> b < unat (q_used_ring q) + 4) \<Longrightarrow> gm_byte m3 b = gm_byte m2 b"
    "\<And>c k. k < 2 ^ 64 \<Longrightarrow> unat c + k \<le> unat (q_used_ring q) + 2 \<or> unat (q_used_ring q) + 4 \<le> unat c \<Longrightarrow>
       (read_num m3 c k :: u32 outcome) = read_num m2 c k"
    by (rule write_num_fits [OF m2(2), of "q_used_ring q + 2" 2 "?i + 1"]) (use place m2(3) in \<open>auto simp: add.assoc simp del: add_2_eq_Suc'\<close>)
  show ?thesis
  proof (rule that [of m3])
    show "add_used mem d l q = Return (m3, q\<lparr>q_next_used := q_next_used q + 1\<rparr>)"
      using m1(1) m2(1) m3(1) by (simp add: add_used_eq [OF assms(3)])
    show "used_entry m3 q ?i = (Return (ucast d), Return l)"
      using m1(4) m2(4, 6) m3(6) place by (simp add: used_entry_def)
    show "used_entry m3 q j = used_entry mem q j" if "unat j mod ?n \<noteq> unat ?i mod ?n" for j
    proof -
      have "(read_num m3 c 4 :: u32 outcome) = read_num mem c 4"
        if "unat c + 4 \<le> unat (used_slot q ?i) \<or> unat (used_slot q ?i) + 8 \<le> unat c" "unat (q_used_ring q) + 4 \<le> unat c" for c
        using that m1(6) [of 4 c] m2(6) [of 4 c] m3(6) [of 4 c] by auto
      moreover have "unat j mod ?n < unat ?i mod ?n \<or> unat ?i mod ?n < unat j mod ?n" using that by arith
      ultimately show ?thesis using place(1) [of j] place(1) [of ?i] place(2) [of j] by (auto simp: used_entry_def)
    qed
    show "gm_byte m3 b = gm_byte mem b"
      if "\<not> (unat (q_used_ring q) \<le> b \<and> b < unat (q_used_ring q) + 6 + 8 * ?n)" for b
      using that m1(5) [of b] m2(5) [of b] m3(5) [of b] place(1) [of ?i] m by fastforce
  qed (use m3 in simp_all)
qed

lemma used_slot_distinct:
  assumes "k < m" "m < n" "n dvd 2 ^ 16"
  shows "unat (i + of_nat k :: u16) mod n \<noteq> unat (i + of_nat m) mod n"
proof -
  have mod: "unat (i + of_nat j :: u16) mod n = (unat i + j) mod n" for j
    using assms(3) by (simp add: unat_word_ariths unsigned_of_nat take_bit_eq_mod mod_simps mod_mod_cancel)
  have "(unat i + m) mod n \<noteq> (unat i + k) mod n"
    using assms(1, 2) mod_eq_dvd_iff_nat [of "unat i + k" "unat i + m" n] by (auto dest: dvd_imp_le)
  then show ?thesis using mod by metis
qed

text \<open>A device returns one chain after the other.\<close>

fun add_used_all :: "guest_memory \<Rightarrow> (u16 \<times> u32) list \<Rightarrow> queue \<Rightarrow> (guest_memory \<times> queue) outcome" where
  "add_used_all mem [] q = Return (mem, q)"
| "add_used_all mem ((d, l) # xs) q = outcome_bind (add_used mem d l q) (\<lambda>(mem, q). add_used_all mem xs q)"

lemma add_used_all_snoc:
  "add_used_all mem (xs @ [(d, l)]) q = outcome_bind (add_used_all mem xs q) (\<lambda>(mem, q). add_used mem d l q)"
proof (induction mem xs q rule: add_used_all.induct)
  case (1 mem q)
  then show ?case by (cases "add_used mem d l q") auto
next
  case (2 mem e m xs q)
  then show ?case by (cases "add_used mem e m q") auto
qed

lemma add_used_all_effect:
  assumes "gm_wf mem" "queue_placed mem q" "unat (actual_size q) dvd 2 ^ 16"
    "list_all (\<lambda>x. fst x < actual_size q) xs" "length xs \<le> unat (actual_size q)"
  shows "\<exists>mem'. add_used_all mem xs q = Return (mem', q\<lparr>q_next_used := q_next_used q + of_nat (length xs)\<rparr>) \<and>
    gm_wf mem' \<and> gm_fits mem' = gm_fits mem \<and>
    (\<forall>k<length xs. used_entry mem' q (q_next_used q + of_nat k) = (Return (ucast (fst (xs ! k))), Return (snd (xs ! k)))) \<and>
    (xs \<noteq> [] \<longrightarrow> read_num mem' (q_used_ring q + 2) 2 = Return (q_next_used q + of_nat (length xs))) \<and>
    (\<forall>b. \<not> (unat (q_used_ring q) \<le> b \<and> b < unat (q_used_ring q) + 6 + 8 * unat (actual_size q)) \<longrightarrow>
      gm_byte mem' b = gm_byte mem b)"
  using assms(4, 5)
proof (induction xs rule: rev_induct)
  case Nil
  then show ?case using assms(1) by simp
next
  case (snoc x xs)
  let ?q = "q\<lparr>q_next_used := q_next_used q + of_nat (length xs)\<rparr>"
  obtain d l where x: "x = (d, l)" by (cases x)
  have sz: "actual_size ?q = actual_size q" by (simp add: actual_size_def)
  have slots: "used_slot ?q = used_slot q" "\<And>m. used_entry m ?q = used_entry m q"
    by (simp_all add: used_slot_def used_entry_def sz fun_eq_iff)
  obtain m1 where m1: "add_used_all mem xs q = Return (m1, ?q)" "gm_wf m1" "gm_fits m1 = gm_fits mem"
    "\<And>k. k < length xs \<Longrightarrow> used_entry m1 q (q_next_used q + of_nat k) = (Return (ucast (fst (xs ! k))), Return (snd (xs ! k)))"
    "\<And>b. \<not> (unat (q_used_ring q) \<le> b \<and> b < unat (q_used_ring q) + 6 + 8 * unat (actual_size q)) \<Longrightarrow>
      gm_byte m1 b = gm_byte mem b"
    using snoc by auto
  have placed: "queue_placed m1 ?q" using assms(2) m1(3) by (simp add: queue_placed_def sz)
  have d: "d < actual_size ?q" using snoc.prems(1) x by (simp add: sz)
  obtain m2 where m2: "add_used m1 d l ?q = Return (m2, ?q\<lparr>q_next_used := q_next_used ?q + 1\<rparr>)"
    "gm_wf m2" "gm_fits m2 = gm_fits m1"
    "used_entry m2 ?q (q_next_used ?q) = (Return (ucast d), Return l)"
    "read_num m2 (q_used_ring ?q + 2) 2 = Return (q_next_used ?q + 1)"
    "\<And>j. unat j mod unat (actual_size ?q) \<noteq> unat (q_next_used ?q) mod unat (actual_size ?q) \<Longrightarrow>
       used_entry m2 ?q j = used_entry m1 ?q j"
    "\<And>b. \<not> (unat (q_used_ring ?q) \<le> b \<and> b < unat (q_used_ring ?q) + 6 + 8 * unat (actual_size ?q)) \<Longrightarrow>
       gm_byte m2 b = gm_byte m1 b"
    by (rule add_used_effect [OF m1(2) placed d, of l]) (rule that)
  have old: "used_entry m2 q (q_next_used q + of_nat k) = used_entry m1 q (q_next_used q + of_nat k)" if "k < length xs" for k
    using m2(6) [of "q_next_used q + of_nat k"] used_slot_distinct [OF that _ assms(3), of "q_next_used q"] snoc.prems(2)
    by (simp add: slots sz)
  have run: "add_used_all mem (xs @ [x]) q = Return (m2, q\<lparr>q_next_used := q_next_used q + of_nat (length (xs @ [x]))\<rparr>)"
    using m1(1) m2(1) by (simp add: x add_used_all_snoc ac_simps)
  have count: "read_num m2 (q_used_ring q + 2) 2 = Return (q_next_used q + of_nat (length (xs @ [x])))"
    using m2(5) by (simp add: ac_simps)
  have entries: "used_entry m2 q (q_next_used q + of_nat k) =
      (Return (ucast (fst ((xs @ [x]) ! k))), Return (snd ((xs @ [x]) ! k)))" if "k < length (xs @ [x])" for k
  proof (cases "k < length xs")
    case True
    then show ?thesis using m1(4) old by (simp add: nth_append)
  next
    case False
    then show ?thesis using m2(4) that by (simp add: slots(2) x nth_append less_Suc_eq)
  qed
  have frame: "gm_byte m2 b = gm_byte mem b"
    if "\<not> (unat (q_used_ring q) \<le> b \<and> b < unat (q_used_ring q) + 6 + 8 * unat (actual_size q))" for b
    using m1(5) [OF that] m2(7) [of b] that by (simp add: sz)
  show ?case using run m2(2) m2(3) m1(3) count entries frame by (intro exI [of _ m2]) metis
qed

text \<open>
  C33. The used ring hands chains back in order. When a device returns at most a ring full
  of chains, nothing panics, the slots the driver reads next hold exactly those chains with
  their lengths, oldest first, also where the slot number or the 16-bit counter wraps, the
  counter in guest memory has advanced by their number, and no byte of guest memory outside
  the ring has changed.
\<close>

theorem used_ring_in_order:
  assumes "gm_wf mem" "queue_placed mem q" "unat (actual_size q) dvd 2 ^ 16"
    "list_all (\<lambda>x. fst x < actual_size q) xs" "length xs \<le> unat (actual_size q)"
  shows "\<exists>mem'. add_used_all mem xs q = Return (mem', q\<lparr>q_next_used := q_next_used q + of_nat (length xs)\<rparr>) \<and>
    (\<forall>k<length xs. used_entry mem' q (q_next_used q + of_nat k) = (Return (ucast (fst (xs ! k))), Return (snd (xs ! k)))) \<and>
    (xs \<noteq> [] \<longrightarrow> read_num mem' (q_used_ring q + 2) 2 = Return (q_next_used q + of_nat (length xs))) \<and>
    (\<forall>b. \<not> (unat (q_used_ring q) \<le> b \<and> b < unat (q_used_ring q) + 6 + 8 * unat (actual_size q)) \<longrightarrow>
      gm_byte mem' b = gm_byte mem b)"
  using add_used_all_effect [OF assms] by blast

theorem used_ring_in_order_witness:
  "\<exists>mem'. add_used_all example_vq_memory [(1, 8), (0, 512)] (example_queue\<lparr>q_next_used := 0xffff\<rparr>) =
      Return (mem', example_queue\<lparr>q_next_used := 1\<rparr>) \<and>
    used_entry mem' example_queue 0xffff = (Return 1, Return 8) \<and>
    used_entry mem' example_queue 0 = (Return 0, Return 512)"
proof -
  let ?q = "example_queue\<lparr>q_next_used := 0xffff\<rparr>"
  have sz: "actual_size ?q = 2" using example_queue_size by (simp add: actual_size_def)
  have ent: "used_entry m ?q = used_entry m example_queue" for m
    by (simp add: used_slot_def used_entry_def sz example_queue_size fun_eq_iff)
  have placed: "queue_placed example_vq_memory ?q"
    using example_queue_placed by (simp add: queue_placed_def sz example_queue_size)
  let ?xs = "[(1, 8), (0, 512)] :: (u16 \<times> u32) list"
  have len: "length ?xs = 2" and dv: "unat (actual_size ?q) dvd 2 ^ 16"
    and bd: "list_all (\<lambda>x. fst x < actual_size ?q) ?xs" and le: "length ?xs \<le> unat (actual_size ?q)"
    by (simp_all add: sz)
  obtain m where m: "add_used_all example_vq_memory ?xs ?q = Return (m, ?q\<lparr>q_next_used := q_next_used ?q + of_nat (length ?xs)\<rparr>)"
    "\<And>k. k < length ?xs \<Longrightarrow> used_entry m ?q (q_next_used ?q + of_nat k) = (Return (ucast (fst (?xs ! k))), Return (snd (?xs ! k)))"
    using used_ring_in_order [OF example_vq_wf placed dv bd le] by metis
  have z: "q_next_used ?q + of_nat 1 = 0" by simp
  have "used_entry m ?q 0 = (Return 0, Return 512)" using m(2) [of 1, unfolded z] by simp
  then show ?thesis using m(1) m(2) [of 0] by (intro exI [of _ m]) (simp add: ent)
qed

end
