(* ===== verification/Virtio_Mmio.thy ===== *)
theory Virtio_Mmio
  imports Virtqueue
begin

text \<open>
  The MMIO transport of virtio devices (\<^verbatim>\<open>devices/src/virtio/mmio.rs\<close>): the registers through
  which the driver negotiates features, places its queues and starts the device. The device
  behind the transport (\<^verbatim>\<open>VirtioDevice\<close> of \<^verbatim>\<open>virtio_device.rs\<close>) is a record of operations;
  its configuration space may panic. Event descriptors are values of a type \<open>'e\<close>. The
  interrupt status is shared with the worker thread of the device, whose updates are steps
  of their own.
\<close>

section \<open>The device\<close>

record ('d, 'e) virtio_ops =
  vd_device_type :: "'d \<Rightarrow> u32"
  vd_queue_max_sizes :: "'d \<Rightarrow> u16 list"
  vd_features :: "'d \<Rightarrow> u32 \<Rightarrow> u32"
  vd_ack_features :: "u32 \<Rightarrow> u32 \<Rightarrow> 'd \<Rightarrow> 'd"
  vd_read_config :: "u64 \<Rightarrow> u8 list \<Rightarrow> 'd \<Rightarrow> u8 list outcome"
  vd_write_config :: "u64 \<Rightarrow> u8 list \<Rightarrow> 'd \<Rightarrow> 'd outcome"
  vd_activate :: "guest_memory \<Rightarrow> 'e \<Rightarrow> queue list \<Rightarrow> 'e list \<Rightarrow> 'd \<Rightarrow> 'd"

section \<open>The transport\<close>

record ('d, 'e) mmio_device =
  device :: 'd
  device_activated :: bool
  features_select :: u32
  acked_features_select :: u32
  queue_select :: u32
  interrupt_status :: usize
  interrupt_evt :: "'e option"
  driver_status :: u32
  config_generation :: u32
  queues :: "queue list"
  queue_evts :: "'e list"
  mmio_mem :: "guest_memory option"

text \<open>\<open>evt_new k\<close> is the result of the \<open>k\<close>-th creation of an event.\<close>

definition mmio_new ::
  "('d, 'e) virtio_ops \<Rightarrow> (nat \<Rightarrow> 'e option) \<Rightarrow> guest_memory \<Rightarrow> 'd \<Rightarrow> ('d, 'e) mmio_device option" where
  "mmio_new p evt_new mem d =
     (let sizes = vd_queue_max_sizes p d in
      case those (map evt_new [0..<length sizes]) of
        None \<Rightarrow> None
      | Some evts \<Rightarrow>
          (case evt_new (length sizes) of
             None \<Rightarrow> None
           | Some ie \<Rightarrow> Some \<lparr>device = d, device_activated = False, features_select = 0,
               acked_features_select = 0, queue_select = 0, interrupt_status = 0, interrupt_evt = Some ie,
               driver_status = 0, config_generation = 0, queues = map queue_new sizes,
               queue_evts = evts, mmio_mem = Some mem\<rparr>))"

definition is_driver_ready :: "('d, 'e) mmio_device \<Rightarrow> bool" where
  "is_driver_ready m \<longleftrightarrow>
     (let ready_bits = 0x01 OR 0x02 OR 0x04 OR 0x08 in
      driver_status m = ready_bits \<and> driver_status m AND 0x80 = 0)"

definition are_queues_valid :: "('d, 'e) mmio_device \<Rightarrow> bool" where
  "are_queues_valid m =
     (case mmio_mem m of
        Some mem \<Rightarrow> list_all (\<lambda>q. queue_is_valid q mem) (queues m)
      | None \<Rightarrow> False)"

definition with_queue :: "('d, 'e) mmio_device \<Rightarrow> 'u \<Rightarrow> (queue \<Rightarrow> 'u) \<Rightarrow> 'u" where
  "with_queue m d f =
     (if unat (queue_select m) < length (queues m) then f (queues m ! unat (queue_select m)) else d)"

definition with_queue_mut :: "(queue \<Rightarrow> queue) \<Rightarrow> ('d, 'e) mmio_device \<Rightarrow> bool \<times> ('d, 'e) mmio_device" where
  "with_queue_mut f m =
     (if unat (queue_select m) < length (queues m)
      then (True, m\<lparr>queues := (queues m)[unat (queue_select m) := f (queues m ! unat (queue_select m))]\<rparr>)
      else (False, m))"

definition mmio_register :: "('d, 'e) virtio_ops \<Rightarrow> u64 \<Rightarrow> ('d, 'e) mmio_device \<Rightarrow> u32 option" where
  "mmio_register p off m =
     (if off = 0x0 then Some 0x74726976
      else if off = 0x04 then Some 2
      else if off = 0x08 then Some (vd_device_type p (device m))
      else if off = 0x0c then Some 0
      else if off = 0x10 then
        Some (vd_features p (device m) (features_select m) OR (if features_select m = 1 then 0x1 else 0x0))
      else if off = 0x34 then Some (with_queue m 0 (\<lambda>q. ucast (q_max_size q)))
      else if off = 0x44 then Some (with_queue m 0 (\<lambda>q. if q_ready q then 1 else 0))
      else if off = 0x60 then Some (ucast (interrupt_status m))
      else if off = 0x70 then Some (driver_status m)
      else if off = 0xfc then Some (config_generation m)
      else None)"

definition mmio_read ::
  "('d, 'e) virtio_ops \<Rightarrow> u64 \<Rightarrow> u8 list \<Rightarrow> ('d, 'e) mmio_device \<Rightarrow> (u8 list \<times> ('d, 'e) mmio_device) outcome" where
  "mmio_read p off data m =
     (if off \<le> 0xff \<and> length data = 4 then
        (case mmio_register p off m of
           None \<Rightarrow> Return (data, m)
         | Some v \<Rightarrow> Return (to_le v, m))
      else if 0x100 \<le> off \<and> off \<le> 0xfff then
        outcome_bind (vd_read_config p (off - 0x100) data (device m)) (\<lambda>data'. Return (data', m))
      else Return (data, m))"

definition addr_hi :: "guest_address \<Rightarrow> u32 \<Rightarrow> guest_address" where
  "addr_hi v x = (v AND 0xffffffff) OR push_bit 32 (ucast x)"

definition addr_lo :: "guest_address \<Rightarrow> u32 \<Rightarrow> guest_address" where
  "addr_lo v x = (v AND NOT 0xffffffff) OR ucast x"

text \<open>The match on the register number; \<open>None\<close> is the early return for an unknown register.\<close>

definition mmio_write_register ::
  "('d, 'e) virtio_ops \<Rightarrow> u64 \<Rightarrow> u32 \<Rightarrow> ('d, 'e) mmio_device \<Rightarrow> (bool \<times> ('d, 'e) mmio_device) option" where
  "mmio_write_register p off v m =
     (if off = 0x14 then Some (False, m\<lparr>features_select := v\<rparr>)
      else if off = 0x20 then Some (False, m\<lparr>device := vd_ack_features p (acked_features_select m) v (device m)\<rparr>)
      else if off = 0x24 then Some (False, m\<lparr>acked_features_select := v\<rparr>)
      else if off = 0x30 then Some (False, m\<lparr>queue_select := v\<rparr>)
      else if off = 0x38 then Some (with_queue_mut (\<lambda>q. q\<lparr>q_size := ucast v\<rparr>) m)
      else if off = 0x44 then Some (with_queue_mut (\<lambda>q. q\<lparr>q_ready := v = 1\<rparr>) m)
      else if off = 0x64 then Some (False, m\<lparr>interrupt_status := interrupt_status m AND NOT (ucast v)\<rparr>)
      else if off = 0x70 then Some (False, m\<lparr>driver_status := v\<rparr>)
      else if off = 0x80 then Some (with_queue_mut (\<lambda>q. q\<lparr>q_desc_table := addr_lo (q_desc_table q) v\<rparr>) m)
      else if off = 0x84 then Some (with_queue_mut (\<lambda>q. q\<lparr>q_desc_table := addr_hi (q_desc_table q) v\<rparr>) m)
      else if off = 0x90 then Some (with_queue_mut (\<lambda>q. q\<lparr>q_avail_ring := addr_lo (q_avail_ring q) v\<rparr>) m)
      else if off = 0x94 then Some (with_queue_mut (\<lambda>q. q\<lparr>q_avail_ring := addr_hi (q_avail_ring q) v\<rparr>) m)
      else if off = 0xa0 then Some (with_queue_mut (\<lambda>q. q\<lparr>q_used_ring := addr_lo (q_used_ring q) v\<rparr>) m)
      else if off = 0xa4 then Some (with_queue_mut (\<lambda>q. q\<lparr>q_used_ring := addr_hi (q_used_ring q) v\<rparr>) m)
      else None)"

definition try_activate :: "('d, 'e) virtio_ops \<Rightarrow> ('d, 'e) mmio_device \<Rightarrow> ('d, 'e) mmio_device" where
  "try_activate p m =
     (if \<not> device_activated m \<and> is_driver_ready m \<and> are_queues_valid m then
        (case interrupt_evt m of
           None \<Rightarrow> m
         | Some ie \<Rightarrow>
             let m = m\<lparr>interrupt_evt := None\<rparr> in
             (case mmio_mem m of
                None \<Rightarrow> m
              | Some mem \<Rightarrow>
                  m\<lparr>mmio_mem := None, device := vd_activate p mem ie (queues m) (queue_evts m) (device m),
                     queue_evts := [], device_activated := True\<rparr>))
      else m)"

definition mmio_write ::
  "('d, 'e) virtio_ops \<Rightarrow> u64 \<Rightarrow> u8 list \<Rightarrow> ('d, 'e) mmio_device \<Rightarrow> ('d, 'e) mmio_device outcome" where
  "mmio_write p off data m =
     (if off \<le> 0xff \<and> length data = 4 then
        (case mmio_write_register p off (from_le data) m of
           None \<Rightarrow> Return m
         | Some (mut_q, m') \<Rightarrow> Return (try_activate p m'))
      else if 0x100 \<le> off \<and> off \<le> 0xfff then
        outcome_bind (vd_write_config p (off - 0x100) data (device m)) (\<lambda>d'. Return (m\<lparr>device := d'\<rparr>))
      else Return m)"

text \<open>The worker of the device sets bits of the shared interrupt status.\<close>

definition mmio_signal :: "u32 \<Rightarrow> ('d, 'e) mmio_device \<Rightarrow> ('d, 'e) mmio_device" where
  "mmio_signal bits m = m\<lparr>interrupt_status := interrupt_status m OR ucast bits\<rparr>"

section \<open>Interleavings of guest and worker\<close>

datatype mmio_action = Mmio_read u64 nat | Mmio_write u64 "u8 list" | Mmio_signal u32

fun mmio_step :: "('d, 'e) virtio_ops \<Rightarrow> mmio_action \<Rightarrow> ('d, 'e) mmio_device \<Rightarrow> ('d, 'e) mmio_device outcome" where
  "mmio_step p (Mmio_read off n) m = outcome_bind (mmio_read p off (replicate n 0) m) (\<lambda>(_, m'). Return m')"
| "mmio_step p (Mmio_write off data) m = mmio_write p off data m"
| "mmio_step p (Mmio_signal bits) m = Return (mmio_signal bits m)"

fun mmio_run :: "('d, 'e) virtio_ops \<Rightarrow> mmio_action list \<Rightarrow> ('d, 'e) mmio_device \<Rightarrow> ('d, 'e) mmio_device outcome" where
  "mmio_run p [] m = Return m"
| "mmio_run p (a # as) m = outcome_bind (mmio_step p a m) (mmio_run p as)"

lemma mmio_run_append: "mmio_run p (as @ bs) m = outcome_bind (mmio_run p as m) (mmio_run p bs)"
proof (induction as arbitrary: m)
  case (Cons a as)
  then show ?case by (cases "mmio_step p a m") auto
qed simp

section \<open>Activation\<close>

text \<open>
  Any device can be watched: beside its own state it keeps what it was activated with.
\<close>

type_synonym 'e activation = "guest_memory \<times> 'e \<times> queue list \<times> 'e list"

definition watched :: "('d, 'e) virtio_ops \<Rightarrow> ('d \<times> 'e activation list, 'e) virtio_ops" where
  "watched p = \<lparr>vd_device_type = \<lambda>(d, _). vd_device_type p d, vd_queue_max_sizes = \<lambda>(d, _). vd_queue_max_sizes p d,
     vd_features = \<lambda>(d, _). vd_features p d, vd_ack_features = \<lambda>page v (d, l). (vd_ack_features p page v d, l),
     vd_read_config = \<lambda>off data (d, _). vd_read_config p off data d,
     vd_write_config = \<lambda>off data (d, l). outcome_bind (vd_write_config p off data d) (\<lambda>d'. Return (d', l)),
     vd_activate = \<lambda>mem ie qs evts (d, l). (vd_activate p mem ie qs evts d, l @ [(mem, ie, qs, evts)])\<rparr>"

text \<open>
  The transport holds the event, the memory and the queue events until it hands them over,
  and hands them over once, with valid queues.
\<close>

definition mmio_owner ::
  "guest_memory \<Rightarrow> 'e \<Rightarrow> 'e list \<Rightarrow> u16 list \<Rightarrow> ('d \<times> 'e activation list, 'e) mmio_device \<Rightarrow> bool" where
  "mmio_owner mem ie evts sizes m \<longleftrightarrow> map q_max_size (queues m) = sizes \<and>
     (if device_activated m
      then interrupt_evt m = None \<and> mmio_mem m = None \<and> queue_evts m = [] \<and>
        (\<exists>qs. snd (device m) = [(mem, ie, qs, evts)] \<and> map q_max_size qs = sizes \<and> list_all (\<lambda>q. queue_is_valid q mem) qs)
      else interrupt_evt m = Some ie \<and> mmio_mem m = Some mem \<and> queue_evts m = evts \<and> snd (device m) = [])"

definition mmio_waiting :: "('d, 'e) mmio_device \<Rightarrow> bool" where
  "mmio_waiting m \<longleftrightarrow> (device_activated m \<or> \<not> (is_driver_ready m \<and> are_queues_valid m))"

lemma watched_simps [simp]:
  "vd_ack_features (watched p) page v dl = (vd_ack_features p page v (fst dl), snd dl)"
  "vd_queue_max_sizes (watched p) dl = vd_queue_max_sizes p (fst dl)"
  "vd_write_config (watched p) off data dl = outcome_bind (vd_write_config p off data (fst dl)) (\<lambda>d'. Return (d', snd dl))"
  "vd_activate (watched p) mem ie qs evts dl = (vd_activate p mem ie qs evts (fst dl), snd dl @ [(mem, ie, qs, evts)])"
  by (simp_all add: watched_def split: prod.splits)

lemma with_queue_mut_owner:
  assumes "mmio_owner mem ie evts sizes m" "\<And>q. q_max_size (f q) = q_max_size q"
  shows "mmio_owner mem ie evts sizes (snd (with_queue_mut f m))"
proof (cases "unat (queue_select m) < length (queues m)")
  case True
  then have "map q_max_size ((queues m)[unat (queue_select m) := f (queues m ! unat (queue_select m))]) = map q_max_size (queues m)"
    using assms(2) by (simp add: map_update) (metis list_update_id map_update nth_map)
  then show ?thesis using assms(1) True by (simp add: with_queue_mut_def mmio_owner_def)
next
  case False
  then show ?thesis using assms(1) by (simp add: with_queue_mut_def)
qed

lemma mmio_owner_plain [simp]:
  "mmio_owner mem ie evts sizes (m\<lparr>features_select := v\<rparr>) = mmio_owner mem ie evts sizes m"
  "mmio_owner mem ie evts sizes (m\<lparr>acked_features_select := v\<rparr>) = mmio_owner mem ie evts sizes m"
  "mmio_owner mem ie evts sizes (m\<lparr>queue_select := v\<rparr>) = mmio_owner mem ie evts sizes m"
  "mmio_owner mem ie evts sizes (m\<lparr>interrupt_status := w\<rparr>) = mmio_owner mem ie evts sizes m"
  "mmio_owner mem ie evts sizes (m\<lparr>driver_status := v\<rparr>) = mmio_owner mem ie evts sizes m"
  "mmio_owner mem ie evts sizes (m\<lparr>device := (d, snd (device m))\<rparr>) = mmio_owner mem ie evts sizes m"
  by (simp_all add: mmio_owner_def)

lemma write_register_owner:
  assumes "mmio_owner mem ie evts sizes m" "mmio_write_register (watched p) off v m = Some x"
  shows "mmio_owner mem ie evts sizes (snd x)"
proof -
  have "pred_option (\<lambda>x. mmio_owner mem ie evts sizes (snd x)) (mmio_write_register (watched p) off v m)"
    using assms(1) unfolding mmio_write_register_def
    by (simp add: with_queue_mut_owner)
  then show ?thesis using assms(2) by simp
qed

lemma try_activate_owner:
  assumes "mmio_owner mem ie evts sizes m"
  shows "mmio_owner mem ie evts sizes (try_activate (watched p) m) \<and> mmio_waiting (try_activate (watched p) m)"
  using assms by (auto simp: try_activate_def mmio_owner_def mmio_waiting_def are_queues_valid_def Let_def split: if_splits)

lemma mmio_step_owner:
  assumes "mmio_owner mem ie evts sizes m" "mmio_waiting m" "mmio_step (watched p) a m = Return m'"
  shows "mmio_owner mem ie evts sizes m' \<and> mmio_waiting m'"
proof (cases a)
  case (Mmio_read off n)
  then have "m' = m" using assms(3) by (auto simp: mmio_read_def outcome_bind_Return split: if_splits option.splits)
  then show ?thesis using assms by simp
next
  case (Mmio_write off data)
  with assms(3) consider "m' = m"
    | x where "mmio_write_register (watched p) off (from_le data) m = Some x" "m' = try_activate (watched p) (snd x)"
    | d where "m' = m\<lparr>device := (d, snd (device m))\<rparr>"
    by (auto simp: mmio_write_def outcome_bind_Return split: if_splits option.splits)
  then show ?thesis
  proof cases
    case 2
    show ?thesis unfolding 2(2) by (rule try_activate_owner [OF write_register_owner [OF assms(1) 2(1)]])
  next
    case 3
    then show ?thesis using assms by (simp add: mmio_waiting_def is_driver_ready_def are_queues_valid_def cong: option.case_cong)
  qed (use assms in simp)
next
  case (Mmio_signal bits)
  then show ?thesis
    using assms by (auto simp: mmio_signal_def mmio_waiting_def is_driver_ready_def are_queues_valid_def cong: option.case_cong)
qed

lemma mmio_run_owner:
  assumes "mmio_owner mem ie evts sizes m" "mmio_waiting m" "mmio_run (watched p) as m = Return m'"
  shows "mmio_owner mem ie evts sizes m' \<and> mmio_waiting m'"
  using assms
proof (induction as arbitrary: m)
  case (Cons a as)
  then obtain m1 where m1: "mmio_step (watched p) a m = Return m1" "mmio_run (watched p) as m1 = Return m'"
    by (auto simp: outcome_bind_Return)
  show ?case using mmio_step_owner [OF Cons.prems(1, 2) m1(1)] Cons.IH [OF _ _ m1(2)] by simp
qed simp

lemma mmio_new_owner:
  assumes "mmio_new (watched p) evt_new mem (d, []) = Some m"
  obtains ie evts where "evt_new (length (vd_queue_max_sizes p d)) = Some ie"
    "those (map evt_new [0..<length (vd_queue_max_sizes p d)]) = Some evts"
    "mmio_owner mem ie evts (vd_queue_max_sizes p d) m" "mmio_waiting m"
proof -
  obtain ie evts where e: "evt_new (length (vd_queue_max_sizes p d)) = Some ie"
    "those (map evt_new [0..<length (vd_queue_max_sizes p d)]) = Some evts"
    using assms by (auto simp: mmio_new_def Let_def split: option.splits)
  then have "m = \<lparr>device = (d, []), device_activated = False, features_select = 0,
               acked_features_select = 0, queue_select = 0, interrupt_status = 0, interrupt_evt = Some ie,
               driver_status = 0, config_generation = 0, queues = map queue_new (vd_queue_max_sizes p d),
               queue_evts = evts, mmio_mem = Some mem\<rparr>"
    using assms by (simp add: mmio_new_def Let_def)
  then show ?thesis using e
    by (intro that [of ie evts]) (auto simp: mmio_owner_def mmio_waiting_def is_driver_ready_def queue_new_def comp_def)
qed

text \<open>
  C34. The life cycle of a virtio device, for every device and every interleaving of guest
  accesses and interrupts of the worker: it is activated at most once; it then gets the
  guest memory, the interrupt event and all queue events of the transport, and one queue for
  each that it asked for, all of them valid in that memory; until then the driver has not
  reported a good status or some queue is not valid yet.
\<close>

theorem mmio_activated_once:
  assumes "mmio_new (watched p) evt_new mem (d, []) = Some m" "mmio_run (watched p) as m = Return m'"
  shows "if device_activated m'
    then mmio_mem m' = None \<and> interrupt_evt m' = None \<and> queue_evts m' = [] \<and>
      (\<exists>qs ie evts. snd (device m') = [(mem, ie, qs, evts)] \<and> evt_new (length (vd_queue_max_sizes p d)) = Some ie \<and>
        those (map evt_new [0..<length (vd_queue_max_sizes p d)]) = Some evts \<and>
        map q_max_size qs = vd_queue_max_sizes p d \<and> list_all (\<lambda>q. queue_is_valid q mem) qs)
    else snd (device m') = [] \<and> mmio_mem m' = Some mem \<and> \<not> (is_driver_ready m' \<and> are_queues_valid m')"
proof -
  obtain ie evts where ie: "evt_new (length (vd_queue_max_sizes p d)) = Some ie"
    "those (map evt_new [0..<length (vd_queue_max_sizes p d)]) = Some evts"
    and own: "mmio_owner mem ie evts (vd_queue_max_sizes p d) m" "mmio_waiting m"
    using mmio_new_owner [OF assms(1)] .
  from mmio_run_owner [OF own assms(2)] ie show ?thesis
    by (auto simp: mmio_owner_def mmio_waiting_def split: if_splits)
qed

section \<open>The driver starts the device\<close>

lemma addr_lo_hi: "addr_hi (addr_lo v (ucast a)) (ucast (drop_bit 32 a)) = (a :: u64)"
proof -
  have m: "(0xffffffff :: u64) = mask 32" by (simp add: mask_eq_exp_minus_1)
  show ?thesis
    unfolding addr_hi_def addr_lo_def m by (rule bit_word_eqI) (auto simp: bit_simps)
qed

text \<open>What the driver wants of a queue: its size and the places of its three parts.\<close>

type_synonym queue_config = "u16 \<times> u64 \<times> u64 \<times> u64"

fun configured :: "queue \<Rightarrow> queue_config \<Rightarrow> queue" where
  "configured q (n, desc, avail, used) = q\<lparr>q_size := n, q_desc_table := desc,
     q_avail_ring := avail, q_used_ring := used, q_ready := True\<rparr>"

abbreviation reg_write :: "u64 \<Rightarrow> u32 \<Rightarrow> mmio_action" where
  "reg_write off v \<equiv> Mmio_write off (to_le v)"

fun init_queue :: "nat \<Rightarrow> queue_config \<Rightarrow> mmio_action list" where
  "init_queue i (n, desc, avail, used) =
     [reg_write 0x30 (of_nat i), reg_write 0x38 (ucast n),
      reg_write 0x80 (ucast desc), reg_write 0x84 (ucast (drop_bit 32 desc)),
      reg_write 0x90 (ucast avail), reg_write 0x94 (ucast (drop_bit 32 avail)),
      reg_write 0xa0 (ucast used), reg_write 0xa4 (ucast (drop_bit 32 used)), reg_write 0x44 1]"

fun init_queues :: "nat \<Rightarrow> queue_config list \<Rightarrow> mmio_action list" where
  "init_queues i [] = []"
| "init_queues i (c # cs) = init_queue i c @ init_queues (Suc i) cs"

definition driver_init :: "queue_config list \<Rightarrow> mmio_action list" where
  "driver_init cs = [reg_write 0x70 0x1, reg_write 0x70 0x3, reg_write 0x70 0xb] @ init_queues 0 cs @ [reg_write 0x70 0xf]"

lemma mmio_step_reg_write:
  "off \<le> 0xff \<Longrightarrow> mmio_step p (reg_write off v) m =
     (case mmio_write_register p off v m of None \<Rightarrow> Return m | Some x \<Rightarrow> Return (try_activate p (snd x)))"
  by (auto simp: mmio_write_def split: option.splits)

lemma try_activate_not_ready: "driver_status m \<noteq> 0xf \<Longrightarrow> try_activate p m = m"
  by (simp add: try_activate_def is_driver_ready_def)

lemma init_queue_effect:
  assumes "driver_status m \<noteq> 0xf" "i < length (queues m)" "i < 2 ^ 32"
  shows "mmio_run p (init_queue i c) m =
    Return (m\<lparr>queue_select := of_nat i, queues := (queues m)[i := configured (queues m ! i) c]\<rparr>)"
proof -
  obtain n desc avail used where c: "c = (n, desc, avail, used)" by (cases c) auto
  have i: "unat (of_nat i :: u32) = i" using assms(3) by (simp add: unsigned_of_nat take_bit_nat_eq_self)
  have n: "ucast (ucast n :: u32) = n" by (rule bit_word_eqI) (auto simp: bit_simps)
  show ?thesis
    using assms(1, 2)
    by (simp add: c n mmio_step_reg_write mmio_write_register_def try_activate_not_ready with_queue_mut_def i addr_lo_hi
        del: mmio_step.simps)
qed

lemma init_queues_effect:
  assumes "driver_status m \<noteq> 0xf" "i + length cs = length (queues m)" "length (queues m) \<le> 2 ^ 32"
  shows "\<exists>j. mmio_run p (init_queues i cs) m =
    Return (m\<lparr>queue_select := j, queues := take i (queues m) @ map2 configured (drop i (queues m)) cs\<rparr>)"
  using assms
proof (induction cs arbitrary: i m)
  case Nil
  then show ?case by (intro exI [of _ "queue_select m"]) simp
next
  case (Cons c cs)
  let ?m = "m\<lparr>queue_select := of_nat i, queues := (queues m)[i := configured (queues m ! i) c]\<rparr>"
  have i: "i < length (queues m)" "i < 2 ^ 32" using Cons.prems by simp_all
  have "\<exists>j. mmio_run p (init_queues (Suc i) cs) ?m = Return (?m\<lparr>queue_select := j,
      queues := take (Suc i) (queues ?m) @ map2 configured (drop (Suc i) (queues ?m)) cs\<rparr>)"
    using Cons.prems by (intro Cons.IH) simp_all
  moreover have "take (Suc i) ((queues m)[i := configured (queues m ! i) c]) @
      map2 configured (drop (Suc i) (queues m)) cs = take i (queues m) @ map2 configured (drop i (queues m)) (c # cs)"
    using i by (simp add: take_Suc_conv_app_nth Cons_nth_drop_Suc [symmetric] take_update_swap list_update_append)
  ultimately show ?case
    using init_queue_effect [OF Cons.prems(1) i, of p c] by (auto simp: mmio_run_append)
qed

lemma driver_init_effect:
  assumes "\<not> device_activated m" "interrupt_evt m = Some ie" "mmio_mem m = Some mem"
    "length cs = length (queues m)" "length (queues m) \<le> 2 ^ 32"
    "list_all (\<lambda>q. queue_is_valid q mem) (map2 configured (queues m) cs)"
  shows "\<exists>j. mmio_run p (driver_init cs) m = Return (m\<lparr>queue_select := j,
    queues := map2 configured (queues m) cs, driver_status := 0xf, interrupt_evt := None, mmio_mem := None, queue_evts := [], device_activated := True,
    device := vd_activate p mem ie (map2 configured (queues m) cs) (queue_evts m) (device m)\<rparr>)"
proof -
  obtain j where j: "mmio_run p (init_queues 0 cs) (m\<lparr>driver_status := 0xb\<rparr>) =
      Return (m\<lparr>driver_status := 0xb, queue_select := j, queues := map2 configured (queues m) cs\<rparr>)"
    using init_queues_effect [of "m\<lparr>driver_status := 0xb\<rparr>" 0 cs p] assms(4, 5) by auto
  let ?m = "m\<lparr>queue_select := j, queues := map2 configured (queues m) cs, driver_status := 0xf\<rparr>"
  have "is_driver_ready ?m \<and> are_queues_valid ?m"
    using assms(3, 6) by (simp add: is_driver_ready_def are_queues_valid_def)
  then have "try_activate p ?m = ?m\<lparr>interrupt_evt := None, mmio_mem := None, queue_evts := [], device_activated := True,
    device := vd_activate p mem ie (map2 configured (queues m) cs) (queue_evts m) (device m)\<rparr>"
    using assms(1-3) by (simp add: try_activate_def Let_def)
  then show ?thesis
    by (simp add: driver_init_def mmio_run_append mmio_step_reg_write mmio_write_register_def
        try_activate_not_ready j del: mmio_step.simps) metis
qed

text \<open>
  C35. A driver that follows the initialization protocol gets its device started. On a new
  transport it acknowledges the device, writes the size and the three addresses of every
  queue, each address in two halves, marks the queues ready and sets \<^verbatim>\<open>DRIVER_OK\<close>; if the
  queues so described are valid, no access panics and the device is activated with exactly
  these queues.
\<close>

theorem mmio_driver_starts_device:
  assumes "mmio_new p evt_new mem d = Some m" "length cs = length (vd_queue_max_sizes p d)"
    "length cs \<le> 2 ^ 32" "list_all (\<lambda>q. queue_is_valid q mem) (map2 (\<lambda>n. configured (queue_new n)) (vd_queue_max_sizes p d) cs)"
  shows "\<exists>m' ie evts. mmio_run p (driver_init cs) m = Return m' \<and> device_activated m' \<and>
    evt_new (length (vd_queue_max_sizes p d)) = Some ie \<and>
    those (map evt_new [0..<length (vd_queue_max_sizes p d)]) = Some evts \<and>
    device m' = vd_activate p mem ie (map2 (\<lambda>n. configured (queue_new n)) (vd_queue_max_sizes p d) cs) evts d"
proof -
  obtain ie evts where e: "evt_new (length (vd_queue_max_sizes p d)) = Some ie"
    "those (map evt_new [0..<length (vd_queue_max_sizes p d)]) = Some evts"
    using assms(1) by (auto simp: mmio_new_def Let_def split: option.splits)
  with assms(1) have m: "m = \<lparr>device = d, device_activated = False, features_select = 0,
      acked_features_select = 0, queue_select = 0, interrupt_status = 0, interrupt_evt = Some ie,
      driver_status = 0, config_generation = 0, queues = map queue_new (vd_queue_max_sizes p d),
      queue_evts = evts, mmio_mem = Some mem\<rparr>"
    by (simp add: mmio_new_def Let_def)
  have qs: "map2 configured (map queue_new (vd_queue_max_sizes p d)) cs =
      map2 (\<lambda>n. configured (queue_new n)) (vd_queue_max_sizes p d) cs"
    by (simp add: zip_map1 case_prod_unfold comp_def)
  have "\<exists>j. mmio_run p (driver_init cs) m = Return (m\<lparr>queue_select := j,
    queues := map2 configured (queues m) cs, driver_status := 0xf, interrupt_evt := None, mmio_mem := None, queue_evts := [], device_activated := True,
    device := vd_activate p mem ie (map2 configured (queues m) cs) (queue_evts m) (device m)\<rparr>)"
    using assms(2-4) qs by (intro driver_init_effect) (simp_all add: m)
  then show ?thesis using e qs by (auto simp: m)
qed

text \<open>A device with one queue and no configuration.\<close>

definition example_ops :: "(unit, nat) virtio_ops" where
  "example_ops = \<lparr>vd_device_type = \<lambda>_. 4, vd_queue_max_sizes = \<lambda>_. [256], vd_features = \<lambda>_ _. 0,
     vd_ack_features = \<lambda>_ _ d. d, vd_read_config = \<lambda>_ data _. Return data, vd_write_config = \<lambda>_ _ d. Return d,
     vd_activate = \<lambda>_ _ _ _ d. d\<rparr>"

definition example_transport :: "'d \<Rightarrow> ('d, nat) mmio_device" where
  "example_transport d = \<lparr>device = d, device_activated = False, features_select = 0, acked_features_select = 0,
     queue_select = 0, interrupt_status = 0, interrupt_evt = Some 1, driver_status = 0, config_generation = 0,
     queues = [queue_new 256], queue_evts = [0], mmio_mem = Some example_vq_memory\<rparr>"

lemma example_transport_new:
  "mmio_new example_ops Some example_vq_memory () = Some (example_transport ())"
  "mmio_new (watched example_ops) Some example_vq_memory ((), []) = Some (example_transport ((), []))"
  by (simp_all add: mmio_new_def example_ops_def example_transport_def)

lemma example_config_valid:
  "queue_is_valid (configured (queue_new 256) (2, 0x1000, 0x1020, 0x1040)) example_vq_memory"
  by (simp add: queue_is_valid_def queue_new_def actual_size_def Let_def ring_in_range_def checked_add_def
      address_in_range_def example_vq_end)

theorem mmio_activated_once_witness:
  "\<exists>m'. mmio_run (watched example_ops) (driver_init [(2, 0x1000, 0x1020, 0x1040)]) (example_transport ((), [])) = Return m' \<and>
    (\<exists>qs. snd (device m') = [(example_vq_memory, 1, qs, [0])] \<and> list_all (\<lambda>q. queue_is_valid q example_vq_memory) qs)"
proof -
  obtain m' where m': "mmio_run (watched example_ops) (driver_init [(2, 0x1000, 0x1020, 0x1040)]) (example_transport ((), [])) = Return m'"
    "device_activated m'"
    using driver_init_effect [of "example_transport ((), [])" 1 example_vq_memory "[(2, 0x1000, 0x1020, 0x1040)]" "watched example_ops"]
      example_config_valid by (auto simp: example_transport_def simp del: configured.simps)
  show ?thesis
    using mmio_activated_once [OF example_transport_new(2) m'(1)] m' by (auto simp: example_ops_def)
qed

theorem mmio_driver_starts_device_witness:
  "\<exists>m'. mmio_run example_ops (driver_init [(2, 0x1000, 0x1020, 0x1040)]) (example_transport ()) = Return m' \<and> device_activated m'"
  using mmio_driver_starts_device [OF example_transport_new(1), of "[(2, 0x1000, 0x1020, 0x1040)]"] example_config_valid
  by (auto simp: example_ops_def simp del: configured.simps)

end
