(* ===== verification/Host_File.thy ===== *)
theory Host_File
  imports Prelude
begin

text \<open>
  The host file as the sources see it (\<^verbatim>\<open>std::fs::File\<close>), and the helpers of \<^verbatim>\<open>sys_util\<close> on
  top of it: \<^verbatim>\<open>fallocate\<close> (\<^verbatim>\<open>sys_util/src/lib.rs\<close>) and \<^verbatim>\<open>write_zeroes\<close>
  (\<^verbatim>\<open>sys_util/src/write_zeroes.rs\<close>). A file is its bytes and a cursor. The host may let any
  system call fail: the record carries the list of answers to the next calls, and a call on
  the empty list works. A call that fails has no effect; a write transfers all bytes or fails.
\<close>

section \<open>Computations with effects\<close>

text \<open>
  A computation on a state \<open>'s\<close> gives a value or an error, with the state it leaves behind,
  or it panics. \<open>io_bind\<close> is the sequence of two statements, with the \<^verbatim>\<open>?\<close> operator after the
  first.
\<close>

datatype io_error = Einval | Enotsup | Unexpected_eof | Host_io

type_synonym ('s, 'a) io = "'s \<Rightarrow> ((io_error + 'a) \<times> 's) outcome"

definition io_return :: "'a \<Rightarrow> ('s, 'a) io" where
  "io_return x s = Return (Inr x, s)"

definition io_fail :: "io_error \<Rightarrow> ('s, 'a) io" where
  "io_fail e s = Return (Inl e, s)"

definition io_panic :: "('s, 'a) io" where
  "io_panic s = Panic"

definition io_get :: "('s \<Rightarrow> 'a) \<Rightarrow> ('s, 'a) io" where
  "io_get f s = Return (Inr (f s), s)"

definition io_modify :: "('s \<Rightarrow> 's) \<Rightarrow> ('s, unit) io" where
  "io_modify f s = Return (Inr (), f s)"

definition io_bind :: "('s, 'a) io \<Rightarrow> ('a \<Rightarrow> ('s, 'b) io) \<Rightarrow> ('s, 'b) io" where
  "io_bind m f s =
     (case m s of
        Panic \<Rightarrow> Panic
      | Return (r, s') \<Rightarrow> (case r of Inl e \<Rightarrow> Return (Inl e, s') | Inr x \<Rightarrow> f x s'))"

text \<open>\<^verbatim>\<open>let _ = ...\<close> and \<^verbatim>\<open>match ... { Ok(..) => .., Err(..) => .. }\<close>: the error does not propagate.\<close>

definition io_try :: "('s, 'a) io \<Rightarrow> ('s, io_error + 'a) io" where
  "io_try m s = (case m s of Panic \<Rightarrow> Panic | Return (r, s') \<Rightarrow> Return (Inr r, s'))"

definition io_opt :: "io_error \<Rightarrow> 'a option \<Rightarrow> ('s, 'a) io" where
  "io_opt e x = (case x of None \<Rightarrow> io_fail e | Some v \<Rightarrow> io_return v)"

definition io_unwrap :: "'a option \<Rightarrow> ('s, 'a) io" where
  "io_unwrap x = (case x of None \<Rightarrow> io_panic | Some v \<Rightarrow> io_return v)"

text \<open>
  The calculus of the proofs: \<open>wp m Q E s\<close> says that \<open>m\<close> does not panic in \<open>s\<close>, that it ends
  with a value and a state that satisfy \<open>Q\<close>, or with an error and a state that satisfy \<open>E\<close>.
\<close>

definition wp :: "('s, 'a) io \<Rightarrow> ('a \<Rightarrow> 's \<Rightarrow> bool) \<Rightarrow> (io_error \<Rightarrow> 's \<Rightarrow> bool) \<Rightarrow> 's \<Rightarrow> bool" where
  "wp m Q E s =
     (case m s of Panic \<Rightarrow> False | Return (r, s') \<Rightarrow> (case r of Inl e \<Rightarrow> E e s' | Inr x \<Rightarrow> Q x s'))"

named_theorems wp_simps \<open>weakest preconditions of the building blocks\<close>

lemma wp_return [wp_simps]: "wp (io_return x) Q E = Q x"
  by (rule ext, simp add: wp_def io_return_def)

lemma wp_fail [wp_simps]: "wp (io_fail e) Q E = E e"
  by (rule ext, simp add: wp_def io_fail_def)

lemma wp_panic [wp_simps]: "wp io_panic Q E = (\<lambda>_. False)"
  by (rule ext, simp add: wp_def io_panic_def)

lemma wp_get [wp_simps]: "wp (io_get f) Q E = (\<lambda>s. Q (f s) s)"
  by (rule ext, simp add: wp_def io_get_def)

lemma wp_modify [wp_simps]: "wp (io_modify f) Q E = (\<lambda>s. Q () (f s))"
  by (rule ext, simp add: wp_def io_modify_def)

lemma wp_bind [wp_simps]: "wp (io_bind m f) Q E = wp m (\<lambda>x. wp (f x) Q E) E"
  by (rule ext, auto simp: wp_def io_bind_def split: outcome.splits sum.splits)

lemma wp_try [wp_simps]: "wp (io_try m) Q E = wp m (\<lambda>x. Q (Inr x)) (\<lambda>e. Q (Inl e))"
  by (rule ext, auto simp: wp_def io_try_def split: outcome.splits sum.splits)

lemma wp_opt [wp_simps]: "wp (io_opt e x) Q E = (case x of None \<Rightarrow> E e | Some v \<Rightarrow> Q v)"
  by (simp add: io_opt_def wp_simps split: option.splits)

lemma wp_unwrap [wp_simps]: "wp (io_unwrap x) Q E = (case x of None \<Rightarrow> (\<lambda>_. False) | Some v \<Rightarrow> Q v)"
  by (simp add: io_unwrap_def wp_simps split: option.splits)

lemma wp_if [wp_simps]: "wp (if b then m else n) Q E = (if b then wp m Q E else wp n Q E)"
  by simp

lemma wp_mono:
  assumes "wp m Q E s" "\<And>x s'. Q x s' \<Longrightarrow> Q' x s'" "\<And>e s'. E e s' \<Longrightarrow> E' e s'"
  shows "wp m Q' E' s"
  using assms by (auto simp: wp_def split: outcome.splits sum.splits)

lemma wp_conj: "wp m Q E s \<Longrightarrow> wp m Q' E' s \<Longrightarrow> wp m (\<lambda>x s. Q x s \<and> Q' x s) (\<lambda>e s. E e s \<and> E' e s) s"
  by (auto simp: wp_def split: outcome.splits sum.splits)

lemma wp_Return:
  "wp m Q E s \<longleftrightarrow> (\<exists>x s'. m s = Return (Inr x, s') \<and> Q x s') \<or> (\<exists>e s'. m s = Return (Inl e, s') \<and> E e s')"
  by (auto simp: wp_def split: outcome.splits sum.splits prod.splits)

text \<open>Running a computation on a component of the state.\<close>

definition io_on :: "('t \<Rightarrow> 's) \<Rightarrow> ('s \<Rightarrow> 't \<Rightarrow> 't) \<Rightarrow> ('s, 'a) io \<Rightarrow> ('t, 'a) io" where
  "io_on sel upd m t = (case m (sel t) of Panic \<Rightarrow> Panic | Return (r, s') \<Rightarrow> Return (r, upd s' t))"

lemma wp_on [wp_simps]:
  "wp (io_on sel upd m) Q E = (\<lambda>t. wp m (\<lambda>x s. Q x (upd s t)) (\<lambda>e s. E e (upd s t)) (sel t))"
  by (rule ext, auto simp: wp_def io_on_def split: outcome.splits sum.splits)

section \<open>The file\<close>

record host_file =
  contents :: "u8 list"
  cursor :: u64
  answers :: "bool list"

text \<open>The largest offset of a file is the largest \<^verbatim>\<open>off_t\<close>.\<close>

abbreviation off_limit :: nat where
  "off_limit \<equiv> 2 ^ 63"

definition syscall :: "(host_file, unit) io" where
  "syscall f =
     (case answers f of
        [] \<Rightarrow> Return (Inr (), f)
      | a # as \<Rightarrow> Return (if a then Inr () else Inl Host_io, f\<lparr>answers := as\<rparr>))"

definition file_seek :: "u64 \<Rightarrow> (host_file, u64) io" where
  "file_seek off =
     io_bind syscall (\<lambda>_.
     if unat off < off_limit then io_bind (io_modify (cursor_update (\<lambda>_. off))) (\<lambda>_. io_return off)
     else io_fail Einval)"

definition file_seek_end :: "(host_file, u64) io" where
  "file_seek_end =
     io_bind syscall (\<lambda>_.
     io_bind (io_modify (\<lambda>f. f\<lparr>cursor := of_nat (length (contents f))\<rparr>)) (\<lambda>_. io_get cursor))"

text \<open>\<^verbatim>\<open>SeekFrom::Current\<close>; the offset is a signed number, which adds with wrap-around.\<close>

definition file_seek_current :: "u64 \<Rightarrow> (host_file, u64) io" where
  "file_seek_current n = io_bind (io_get cursor) (\<lambda>c. file_seek (c + n))"

definition file_read_exact :: "nat \<Rightarrow> (host_file, u8 list) io" where
  "file_read_exact n =
     io_bind syscall (\<lambda>_. io_bind (io_get id) (\<lambda>f.
     if unat (cursor f) + n \<le> length (contents f) then
       io_bind (io_modify (\<lambda>f. f\<lparr>cursor := cursor f + of_nat n\<rparr>)) (\<lambda>_.
       io_return (slice (unat (cursor f)) n (contents f)))
     else
       io_bind (io_modify (\<lambda>f. f\<lparr>cursor := max (cursor f) (of_nat (length (contents f)))\<rparr>)) (\<lambda>_.
       io_fail Unexpected_eof)))"

text \<open>Bytes written behind the end fill the gap with zeros; writing no bytes changes nothing.\<close>

definition file_put :: "nat \<Rightarrow> u8 list \<Rightarrow> u8 list \<Rightarrow> u8 list" where
  "file_put pos bs xs =
     (if bs = [] then xs else splice pos bs (xs @ replicate (pos + length bs - length xs) 0))"

definition file_write :: "u8 list \<Rightarrow> (host_file, unit) io" where
  "file_write bs =
     io_bind syscall (\<lambda>_. io_bind (io_get cursor) (\<lambda>c.
     if unat c + length bs < off_limit then
       io_modify (\<lambda>f. f\<lparr>contents := file_put (unat c) bs (contents f), cursor := c + of_nat (length bs)\<rparr>)
     else io_fail Host_io))"

definition file_set_len :: "u64 \<Rightarrow> (host_file, unit) io" where
  "file_set_len n =
     io_bind syscall (\<lambda>_.
     if unat n < off_limit then
       io_modify (\<lambda>f. f\<lparr>contents := take (unat n) (contents f) @ replicate (unat n - length (contents f)) 0\<rparr>)
     else io_fail Einval)"

definition file_sync :: "(host_file, unit) io" where
  "file_sync = syscall"

definition file_len :: "(host_file, u64) io" where
  "file_len = io_bind syscall (\<lambda>_. io_get (\<lambda>f. of_nat (length (contents f))))"

datatype fallocate_mode = PunchHole | ZeroRange

text \<open>
  \<^verbatim>\<open>fallocate(2)\<close> refuses an empty range and a range that ends behind the limit. Zeroing a range
  extends the file unless the size is kept; punching a hole never extends it, and is refused
  without the flag that keeps the size.
\<close>

definition fallocate :: "fallocate_mode \<Rightarrow> bool \<Rightarrow> u64 \<Rightarrow> u64 \<Rightarrow> (host_file, unit) io" where
  "fallocate mode keep_size off len =
     (if \<not> unat off < off_limit then io_fail Einval
      else if \<not> unat len < off_limit then io_fail Einval
      else io_bind syscall (\<lambda>_.
        if len = 0 \<or> unat off + unat len \<ge> off_limit \<or> (mode = PunchHole \<and> \<not> keep_size) then io_fail Einval
        else io_modify (\<lambda>f.
          let n = (if keep_size then min (unat len) (length (contents f) - unat off) else unat len) in
          f\<lparr>contents := file_put (unat off) (replicate n 0) (contents f)\<rparr>)))"

text \<open>The loop of \<^verbatim>\<open>WriteZeroes for File\<close> that writes buffers of zeros.\<close>

function write_zero_buffers :: "nat \<Rightarrow> nat \<Rightarrow> (host_file, unit) io" where
  "write_zero_buffers buf_size remaining =
     (if remaining = 0 \<or> buf_size = 0 then io_return ()
      else io_bind (file_write (replicate (min remaining buf_size) 0)) (\<lambda>_.
        write_zero_buffers buf_size (remaining - min remaining buf_size)))"
  by pat_completeness auto
termination
  by (relation "measure snd") auto

declare write_zero_buffers.simps [simp del]

definition write_zeroes :: "usize \<Rightarrow> (host_file, usize) io" where
  "write_zeroes len =
     io_bind (file_seek_current 0) (\<lambda>off.
     io_bind (io_try (fallocate ZeroRange False off len)) (\<lambda>r.
     case r of
       Inr _ \<Rightarrow> io_bind (file_seek_current len) (\<lambda>_. io_return len)
     | Inl _ \<Rightarrow>
         let buf_size = min (unat len) 0x10000 in
         io_bind (write_zero_buffers buf_size (unat len)) (\<lambda>_. io_return len)))"

section \<open>Bytes of a file\<close>

text \<open>The bytes as a total function, zero behind the end; what is written is seen there.\<close>

definition fbyte :: "u8 list \<Rightarrow> nat \<Rightarrow> u8" where
  "fbyte xs i = (if i < length xs then xs ! i else 0)"

lemma length_file_put: "bs \<noteq> [] \<Longrightarrow> length (file_put pos bs xs) = max (length xs) (pos + length bs)"
  by (simp add: file_put_def)

lemma length_file_put_le: "length xs \<le> length (file_put pos bs xs)"
  by (cases "bs = []") (simp_all add: file_put_def)

lemma length_file_put_in: "pos + length bs \<le> length xs \<Longrightarrow> length (file_put pos bs xs) = length xs"
  by (simp add: file_put_def)

lemma fbyte_file_put:
  "fbyte (file_put pos bs xs) i = (if pos \<le> i \<and> i < pos + length bs then bs ! (i - pos) else fbyte xs i)"
proof (cases "bs = []")
  case False
  let ?ys = "xs @ replicate (pos + length bs - length xs) 0"
  have len: "pos + length bs \<le> length ?ys" by simp
  have "fbyte ?ys i = fbyte xs i" by (simp add: fbyte_def nth_append)
  moreover have "fbyte (splice pos bs ?ys) i = (if pos \<le> i \<and> i < pos + length bs then bs ! (i - pos) else fbyte ?ys i)"
    using len by (auto simp: fbyte_def nth_splice)
  ultimately show ?thesis using False by (simp add: file_put_def)
qed (auto simp: file_put_def)

lemma fbyte_eqI: "length xs = length ys \<Longrightarrow> (\<And>i. fbyte xs i = fbyte ys i) \<Longrightarrow> xs = ys"
  by (rule nth_equalityI) (simp, metis fbyte_def)

lemma slice_fbyte: "pos + n \<le> length xs \<Longrightarrow> slice pos n xs = map (\<lambda>k. fbyte xs (pos + k)) [0..<n]"
  by (rule nth_equalityI) (auto simp: nth_slice fbyte_def)

lemma fbyte_set_len:
  assumes "length xs \<le> n"
  shows "fbyte (take n xs @ replicate (n - length xs) 0) i = fbyte xs i"
  using assms by (simp add: fbyte_def nth_append)

lemma file_put_file_put:
  assumes "length bs = k"
  shows "file_put (pos + k) cs (file_put pos bs xs) = file_put pos (bs @ cs) xs"
proof (rule fbyte_eqI)
  show "length (file_put (pos + k) cs (file_put pos bs xs)) = length (file_put pos (bs @ cs) xs)"
    using assms by (cases "bs = []"; cases "cs = []") (auto simp: length_file_put file_put_def)
  show "fbyte (file_put (pos + k) cs (file_put pos bs xs)) i = fbyte (file_put pos (bs @ cs) xs) i" for i
    using assms by (auto simp: fbyte_file_put nth_append)
qed

section \<open>What the operations do, whatever the host answers\<close>

lemma wp_syscall:
  assumes "\<And>as. Q () (f\<lparr>answers := as\<rparr>)" "\<And>as. E Host_io (f\<lparr>answers := as\<rparr>)"
  shows "wp syscall Q E f"
proof (cases "answers f")
  case Nil
  then show ?thesis using assms(1) [of "[]"] by (cases f) (simp add: wp_def syscall_def)
qed (use assms in \<open>simp add: wp_def syscall_def\<close>)

lemma wp_file_seek:
  assumes "\<And>as. unat off < off_limit \<Longrightarrow> Q off (f\<lparr>answers := as, cursor := off\<rparr>)" "\<And>e as. E e (f\<lparr>answers := as\<rparr>)"
  shows "wp (file_seek off) Q E f"
  unfolding file_seek_def wp_bind
  by (rule wp_syscall) (use assms in \<open>auto simp: wp_simps\<close>)

lemma wp_file_read_exact:
  assumes "\<And>as. unat (cursor f) + n \<le> length (contents f) \<Longrightarrow>
      Q (slice (unat (cursor f)) n (contents f)) (f\<lparr>answers := as, cursor := cursor f + of_nat n\<rparr>)"
    "\<And>e as c. E e (f\<lparr>answers := as, cursor := c\<rparr>)"
  shows "wp (file_read_exact n) Q E f"
proof -
  have "E e (f\<lparr>answers := as\<rparr>)" for e as using assms(2) [of e "cursor f" as] by (cases f) simp
  then show ?thesis
    unfolding file_read_exact_def wp_bind
    by (intro wp_syscall) (use assms in \<open>auto simp: wp_simps\<close>)
qed

lemma wp_file_write:
  assumes "\<And>as. unat (cursor f) + length bs < off_limit \<Longrightarrow>
      Q () (f\<lparr>answers := as, contents := file_put (unat (cursor f)) bs (contents f), cursor := cursor f + of_nat (length bs)\<rparr>)"
    "\<And>e as. E e (f\<lparr>answers := as\<rparr>)"
  shows "wp (file_write bs) Q E f"
  unfolding file_write_def wp_bind
  by (rule wp_syscall) (use assms in \<open>auto simp: wp_simps\<close>)

lemma wp_file_set_len:
  assumes "\<And>as. unat n < off_limit \<Longrightarrow>
      Q () (f\<lparr>answers := as, contents := take (unat n) (contents f) @ replicate (unat n - length (contents f)) 0\<rparr>)"
    "\<And>e as. E e (f\<lparr>answers := as\<rparr>)"
  shows "wp (file_set_len n) Q E f"
  unfolding file_set_len_def wp_bind
  by (rule wp_syscall) (use assms in \<open>auto simp: wp_simps\<close>)

lemma unat_forward: "unat (c :: u64) + n < off_limit \<Longrightarrow> unat (c + of_nat n) = unat c + n"
  by (simp add: unat_word_ariths unsigned_of_nat take_bit_nat_eq_self)

lemma wp_write_zero_buffers:
  assumes "0 < buf" "unat (cursor f) < off_limit"
  shows "wp (write_zero_buffers buf n)
    (\<lambda>_ f'. unat (cursor f) + n < off_limit \<and> contents f' = file_put (unat (cursor f)) (replicate n 0) (contents f) \<and>
      cursor f' = cursor f + of_nat n)
    (\<lambda>_ f'. \<exists>k<n. contents f' = file_put (unat (cursor f)) (replicate k 0) (contents f)) f"
  using assms
proof (induction buf n arbitrary: f rule: write_zero_buffers.induct)
  case (1 buf n f)
  show ?case
  proof (cases "n = 0")
    case True
    then show ?thesis using "1.prems" by (simp add: write_zero_buffers.simps wp_simps file_put_def)
  next
    case False
    define k where "k = min n buf"
    have k: "0 < k" "k \<le> n" using False "1.prems"(1) by (auto simp: k_def)
    have "wp (file_write (replicate k 0)) (\<lambda>_. wp (write_zero_buffers buf (n - k))
      (\<lambda>_ f'. unat (cursor f) + n < off_limit \<and> contents f' = file_put (unat (cursor f)) (replicate n 0) (contents f) \<and>
        cursor f' = cursor f + of_nat n)
      (\<lambda>_ f'. \<exists>k<n. contents f' = file_put (unat (cursor f)) (replicate k 0) (contents f)))
      (\<lambda>_ f'. \<exists>k<n. contents f' = file_put (unat (cursor f)) (replicate k 0) (contents f)) f"
    proof (rule wp_file_write)
      fix as assume lim: "unat (cursor f) + length (replicate k (0 :: u8)) < off_limit"
      let ?f = "f\<lparr>answers := as, contents := file_put (unat (cursor f)) (replicate k 0) (contents f),
        cursor := cursor f + of_nat (length (replicate k (0 :: u8)))\<rparr>"
      have cur: "unat (cursor f + of_nat k) = unat (cursor f) + k" using lim by (intro unat_forward) simp
      have app: "file_put (unat (cursor f) + k) (replicate m 0) (file_put (unat (cursor f)) (replicate k 0) (contents f)) =
          file_put (unat (cursor f)) (replicate (k + m) 0) (contents f)" for m
        by (simp add: file_put_file_put replicate_add)
      have IH: "wp (write_zero_buffers buf (n - k))
        (\<lambda>_ f'. unat (cursor ?f) + (n - k) < off_limit \<and>
          contents f' = file_put (unat (cursor ?f)) (replicate (n - k) 0) (contents ?f) \<and> cursor f' = cursor ?f + of_nat (n - k))
        (\<lambda>_ f'. \<exists>j<n - k. contents f' = file_put (unat (cursor ?f)) (replicate j 0) (contents ?f)) ?f"
        unfolding k_def by (rule "1.IH") (use False "1.prems" lim cur in \<open>auto simp: k_def\<close>)
      show "wp (write_zero_buffers buf (n - k))
        (\<lambda>_ f'. unat (cursor f) + n < off_limit \<and> contents f' = file_put (unat (cursor f)) (replicate n 0) (contents f) \<and>
          cursor f' = cursor f + of_nat n)
        (\<lambda>_ f'. \<exists>k<n. contents f' = file_put (unat (cursor f)) (replicate k 0) (contents f)) ?f"
      proof (rule wp_mono [OF IH], goal_cases)
        case (1 x f')
        then show ?case using k cur app [of "n - k"] by (simp add: of_nat_diff)
      next
        case (2 e f')
        then obtain j where "j < n - k" "contents f' = file_put (unat (cursor f)) (replicate (k + j) 0) (contents f)"
          using cur app by auto
        then show ?case by (intro exI [of _ "k + j"]) simp
      qed
    qed (use False in \<open>auto simp: file_put_def intro: exI [of _ 0]\<close>)
    then show ?thesis using False "1.prems"(1) by (subst write_zero_buffers.simps) (simp add: wp_simps k_def)
  qed
qed

lemma wp_fallocate_zero:
  assumes "\<And>as. unat off + unat len < off_limit \<Longrightarrow> len \<noteq> 0 \<Longrightarrow>
      Q () (f\<lparr>answers := as, contents := file_put (unat off) (replicate (unat len) 0) (contents f)\<rparr>)"
    "\<And>e as. E e (f\<lparr>answers := as\<rparr>)"
  shows "wp (fallocate ZeroRange False off len) Q E f"
proof -
  have "E e f" for e using assms(2) [of e "answers f"] by simp
  then show ?thesis
    unfolding fallocate_def using assms
    by (auto simp: wp_simps Let_def not_less intro!: wp_syscall)
qed

lemma wp_write_zeroes:
  assumes "unat (cursor f) < off_limit"
  shows "wp (write_zeroes len)
    (\<lambda>n f'. n = len \<and> unat (cursor f) + unat len < off_limit \<and>
      contents f' = file_put (unat (cursor f)) (replicate (unat len) 0) (contents f) \<and> cursor f' = cursor f + len)
    (\<lambda>_ f'. \<exists>k\<le>unat len. contents f' = file_put (unat (cursor f)) (replicate k 0) (contents f)) f"
  unfolding write_zeroes_def file_seek_current_def wp_simps
proof (rule wp_file_seek)
  let ?Q = "\<lambda>n f'. n = len \<and> unat (cursor f) + unat len < off_limit \<and>
      contents f' = file_put (unat (cursor f)) (replicate (unat len) 0) (contents f) \<and> cursor f' = cursor f + len"
  let ?E = "\<lambda>_ f'. \<exists>k\<le>unat len. contents f' = file_put (unat (cursor f)) (replicate k 0) (contents f)"
  have none: "?E e g" if "contents g = contents f" for e :: io_error and g :: host_file
    using that by (auto simp: file_put_def intro: exI [of _ 0])
  then show "?E e (f\<lparr>answers := as\<rparr>)" for e as by simp
  fix as
  let ?f = "f\<lparr>answers := as, cursor := cursor f + 0\<rparr>"
  have buffers: "wp (write_zero_buffers (min (unat len) 0x10000) (unat len)) (\<lambda>_. ?Q len) ?E (?f\<lparr>answers := as'\<rparr>)" for as'
  proof (cases "len = 0")
    case True
    then show ?thesis using assms by (simp add: write_zero_buffers.simps wp_simps file_put_def)
  next
    case False
    then have "0 < min (unat len) 0x10000" by (simp add: unat_gt_0)
    from wp_write_zero_buffers [OF this, of "?f\<lparr>answers := as'\<rparr>" "unat len"] assms show ?thesis
      by (auto elim!: wp_mono intro: less_imp_le)
  qed
  show "wp (fallocate ZeroRange False (cursor f + 0) len)
    (\<lambda>x. wp (case Inr x of Inl _ \<Rightarrow> let buf_size = min (unat len) 0x10000 in io_bind (write_zero_buffers buf_size (unat len)) (\<lambda>_. io_return len)
      | Inr _ \<Rightarrow> io_bind (io_bind (io_get cursor) (\<lambda>c. file_seek (c + len))) (\<lambda>_. io_return len)) ?Q ?E)
    (\<lambda>e. wp (case Inl e of Inl _ \<Rightarrow> let buf_size = min (unat len) 0x10000 in io_bind (write_zero_buffers buf_size (unat len)) (\<lambda>_. io_return len)
      | Inr _ \<Rightarrow> io_bind (io_bind (io_get cursor) (\<lambda>c. file_seek (c + len))) (\<lambda>_. io_return len)) ?Q ?E) ?f"
  proof (rule wp_fallocate_zero, goal_cases)
    case (1 as')
    then show ?case by (auto simp: wp_simps intro!: wp_file_seek)
  next
    case (2 e as')
    then show ?case using buffers by (simp add: wp_simps Let_def)
  qed
qed

lemma write_zero_buffers_works:
  assumes "0 < buf" "unat (cursor f) + n < off_limit" "answers f = []"
  shows "\<exists>f'. write_zero_buffers buf n f = Return (Inr (), f')"
  using assms
proof (induction buf n arbitrary: f rule: write_zero_buffers.induct)
  case (1 buf n f)
  show ?case
  proof (cases "n = 0")
    case True
    then show ?thesis by (simp add: write_zero_buffers.simps io_return_def)
  next
    case False
    define k where "k = min n buf"
    have kn: "k \<le> n" by (simp add: k_def)
    let ?f = "f\<lparr>contents := file_put (unat (cursor f)) (replicate k 0) (contents f), cursor := cursor f + of_nat k\<rparr>"
    have w: "file_write (replicate k 0) f = Return (Inr (), ?f)"
      using "1.prems" kn by (simp add: file_write_def io_bind_def syscall_def io_get_def io_modify_def)
    have cur: "unat (cursor ?f) = unat (cursor f) + k"
      using unat_forward [of "cursor f" k] "1.prems"(2) by (simp add: k_def)
    have "\<exists>f'. write_zero_buffers buf (n - k) ?f = Return (Inr (), f')"
      unfolding k_def by (rule "1.IH") (use False "1.prems" cur in \<open>auto simp: k_def\<close>)
    then show ?thesis using False "1.prems"(1) w by (subst write_zero_buffers.simps) (simp add: io_bind_def k_def)
  qed
qed



end
