(* ===== verification/Virtio_Block.thy ===== *)
theory Virtio_Block
  imports Virtio_Mmio Host_File
begin

text \<open>
  The virtio block device (\<^verbatim>\<open>devices/src/virtio/block.rs\<close>) with the flush timer it uses
  (\<^verbatim>\<open>sys_util/src/timerfd.rs\<close>): parsing requests out of descriptor chains, executing them on
  a disk, returning them through the used ring, the event loop of the worker, and the
  configuration space. The disk is a record of operations, the trait \<^verbatim>\<open>DiskFile\<close> of the
  code; the host file and the qcow image are two of them. Guest memory changes between two
  rounds of the event loop and by the requests themselves, not by the guest during a round.
\<close>

section \<open>The flush timer\<close>

text \<open>
  A timer is armed or not, and its descriptor is readable from its expiration until it is
  read or the timer is set again. The list gives the answers of the host to the next calls.
\<close>

record timer_fd =
  tf_armed :: bool
  tf_readable :: bool
  tf_answers :: "bool list"

definition timer_call :: "(timer_fd, unit) io" where
  "timer_call t =
     (case tf_answers t of
        [] \<Rightarrow> Return (Inr (), t)
      | a # as \<Rightarrow> Return (if a then Inr () else Inl Host_io, t\<lparr>tf_answers := as\<rparr>))"

definition timer_new :: "bool list \<Rightarrow> timer_fd" where
  "timer_new as = \<lparr>tf_armed = False, tf_readable = False, tf_answers = as\<rparr>"

definition timer_reset :: "(timer_fd, unit) io" where
  "timer_reset = io_bind timer_call (\<lambda>_. io_modify (\<lambda>t. t\<lparr>tf_armed := True, tf_readable := False\<rparr>))"

definition timer_is_armed :: "(timer_fd, bool) io" where
  "timer_is_armed = io_bind timer_call (\<lambda>_. io_get tf_armed)"

definition timer_clear :: "(timer_fd, unit) io" where
  "timer_clear = io_bind timer_call (\<lambda>_. io_modify (\<lambda>t. t\<lparr>tf_armed := False, tf_readable := False\<rparr>))"

text \<open>The passing of the delay, seen from the device.\<close>

definition timer_expire :: "timer_fd \<Rightarrow> timer_fd" where
  "timer_expire t = (if tf_armed t then t\<lparr>tf_armed := False, tf_readable := True\<rparr> else t)"

section \<open>Disks\<close>

text \<open>
  What the device uses of a disk. A read gives the bytes it got, at most as many as asked
  for; a failed read may have left bytes in the buffer.
\<close>

record 'd disk_file =
  df_seek :: "u64 \<Rightarrow> ('d, u64) io"
  df_size :: "('d, u64) io"
  df_read :: "nat \<Rightarrow> 'd \<Rightarrow> ((u8 list + u8 list) \<times> 'd) outcome"
  df_write :: "u8 list \<Rightarrow> ('d, nat) io"
  df_write_zeroes :: "usize \<Rightarrow> ('d, usize) io"
  df_flush :: "('d, unit) io"

text \<open>
  \<^verbatim>\<open>Read::read_exact\<close> and \<^verbatim>\<open>Write::write_all\<close> of the standard library. The slice behind the
  bytes of a round panics if the disk claims more bytes than there were.
\<close>

function read_exact :: "'d disk_file \<Rightarrow> nat \<Rightarrow> 'd \<Rightarrow> (bool \<times> u8 list \<times> 'd) outcome" where
  "read_exact df n d =
     (if n = 0 then Return (True, [], d)
      else case df_read df n d of
        Panic \<Rightarrow> Panic
      | Return (Inl bs, d) \<Rightarrow> Return (False, take n bs, d)
      | Return (Inr bs, d) \<Rightarrow>
          if bs = [] then Return (False, [], d)
          else if n < length bs then Panic
          else outcome_bind (read_exact df (n - length bs) d) (\<lambda>(ok, cs, d). Return (ok, bs @ cs, d)))"
  by pat_completeness auto
termination
  by (relation "measure (\<lambda>(df, n, d). n)") auto

declare read_exact.simps [simp del]

function write_all :: "'d disk_file \<Rightarrow> u8 list \<Rightarrow> 'd \<Rightarrow> (bool \<times> 'd) outcome" where
  "write_all df bs d =
     (if bs = [] then Return (True, d)
      else case df_write df bs d of
        Panic \<Rightarrow> Panic
      | Return (Inl _, d) \<Rightarrow> Return (False, d)
      | Return (Inr k, d) \<Rightarrow>
          if k = 0 then Return (False, d)
          else if length bs < k then Panic
          else write_all df (drop k bs) d)"
  by pat_completeness auto
termination
  by (relation "measure (\<lambda>(df, bs, d). length bs)") auto

declare write_all.simps [simp del]

text \<open>A transfer that panics leaves no disk behind.\<close>

definition exact_from :: "'d disk_file \<Rightarrow> nat \<Rightarrow> 'd outcome \<Rightarrow> bool \<times> u8 list \<times> 'd outcome" where
  "exact_from df n x =
     (case outcome_bind x (read_exact df n) of
        Panic \<Rightarrow> (False, [], Panic)
      | Return (ok, bs, d) \<Rightarrow> (ok, bs, Return d))"

definition all_to :: "'d disk_file \<Rightarrow> u8 list \<Rightarrow> 'd outcome \<Rightarrow> bool \<times> 'd outcome" where
  "all_to df bs x =
     (case outcome_bind x (write_all df bs) of Panic \<Rightarrow> (False, Panic) | Return (ok, d) \<Rightarrow> (ok, Return d))"

section \<open>Requests\<close>

datatype blk_request_type = Rt_in | Rt_out | Rt_flush | Rt_discard | Rt_write_zeroes | Rt_unsupported u32

datatype parse_error =
    Pe_guest_memory gm_error
  | Pe_checked_offset guest_address u64
  | Pe_unexpected_write_only_descriptor
  | Pe_unexpected_read_only_descriptor
  | Pe_descriptor_chain_too_short
  | Pe_descriptor_length_too_small

definition request_type :: "guest_memory \<Rightarrow> guest_address \<Rightarrow> parse_error + blk_request_type" where
  "request_type mem desc_addr =
     (case read_obj_from_addr 4 desc_addr mem of
        Inl e \<Rightarrow> Inl (Pe_guest_memory e)
      | Inr bs \<Rightarrow>
          let t = from_le bs :: u32 in
          Inr (if t = 0 then Rt_in else if t = 1 then Rt_out else if t = 4 then Rt_flush
               else if t = 11 then Rt_discard else if t = 13 then Rt_write_zeroes else Rt_unsupported t))"

definition sector :: "guest_memory \<Rightarrow> guest_address \<Rightarrow> parse_error + u64" where
  "sector mem desc_addr =
     (case checked_offset mem desc_addr 8 of
        None \<Rightarrow> Inl (Pe_checked_offset desc_addr 8)
      | Some a \<Rightarrow> map_sum Pe_guest_memory from_le (read_obj_from_addr 8 a mem))"

record discard_write_zeroes =
  dwz_sector :: u64
  dwz_num_sectors :: u32
  dwz_flags :: u32

definition discard_write_zeroes_segment :: "guest_memory \<Rightarrow> guest_address \<Rightarrow> parse_error + discard_write_zeroes" where
  "discard_write_zeroes_segment mem seg_addr =
     map_sum Pe_guest_memory
       (\<lambda>bs. \<lparr>dwz_sector = from_le (slice 0 8 bs), dwz_num_sectors = from_le (slice 8 4 bs), dwz_flags = from_le (slice 12 4 bs)\<rparr>)
       (read_obj_from_addr 16 seg_addr mem)"

datatype execute_error =
    Ee_arming_timer io_error
  | Ee_flush io_error
  | Ee_read guest_address u32 u64 gm_error
  | Ee_seek io_error u64
  | Ee_timer_fd io_error
  | Ee_write guest_address u32 u64 gm_error
  | Ee_discard_write_zeroes "io_error option" u64 u32 u32
  | Ee_unsupported u32

fun error_status :: "execute_error \<Rightarrow> u8" where
  "error_status (Ee_unsupported _) = 2"
| "error_status _ = 1"

record request =
  rq_type :: blk_request_type
  rq_sector :: u64
  rq_data_addr :: guest_address
  rq_data_len :: u32
  rq_status_addr :: guest_address
  rq_seg :: "discard_write_zeroes option"

text \<open>Parsing returns an error, or panics where reading the descriptor table does.\<close>

type_synonym 'a parse = "(parse_error + 'a) outcome"

definition parse_bind :: "'a parse \<Rightarrow> ('a \<Rightarrow> 'b parse) \<Rightarrow> 'b parse" where
  "parse_bind m f = outcome_bind m (\<lambda>r. case r of Inl e \<Rightarrow> Return (Inl e) | Inr x \<Rightarrow> f x)"

definition chain_next :: "guest_memory \<Rightarrow> descriptor_chain \<Rightarrow> descriptor_chain parse" where
  "chain_next mem c =
     outcome_bind (next_descriptor mem c)
       (\<lambda>x. Return (case x of None \<Rightarrow> Inl Pe_descriptor_chain_too_short | Some d \<Rightarrow> Inr d))"

definition check_status :: "descriptor_chain \<Rightarrow> parse_error + unit" where
  "check_status c =
     (if \<not> is_write_only c then Inl Pe_unexpected_read_only_descriptor
      else if dc_len c < 1 then Inl Pe_descriptor_length_too_small
      else Inr ())"

definition parse_flush :: "guest_memory \<Rightarrow> descriptor_chain \<Rightarrow> request parse" where
  "parse_flush mem avail_desc =
     parse_bind (Return (sector mem (dc_addr avail_desc))) (\<lambda>s.
     parse_bind (chain_next mem avail_desc) (\<lambda>status_desc.
     parse_bind (Return (check_status status_desc)) (\<lambda>_.
     Return (Inr \<lparr>rq_type = Rt_flush, rq_sector = s, rq_data_addr = 0, rq_data_len = 0,
       rq_status_addr = dc_addr status_desc, rq_seg = None\<rparr>))))"

definition parse_discard_write_zeroes :: "guest_memory \<Rightarrow> descriptor_chain \<Rightarrow> blk_request_type \<Rightarrow> request parse" where
  "parse_discard_write_zeroes mem avail_desc req_type =
     parse_bind (chain_next mem avail_desc) (\<lambda>seg_desc.
     parse_bind (chain_next mem seg_desc) (\<lambda>status_desc.
     if is_write_only seg_desc then Return (Inl Pe_unexpected_write_only_descriptor)
     else if dc_len seg_desc < 16 then Return (Inl Pe_descriptor_length_too_small)
     else
       parse_bind (Return (discard_write_zeroes_segment mem (dc_addr seg_desc))) (\<lambda>seg.
       parse_bind (Return (check_status status_desc)) (\<lambda>_.
       Return (Inr \<lparr>rq_type = req_type, rq_sector = 0, rq_data_addr = 0, rq_data_len = 0,
         rq_status_addr = dc_addr status_desc, rq_seg = Some seg\<rparr>)))))"

definition parse_read_write :: "guest_memory \<Rightarrow> descriptor_chain \<Rightarrow> blk_request_type \<Rightarrow> request parse" where
  "parse_read_write mem avail_desc req_type =
     parse_bind (Return (sector mem (dc_addr avail_desc))) (\<lambda>s.
     parse_bind (chain_next mem avail_desc) (\<lambda>data_desc.
     parse_bind (chain_next mem data_desc) (\<lambda>status_desc.
     if is_write_only data_desc \<and> req_type = Rt_out then Return (Inl Pe_unexpected_write_only_descriptor)
     else if \<not> is_write_only data_desc \<and> req_type = Rt_in then Return (Inl Pe_unexpected_read_only_descriptor)
     else
       parse_bind (Return (check_status status_desc)) (\<lambda>_.
       Return (Inr \<lparr>rq_type = req_type, rq_sector = s, rq_data_addr = dc_addr data_desc, rq_data_len = dc_len data_desc,
         rq_status_addr = dc_addr status_desc, rq_seg = None\<rparr>)))))"

definition request_parse :: "guest_memory \<Rightarrow> descriptor_chain \<Rightarrow> request parse" where
  "request_parse mem avail_desc =
     (if is_write_only avail_desc then Return (Inl Pe_unexpected_write_only_descriptor)
      else
        parse_bind (Return (request_type mem (dc_addr avail_desc))) (\<lambda>req_type.
        if req_type = Rt_flush then parse_flush mem avail_desc
        else if req_type = Rt_discard \<or> req_type = Rt_write_zeroes then parse_discard_write_zeroes mem avail_desc req_type
        else parse_read_write mem avail_desc req_type))"

section \<open>Executing a request\<close>

record 'd blk_state =
  bs_disk :: 'd
  bs_timer :: timer_fd
  bs_mem :: guest_memory

type_synonym ('d, 'a) exec = "'d blk_state \<Rightarrow> ((execute_error + 'a) \<times> 'd blk_state) outcome"

definition exec_return :: "'a \<Rightarrow> ('d, 'a) exec" where
  "exec_return x s = Return (Inr x, s)"

definition exec_fail :: "execute_error \<Rightarrow> ('d, 'a) exec" where
  "exec_fail e s = Return (Inl e, s)"

definition exec_bind :: "('d, 'a) exec \<Rightarrow> ('a \<Rightarrow> ('d, 'b) exec) \<Rightarrow> ('d, 'b) exec" where
  "exec_bind m f s = outcome_bind (m s) (\<lambda>(r, s'). case r of Inl e \<Rightarrow> Return (Inl e, s') | Inr x \<Rightarrow> f x s')"

text \<open>Operations of the disk and of the timer, with their errors mapped.\<close>

definition exec_disk :: "(io_error \<Rightarrow> execute_error) \<Rightarrow> ('d, 'a) io \<Rightarrow> ('d, 'a) exec" where
  "exec_disk err m s =
     outcome_bind (m (bs_disk s)) (\<lambda>(r, d). Return (map_sum err id r, s\<lparr>bs_disk := d\<rparr>))"

definition exec_timer :: "(io_error \<Rightarrow> execute_error) \<Rightarrow> (timer_fd, 'a) io \<Rightarrow> ('d, 'a) exec" where
  "exec_timer err m s =
     outcome_bind (m (bs_timer s)) (\<lambda>(r, t). Return (map_sum err id r, s\<lparr>bs_timer := t\<rparr>))"

definition exec_read_to_memory :: "'d disk_file \<Rightarrow> request \<Rightarrow> ('d, unit) exec" where
  "exec_read_to_memory df rq s =
     (let (r, d, mem) = read_to_memory (exact_from df) (rq_data_addr rq) (Return (bs_disk s)) (ucast (rq_data_len rq)) (bs_mem s)
      in outcome_bind d (\<lambda>d.
         Return (map_sum (Ee_read (rq_data_addr rq) (rq_data_len rq) (rq_sector rq)) id r, s\<lparr>bs_disk := d, bs_mem := mem\<rparr>)))"

definition exec_write_from_memory :: "'d disk_file \<Rightarrow> request \<Rightarrow> ('d, unit) exec" where
  "exec_write_from_memory df rq s =
     (let (r, d, mem) = write_from_memory (all_to df) (rq_data_addr rq) (Return (bs_disk s)) (ucast (rq_data_len rq)) (bs_mem s)
      in outcome_bind d (\<lambda>d.
         Return (map_sum (Ee_write (rq_data_addr rq) (rq_data_len rq) (rq_sector rq)) id r, s\<lparr>bs_disk := d, bs_mem := mem\<rparr>)))"

definition exec_discard :: "'d disk_file \<Rightarrow> blk_request_type \<Rightarrow> discard_write_zeroes \<Rightarrow> ('d, unit) exec" where
  "exec_discard df req_type seg =
     (let valid_flags = (if req_type = Rt_write_zeroes then 1 else 0) in
      if dwz_flags seg AND NOT valid_flags \<noteq> 0
      then exec_fail (Ee_discard_write_zeroes None (dwz_sector seg) (dwz_num_sectors seg) (dwz_flags seg))
      else
        exec_bind (exec_disk (\<lambda>e. Ee_seek e (dwz_sector seg)) (df_seek df (push_bit 9 (dwz_sector seg)))) (\<lambda>_.
        exec_bind (exec_disk (\<lambda>e. Ee_discard_write_zeroes (Some e) (dwz_sector seg) (dwz_num_sectors seg) (dwz_flags seg))
          (df_write_zeroes df (push_bit 9 (ucast (dwz_num_sectors seg))))) (\<lambda>_. exec_return ())))"

definition request_execute :: "'d disk_file \<Rightarrow> request \<Rightarrow> ('d, u32) exec" where
  "request_execute df rq =
     exec_bind (exec_disk (\<lambda>e. Ee_seek e (rq_sector rq)) (df_seek df (push_bit 9 (rq_sector rq)))) (\<lambda>_.
     case rq_type rq of
       Rt_in \<Rightarrow> exec_bind (exec_read_to_memory df rq) (\<lambda>_. exec_return (rq_data_len rq))
     | Rt_out \<Rightarrow>
         exec_bind (exec_write_from_memory df rq) (\<lambda>_.
         exec_bind (exec_timer Ee_arming_timer timer_is_armed) (\<lambda>armed.
         exec_bind (if armed then exec_return () else exec_timer Ee_timer_fd timer_reset) (\<lambda>_. exec_return 0)))
     | Rt_flush \<Rightarrow>
         exec_bind (exec_disk Ee_flush (df_flush df)) (\<lambda>_.
         exec_bind (exec_timer Ee_timer_fd timer_clear) (\<lambda>_. exec_return 0))
     | Rt_unsupported t \<Rightarrow> exec_fail (Ee_unsupported t)
     | req_type \<Rightarrow>
         (case rq_seg rq of
            None \<Rightarrow> exec_return 0
          | Some seg \<Rightarrow> exec_bind (exec_discard df req_type seg) (\<lambda>_. exec_return 0)))"

section \<open>The worker\<close>

text \<open>The length reported for a chain, after its status was written.\<close>

definition process_chain :: "'d disk_file \<Rightarrow> descriptor_chain \<Rightarrow> 'd blk_state \<Rightarrow> (u32 \<times> 'd blk_state) outcome" where
  "process_chain df avail_desc s =
     outcome_bind (request_parse (bs_mem s) avail_desc) (\<lambda>r.
     case r of
       Inl _ \<Rightarrow> Return (0, s)
     | Inr rq \<Rightarrow>
         outcome_bind (request_execute df rq s) (\<lambda>(x, s).
         let (len, status) = (case x of Inr l \<Rightarrow> (l, 0) | Inl e \<Rightarrow> (1, error_status e)) in
         case write_obj_at_addr (to_le (status :: u8)) (rq_status_addr rq) (bs_mem s) of
           (Inl _, _) \<Rightarrow> Panic
         | (Inr _, mem) \<Rightarrow> Return (len, s\<lparr>bs_mem := mem\<rparr>)))"

text \<open>The loop over the available ring, which fills an array of 256 used heads.\<close>

function process_avail ::
  "'d disk_file \<Rightarrow> avail_iter \<Rightarrow> u16 \<Rightarrow> (u16 \<times> u32) list \<Rightarrow> 'd blk_state
    \<Rightarrow> ((u16 \<times> u32) list \<times> u16 \<times> 'd blk_state) outcome" where
  "process_avail df it na used s =
     (case avail_next (bs_mem s) it na of
        Panic \<Rightarrow> Panic
      | Return (None, _, na) \<Rightarrow> Return (used, na, s)
      | Return (Some c, it', na) \<Rightarrow>
          outcome_bind (process_chain df c s) (\<lambda>(len, s).
          if length used < 256 then process_avail df it' na (used @ [(dc_index c, len)]) s else Panic))"
  by pat_completeness auto
termination
  by (relation "measure (\<lambda>(df, it, na, used, s). unat (ai_last_index it - ai_next_index it))")
    (auto dest: avail_next_progress(1))

declare process_avail.simps [simp del]

record 'd blk_worker =
  bw_queues :: "queue list"
  bw_state :: "'d blk_state"
  bw_interrupt_status :: usize
  bw_interrupts :: nat

definition process_queue :: "'d disk_file \<Rightarrow> nat \<Rightarrow> 'd blk_worker \<Rightarrow> (bool \<times> 'd blk_worker) outcome" where
  "process_queue df i w =
     (if i < length (bw_queues w) then
        let q = bw_queues w ! i in
        outcome_bind (queue_iter q (bs_mem (bw_state w))) (\<lambda>it.
        outcome_bind (process_avail df it (q_next_avail q) [] (bw_state w)) (\<lambda>(used, na, s).
        outcome_bind (add_used_all (bs_mem s) used (q\<lparr>q_next_avail := na\<rparr>)) (\<lambda>(mem, q).
        Return (used \<noteq> [], w\<lparr>bw_queues := (bw_queues w)[i := q], bw_state := s\<lparr>bs_mem := mem\<rparr>\<rparr>))))
      else Panic)"

text \<open>Interrupting the guest; \<open>evt_ok\<close> is whether the write to the event works.\<close>

definition signal_used_queue :: "bool \<Rightarrow> 'd blk_worker \<Rightarrow> 'd blk_worker outcome" where
  "signal_used_queue evt_ok w =
     (if evt_ok
      then Return (w\<lparr>bw_interrupt_status := bw_interrupt_status w OR 1, bw_interrupts := Suc (bw_interrupts w)\<rparr>)
      else Panic)"

text \<open>
  The events of a round of the poll loop; for the queue, whether reading its event works. A
  round ends the loop when its result is \<^const>\<open>None\<close>.
\<close>

datatype blk_token = Flush_timer | Queue_available bool | Kill

fun blk_events :: "'d disk_file \<Rightarrow> blk_token list \<Rightarrow> bool \<Rightarrow> 'd blk_worker \<Rightarrow> (bool option \<times> 'd blk_worker) outcome" where
  "blk_events df [] needs_interrupt w = Return (Some needs_interrupt, w)"
| "blk_events df (Flush_timer # ts) needs_interrupt w =
     outcome_bind (df_flush df (bs_disk (bw_state w))) (\<lambda>(r, d).
     let w = w\<lparr>bw_state := (bw_state w)\<lparr>bs_disk := d\<rparr>\<rparr> in
     case r of Inl _ \<Rightarrow> Return (None, w) | Inr _ \<Rightarrow> blk_events df ts needs_interrupt w)"
| "blk_events df (Queue_available ok # ts) needs_interrupt w =
     (if ok then outcome_bind (process_queue df 0 w) (\<lambda>(b, w). blk_events df ts (needs_interrupt \<or> b) w)
      else Return (None, w))"
| "blk_events df (Kill # ts) needs_interrupt w = Return (None, w)"

text \<open>
  The poll loop over the rounds that follow. Before a round the guest may have written to
  its memory, and the timer may have expired.
\<close>

record blk_round =
  br_guest_writes :: "(guest_address \<times> u8 list) list"
  br_expired :: bool
  br_tokens :: "blk_token list option"
  br_evt_ok :: bool

fun guest_writes :: "(guest_address \<times> u8 list) list \<Rightarrow> guest_memory \<Rightarrow> guest_memory" where
  "guest_writes [] mem = mem"
| "guest_writes ((a, bs) # ws) mem = guest_writes ws (snd (write_obj_at_addr bs a mem))"

fun blk_run :: "'d disk_file \<Rightarrow> blk_round list \<Rightarrow> 'd blk_worker \<Rightarrow> 'd blk_worker outcome" where
  "blk_run df [] w = Return w"
| "blk_run df (r # rs) w =
     (let s = bw_state w;
          w = w\<lparr>bw_state := s\<lparr>bs_mem := guest_writes (br_guest_writes r) (bs_mem s),
                bs_timer := (if br_expired r then timer_expire (bs_timer s) else bs_timer s)\<rparr>\<rparr>
      in case br_tokens r of
           None \<Rightarrow> Return w
         | Some ts \<Rightarrow>
             outcome_bind (blk_events df ts False w) (\<lambda>(x, w).
             case x of
               None \<Rightarrow> Return w
             | Some needs_interrupt \<Rightarrow>
                 outcome_bind (if needs_interrupt then signal_used_queue (br_evt_ok r) w else Return w) (blk_run df rs)))"

section \<open>The device\<close>

record blk_geometry =
  cylinders :: u16
  heads :: u8
  sectors :: u8

record blk_topology =
  physical_block_exp :: u8
  alignment_offset :: u8
  min_io_size :: u16
  opt_io_size :: u32

record blk_config =
  bc_capacity :: u64
  size_max :: u32
  seg_max :: u32
  bc_geometry :: blk_geometry
  blk_size :: u32
  bc_topology :: blk_topology
  writeback :: u8
  max_discard_sectors :: u32
  max_discard_seg :: u32
  discard_sector_alignment :: u32
  max_write_zeroes_sectors :: u32
  max_write_zeroes_seg :: u32
  write_zeroes_may_unmap :: u8

text \<open>The configuration as the bytes of its C structure, which has no padding of its own.\<close>

definition config_bytes :: "blk_config \<Rightarrow> u8 list" where
  "config_bytes c = to_le (bc_capacity c) @ to_le (size_max c) @ to_le (seg_max c) @
     to_le (cylinders (bc_geometry c)) @ [heads (bc_geometry c), sectors (bc_geometry c)] @ to_le (blk_size c) @
     [physical_block_exp (bc_topology c), alignment_offset (bc_topology c)] @ to_le (min_io_size (bc_topology c)) @
     to_le (opt_io_size (bc_topology c)) @ [writeback c] @ replicate 3 0 @
     to_le (max_discard_sectors c) @ to_le (max_discard_seg c) @ to_le (discard_sector_alignment c) @
     to_le (max_write_zeroes_sectors c) @ to_le (max_write_zeroes_seg c) @ [write_zeroes_may_unmap c] @ replicate 3 0"

definition build_config_space :: "u64 \<Rightarrow> blk_config" where
  "build_config_space disk_size = \<lparr>bc_capacity = drop_bit 9 disk_size, size_max = 0, seg_max = 0,
     bc_geometry = \<lparr>cylinders = 0, heads = 0, sectors = 0\<rparr>, blk_size = 0,
     bc_topology = \<lparr>physical_block_exp = 0, alignment_offset = 0, min_io_size = 0, opt_io_size = 0\<rparr>, writeback = 0,
     max_discard_sectors = 0xffffffff, max_discard_seg = 1, discard_sector_alignment = 128,
     max_write_zeroes_sectors = 0xffffffff, max_write_zeroes_seg = 1, write_zeroes_may_unmap = 1\<rparr>"

record 'd block =
  bl_kill_evt :: bool
  bl_disk_image :: "'d option"
  bl_config_space :: blk_config
  bl_avail_features :: u64
  bl_read_only :: bool

definition block_new :: "'d disk_file \<Rightarrow> 'd \<Rightarrow> bool \<Rightarrow> (io_error + 'd block) outcome" where
  "block_new df disk_image read_only =
     outcome_bind (df_size df disk_image) (\<lambda>(r, d).
     case r of
       Inl e \<Rightarrow> Return (Inl e)
     | Inr disk_size \<Rightarrow>
         let avail_features = push_bit 9 1 :: u64;
             avail_features = (if read_only then avail_features OR push_bit 5 1
               else avail_features OR push_bit 13 1 OR push_bit 14 1)
         in Return (Inr \<lparr>bl_kill_evt = False, bl_disk_image = Some d, bl_config_space = build_config_space disk_size,
              bl_avail_features = avail_features, bl_read_only = read_only\<rparr>))"

definition block_features :: "'d block \<Rightarrow> u32 \<Rightarrow> u32" where
  "block_features b page =
     (if page = 0 then ucast (bl_avail_features b)
      else if page = 1 then ucast (drop_bit 32 (bl_avail_features b)) else 0)"

text \<open>The data beyond the configuration is left alone; a buffer that is too long panics on the slice.\<close>

definition block_read_config :: "'d block \<Rightarrow> u64 \<Rightarrow> u8 list \<Rightarrow> u8 list outcome" where
  "block_read_config b off data =
     (let config = config_bytes (bl_config_space b); config_len = of_nat (length config) :: u64 in
      if off \<ge> config_len then Return data
      else case checked_add off (of_nat (length data)) of
        None \<Rightarrow> Return data
      | Some e \<Rightarrow>
          let bs = slice (unat off) (unat (min e config_len) - unat off) config in
          if length bs \<le> length data then Return (splice 0 bs data) else Panic)"

text \<open>
  Activating the device hands the disk to a new worker. \<open>evts_ok\<close> is whether the kill event
  could be created, \<open>spawn_ok\<close> whether the thread was.
\<close>

definition block_activate ::
  "bool \<Rightarrow> bool \<Rightarrow> bool list \<Rightarrow> guest_memory \<Rightarrow> usize \<Rightarrow> queue list \<Rightarrow> nat \<Rightarrow> 'd block \<Rightarrow> 'd block \<times> 'd blk_worker option" where
  "block_activate evts_ok spawn_ok timer_answers mem status qs n_evts b =
     (if length qs \<noteq> 1 \<or> n_evts \<noteq> 1 then (b, None)
      else if \<not> evts_ok then (b, None)
      else
        let b' = b\<lparr>bl_kill_evt := True\<rparr> in
        case bl_disk_image b' of
          None \<Rightarrow> (b', None)
        | Some d \<Rightarrow>
            (b'\<lparr>bl_disk_image := None\<rparr>,
             if spawn_ok
             then Some \<lparr>bw_queues = qs,
                    bw_state = \<lparr>bs_disk = d, bs_timer = timer_new timer_answers, bs_mem = mem\<rparr>,
                    bw_interrupt_status = status, bw_interrupts = 0\<rparr>
             else None))"

text \<open>Dropping the device tells the worker to stop; the second component is whether the event is written.\<close>

definition block_drop :: "'d block \<Rightarrow> 'd block \<times> bool" where
  "block_drop b = (b\<lparr>bl_kill_evt := False\<rparr>, bl_kill_evt b)"

section \<open>The host file as a disk\<close>

text \<open>A read of a file ends at the end of the file; \<^verbatim>\<open>flush\<close> of a \<^verbatim>\<open>File\<close> does nothing.\<close>

definition file_read :: "nat \<Rightarrow> host_file \<Rightarrow> ((u8 list + u8 list) \<times> host_file) outcome" where
  "file_read n f =
     (case syscall f of
        Panic \<Rightarrow> Panic
      | Return (Inl _, f) \<Rightarrow> Return (Inl [], f)
      | Return (Inr _, f) \<Rightarrow>
          let bs = slice (unat (cursor f)) n (contents f)
          in Return (Inr bs, f\<lparr>cursor := cursor f + of_nat (length bs)\<rparr>))"

definition raw_disk :: "host_file disk_file" where
  "raw_disk = \<lparr>df_seek = file_seek, df_size = file_seek_end, df_read = file_read,
     df_write = (\<lambda>bs. io_bind (file_write bs) (\<lambda>_. io_return (length bs))),
     df_write_zeroes = write_zeroes, df_flush = io_return ()\<rparr>"

end
