(* ===== verification/Virtio_Block_Safety.thy ===== *)
theory Virtio_Block_Safety
  imports Virtio_Block
begin

text \<open>
  The block device cannot be brought down by its guest: no request panics, as long as memory has
  no holes and the rings of the queue are mapped.
\<close>

section \<open>The layout of memory\<close>

text \<open>The bases and the lengths of the regions decide which addresses are mapped.\<close>

definition shape :: "guest_memory \<Rightarrow> (guest_address \<times> nat) list" where
  "shape gm = map (\<lambda>r. (guest_base r, length (mapping r))) gm"

fun shape_fits :: "(guest_address \<times> nat) list \<Rightarrow> nat \<Rightarrow> nat \<Rightarrow> bool" where
  "shape_fits [] a n \<longleftrightarrow> False"
| "shape_fits ((b, k) # rs) a n \<longleftrightarrow> (if unat b \<le> a \<and> a < unat b + k then a + n \<le> unat b + k else shape_fits rs a n)"

lemma shape_Nil [simp]: "shape [] = []" and shape_Cons [simp]: "shape (r # rs) = (guest_base r, length (mapping r)) # shape rs"
  by (simp_all add: shape_def)

lemma gm_wf_shape: "gm_wf gm \<longleftrightarrow> (\<forall>x \<in> set (shape gm). 0 < snd x \<and> unat (fst x) + snd x < 2 ^ 64) \<and>
    sorted_wrt (\<lambda>x y. unat (fst x) + snd x \<le> unat (fst y)) (shape gm)"
  by (simp add: gm_wf_def shape_def sorted_wrt_map)

lemma gm_fits_shape: "gm_fits gm a n \<longleftrightarrow> shape_fits (shape gm) a n"
  by (induction gm) (auto simp: gm_fits_def region_span_def)

lemma end_addr_shape:
  assumes "gm_wf gm" "shape gm' = shape gm"
  shows "end_addr gm' = end_addr gm"
proof (cases "gm = []")
  case False
  then have ne: "gm' \<noteq> []" using assms(2) by (auto simp: shape_def)
  have wf': "gm_wf gm'" using assms by (simp add: gm_wf_shape)
  have "last (shape gm') = last (shape gm)" using assms(2) by simp
  then have "region_end (last gm') = region_end (last gm)"
    using False ne by (simp add: shape_def last_map region_end_def mapping_size_def)
  then show ?thesis using end_addr_last [OF assms(1) False] end_addr_last [OF wf' ne] by simp
qed (use assms(2) in \<open>simp add: shape_def end_addr_def\<close>)

definition layout :: "guest_memory \<Rightarrow> guest_memory \<Rightarrow> bool" where
  "layout gm gm' \<longleftrightarrow> shape gm' = shape gm"

lemma layout_trans: "layout a b \<Longrightarrow> layout b c \<Longrightarrow> layout a c"
  by (simp add: layout_def)

lemma layout_facts:
  assumes "layout gm gm'"
  shows "gm_wf gm' = gm_wf gm" "gm_fits gm' = gm_fits gm" "gm_wf gm \<Longrightarrow> end_addr gm' = end_addr gm"
proof -
  have sh: "shape gm' = shape gm" using assms by (simp add: layout_def)
  show "gm_wf gm' = gm_wf gm" unfolding gm_wf_shape sh ..
  show "gm_fits gm' = gm_fits gm" by (intro ext) (simp only: gm_fits_shape sh)
  show "gm_wf gm \<Longrightarrow> end_addr gm' = end_addr gm" by (rule end_addr_shape [OF _ sh])
qed

lemma do_in_region_layout:
  assumes "\<And>m off. length (snd (cb m off)) = length m"
  shows "layout gm (snd (do_in_region addr cb gm))"
  unfolding layout_def
proof (induction gm)
  case (Cons r rs)
  then show ?case using assms by (auto simp: case_prod_unfold Let_def)
qed simp

lemma range_end_bound:
  assumes "range_end m off count = Inr e"
  shows "unat off + unat count \<le> length m" "unat (e - off) = unat count"
proof -
  have e: "checked_add off count = Some e" "e \<le> mapping_size m"
    using assms by (auto simp: range_end_def split: option.splits if_splits)
  then have u: "unat e = unat off + unat count" by (auto simp: checked_add_def unat_add_no_wrap split: if_splits)
  have "unat (mapping_size m) \<le> length m" by (simp add: mapping_size_def unsigned_of_nat take_bit_nat_less_eq_self)
  then show "unat off + unat count \<le> length m" using e(2) u by (simp add: word_le_nat_alt)
  show "unat (e - off) = unat count" using u by (subst unat_sub_no_wrap) (simp_all add: word_le_nat_alt)
qed

lemma write_obj_layout:
  assumes "length val < 2 ^ 64"
  shows "layout gm (snd (write_obj_at_addr val addr gm))"
  unfolding write_obj_at_addr_def
proof (rule do_in_region_layout)
  fix m off
  have "unat (of_nat (length val) :: usize) = length val" using assms by (simp add: unsigned_of_nat take_bit_nat_eq_self)
  then show "length (snd (map_prod (map_err (MemoryAccess addr)) id (write_obj val m off))) = length m"
    using range_end_bound(1) [of m off "of_nat (length val)"] by (auto simp: write_obj_def split: sum.splits)
qed

lemma guest_writes_layout:
  assumes "\<forall>w \<in> set ws. length (snd w) < 2 ^ 64"
  shows "layout gm (guest_writes ws gm)"
  using assms
proof (induction ws gm rule: guest_writes.induct)
  case (2 a bs ws gm)
  then show ?case using layout_trans [OF write_obj_layout [where val = bs and gm = gm and addr = a]] by simp
qed (simp add: layout_def)

section \<open>Parsing\<close>

text \<open>All addresses below the end of memory are mapped.\<close>

definition no_holes :: "guest_memory \<Rightarrow> bool" where
  "no_holes mem \<longleftrightarrow> (\<forall>a < unat (end_addr mem). gm_fits mem a 1)"

definition parse_safe :: "('a \<Rightarrow> bool) \<Rightarrow> 'a parse \<Rightarrow> bool" where
  "parse_safe P m \<longleftrightarrow> (\<exists>r. m = Return r \<and> (\<forall>x. r = Inr x \<longrightarrow> P x))"

lemma parse_safe_bind:
  assumes "parse_safe P m" "\<And>x. P x \<Longrightarrow> parse_safe Q (f x)"
  shows "parse_safe Q (parse_bind m f)"
proof -
  obtain r where r: "m = Return r" "\<And>x. r = Inr x \<Longrightarrow> P x" using assms(1) by (auto simp: parse_safe_def)
  then show ?thesis using assms(2) by (cases r) (auto simp: parse_bind_def parse_safe_def)
qed

lemma parse_safe_Return: "parse_safe (\<lambda>x. r = Inr x) (Return r)"
  by (simp add: parse_safe_def)

lemma chain_next_safe:
  assumes "gm_wf mem" "gm_fits mem (unat table) (16 * unat qs)" "desc_ok mem table qs c"
  shows "parse_safe (desc_ok mem table qs) (chain_next mem c)"
proof -
  have t: "dc_table c = table" "dc_queue_size c = qs" using assms(3) by (simp_all add: desc_ok_def)
  have "\<exists>x. next_descriptor mem c = Return x"
    using checked_new_total [OF assms(1, 2), of "dc_next c"] t by (auto simp: next_descriptor_def)
  then obtain x where x: "next_descriptor mem c = Return x" ..
  then show ?thesis
    using next_descriptor_ok [of mem c _ table qs] assms(3)
    by (cases x) (auto simp: parse_safe_def chain_next_def)
qed

lemma status_fits:
  assumes "no_holes mem" "desc_ok mem table qs c" "check_status c = Inr u"
  shows "gm_fits mem (unat (dc_addr c)) 1"
proof -
  have "dc_len c \<noteq> 0" using assms(3) by (auto simp: check_status_def split: if_splits)
  then have "0 < unat (dc_len c)" by (simp add: unat_gt_0)
  then have "unat (dc_addr c) < unat (end_addr mem)" using assms(2) by (simp add: desc_ok_def)
  then show ?thesis using assms(1) by (simp add: no_holes_def)
qed

lemma request_parse_safe:
  assumes mem: "gm_wf mem" "gm_fits mem (unat table) (16 * unat qs)" "no_holes mem" and c: "desc_ok mem table qs c"
  shows "parse_safe (\<lambda>rq. gm_fits mem (unat (rq_status_addr rq)) 1) (request_parse mem c)"
proof -
  note nxt = chain_next_safe [OF mem(1, 2)] and fits = status_fits [OF mem(3)]
  have fail: "parse_safe P (Return (Inl e))" for P :: "request \<Rightarrow> bool" and e by (simp add: parse_safe_def)
  have final: "parse_safe (\<lambda>rq. gm_fits mem (unat (rq_status_addr rq)) 1) (parse_bind (Return (check_status d)) (\<lambda>_. Return (Inr rq)))"
    if "desc_ok mem table qs d" "rq_status_addr rq = dc_addr d" for d rq
    by (rule parse_safe_bind [OF parse_safe_Return]) (use fits [OF that(1)] that(2) in \<open>simp add: parse_safe_def\<close>)
  have "parse_safe (\<lambda>rq. gm_fits mem (unat (rq_status_addr rq)) 1) (parse_flush mem c)"
    unfolding parse_flush_def
    by (rule parse_safe_bind [OF parse_safe_Return], rule parse_safe_bind [OF nxt [OF c]]) (rule final, simp_all)
  moreover have "parse_safe (\<lambda>rq. gm_fits mem (unat (rq_status_addr rq)) 1) (parse_discard_write_zeroes mem c t)" for t
    unfolding parse_discard_write_zeroes_def
  proof (rule parse_safe_bind [OF nxt [OF c]], rule parse_safe_bind [OF nxt])
    fix d e assume "desc_ok mem table qs e"
    then show "parse_safe (\<lambda>rq. gm_fits mem (unat (rq_status_addr rq)) 1)
      (if is_write_only d then Return (Inl Pe_unexpected_write_only_descriptor)
       else if dc_len d < 16 then Return (Inl Pe_descriptor_length_too_small)
       else parse_bind (Return (discard_write_zeroes_segment mem (dc_addr d))) (\<lambda>seg.
         parse_bind (Return (check_status e)) (\<lambda>_. Return (Inr \<lparr>rq_type = t, rq_sector = 0, rq_data_addr = 0, rq_data_len = 0,
           rq_status_addr = dc_addr e, rq_seg = Some seg\<rparr>))))"
      by (auto simp del: One_nat_def intro: fail parse_safe_bind [OF parse_safe_Return final])
  qed
  moreover have "parse_safe (\<lambda>rq. gm_fits mem (unat (rq_status_addr rq)) 1) (parse_read_write mem c t)" for t
    unfolding parse_read_write_def
  proof (rule parse_safe_bind [OF parse_safe_Return], rule parse_safe_bind [OF nxt [OF c]], rule parse_safe_bind [OF nxt])
    fix s d e assume "desc_ok mem table qs e"
    then show "parse_safe (\<lambda>rq. gm_fits mem (unat (rq_status_addr rq)) 1)
      (if is_write_only d \<and> t = Rt_out then Return (Inl Pe_unexpected_write_only_descriptor)
       else if \<not> is_write_only d \<and> t = Rt_in then Return (Inl Pe_unexpected_read_only_descriptor)
       else parse_bind (Return (check_status e)) (\<lambda>_. Return (Inr \<lparr>rq_type = t, rq_sector = s, rq_data_addr = dc_addr d,
         rq_data_len = dc_len d, rq_status_addr = dc_addr e, rq_seg = None\<rparr>)))"
      by (auto simp del: One_nat_def intro: fail final)
  qed
  ultimately show ?thesis
    unfolding request_parse_def by (auto intro: fail parse_safe_bind [OF parse_safe_Return])
qed

section \<open>Disks that do not panic\<close>

definition exec_safe :: "('d \<Rightarrow> bool) \<Rightarrow> ('d, 'a) exec \<Rightarrow> bool" where
  "exec_safe dinv m \<longleftrightarrow> (\<forall>s. dinv (bs_disk s) \<longrightarrow>
     (\<exists>x s'. m s = Return (x, s') \<and> dinv (bs_disk s') \<and> layout (bs_mem s) (bs_mem s')))"

lemma exec_safe_bind:
  assumes "exec_safe dinv m" "\<And>x. exec_safe dinv (f x)"
  shows "exec_safe dinv (exec_bind m f)"
  unfolding exec_safe_def
proof (intro allI impI)
  fix s :: "'a blk_state"
  assume "dinv (bs_disk s)"
  then obtain x s1 where s1: "m s = Return (x, s1)" "dinv (bs_disk s1)" "layout (bs_mem s) (bs_mem s1)"
    using assms(1) unfolding exec_safe_def by blast
  show "\<exists>x s'. exec_bind m f s = Return (x, s') \<and> dinv (bs_disk s') \<and> layout (bs_mem s) (bs_mem s')"
  proof (cases x)
    case (Inr y)
    obtain z s2 where "f y s1 = Return (z, s2)" "dinv (bs_disk s2)" "layout (bs_mem s1) (bs_mem s2)"
      using assms(2) s1(2) unfolding exec_safe_def by blast
    then show ?thesis using s1 Inr layout_trans by (fastforce simp: exec_bind_def)
  qed (use s1 in \<open>auto simp: exec_bind_def\<close>)
qed

lemma exec_safe_disk:
  assumes "\<And>d. dinv d \<Longrightarrow> \<exists>r d'. m d = Return (r, d') \<and> dinv d'"
  shows "exec_safe dinv (exec_disk err m)"
  unfolding exec_safe_def
proof (intro allI impI)
  fix s :: "'a blk_state"
  assume "dinv (bs_disk s)"
  then obtain r d' where "m (bs_disk s) = Return (r, d')" "dinv d'" using assms by blast
  then show "\<exists>x s'. exec_disk err m s = Return (x, s') \<and> dinv (bs_disk s') \<and> layout (bs_mem s) (bs_mem s')"
    by (simp add: exec_disk_def layout_def)
qed

lemma exec_safe_return: "exec_safe dinv (exec_return x)"
  by (simp add: exec_safe_def exec_return_def layout_def)

lemma exec_safe_fail: "exec_safe dinv (exec_fail e)"
  by (simp add: exec_safe_def exec_fail_def layout_def)

lemma exec_safe_timer:
  "exec_safe dinv (exec_timer err timer_is_armed)" "exec_safe dinv (exec_timer err timer_reset)"
  "exec_safe dinv (exec_timer err timer_clear)"
  by (auto simp: exec_safe_def exec_timer_def timer_is_armed_def timer_reset_def timer_clear_def timer_call_def
      io_bind_def io_get_def io_modify_def layout_def split: list.splits)

lemmas exec_safe_intros = exec_safe_bind exec_safe_return exec_safe_fail exec_safe_timer

text \<open>An action on a region that carries a disk along.\<close>

lemma do_in_region_file:
  assumes "\<And>m off. \<exists>r d'. fst (cb m off) = Inr (r, Return d') \<and> P d'" "P d"
  shows "\<exists>r d' mem'. with_file (Return d) (do_in_region a cb mem) = (r, Return d', mem') \<and> P d' \<and>
    mem' = snd (do_in_region a cb mem)"
proof (induction mem)
  case Nil
  then show ?case using assms(2) by (simp add: with_file_def)
next
  case (Cons r rs)
  show ?case
  proof (cases "a \<ge> guest_base r \<and> a < region_end r")
    case True
    then show ?thesis
      using assms(1) [of "mapping r" "offset_from a (guest_base r)"]
      by (auto simp: with_file_def case_prod_unfold Let_def split: sum.splits)
  next
    case False
    then show ?thesis using Cons by (auto simp: with_file_def case_prod_unfold Let_def split: sum.splits prod.splits)
  qed
qed

text \<open>Memory that a device can serve a queue in.\<close>

definition mem_ready :: "queue \<Rightarrow> guest_memory \<Rightarrow> bool" where
  "mem_ready q mem \<longleftrightarrow> gm_wf mem \<and> queue_placed mem q \<and> no_holes mem"

lemma mem_ready_layout: "mem_ready q mem \<Longrightarrow> layout mem mem' \<Longrightarrow> mem_ready q mem'"
  using layout_facts [of mem mem'] by (simp add: mem_ready_def queue_placed_def no_holes_def)

lemma mem_ready_queue: "mem_ready (q\<lparr>q_next_avail := na, q_next_used := nu\<rparr>) mem = mem_ready q mem"
  by (simp add: mem_ready_def queue_placed_def actual_size_def)

lemma queue_iter_bound:
  assumes "queue_iter q mem = Return it"
  shows "unat (ai_last_index it - ai_next_index it) \<le> unat (actual_size q)"
  using assms
  by (auto simp: queue_iter_def Let_def outcome_bind_Return empty_iter_def not_less word_le_nat_alt split: if_splits)

lemma write_num_layout:
  fixes v :: "'a::len word"
  assumes "write_num v a mem = Return mem'" "LENGTH('a) div 8 < 2 ^ 64"
  shows "layout mem mem'"
  using write_obj_layout [of "to_le v" mem a] assms by (auto simp: write_num_def split: prod.splits sum.splits)

lemma add_used_safe:
  assumes "mem_ready q mem"
  shows "\<exists>mem' nu. add_used mem d l q = Return (mem', q\<lparr>q_next_used := nu\<rparr>) \<and> layout mem mem'"
proof (cases "d < actual_size q")
  case True
  obtain mem' where m: "add_used mem d l q = Return (mem', q\<lparr>q_next_used := q_next_used q + 1\<rparr>)"
    using add_used_effect [OF _ _ True, of mem l] assms by (metis mem_ready_def)
  have "\<not> actual_size q \<le> d" using True by simp
  then obtain m1 m2 where w: "write_num (ucast d :: u32) (unchecked_add (q_used_ring q) (4 + ucast (q_next_used q mod actual_size q) * 8)) mem = Return m1"
    "write_num l (unchecked_add (unchecked_add (q_used_ring q) (4 + ucast (q_next_used q mod actual_size q) * 8)) 4) m1 = Return m2"
    "write_num (q_next_used q + 1) (unchecked_add (q_used_ring q) 2) m2 = Return mem'"
    using m unfolding add_used_def Let_def by (auto simp: outcome_bind_Return)
  have "layout mem mem'"
    using write_num_layout [OF w(1)] write_num_layout [OF w(2)] write_num_layout [OF w(3)] by (simp add: layout_def)
  then show ?thesis using m by blast
next
  case False
  then have "actual_size q \<le> d" by simp
  then have "add_used mem d l q = Return (mem, q\<lparr>q_next_used := q_next_used q\<rparr>)" by (simp add: add_used_def)
  then show ?thesis by (intro exI [of _ mem] exI [of _ "q_next_used q"]) (simp add: layout_def)
qed

lemma add_used_all_safe:
  "mem_ready q mem \<Longrightarrow> \<exists>mem' nu. add_used_all mem xs q = Return (mem', q\<lparr>q_next_used := nu\<rparr>) \<and> layout mem mem'"
proof (induction mem xs q rule: add_used_all.induct)
  case (1 mem q)
  show ?case by (intro exI [of _ mem] exI [of _ "q_next_used q"]) (simp add: layout_def)
next
  case (2 mem d l xs q)
  obtain m1 nu where m1: "add_used mem d l q = Return (m1, q\<lparr>q_next_used := nu\<rparr>)" "layout mem m1"
    using add_used_safe [OF "2.prems"] by blast
  have "mem_ready (q\<lparr>q_next_used := nu\<rparr>) m1"
    using mem_ready_layout [OF "2.prems" m1(2)] by (simp add: mem_ready_def queue_placed_def actual_size_def)
  from "2.IH" [OF this] show ?case using m1 layout_trans by fastforce
qed

text \<open>A worker with one queue of at most 256 entries, in memory where it can be served.\<close>

definition worker_ready :: "('d \<Rightarrow> bool) \<Rightarrow> 'd blk_worker \<Rightarrow> bool" where
  "worker_ready dinv w \<longleftrightarrow> (\<exists>q. bw_queues w = [q] \<and> actual_size q \<le> 0x100 \<and> mem_ready q (bs_mem (bw_state w))) \<and>
     dinv (bs_disk (bw_state w))"

text \<open>
  What the worker relies on: the operations of the disk return, keep its invariant, and do not
  claim to have transferred more bytes than they were given.
\<close>

locale disk_device =
  fixes df :: "'d disk_file" and dinv :: "'d \<Rightarrow> bool"
  assumes seek_safe: "dinv d \<Longrightarrow> \<exists>r d'. df_seek df off d = Return (r, d') \<and> dinv d'"
    and read_safe: "dinv d \<Longrightarrow> \<exists>r d'. df_read df n d = Return (r, d') \<and> dinv d' \<and> (\<forall>bs. r = Inr bs \<longrightarrow> length bs \<le> n)"
    and write_safe: "dinv d \<Longrightarrow> \<exists>r d'. df_write df bs d = Return (r, d') \<and> dinv d' \<and> (\<forall>k. r = Inr k \<longrightarrow> k \<le> length bs)"
    and zeroes_safe: "dinv d \<Longrightarrow> \<exists>r d'. df_write_zeroes df k d = Return (r, d') \<and> dinv d'"
    and flush_safe: "dinv d \<Longrightarrow> \<exists>r d'. df_flush df d = Return (r, d') \<and> dinv d'"
begin

lemma read_exact_safe:
  "dinv d \<Longrightarrow> \<exists>ok bs d'. read_exact df n d = Return (ok, bs, d') \<and> dinv d' \<and> length bs \<le> n"
proof (induction n arbitrary: d rule: less_induct)
  case (less n)
  show ?case
  proof (cases "n = 0")
    case False
    obtain r d' where r: "df_read df n d = Return (r, d')" "dinv d'" "\<forall>bs. r = Inr bs \<longrightarrow> length bs \<le> n"
      using read_safe [OF less.prems] by blast
    show ?thesis
    proof (cases "\<exists>bs. r = Inr bs \<and> bs \<noteq> []")
      case True
      then obtain bs where bs: "r = Inr bs" "bs \<noteq> []" by blast
      then have "n - length bs < n" "length bs \<le> n" using False r(3) by (simp_all add: diff_less)
      from less.IH [OF this(1) r(2)] show ?thesis
        using r(1) bs False \<open>length bs \<le> n\<close> by (subst read_exact.simps) fastforce
    next
      case none: False
      then show ?thesis using r False by (subst read_exact.simps) (cases r; auto)
    qed
  qed (use less.prems in \<open>auto simp: read_exact.simps\<close>)
qed

lemma write_all_safe: "dinv d \<Longrightarrow> \<exists>ok d'. write_all df bs d = Return (ok, d') \<and> dinv d'"
proof (induction "length bs" arbitrary: bs d rule: less_induct)
  case less
  show ?case
  proof (cases "bs = []")
    case False
    obtain r d' where r: "df_write df bs d = Return (r, d')" "dinv d'" "\<forall>k. r = Inr k \<longrightarrow> k \<le> length bs"
      using write_safe [OF less.prems] by blast
    show ?thesis
    proof (cases "\<exists>k. r = Inr k \<and> k \<noteq> 0")
      case True
      then obtain k where k: "r = Inr k" "k \<noteq> 0" by blast
      then have "length (drop k bs) < length bs" using False by simp
      from less.hyps [OF this r(2)] show ?thesis
        using r(1, 3) k False by (subst write_all.simps) auto
    next
      case none: False
      then show ?thesis using r False by (subst write_all.simps) (cases r; auto)
    qed
  qed (use less.prems in \<open>auto simp: write_all.simps\<close>)
qed

text \<open>Executing a request returns, keeps the invariant of the disk and the layout of memory.\<close>

lemma exec_seek: "exec_safe dinv (exec_disk err (df_seek df off))"
  by (rule exec_safe_disk) (rule seek_safe)

lemma exec_zeroes: "exec_safe dinv (exec_disk err (df_write_zeroes df k))"
  by (rule exec_safe_disk) (rule zeroes_safe)

lemma exec_flush: "exec_safe dinv (exec_disk err (df_flush df))"
  by (rule exec_safe_disk) (rule flush_safe)

lemma exec_read: "exec_safe dinv (exec_read_to_memory df rq)"
proof -
  have "\<exists>r d' mem'. read_to_memory (exact_from df) a (Return d) count mem = (r, Return d', mem') \<and> dinv d' \<and> layout mem mem'"
    if d: "dinv d" for a d count mem
  proof -
    have ex: "\<exists>ok bs d'. exact_from df n (Return d) = (ok, bs, Return d') \<and> dinv d' \<and> length bs \<le> n" for n
      using read_exact_safe [OF d, of n] by (auto simp: exact_from_def)
    let ?cb = "\<lambda>m off. let (x, m', src') = read_to_mapping (exact_from df) off m count (Return d)
      in (Inr (map_err (MemoryAccess a) x, src') :: gm_error + (gm_error + unit) \<times> 'd outcome, m')"
    have len: "length (snd (?cb m off)) = length m" for m off
      using ex [of "unat count"] range_end_bound [of m off count]
      by (auto simp: read_to_mapping_def split: sum.splits)
    have "\<exists>r d'. fst (?cb m off) = Inr (r, Return d') \<and> dinv d'" for m off
      using ex [of "unat count"] range_end_bound [of m off count] d
      by (auto simp: read_to_mapping_def split: sum.splits)
    then have "\<exists>r d' mem'. with_file (Return d) (do_in_region a ?cb mem) = (r, Return d', mem') \<and> dinv d' \<and>
        mem' = snd (do_in_region a ?cb mem)"
      by (rule do_in_region_file [where P = dinv, OF _ d])
    then show ?thesis using do_in_region_layout [of ?cb mem a, OF len] by (auto simp: read_to_memory_def)
  qed
  note safe = this
  show ?thesis
    unfolding exec_safe_def
  proof (intro allI impI)
    fix s :: "'d blk_state"
    assume "dinv (bs_disk s)"
    from safe [OF this, of "rq_data_addr rq" "ucast (rq_data_len rq)" "bs_mem s"]
    show "\<exists>x s'. exec_read_to_memory df rq s = Return (x, s') \<and> dinv (bs_disk s') \<and> layout (bs_mem s) (bs_mem s')"
      by (auto simp: exec_read_to_memory_def)
  qed
qed

lemma exec_write: "exec_safe dinv (exec_write_from_memory df rq)"
proof -
  have "\<exists>r d' mem'. write_from_memory (all_to df) a (Return d) count mem = (r, Return d', mem') \<and> dinv d' \<and> layout mem mem'"
    if d: "dinv d" for a d count mem
  proof -
    have ex: "\<exists>ok d'. all_to df bs (Return d) = (ok, Return d') \<and> dinv d'" for bs
      using write_all_safe [OF d, of bs] by (auto simp: all_to_def)
    let ?cb = "\<lambda>m off. let (x, dst') = write_from_mapping (all_to df) off m count (Return d)
      in (Inr (map_err (MemoryAccess a) x, dst') :: gm_error + (gm_error + unit) \<times> 'd outcome, m)"
    have len: "length (snd (?cb m off)) = length m" for m off by (simp add: case_prod_unfold Let_def)
    have "\<exists>r d'. fst (?cb m off) = Inr (r, Return d') \<and> dinv d'" for m off
      using ex [of "slice (unat off) (unat count) m"] range_end_bound [of m off count] d
      by (auto simp: write_from_mapping_def split: sum.splits)
    then have "\<exists>r d' mem'. with_file (Return d) (do_in_region a ?cb mem) = (r, Return d', mem') \<and> dinv d' \<and>
        mem' = snd (do_in_region a ?cb mem)"
      by (rule do_in_region_file [where P = dinv, OF _ d])
    then show ?thesis using do_in_region_layout [of ?cb mem a, OF len] by (auto simp: write_from_memory_def)
  qed
  note safe = this
  show ?thesis
    unfolding exec_safe_def
  proof (intro allI impI)
    fix s :: "'d blk_state"
    assume "dinv (bs_disk s)"
    from safe [OF this, of "rq_data_addr rq" "ucast (rq_data_len rq)" "bs_mem s"]
    show "\<exists>x s'. exec_write_from_memory df rq s = Return (x, s') \<and> dinv (bs_disk s') \<and> layout (bs_mem s) (bs_mem s')"
      by (auto simp: exec_write_from_memory_def)
  qed
qed

lemma execute_safe: "exec_safe dinv (request_execute df rq)"
proof -
  have discard: "exec_safe dinv (exec_discard df t seg)" for t seg
    by (auto simp: exec_discard_def Let_def intro!: exec_safe_intros exec_seek exec_zeroes)
  show ?thesis
    unfolding request_execute_def
    by (cases "rq_type rq"; cases "rq_seg rq")
      (auto intro!: exec_safe_intros exec_seek exec_flush exec_read exec_write discard)
qed

text \<open>A chain is processed, and the whole ring.\<close>

lemma process_chain_safe:
  assumes "dinv (bs_disk s)" "gm_wf (bs_mem s)" "gm_fits (bs_mem s) (unat table) (16 * unat qs)" "no_holes (bs_mem s)"
    "desc_ok (bs_mem s) table qs c"
  shows "\<exists>len s'. process_chain df c s = Return (len, s') \<and> dinv (bs_disk s') \<and> layout (bs_mem s) (bs_mem s')"
proof -
  obtain r where r: "request_parse (bs_mem s) c = Return r" "\<And>rq. r = Inr rq \<Longrightarrow> gm_fits (bs_mem s) (unat (rq_status_addr rq)) 1"
    using request_parse_safe [OF assms(2-5)] by (auto simp: parse_safe_def)
  show ?thesis
  proof (cases r)
    case (Inl e)
    then show ?thesis using r(1) assms(1) by (auto simp: process_chain_def layout_def)
  next
    case (Inr rq)
    obtain x s1 where s1: "request_execute df rq s = Return (x, s1)" "dinv (bs_disk s1)" "layout (bs_mem s) (bs_mem s1)"
      using execute_safe [of rq] assms(1) by (auto simp: exec_safe_def)
    obtain len status where st: "(case x of Inr l \<Rightarrow> (l, 0) | Inl e \<Rightarrow> (1, error_status e)) = (len, status)" by fastforce
    have "gm_fits (bs_mem s1) (unat (rq_status_addr rq)) 1" "gm_wf (bs_mem s1)"
      using r(2) [OF Inr] layout_facts(1, 2) [OF s1(3)] assms(2) by simp_all
    then obtain m2 where m2: "write_obj_at_addr (to_le status) (rq_status_addr rq) (bs_mem s1) = (Inr (), m2)"
      using write_obj_fits [of "bs_mem s1" "to_le status" "rq_status_addr rq"] by auto
    moreover have "layout (bs_mem s1) m2" using write_obj_layout [of "to_le status" "bs_mem s1" "rq_status_addr rq"] m2 by simp
    ultimately show ?thesis using r(1) Inr s1 st layout_trans [OF s1(3)] by (simp add: process_chain_def)
  qed
qed

lemma process_avail_safe:
  assumes "dinv (bs_disk s)" "mem_ready q (bs_mem s)" "actual_size q \<le> 0x100" "iter_of q it"
    "length used + unat (ai_last_index it - ai_next_index it) \<le> 256"
  shows "\<exists>used' na' s'. process_avail df it na used s = Return (used', na', s') \<and> dinv (bs_disk s') \<and>
    layout (bs_mem s) (bs_mem s')"
  using assms
proof (induction "unat (ai_last_index it - ai_next_index it)" arbitrary: it na used s rule: less_induct)
  case less
  have mem: "gm_wf (bs_mem s)" "queue_placed (bs_mem s) q" "no_holes (bs_mem s)"
    using less.prems(2) by (simp_all add: mem_ready_def)
  have sz: "actual_size q \<le> 0x4000" using less.prems(3) by (rule order_trans) simp
  obtain x it' na' where n: "avail_next (bs_mem s) it na = Return (x, it', na')"
    using avail_next_total [OF mem(1, 2) sz less.prems(4), of na] by auto
  show ?case
  proof (cases x)
    case None
    then show ?thesis using n less.prems(1) by (subst process_avail.simps) (auto simp: layout_def)
  next
    case (Some c)
    note step = avail_next_progress [OF n [unfolded Some]]
    obtain i where "checked_new (bs_mem s) (ai_table it) (ai_queue_size it) i = Return (Some c)"
      using avail_next_desc [OF n [unfolded Some]] by blast
    then have c: "desc_ok (bs_mem s) (q_desc_table q) (actual_size q) c"
      using checked_new_ok(1) less.prems(4) by (fastforce simp: iter_of_def)
    have fit: "gm_fits (bs_mem s) (unat (q_desc_table q)) (16 * unat (actual_size q))"
      using mem(2) by (simp add: queue_placed_def Let_def)
    obtain len s1 where s1: "process_chain df c s = Return (len, s1)" "dinv (bs_disk s1)" "layout (bs_mem s) (bs_mem s1)"
      using process_chain_safe [OF less.prems(1) mem(1) fit mem(3) c] by blast
    have "iter_of q it'" using step(2) less.prems(4) by (simp add: iter_of_def)
    moreover have "length (used @ [(dc_index c, len)]) + unat (ai_last_index it' - ai_next_index it') \<le> 256" "length used < 256"
      using step(1) less.prems(5) by simp_all
    ultimately obtain used' na'' s' where
      "process_avail df it' na' (used @ [(dc_index c, len)]) s1 = Return (used', na'', s')"
      "dinv (bs_disk s')" "layout (bs_mem s1) (bs_mem s')"
      using less.hyps [OF step(1) s1(2) mem_ready_layout [OF less.prems(2) s1(3)] less.prems(3)] by blast
    then show ?thesis
      using n Some s1 layout_trans [OF s1(3)] \<open>length used < 256\<close> by (subst process_avail.simps) simp
  qed
qed

lemma process_queue_safe:
  assumes "worker_ready dinv w"
  shows "\<exists>b w'. process_queue df 0 w = Return (b, w') \<and> worker_ready dinv w'"
proof -
  let ?s = "bw_state w"
  obtain q where q: "bw_queues w = [q]" "actual_size q \<le> 0x100" "mem_ready q (bs_mem ?s)" and d: "dinv (bs_disk ?s)"
    using assms by (auto simp: worker_ready_def)
  obtain it where it: "queue_iter q (bs_mem ?s) = Return it" "it = empty_iter \<or> iter_of q it"
    using queue_iter_total [of "bs_mem ?s" q] q(3) by (auto simp: mem_ready_def)
  have "\<exists>used na s'. process_avail df it (q_next_avail q) [] ?s = Return (used, na, s') \<and> dinv (bs_disk s') \<and>
      layout (bs_mem ?s) (bs_mem s')"
  proof (cases "it = empty_iter")
    case True
    then show ?thesis using d by (subst process_avail.simps) (auto simp: avail_next_def empty_iter_def layout_def)
  next
    case False
    have "unat (actual_size q) \<le> 256" using q(2) by (simp add: word_le_nat_alt)
    then show ?thesis
      using False it queue_iter_bound [OF it(1)] by (intro process_avail_safe [OF d q(3, 2)]) auto
  qed
  then obtain used na s1 where s1: "process_avail df it (q_next_avail q) [] ?s = Return (used, na, s1)"
    "dinv (bs_disk s1)" "layout (bs_mem ?s) (bs_mem s1)" by blast
  let ?q = "q\<lparr>q_next_avail := na\<rparr>"
  have "mem_ready ?q (bs_mem s1)"
    using mem_ready_layout [OF q(3) s1(3)] by (simp add: mem_ready_def queue_placed_def actual_size_def)
  note ready = this
  obtain m2 nu where m2: "add_used_all (bs_mem s1) used ?q = Return (m2, ?q\<lparr>q_next_used := nu\<rparr>)" "layout (bs_mem s1) m2"
    using add_used_all_safe [OF ready] by blast
  have "mem_ready (?q\<lparr>q_next_used := nu\<rparr>) m2"
    using mem_ready_layout [OF ready m2(2)] by (simp add: mem_ready_def queue_placed_def actual_size_def)
  then show ?thesis
    using q(1, 2) it(1) s1 m2 by (auto simp: process_queue_def worker_ready_def actual_size_def)
qed

lemma blk_events_safe:
  "worker_ready dinv w \<Longrightarrow> \<exists>x w'. blk_events df ts b w = Return (x, w') \<and> worker_ready dinv w'"
proof (induction ts arbitrary: b w)
  case (Cons t ts)
  show ?case
  proof (cases t)
    case Flush_timer
    obtain r d where d: "df_flush df (bs_disk (bw_state w)) = Return (r, d)" "dinv d"
      using flush_safe [of "bs_disk (bw_state w)"] Cons.prems by (auto simp: worker_ready_def)
    then have "worker_ready dinv (w\<lparr>bw_state := (bw_state w)\<lparr>bs_disk := d\<rparr>\<rparr>)" using Cons.prems by (simp add: worker_ready_def)
    then show ?thesis using Cons.IH d(1) Flush_timer by (cases r) auto
  next
    case (Queue_available ok)
    then show ?thesis using process_queue_safe [OF Cons.prems] Cons.IH Cons.prems by fastforce
  qed (use Cons.prems in simp)
qed simp

lemma blk_run_safe:
  assumes "worker_ready dinv w" "\<forall>r \<in> set rs. br_evt_ok r \<and> (\<forall>x \<in> set (br_guest_writes r). length (snd x) < 2 ^ 64)"
  shows "\<exists>w'. blk_run df rs w = Return w' \<and> worker_ready dinv w'"
  using assms
proof (induction rs arbitrary: w)
  case (Cons r rs)
  let ?s = "bw_state w"
  define w1 where "w1 = w\<lparr>bw_state := ?s\<lparr>bs_mem := guest_writes (br_guest_writes r) (bs_mem ?s),
    bs_timer := (if br_expired r then timer_expire (bs_timer ?s) else bs_timer ?s)\<rparr>\<rparr>"
  have "layout (bs_mem ?s) (guest_writes (br_guest_writes r) (bs_mem ?s))"
    using Cons.prems(2) by (intro guest_writes_layout) simp
  then have w1: "worker_ready dinv w1"
    using Cons.prems(1) mem_ready_layout by (auto simp: worker_ready_def w1_def)
  have run: "blk_run df (r # rs) w = (case br_tokens r of None \<Rightarrow> Return w1 | Some ts \<Rightarrow>
      outcome_bind (blk_events df ts False w1) (\<lambda>(x, w). case x of None \<Rightarrow> Return w | Some needs_interrupt \<Rightarrow>
        outcome_bind (if needs_interrupt then signal_used_queue (br_evt_ok r) w else Return w) (blk_run df rs)))"
    unfolding blk_run.simps Let_def w1_def ..
  show ?case
  proof (cases "br_tokens r")
    case (Some ts)
    obtain x w2 where w2: "blk_events df ts False w1 = Return (x, w2)" "worker_ready dinv w2"
      using blk_events_safe [OF w1] by blast
    have sig: "\<exists>w3. (if b then signal_used_queue (br_evt_ok r) w2 else Return w2) = Return w3 \<and> worker_ready dinv w3" for b
      using w2(2) Cons.prems(2) by (simp add: signal_used_queue_def worker_ready_def)
    show ?thesis
    proof (cases x)
      case (Some b)
      obtain w3 where "(if b then signal_used_queue (br_evt_ok r) w2 else Return w2) = Return w3" "worker_ready dinv w3"
        using sig by blast
      then show ?thesis using run w2 \<open>br_tokens r = Some ts\<close> Some Cons.IH [of w3] Cons.prems(2) by simp
    qed (use run w2 Some in simp)
  qed (use run w1 in simp)
qed simp

end

end
