(* ===== verification/Virtio_Block_Raw.thy ===== *)
theory Virtio_Block_Raw
  imports Virtio_Block_Safety
begin

text \<open>
  The block device on a raw disk, a host file: it is never brought down by the guest, except
  through a status byte in a hole of memory.
\<close>

section \<open>Raw disks\<close>

text \<open>A host file as a disk never panics, whatever the host answers.\<close>

definition no_panic :: "('s, 'a) io \<Rightarrow> bool" where
  "no_panic m \<longleftrightarrow> (\<forall>s. m s \<noteq> Panic)"

lemma no_panic_bind: "no_panic m \<Longrightarrow> (\<And>x. no_panic (f x)) \<Longrightarrow> no_panic (io_bind m f)"
  by (auto simp: no_panic_def io_bind_def split: outcome.splits sum.splits)

lemma no_panic_basic:
  "no_panic (io_return x)" "no_panic (io_fail e)" "no_panic (io_get g)" "no_panic (io_modify h)" "no_panic syscall"
  by (simp_all add: no_panic_def io_return_def io_fail_def io_get_def io_modify_def syscall_def split: list.splits)

lemma no_panic_try: "no_panic m \<Longrightarrow> no_panic (io_try m)"
  by (auto simp: no_panic_def io_try_def split: outcome.splits)

lemmas no_panic_intros = no_panic_bind no_panic_basic no_panic_try

lemma no_panic_file:
  "no_panic (file_seek off)" "no_panic file_seek_end" "no_panic (file_write bs)" "no_panic (fallocate mode keep off len)"
  "no_panic (file_seek_current n)"
  unfolding file_seek_def file_seek_end_def file_write_def fallocate_def file_seek_current_def
  by (auto intro!: no_panic_intros)

lemma no_panic_buffers: "no_panic (write_zero_buffers buf n)"
  by (induction buf n rule: write_zero_buffers.induct)
    (subst write_zero_buffers.simps, auto intro!: no_panic_intros no_panic_file)

lemma no_panic_write_zeroes: "no_panic (write_zeroes len)"
proof -
  have "no_panic (case r of Inr _ \<Rightarrow> io_bind (file_seek_current len) (\<lambda>_. io_return len)
     | Inl _ \<Rightarrow> let buf_size = min (unat len) 0x10000 in io_bind (write_zero_buffers buf_size (unat len)) (\<lambda>_. io_return len))"
    for r :: "io_error + unit"
    by (cases r) (auto simp: Let_def intro!: no_panic_intros no_panic_file no_panic_buffers)
  then show ?thesis unfolding write_zeroes_def by (intro no_panic_intros no_panic_file)
qed

lemma no_panic_Return: "no_panic m \<Longrightarrow> \<exists>r s'. m s = Return (r, s') \<and> True"
  unfolding no_panic_def by (metis outcome.exhaust prod.exhaust)

interpretation raw: disk_device raw_disk "\<lambda>_. True"
proof unfold_locales
  fix d :: host_file and n bs and off k :: u64
  show "\<exists>r d'. df_seek raw_disk off d = Return (r, d') \<and> True"
    by (simp only: raw_disk_def disk_file.simps) (rule no_panic_Return [OF no_panic_file(1)])
  show "\<exists>r d'. df_write_zeroes raw_disk k d = Return (r, d') \<and> True"
    by (simp only: raw_disk_def disk_file.simps) (rule no_panic_Return [OF no_panic_write_zeroes])
  show "\<exists>r d'. df_flush raw_disk d = Return (r, d') \<and> True" by (simp add: raw_disk_def io_return_def)
  show "\<exists>r d'. df_read raw_disk n d = Return (r, d') \<and> True \<and> (\<forall>bs. r = Inr bs \<longrightarrow> length bs \<le> n)"
    by (cases "answers d") (auto simp: raw_disk_def file_read_def syscall_def slice_def Let_def)
  obtain r d' where "file_write bs d = Return (r, d')" using no_panic_Return [OF no_panic_file(3)] by blast
  then show "\<exists>r d'. df_write raw_disk bs d = Return (r, d') \<and> True \<and> (\<forall>k. r = Inr k \<longrightarrow> k \<le> length bs)"
    by (cases r) (auto simp: raw_disk_def io_bind_def io_return_def)
qed

text \<open>
  C5. The worker of the block device survives its guest. On a raw disk, whatever requests the
  guest places in its queue, whatever it writes to its memory between two rounds, however
  often the timer expires and whichever system calls of the disk and of the timer fail, the
  event loop does not panic, provided the rings are mapped, memory has no holes below its
  end, and the guest can be interrupted.
\<close>

theorem block_worker_never_panics:
  assumes "worker_ready (\<lambda>_. True) w"
    "\<forall>r \<in> set rs. br_evt_ok r \<and> (\<forall>x \<in> set (br_guest_writes r). length (snd x) < 2 ^ 64)"
  shows "\<exists>w'. blk_run raw_disk rs w = Return w' \<and> worker_ready (\<lambda>_. True) w'"
  using raw.blk_run_safe [OF assms] .

text \<open>Descriptors as the guest writes them.\<close>

definition desc_bytes :: "u64 \<Rightarrow> u32 \<Rightarrow> u16 \<Rightarrow> u16 \<Rightarrow> u8 list" where
  "desc_bytes addr len flags nxt = to_le addr @ to_le len @ to_le flags @ to_le nxt"

text \<open>
  A queue of two entries: the table at 0, the available ring at 0x20, the used ring at 0x30,
  and a request of type \<open>t\<close> at 0x50 with its status at \<open>status\<close>.
\<close>

definition flush_memory :: "u64 \<Rightarrow> mapping" where
  "flush_memory status = desc_bytes 0x50 16 1 1 @ desc_bytes status 1 2 0 @
     [0, 0, 1, 0, 0, 0, 0, 0, 0, 0, 0, 0, 0, 0, 0, 0] @ replicate 32 0 @
     [4, 0, 0, 0, 0, 0, 0, 0, 0, 0, 0, 0, 0, 0, 0, 0] @ replicate 16 0"

definition flush_queue :: queue where
  "flush_queue = \<lparr>q_max_size = 256, q_size = 2, q_ready = True, q_desc_table = 0, q_avail_ring = 0x20,
     q_used_ring = 0x30, q_next_avail = 0, q_next_used = 0\<rparr>"

definition flush_worker :: "guest_memory \<Rightarrow> host_file blk_worker" where
  "flush_worker mem = \<lparr>bw_queues = [flush_queue],
     bw_state = \<lparr>bs_disk = \<lparr>contents = [], cursor = 0, answers = []\<rparr>, bs_timer = timer_new [], bs_mem = mem\<rparr>,
     bw_interrupt_status = 0, bw_interrupts = 0\<rparr>"

lemma length_flush_memory: "length (flush_memory a) = 112"
  by (simp add: flush_memory_def desc_bytes_def)

lemma flush_worker_ready: "worker_ready (\<lambda>_. True) (flush_worker [\<lparr>mapping = flush_memory a, guest_base = 0\<rparr>])"
proof -
  let ?mem = "[\<lparr>mapping = flush_memory a, guest_base = 0\<rparr>]"
  have fits: "gm_fits ?mem x n \<longleftrightarrow> x < 112 \<and> x + n \<le> 112" for x n
    by (auto simp: gm_fits_shape length_flush_memory)
  have wf: "gm_wf ?mem" using length_flush_memory [of a] by (auto simp: gm_wf_def)
  have "end_addr ?mem = 112"
    by (simp add: end_addr_def region_end_def unchecked_add_def mapping_size_def length_flush_memory)
  then have "no_holes ?mem" by (auto simp: no_holes_def fits)
  moreover have "queue_placed ?mem flush_queue" by (simp add: queue_placed_def fits flush_queue_def actual_size_def)
  ultimately show ?thesis
    using wf by (simp add: worker_ready_def flush_worker_def mem_ready_def) (simp add: flush_queue_def actual_size_def)
qed

theorem block_worker_never_panics_witness:
  "\<exists>w'. blk_run raw_disk [\<lparr>br_guest_writes = [(0x50, [11])], br_expired = True, br_tokens = Some [Queue_available True, Flush_timer],
      br_evt_ok = True\<rparr>] (flush_worker [\<lparr>mapping = flush_memory 0x60, guest_base = 0\<rparr>]) = Return w' \<and> worker_ready (\<lambda>_. True) w'"
  by (rule block_worker_never_panics [OF flush_worker_ready]) simp

definition hole_memory :: guest_memory where
  "hole_memory = [\<lparr>mapping = flush_memory 0x800, guest_base = 0\<rparr>, \<lparr>mapping = replicate 16 0, guest_base = 0x1000\<rparr>]"

lemma hole_end: "end_addr hole_memory = 0x1010"
  by (simp add: hole_memory_def end_addr_def region_end_def unchecked_add_def mapping_size_def)

lemma hole_offset: "unat a + unat off < 0x1010 \<Longrightarrow> checked_offset hole_memory a off = Some (a + off)"
  by (simp add: checked_offset_Some hole_end)

lemma hole_read:
  assumes "unat a + n \<le> 112" "0 < n"
  shows "read_obj_from_addr n a hole_memory = Inr (slice (unat a) n (flush_memory 0x800))"
proof -
  have "region_end (hd hole_memory) = 112"
    by (simp add: hole_memory_def region_end_def unchecked_add_def mapping_size_def length_flush_memory)
  then have "a < region_end (hd hole_memory)" using assms by (simp add: word_less_nat_alt)
  moreover have "range_end (flush_memory 0x800) a (of_nat n) = Inr (a + of_nat n)"
    using assms(1) range_end_iff [of "flush_memory 0x800" n a] by (simp add: length_flush_memory)
  ultimately show ?thesis
    by (simp add: read_obj_from_addr_def hole_memory_def read_obj_def offset_from_def)
qed

lemma flush_slices:
  "slice 0 8 (flush_memory s) = to_le (0x50 :: u64)" "slice 8 4 (flush_memory s) = to_le (16 :: u32)"
  "slice 12 2 (flush_memory s) = to_le (1 :: u16)" "slice 14 2 (flush_memory s) = to_le (1 :: u16)"
  "slice 16 8 (flush_memory s) = to_le s" "slice 24 4 (flush_memory s) = to_le (1 :: u32)"
  "slice 28 2 (flush_memory s) = to_le (2 :: u16)" "slice 30 2 (flush_memory s) = to_le (0 :: u16)"
  "slice 0x22 2 (flush_memory s) = [1, 0]" "slice 0x24 2 (flush_memory s) = [0, 0]"
  "slice 0x50 4 (flush_memory s) = [4, 0, 0, 0]" "slice 0x58 8 (flush_memory s) = [0, 0, 0, 0, 0, 0, 0, 0]"
  by (simp_all add: slice_def flush_memory_def desc_bytes_def)

definition flush_head :: descriptor_chain where
  "flush_head = \<lparr>dc_table = 0, dc_queue_size = 2, dc_ttl = 2, dc_index = 0, dc_addr = 0x50, dc_len = 16, dc_flags = 1, dc_next = 1\<rparr>"

lemma hole_chain:
  "checked_new hole_memory 0 2 0 = Return (Some flush_head)"
  "next_descriptor hole_memory flush_head = Return (Some \<lparr>dc_table = 0, dc_queue_size = 2, dc_ttl = 1, dc_index = 1,
     dc_addr = 0x800, dc_len = 1, dc_flags = 2, dc_next = 0\<rparr>)"
  by (simp_all add: next_descriptor_def flush_head_def has_next_def checked_new_def hole_offset read_num_def hole_read
      unchecked_add_def flush_slices from_le_to_le chain_is_valid_def Let_def word_le_nat_alt)

text \<open>
  C6. A status byte in a hole brings the worker down. Memory below its end may have holes, as
  it does around the devices below 4 GiB; a guest that places the status byte of a request
  there makes the worker panic, since the check of descriptors only looks at the end of
  memory.
\<close>

theorem block_status_in_hole_panics:
  "gm_wf hole_memory \<and> process_queue raw_disk 0 (flush_worker hole_memory) = Panic"
proof -
  have wf: "gm_wf hole_memory"
    using length_flush_memory [of "0x800"] by (auto simp: hole_memory_def gm_wf_def)
  have sz: "actual_size flush_queue = 2" by (simp add: actual_size_def flush_queue_def)
  have valid: "queue_is_valid flush_queue hole_memory"
    by (simp add: queue_is_valid_def sz Let_def ring_in_range_def checked_add_def address_in_range_def hole_end)
      (simp add: flush_queue_def)
  let ?it = "\<lparr>ai_table = 0, ai_avail_ring = 0x20, ai_next_index = 0, ai_last_index = 1, ai_queue_size = 2\<rparr>"
  have it: "queue_iter flush_queue hole_memory = Return ?it"
    using valid by (simp add: queue_iter_def sz Let_def) (simp add: flush_queue_def hole_offset read_num_def hole_read flush_slices)
  have nxt: "avail_next hole_memory ?it 0 = Return (Some flush_head, ?it\<lparr>ai_next_index := 1\<rparr>, 1)"
    by (simp add: avail_next_def hole_offset read_num_def hole_read flush_slices hole_chain)
  let ?s = "bw_state (flush_worker hole_memory)"
  let ?rq = "\<lparr>rq_type = Rt_flush, rq_sector = 0, rq_data_addr = 0, rq_data_len = 0, rq_status_addr = 0x800, rq_seg = None\<rparr>"
  have "request_type hole_memory 0x50 = Inr Rt_flush" "sector hole_memory 0x50 = Inr 0"
    by (simp_all add: request_type_def sector_def hole_read hole_offset flush_slices)
  then have parse: "request_parse hole_memory flush_head = Return (Inr ?rq)"
  proof -
    assume rt: "request_type hole_memory 0x50 = Inr Rt_flush" and sec: "sector hole_memory 0x50 = Inr 0"
    have hd: "dc_addr flush_head = 0x50" "\<not> is_write_only flush_head" by (simp_all add: flush_head_def is_write_only_def)
    then have "parse_flush hole_memory flush_head = Return (Inr ?rq)"
      using sec hole_chain(2) by (simp add: parse_flush_def parse_bind_def chain_next_def check_status_def is_write_only_def)
    then show ?thesis using rt hd by (simp add: request_parse_def parse_bind_def)
  qed
  have "write_obj_at_addr (to_le (0 :: u8)) 0x800 hole_memory = (Inl (InvalidGuestAddress 0x800), hole_memory)"
    by (simp add: write_obj_eq [OF wf]) (simp add: hole_memory_def region_span_def length_flush_memory)
  then have "process_chain raw_disk flush_head ?s = Panic"
    using parse
    by (simp add: process_chain_def flush_worker_def request_execute_def exec_bind_def exec_disk_def exec_timer_def
        raw_disk_def file_seek_def io_bind_def io_modify_def io_return_def syscall_def timer_clear_def timer_call_def
        timer_new_def exec_return_def)
  then show ?thesis
    using wf it nxt by (simp add: process_queue_def process_avail.simps flush_worker_def) (simp add: flush_queue_def)
qed

end
