(* ===== verification/Vec_Cache.thy ===== *)
theory Vec_Cache
  imports Host_File
begin

text \<open>
  The write-back cache of qcow tables (\<^verbatim>\<open>qcow/src/vec_cache.rs\<close>). A hash map is the list of its
  entries; the order in which the map is iterated is a parameter \<open>order\<close>, a function of the
  list of keys. The locale \<open>write_back\<close> states what a cache relies on, a backing store whose
  tables can be written one by one, and shows that filling the cache, with the eviction that
  this may cause, does not change what is seen through it.
\<close>

section \<open>Cached vectors\<close>

text \<open>\<^verbatim>\<open>slice::get\<close>; an index expression is its \<open>io_unwrap\<close>.\<close>

definition nth_opt :: "'a list \<Rightarrow> nat \<Rightarrow> 'a option" where
  "nth_opt xs i = (if i < length xs then Some (xs ! i) else None)"

lemma nth_opt_eq [simp]:
  "nth_opt xs i = None \<longleftrightarrow> length xs \<le> i" "nth_opt xs i = Some x \<longleftrightarrow> i < length xs \<and> xs ! i = x"
  by (auto simp: nth_opt_def)

record 'a vec_cache =
  vc_vec :: "'a list"
  vc_dirty :: bool

definition vc_new :: "nat \<Rightarrow> 'a::zero vec_cache" where
  "vc_new count = \<lparr>vc_vec = replicate count 0, vc_dirty = True\<rparr>"

definition vc_from_vec :: "'a list \<Rightarrow> 'a vec_cache" where
  "vc_from_vec v = \<lparr>vc_vec = v, vc_dirty = False\<rparr>"

definition vc_get_values :: "'a vec_cache \<Rightarrow> 'a list" where
  "vc_get_values v = vc_vec v"

definition vc_mark_clean :: "'a vec_cache \<Rightarrow> 'a vec_cache" where
  "vc_mark_clean v = v\<lparr>vc_dirty := False\<rparr>"

definition vc_index :: "'a vec_cache \<Rightarrow> nat \<Rightarrow> 'a option" where
  "vc_index v i = (if i < length (vc_vec v) then Some (vc_vec v ! i) else None)"

definition vc_index_mut :: "nat \<Rightarrow> 'a \<Rightarrow> 'a vec_cache \<Rightarrow> 'a vec_cache option" where
  "vc_index_mut i x v =
     (if i < length (vc_vec v) then Some (v\<lparr>vc_dirty := True, vc_vec := (vc_vec v)[i := x]\<rparr>) else None)"

section \<open>The map\<close>

record 'v cache_map =
  capacity :: nat
  entries :: "(nat \<times> 'v) list"

definition cache_new :: "nat \<Rightarrow> 'v cache_map" where
  "cache_new cap = \<lparr>capacity = cap, entries = []\<rparr>"

definition cache_get :: "'v cache_map \<Rightarrow> nat \<Rightarrow> 'v option" where
  "cache_get c i = map_of (entries c) i"

definition cache_contains :: "'v cache_map \<Rightarrow> nat \<Rightarrow> bool" where
  "cache_contains c i \<longleftrightarrow> cache_get c i \<noteq> None"

definition cache_keys :: "'v cache_map \<Rightarrow> nat list" where
  "cache_keys c = map fst (entries c)"

definition cache_remove :: "nat \<Rightarrow> 'v cache_map \<Rightarrow> 'v cache_map" where
  "cache_remove i c = c\<lparr>entries := filter (\<lambda>(k, _). k \<noteq> i) (entries c)\<rparr>"

text \<open>\<^verbatim>\<open>HashMap::insert\<close>, also the store through a reference from \<^verbatim>\<open>get_mut\<close> or \<^verbatim>\<open>iter_mut\<close>.\<close>

definition cache_set :: "nat \<Rightarrow> 'v \<Rightarrow> 'v cache_map \<Rightarrow> 'v cache_map" where
  "cache_set i v c =
     (if cache_contains c i then c\<lparr>entries := map (\<lambda>(k, w). (k, if k = i then v else w)) (entries c)\<rparr>
      else c\<lparr>entries := (i, v) # entries c\<rparr>)"

definition cache_insert ::
  "(nat list \<Rightarrow> nat list) \<Rightarrow> nat \<Rightarrow> 'a vec_cache \<Rightarrow> (nat \<Rightarrow> 'a vec_cache \<Rightarrow> ('f, unit) io)
    \<Rightarrow> ('a vec_cache cache_map \<times> 'f, unit) io" where
  "cache_insert order index block write_callback =
     io_bind (io_get fst) (\<lambda>c.
     io_bind
       (if length (entries c) = capacity c then
          io_bind (io_unwrap (case order (cache_keys c) of [] \<Rightarrow> None | k # _ \<Rightarrow> Some k)) (\<lambda>to_evict.
          case cache_get c to_evict of
            None \<Rightarrow> io_return ()
          | Some evicted \<Rightarrow>
              io_bind (io_modify (apfst (cache_remove to_evict))) (\<lambda>_.
              if vc_dirty evicted then io_on snd (\<lambda>f (c, _). (c, f)) (write_callback to_evict evicted)
              else io_return ()))
        else io_return ()) (\<lambda>_.
     io_modify (apfst (cache_set index block))))"

section \<open>What the map holds\<close>

definition cache_wf :: "'v cache_map \<Rightarrow> bool" where
  "cache_wf c \<longleftrightarrow> distinct (cache_keys c)"

lemma cache_get_new [simp]: "cache_get (cache_new cap) i = None" "cache_wf (cache_new cap)"
  by (simp_all add: cache_new_def cache_get_def cache_wf_def cache_keys_def)

lemma cache_get_remove [simp]: "cache_get (cache_remove i c) j = (if j = i then None else cache_get c j)"
proof -
  have "map_of (filter (\<lambda>(k, _). k \<noteq> i) xs) j = (if j = i then None else map_of xs j)" for xs :: "(nat \<times> 'a) list"
    by (induction xs) auto
  then show ?thesis by (simp add: cache_get_def cache_remove_def)
qed

lemma cache_get_set [simp]: "cache_get (cache_set i v c) j = (if j = i then Some v else cache_get c j)"
proof -
  have "map_of (map (\<lambda>(k, w). (k, if k = i then v else w)) xs) j =
      (if j = i then map_option (\<lambda>_. v) (map_of xs i) else map_of xs j)" for xs :: "(nat \<times> 'a) list"
    by (induction xs) auto
  then show ?thesis by (auto simp: cache_get_def cache_set_def cache_contains_def)
qed

lemma cache_wf_remove [simp]: "cache_wf c \<Longrightarrow> cache_wf (cache_remove i c)"
  by (simp add: cache_wf_def cache_remove_def cache_keys_def distinct_map_filter)

lemma cache_wf_set [simp]: "cache_wf c \<Longrightarrow> cache_wf (cache_set i v c)"
proof -
  have "fst \<circ> (\<lambda>(k, w). (k, if k = i then v else w)) = fst" by (auto simp: fun_eq_iff)
  moreover have "\<not> cache_contains c i \<Longrightarrow> i \<notin> set (cache_keys c)"
    by (auto simp: cache_contains_def cache_get_def cache_keys_def map_of_eq_None_iff)
  ultimately show "cache_wf c \<Longrightarrow> cache_wf (cache_set i v c)"
    by (auto simp: cache_wf_def cache_keys_def cache_set_def)
qed

lemma capacity_simps [simp]:
  "capacity (cache_remove i c) = capacity c" "capacity (cache_set i v c) = capacity c"
  by (simp_all add: cache_remove_def cache_set_def)

lemma cache_keys_contains: "i \<in> set (cache_keys c) \<longleftrightarrow> cache_contains c i"
  by (auto simp: cache_keys_def cache_contains_def cache_get_def map_of_eq_None_iff)

text \<open>The orders a hash map can have: every key, once.\<close>

definition is_order :: "(nat list \<Rightarrow> nat list) \<Rightarrow> bool" where
  "is_order order \<longleftrightarrow> (\<forall>ks. distinct ks \<longrightarrow> distinct (order ks) \<and> set (order ks) = set ks)"

lemma is_order_hd:
  assumes "is_order order" "cache_wf c" "entries c \<noteq> []"
  obtains k ks where "order (cache_keys c) = k # ks" "cache_contains c k"
proof -
  have ks: "set (order (cache_keys c)) = set (cache_keys c)" using assms(1, 2) by (simp add: is_order_def cache_wf_def)
  moreover have "cache_keys c \<noteq> []" using assms(3) by (simp add: cache_keys_def)
  ultimately obtain k ks where "order (cache_keys c) = k # ks" by (cases "order (cache_keys c)") auto
  with ks show ?thesis by (intro that [of k ks]) (auto simp flip: cache_keys_contains)
qed

section \<open>Seeing a store through the cache\<close>

definition cached_view :: "('f \<Rightarrow> nat \<Rightarrow> 'a list) \<Rightarrow> 'a vec_cache cache_map \<Rightarrow> 'f \<Rightarrow> nat \<Rightarrow> 'a list" where
  "cached_view load c f i = (case cache_get c i of Some v \<Rightarrow> vc_vec v | None \<Rightarrow> load f i)"

text \<open>Clean entries agree with the store; the cache never grows beyond a positive capacity.\<close>

definition coherent :: "('f \<Rightarrow> nat \<Rightarrow> 'a list) \<Rightarrow> 'a vec_cache cache_map \<Rightarrow> 'f \<Rightarrow> bool" where
  "coherent load c f \<longleftrightarrow> cache_wf c \<and> 0 < capacity c \<and>
     (\<forall>i v. cache_get c i = Some v \<longrightarrow> \<not> vc_dirty v \<longrightarrow> vc_vec v = load f i)"

text \<open>
  \<open>store i v\<close> writes table \<open>i\<close>; it is only required to work for the tables in \<open>home\<close> and for
  values of the right shape.
\<close>

locale write_back =
  fixes load :: "'f \<Rightarrow> nat \<Rightarrow> 'a list" and store :: "nat \<Rightarrow> 'a vec_cache \<Rightarrow> ('f, unit) io"
    and ok :: "'f \<Rightarrow> bool" and home :: "nat \<Rightarrow> bool" and shape :: "'a list \<Rightarrow> bool"
  assumes store_law: "ok f \<Longrightarrow> home i \<Longrightarrow> shape (vc_vec v) \<Longrightarrow>
    wp (store i v) (\<lambda>_ f'. ok f' \<and> load f' = (load f)(i := vc_vec v)) (\<lambda>_ _. True) f"
begin

lemma insert_keeps_view:
  assumes "ok f" "coherent load c f" "is_order order"
    and "\<And>j v. cache_get c j = Some v \<Longrightarrow> home j \<and> shape (vc_vec v)"
    and "vc_vec block = load f i" "cache_get c i = None"
  shows "wp (cache_insert order i block store)
    (\<lambda>_ (c', f'). ok f' \<and> coherent load c' f' \<and> cached_view load c' f' = cached_view load c f \<and>
      cache_get c' i = Some block \<and> (\<forall>j. j \<noteq> i \<longrightarrow> cache_get c' j = cache_get c j \<or> cache_get c' j = None))
    (\<lambda>_ _. True) (c, f)"
proof (cases "length (entries c) = capacity c")
  case False
  have "coherent load (cache_set i block c) f"
    using assms(2, 5) by (auto simp: coherent_def split: if_splits)
  moreover have "cached_view load (cache_set i block c) f = cached_view load c f"
    using assms(5, 6) by (auto simp: cached_view_def fun_eq_iff)
  ultimately show ?thesis
    using False assms(1) by (simp add: cache_insert_def wp_simps)
next
  case True
  then have ne: "entries c \<noteq> []" using assms(2) by (auto simp: coherent_def)
  obtain k ks where k: "order (cache_keys c) = k # ks" "cache_contains c k"
    by (rule is_order_hd [OF assms(3) _ ne]) (use assms(2) in \<open>auto simp: coherent_def\<close>)
  obtain ev where ev: "cache_get c k = Some ev" using k(2) by (auto simp: cache_contains_def)
  have ki: "k \<noteq> i" using ev assms(6) by auto
  have other: "\<forall>j. j \<noteq> i \<longrightarrow> cache_get (cache_set i block (cache_remove k c)) j = cache_get c j \<or>
      cache_get (cache_set i block (cache_remove k c)) j = None"
    by simp
  show ?thesis
  proof (cases "vc_dirty ev")
    case False
    have "coherent load (cache_set i block (cache_remove k c)) f"
      using assms(2, 5) by (auto simp: coherent_def split: if_splits)
    moreover have "cached_view load (cache_set i block (cache_remove k c)) f = cached_view load c f"
      using assms(2, 5, 6) ev False by (auto simp: cached_view_def fun_eq_iff coherent_def)
    ultimately show ?thesis
      using True False k ev assms(1) other by (simp add: cache_insert_def wp_simps)
  next
    case dirty: True
    have upd: "coherent load (cache_set i block (cache_remove k c)) f' \<and>
        cached_view load (cache_set i block (cache_remove k c)) f' = cached_view load c f"
      if "load f' = (load f)(k := vc_vec ev)" for f'
    proof
      show "coherent load (cache_set i block (cache_remove k c)) f'"
        using that assms(2, 5) ki by (auto simp: coherent_def split: if_splits)
      show "cached_view load (cache_set i block (cache_remove k c)) f' = cached_view load c f"
        by (rule ext) (use that assms(5, 6) ev in \<open>simp add: cached_view_def split: option.splits\<close>)
    qed
    have "wp (store k ev) (\<lambda>_ f'. ok f' \<and> load f' = (load f)(k := vc_vec ev)) (\<lambda>_ _. True) f"
      using store_law [OF assms(1)] assms(4) [OF ev] by blast
    then show ?thesis
      using True dirty k ev upd other by (auto simp: cache_insert_def wp_simps elim: wp_mono)
  qed
qed

end

end
