(* ===== verification/Qcow_Raw_File.thy ===== *)
theory Qcow_Raw_File
  imports Vec_Cache
begin

text \<open>
  The file below a qcow image (\<^verbatim>\<open>qcow/src/qcow_raw_file.rs\<close>): tables of big-endian numbers and
  clusters appended at the end.
\<close>

section \<open>Numbers in a file\<close>

text \<open>\<^verbatim>\<open>read_u64\<close>, \<^verbatim>\<open>read_u32\<close>, \<^verbatim>\<open>read_u16\<close> and their counterparts of the crate \<^verbatim>\<open>byteorder\<close>.\<close>

definition read_be :: "(host_file, 'a::len word) io" where
  "read_be = io_bind (file_read_exact (LENGTH('a) div 8)) (\<lambda>bs. io_return (from_be bs))"

definition write_be :: "'a::len word \<Rightarrow> (host_file, unit) io" where
  "write_be w = file_write (to_be w)"

primrec read_words :: "nat \<Rightarrow> (host_file, 'a::len word list) io" where
  "read_words 0 = io_return []"
| "read_words (Suc n) = io_bind read_be (\<lambda>w. io_bind (read_words n) (\<lambda>ws. io_return (w # ws)))"

primrec write_words :: "'a::len word list \<Rightarrow> (host_file, unit) io" where
  "write_words [] = io_return ()"
| "write_words (w # ws) = io_bind (write_be w) (\<lambda>_. write_words ws)"

section \<open>The raw file\<close>

record qcow_raw_file =
  rf_file :: host_file
  rf_cluster_size :: u64
  rf_cluster_mask :: u64

definition rf_from :: "host_file \<Rightarrow> u64 \<Rightarrow> qcow_raw_file option" where
  "rf_from file cluster_size =
     (if count_ones cluster_size \<noteq> 1 then None
      else Some \<lparr>rf_file = file, rf_cluster_size = cluster_size, rf_cluster_mask = cluster_size - 1\<rparr>)"

text \<open>\<^verbatim>\<open>file_mut\<close>: a computation on the file.\<close>

definition on_file :: "(host_file, 'a) io \<Rightarrow> (qcow_raw_file, 'a) io" where
  "on_file = io_on rf_file (\<lambda>f r. r\<lparr>rf_file := f\<rparr>)"

text \<open>\<^verbatim>\<open>Vec::with_capacity\<close> panics when the vector would exceed \<^verbatim>\<open>isize::MAX\<close> bytes.\<close>

definition read_pointer_table :: "u64 \<Rightarrow> u64 \<Rightarrow> u64 option \<Rightarrow> (qcow_raw_file, u64 list) io" where
  "read_pointer_table off count msk =
     (if unat count * 8 \<ge> 2 ^ 63 then io_panic
      else
        io_bind (on_file (file_seek off)) (\<lambda>_.
        let msk = (case msk of None \<Rightarrow> 0xffffffffffffffff | Some m \<Rightarrow> m) in
        io_bind (on_file (read_words (unat count))) (\<lambda>ws. io_return (map (\<lambda>w. w AND msk) ws))))"

definition read_pointer_cluster :: "u64 \<Rightarrow> u64 option \<Rightarrow> (qcow_raw_file, u64 list) io" where
  "read_pointer_cluster off msk =
     io_bind (io_get rf_cluster_size) (\<lambda>cs. read_pointer_table off (cs div 8) msk)"

definition write_pointer_table :: "u64 \<Rightarrow> u64 list \<Rightarrow> u64 \<Rightarrow> (qcow_raw_file, unit) io" where
  "write_pointer_table off table non_zero_flags =
     io_bind (on_file (file_seek off)) (\<lambda>_.
     on_file (write_words (map (\<lambda>addr. if addr = 0 then 0 else addr OR non_zero_flags) table)))"

definition read_refcount_block :: "u64 \<Rightarrow> (qcow_raw_file, u16 list) io" where
  "read_refcount_block off =
     io_bind (io_get rf_cluster_size) (\<lambda>cs.
     let count = cs div 2 in
     if unat count * 2 \<ge> 2 ^ 63 then io_panic
     else io_bind (on_file (file_seek off)) (\<lambda>_. on_file (read_words (unat count))))"

definition write_refcount_block :: "u64 \<Rightarrow> u16 list \<Rightarrow> (qcow_raw_file, unit) io" where
  "write_refcount_block off table = io_bind (on_file (file_seek off)) (\<lambda>_. on_file (write_words table))"

definition add_cluster_end :: "(qcow_raw_file, u64) io" where
  "add_cluster_end =
     io_bind (on_file file_seek_end) (\<lambda>file_end. io_bind (io_get id) (\<lambda>r.
     let new_cluster_address = (file_end + rf_cluster_size r - 1) AND NOT (rf_cluster_mask r) in
     io_bind (on_file (file_set_len (new_cluster_address + rf_cluster_size r))) (\<lambda>_.
     io_return new_cluster_address)))"

definition cluster_offset :: "qcow_raw_file \<Rightarrow> u64 \<Rightarrow> u64" where
  "cluster_offset r address = address AND rf_cluster_mask r"

section \<open>Tables as functions of the bytes\<close>

text \<open>\<open>count\<close> numbers from position \<open>pos\<close> on.\<close>

definition word_at :: "nat \<Rightarrow> (nat \<Rightarrow> u8) \<Rightarrow> 'a::len word" where
  "word_at pos g = from_be (map (\<lambda>j. g (pos + j)) [0..<LENGTH('a) div 8])"

definition be_table :: "nat \<Rightarrow> nat \<Rightarrow> (nat \<Rightarrow> u8) \<Rightarrow> 'a::len word list" where
  "be_table pos count g = map (\<lambda>k. word_at (pos + LENGTH('a) div 8 * k) g) [0..<count]"

lemma length_be_table [simp]: "length (be_table pos count g) = count"
  by (simp add: be_table_def)

lemma be_table_Suc:
  "(be_table pos (Suc n) g :: 'a::len word list) = word_at pos g # be_table (pos + LENGTH('a) div 8) n g"
  by (simp add: be_table_def upt_conv_Cons map_Suc_upt [symmetric] del: upt_Suc) (simp add: algebra_simps)

lemma be_table_cong:
  assumes "\<And>i. pos \<le> i \<Longrightarrow> i < pos + LENGTH('a) div 8 * count \<Longrightarrow> g i = h i"
  shows "(be_table pos count g :: 'a::len word list) = be_table pos count h"
proof -
  have "word_at (pos + LENGTH('a) div 8 * k) g = (word_at (pos + LENGTH('a) div 8 * k) h :: 'a word)" if "k < count" for k
  proof -
    have "LENGTH('a) div 8 * k + LENGTH('a) div 8 \<le> LENGTH('a) div 8 * count"
      using that by (metis Suc_leI add.commute mult_Suc_right mult_le_mono2)
    then show ?thesis using assms unfolding word_at_def by (intro arg_cong [of _ _ from_be] map_cong refl) auto
  qed
  then show ?thesis by (simp add: be_table_def)
qed

lemma wp_read_be:
  assumes "\<And>f'. contents f' = contents f \<Longrightarrow> unat (cursor f) + LENGTH('a) div 8 \<le> length (contents f) \<Longrightarrow>
      cursor f' = cursor f + of_nat (LENGTH('a) div 8) \<Longrightarrow> Q (word_at (unat (cursor f)) (fbyte (contents f)) :: 'a::len word) f'"
    "\<And>e f'. contents f' = contents f \<Longrightarrow> E e f'"
  shows "wp read_be Q E f"
  unfolding read_be_def wp_simps
  by (rule wp_file_read_exact) (use assms in \<open>auto simp: word_at_def slice_fbyte\<close>)

lemma wp_read_words:
  assumes "length (contents f) < off_limit"
  shows "wp (read_words n)
    (\<lambda>(ws :: 'a::len word list) f'. contents f' = contents f \<and> ws = be_table (unat (cursor f)) n (fbyte (contents f)))
    (\<lambda>_ f'. contents f' = contents f) f"
  using assms
proof (induction n arbitrary: f)
  case 0
  then show ?case by (simp add: wp_simps be_table_def)
next
  case (Suc n)
  show ?case
    unfolding read_words.simps wp_simps
  proof (rule wp_read_be)
    fix f' :: host_file
    assume f': "contents f' = contents f" "unat (cursor f) + LENGTH('a) div 8 \<le> length (contents f)"
      "cursor f' = cursor f + of_nat (LENGTH('a) div 8)"
    have "unat (cursor f') = unat (cursor f) + LENGTH('a) div 8" using f' Suc.prems by (simp add: unat_forward)
    then show "wp (read_words n) (\<lambda>x s. contents s = contents f \<and>
        word_at (unat (cursor f)) (fbyte (contents f)) # x = (be_table (unat (cursor f)) (Suc n) (fbyte (contents f)) :: 'a word list))
      (\<lambda>_ s. contents s = contents f) f'"
      using Suc.IH [of f'] Suc.prems f'(1) by (auto simp: be_table_Suc elim: wp_mono)
  qed simp
qed

text \<open>What a table looks like on disk.\<close>

definition be_bytes :: "'a::len word list \<Rightarrow> u8 list" where
  "be_bytes ws = concat (map to_be ws)"

lemma length_be_bytes [simp]: "length (be_bytes (ws :: 'a::len word list)) = LENGTH('a) div 8 * length ws"
  by (induction ws) (simp_all add: be_bytes_def)

lemma be_bytes_Cons: "be_bytes (w # ws) = to_be w @ be_bytes ws"
  by (simp add: be_bytes_def)

lemma wp_write_words:
  assumes "unat (cursor f) < off_limit"
  shows "wp (write_words (ws :: 'a::len word list))
    (\<lambda>_ f'. contents f' = file_put (unat (cursor f)) (be_bytes ws) (contents f) \<and>
      unat (cursor f) + length (be_bytes ws) < off_limit \<and> cursor f' = cursor f + of_nat (length (be_bytes ws)))
    (\<lambda>_ _. True) f"
  using assms
proof (induction ws arbitrary: f)
  case Nil
  then show ?case by (simp add: wp_simps be_bytes_def file_put_def)
next
  case (Cons w ws)
  show ?case
    unfolding write_words.simps write_be_def wp_simps
  proof (rule wp_file_write)
    fix as assume lim: "unat (cursor f) + length (to_be w) < off_limit"
    let ?f = "f\<lparr>answers := as, contents := file_put (unat (cursor f)) (to_be w) (contents f),
      cursor := cursor f + of_nat (length (to_be w))\<rparr>"
    have cur: "unat (cursor ?f) = unat (cursor f) + length (to_be w)" using lim by (simp add: unat_forward)
    show "wp (write_words ws) (\<lambda>_ f'. contents f' = file_put (unat (cursor f)) (be_bytes (w # ws)) (contents f) \<and>
        unat (cursor f) + length (be_bytes (w # ws)) < off_limit \<and> cursor f' = cursor f + of_nat (length (be_bytes (w # ws))))
      (\<lambda>_ _. True) ?f"
      by (rule wp_mono [OF Cons.IH]) (use cur lim in \<open>auto simp: be_bytes_Cons file_put_file_put algebra_simps\<close>)
  qed simp
qed

lemma word_at_bytes:
  assumes "8 dvd LENGTH('a)" "\<And>j. j < LENGTH('a) div 8 \<Longrightarrow> g (pos + j) = to_be (w :: 'a::len word) ! j"
  shows "word_at pos g = w"
proof -
  have "map (\<lambda>j. g (pos + j)) [0..<LENGTH('a) div 8] = to_be w"
    by (rule nth_equalityI) (use assms(2) in simp_all)
  then show ?thesis using assms(1) by (simp add: word_at_def)
qed

lemma be_table_bytes:
  assumes "8 dvd LENGTH('a)" "\<And>i. i < length (be_bytes ws) \<Longrightarrow> g (pos + i) = be_bytes ws ! i"
  shows "be_table pos (length ws) g = (ws :: 'a::len word list)"
  using assms(2)
proof (induction ws arbitrary: pos)
  case Nil
  then show ?case by (simp add: be_table_def)
next
  case (Cons w ws)
  have "word_at pos g = w"
    by (rule word_at_bytes [OF assms(1)]) (use Cons.prems in \<open>simp add: be_bytes_Cons nth_append\<close>)
  moreover have "be_table (pos + LENGTH('a) div 8) (length ws) g = ws"
  proof (rule Cons.IH)
    fix i assume "i < length (be_bytes ws)"
    then show "g (pos + LENGTH('a) div 8 + i) = be_bytes ws ! i"
      using Cons.prems [of "LENGTH('a) div 8 + i"] by (simp add: be_bytes_Cons nth_append add.assoc)
  qed
  ultimately show ?case by (simp add: be_table_Suc)
qed

lemma be_table_put:
  assumes "8 dvd LENGTH('a)"
  shows "be_table pos (length ws) (fbyte (file_put pos (be_bytes ws) xs)) = (ws :: 'a::len word list)"
  by (rule be_table_bytes [OF assms]) (simp add: fbyte_file_put)

section \<open>Clusters\<close>

lemma unat_pow2: "k < LENGTH('a) \<Longrightarrow> unat (2 ^ k :: 'a::len word) = 2 ^ k"
  by (intro of_nat_inverse) simp_all

lemma unat_and_mask:
  fixes x :: "'a::len word"
  assumes "k < LENGTH('a)"
  shows "unat (x AND (2 ^ k - 1)) = unat x mod 2 ^ k"
  using assms by (simp add: take_bit_eq_mask [symmetric] mask_eq_exp_minus_1 [symmetric] take_bit_eq_mod unat_mod unat_pow2)

lemma unat_and_not_mask:
  fixes x :: "'a::len word"
  assumes "k < LENGTH('a)"
  shows "unat (x AND NOT (2 ^ k - 1)) = unat x - unat x mod 2 ^ k"
proof -
  let ?m = "2 ^ k - 1 :: 'a word"
  have "(x AND ?m) + (x AND NOT ?m) = x"
    by (subst disjunctive_add_eq_or) (auto intro!: bit_word_eqI simp: bit_simps)
  then have "x AND NOT ?m = x - (x AND ?m)" by (metis add_diff_cancel_left')
  moreover have "x AND ?m \<le> x"
    using assms by (simp add: word_le_nat_alt unat_and_mask)
  ultimately show ?thesis using assms by (simp add: unat_sub_no_wrap unat_and_mask)
qed

abbreviation rbyte :: "qcow_raw_file \<Rightarrow> nat \<Rightarrow> u8" where
  "rbyte r \<equiv> fbyte (contents (rf_file r))"

abbreviation rlen :: "qcow_raw_file \<Rightarrow> nat" where
  "rlen r \<equiv> length (contents (rf_file r))"

text \<open>The raw file of an open image: clusters of \<open>2 ^ k\<close> bytes.\<close>

definition rf_ok :: "nat \<Rightarrow> qcow_raw_file \<Rightarrow> bool" where
  "rf_ok k r \<longleftrightarrow> rlen r < off_limit \<and> rf_cluster_size r = 2 ^ k \<and> rf_cluster_mask r = 2 ^ k - 1 \<and> 3 \<le> k \<and> k \<le> 30"

lemma rf_ok_sizes:
  assumes "rf_ok k r"
  shows "unat (rf_cluster_size r) = 2 ^ k" "unat (cluster_offset r a) = unat a mod 2 ^ k"
    "unat (rf_cluster_size r div 8) = 2 ^ k div 8" "unat (rf_cluster_size r div 2) = 2 ^ k div 2" "(2 :: nat) ^ k \<le> 2 ^ 30"
  using assms power_increasing [of k 30 "2 :: nat"]
  by (auto simp: rf_ok_def unat_pow2 cluster_offset_def unat_and_mask unat_div)

lemma wp_on_file [wp_simps]:
  "wp (on_file m) Q E = (\<lambda>r. wp m (\<lambda>x f. Q x (r\<lparr>rf_file := f\<rparr>)) (\<lambda>e f. E e (r\<lparr>rf_file := f\<rparr>)) (rf_file r))"
  by (simp add: on_file_def wp_simps)

lemma wp_read_pointer_table:
  assumes "rf_ok k r" "unat count * 8 < 2 ^ 63"
  shows "wp (read_pointer_table off count msk)
    (\<lambda>ws r'. (\<exists>f. r' = r\<lparr>rf_file := f\<rparr> \<and> contents f = contents (rf_file r)) \<and>
      ws = map (\<lambda>w. w AND (case msk of None \<Rightarrow> 0xffffffffffffffff | Some m \<Rightarrow> m)) (be_table (unat off) (unat count) (rbyte r)))
    (\<lambda>_ _. True) r"
proof -
  have "wp (file_seek off) (\<lambda>_. wp (read_words (unat count))
      (\<lambda>ws f. contents f = contents (rf_file r) \<and> ws = (be_table (unat off) (unat count) (rbyte r) :: u64 list)) (\<lambda>_ _. True))
      (\<lambda>_ _. True) (rf_file r)"
    by (rule wp_file_seek) (use assms(1) in \<open>auto simp: rf_ok_def intro!: wp_mono [OF wp_read_words]\<close>)
  then show ?thesis
    using assms(2) by (auto simp: read_pointer_table_def wp_simps Let_def elim!: wp_mono)
qed

lemma wp_write_table:
  assumes "rf_ok k r"
  shows "wp (io_bind (on_file (file_seek off)) (\<lambda>_. on_file (write_words (ws :: 'a::len word list))))
    (\<lambda>_ r'. (\<exists>f. r' = r\<lparr>rf_file := f\<rparr>) \<and> rf_ok k r' \<and>
      contents (rf_file r') = file_put (unat off) (be_bytes ws) (contents (rf_file r))) (\<lambda>_ _. True) r"
proof -
  have "wp (file_seek off) (\<lambda>_. wp (write_words ws)
      (\<lambda>_ f. contents f = file_put (unat off) (be_bytes ws) (contents (rf_file r)) \<and> length (contents f) < off_limit) (\<lambda>_ _. True))
      (\<lambda>_ _. True) (rf_file r)"
  proof (rule wp_file_seek)
    fix as assume off: "unat off < off_limit"
    let ?f = "(rf_file r)\<lparr>answers := as, cursor := off\<rparr>"
    have len: "length (file_put (unat off) bs (contents (rf_file r))) < off_limit" if "unat off + length bs < off_limit" for bs
      using that assms by (cases "bs = []") (auto simp: length_file_put rf_ok_def file_put_def)
    show "wp (write_words ws)
      (\<lambda>_ f. contents f = file_put (unat off) (be_bytes ws) (contents (rf_file r)) \<and> length (contents f) < off_limit) (\<lambda>_ _. True) ?f"
      by (rule wp_mono [OF wp_write_words]) (use off len in auto)
  qed simp
  then show ?thesis
    using assms by (auto simp: wp_simps rf_ok_def elim!: wp_mono)
qed

lemma wp_add_cluster_end:
  assumes "rf_ok k r"
  shows "wp add_cluster_end
    (\<lambda>a r'. (\<exists>f. r' = r\<lparr>rf_file := f\<rparr>) \<and> rf_ok k r' \<and> rbyte r' = rbyte r \<and> rlen r' = unat a + 2 ^ k \<and>
      rlen r \<le> unat a \<and> unat a < rlen r + 2 ^ k \<and> 2 ^ k dvd unat a)
    (\<lambda>_ _. True) r"
proof -
  let ?n = "rlen r"
  let ?a = "(of_nat ?n + rf_cluster_size r - 1) AND NOT (rf_cluster_mask r)"
  have k: "(2 :: nat) ^ k \<le> 2 ^ 30" "(0 :: nat) < 2 ^ k" "k < 64" using assms rf_ok_sizes(5) by (auto simp: rf_ok_def)
  have n: "?n < off_limit" using assms by (simp add: rf_ok_def)
  have nw: "unat (of_nat ?n :: u64) = ?n" using n by (simp add: unsigned_of_nat take_bit_nat_eq_self)
  have e: "unat (of_nat ?n + rf_cluster_size r) = ?n + 2 ^ k"
    using nw rf_ok_sizes(1) [OF assms] n k by (simp add: unat_add_no_wrap)
  then have e1: "unat (of_nat ?n + rf_cluster_size r - 1) = ?n + 2 ^ k - 1"
    by (subst unat_sub_no_wrap) (simp_all add: word_le_nat_alt Suc_le_eq)
  have a: "unat ?a = (?n + 2 ^ k - 1) - (?n + 2 ^ k - 1) mod 2 ^ k"
    using assms e1 k(3) by (simp add: rf_ok_def unat_and_not_mask)
  have a_dvd: "2 ^ k dvd unat ?a" unfolding a by (rule dvd_minus_mod)
  have a_ge: "?n \<le> unat ?a" and a_lt: "unat ?a < ?n + 2 ^ k"
    unfolding a using k(2) mod_less_divisor [OF k(2), of "?n + 2 ^ k - 1"] by linarith+
  have top: "unat (?a + rf_cluster_size r) = unat ?a + 2 ^ k"
    using a_lt n k rf_ok_sizes(1) [OF assms] by (simp add: unat_add_no_wrap)
  have bytes: "fbyte (take (unat ?a + 2 ^ k) (contents (rf_file r)) @ replicate (unat ?a + 2 ^ k - ?n) 0) = rbyte r"
    using a_ge by (intro ext fbyte_set_len) simp
  show ?thesis
    unfolding add_cluster_end_def wp_simps file_seek_end_def Let_def
    by (rule wp_syscall, simp only: wp_simps id_apply host_file.simps qcow_raw_file.simps, rule wp_file_set_len)
      (use assms bytes a_ge a_lt a_dvd top in \<open>auto simp: rf_ok_def\<close>)
qed

end
