(* ===== verification/Refcount.thy ===== *)
theory Refcount
  imports Qcow_Raw_File
begin

text \<open>
  The reference counts of the clusters of an image (\<^verbatim>\<open>qcow/src/refcount.rs\<close>): a table of
  refcount blocks, read through a cache. The caller allocates clusters: an operation that
  needs one says so with an error and is called again. \<open>order\<close> is the iteration order of the
  hash map of the cache.
\<close>

section \<open>The code\<close>

datatype refcount_error =
    EvictingRefCounts io_error
  | InvalidIndex
  | NeedCluster u64
  | NeedNewCluster
  | ReadingRefCounts io_error

record refcount =
  ref_table :: "u64 list"
  refcount_table_offset :: u64
  refblock_cache :: "u16 vec_cache cache_map"
  refcount_block_entries :: u64
  rc_cluster_size :: u64

type_synonym 'a rc_io = "(refcount \<times> qcow_raw_file, 'a) io"

definition on_raw :: "(qcow_raw_file, 'a) io \<Rightarrow> 'a rc_io" where
  "on_raw = io_on snd (\<lambda>rf (rc, _). (rc, rf))"

definition rc_new :: "u64 \<Rightarrow> u64 \<Rightarrow> u64 \<Rightarrow> u64 \<Rightarrow> (qcow_raw_file, refcount) io" where
  "rc_new table_offset table_entries block_entries cluster_size =
     io_bind (read_pointer_table table_offset table_entries None) (\<lambda>rt.
     io_return \<lparr>ref_table = rt, refcount_table_offset = table_offset, refblock_cache = cache_new 50,
       refcount_block_entries = block_entries, rc_cluster_size = cluster_size\<rparr>)"

definition refcounts_per_block :: "refcount \<Rightarrow> u64" where
  "refcounts_per_block rc = refcount_block_entries rc"

definition get_refcount_index :: "refcount \<Rightarrow> u64 \<Rightarrow> nat \<times> nat" where
  "get_refcount_index rc address =
     (let block_index = (address div rc_cluster_size rc) mod refcount_block_entries rc;
          refcount_table_index = (address div rc_cluster_size rc) div refcount_block_entries rc
      in (unat refcount_table_index, unat block_index))"

text \<open>Filling the cache; a dirty block that has to make room is written to its cluster.\<close>

definition refblock_insert :: "(nat list \<Rightarrow> nat list) \<Rightarrow> nat \<Rightarrow> u16 vec_cache \<Rightarrow> unit rc_io" where
  "refblock_insert order index table =
     io_bind (io_get (\<lambda>(rc, _). ref_table rc)) (\<lambda>rt.
     io_on (\<lambda>(rc, rf). (refblock_cache rc, rf)) (\<lambda>(c, rf) (rc, _). (rc\<lparr>refblock_cache := c\<rparr>, rf))
       (cache_insert order index table (\<lambda>i evicted.
          io_bind (io_unwrap (nth_opt rt i)) (\<lambda>addr. write_refcount_block addr (vc_get_values evicted)))))"

definition set_ref_table :: "nat \<Rightarrow> u64 \<Rightarrow> unit rc_io" where
  "set_ref_table i addr = io_modify (apfst (\<lambda>rc. rc\<lparr>ref_table := (ref_table rc)[i := addr]\<rparr>))"

definition set_refblock :: "nat \<Rightarrow> u16 vec_cache \<Rightarrow> unit rc_io" where
  "set_refblock i v = io_modify (apfst (\<lambda>rc. rc\<lparr>refblock_cache := cache_set i v (refblock_cache rc)\<rparr>))"

text \<open>The two places of \<^verbatim>\<open>set_cluster_refcount\<close> that take the new cluster.\<close>

definition fill_refblock ::
  "(nat list \<Rightarrow> nat list) \<Rightarrow> nat \<Rightarrow> u64 \<Rightarrow> (u64 \<times> u16 vec_cache) option \<Rightarrow>
    (refcount_error + (u64 \<times> u16 vec_cache) option) rc_io" where
  "fill_refblock order table_index block_addr_disk new_cluster =
     io_bind (io_get (\<lambda>(rc, _). cache_contains (refblock_cache rc) table_index)) (\<lambda>cached.
     if cached then io_return (Inr new_cluster)
     else case new_cluster of
       Some (addr, table) \<Rightarrow>
         io_bind (set_ref_table table_index addr) (\<lambda>_.
         io_bind (io_try (refblock_insert order table_index table)) (\<lambda>r.
         io_return (case r of Inl e \<Rightarrow> Inl (EvictingRefCounts e) | Inr _ \<Rightarrow> Inr None)))
     | None \<Rightarrow> io_return (Inl (if block_addr_disk = 0 then NeedNewCluster else NeedCluster block_addr_disk)))"

definition drop_refblock ::
  "nat \<Rightarrow> u64 \<Rightarrow> (u64 \<times> u16 vec_cache) option \<Rightarrow> u16 vec_cache \<Rightarrow> (refcount_error + u64 option) rc_io" where
  "drop_refblock table_index block_addr_disk new_cluster block =
     (if \<not> vc_dirty block then
        (case new_cluster of
           Some (addr, _) \<Rightarrow> io_bind (set_ref_table table_index addr) (\<lambda>_. io_return (Inr (Some block_addr_disk)))
         | None \<Rightarrow> io_return (Inl NeedNewCluster))
      else io_return (Inr None))"

definition rc_set_cluster_refcount ::
  "(nat list \<Rightarrow> nat list) \<Rightarrow> u64 \<Rightarrow> u16 \<Rightarrow> (u64 \<times> u16 vec_cache) option \<Rightarrow> (refcount_error + u64 option) rc_io" where
  "rc_set_cluster_refcount order cluster_address refcount new_cluster =
     io_bind (io_get fst) (\<lambda>rc.
     let (table_index, block_index) = get_refcount_index rc cluster_address in
     case nth_opt (ref_table rc) table_index of
       None \<Rightarrow> io_return (Inl InvalidIndex)
     | Some block_addr_disk \<Rightarrow>
         io_bind (fill_refblock order table_index block_addr_disk new_cluster) (\<lambda>filled.
         case filled of
           Inl e \<Rightarrow> io_return (Inl e)
         | Inr new_cluster \<Rightarrow>
             io_bind (io_get (\<lambda>(rc, _). cache_get (refblock_cache rc) table_index)) (\<lambda>b.
             io_bind (io_unwrap b) (\<lambda>block.
             io_bind (drop_refblock table_index block_addr_disk new_cluster block) (\<lambda>dropped.
             case dropped of
               Inl e \<Rightarrow> io_return (Inl e)
             | Inr dropped_cluster \<Rightarrow>
                 io_bind (io_unwrap (vc_index_mut block_index refcount block)) (\<lambda>block'.
                 io_bind (set_refblock table_index block') (\<lambda>_.
                 io_return (Inr dropped_cluster))))))))"

fun flush_blocks_from :: "nat list \<Rightarrow> unit rc_io" where
  "flush_blocks_from [] = io_return ()"
| "flush_blocks_from (i # is) =
     io_bind (io_get fst) (\<lambda>rc.
     case cache_get (refblock_cache rc) i of
       None \<Rightarrow> flush_blocks_from is
     | Some block \<Rightarrow>
         if vc_dirty block then
           io_bind (io_unwrap (nth_opt (ref_table rc) i)) (\<lambda>addr.
           if addr \<noteq> 0 then
             io_bind (on_raw (write_refcount_block addr (vc_get_values block))) (\<lambda>_.
             io_bind (set_refblock i (vc_mark_clean block)) (\<lambda>_. flush_blocks_from is))
           else io_fail Einval)
         else flush_blocks_from is)"

definition flush_blocks :: "(nat list \<Rightarrow> nat list) \<Rightarrow> unit rc_io" where
  "flush_blocks order =
     io_bind (io_get (\<lambda>(rc, _). order (cache_keys (refblock_cache rc)))) flush_blocks_from"

definition flush_table :: "unit rc_io" where
  "flush_table =
     io_bind (io_get fst) (\<lambda>rc. on_raw (write_pointer_table (refcount_table_offset rc) (ref_table rc) 0))"

text \<open>Reading a block into the cache, shared by the two operations below.\<close>

definition load_refblock :: "(nat list \<Rightarrow> nat list) \<Rightarrow> nat \<Rightarrow> u64 \<Rightarrow> (refcount_error + unit) rc_io" where
  "load_refblock order table_index block_addr_disk =
     io_bind (io_get (\<lambda>(rc, _). cache_contains (refblock_cache rc) table_index)) (\<lambda>cached.
     if cached then io_return (Inr ())
     else
       io_bind (io_try (on_raw (read_refcount_block block_addr_disk))) (\<lambda>r.
       case r of
         Inl e \<Rightarrow> io_return (Inl (ReadingRefCounts e))
       | Inr table \<Rightarrow>
           io_bind (io_try (refblock_insert order table_index (vc_from_vec table))) (\<lambda>r.
           io_return (case r of Inl e \<Rightarrow> Inl (EvictingRefCounts e) | Inr _ \<Rightarrow> Inr ()))))"

definition get_cluster_refcount :: "(nat list \<Rightarrow> nat list) \<Rightarrow> u64 \<Rightarrow> (refcount_error + u16) rc_io" where
  "get_cluster_refcount order address =
     io_bind (io_get fst) (\<lambda>rc.
     let (table_index, block_index) = get_refcount_index rc address in
     case nth_opt (ref_table rc) table_index of
       None \<Rightarrow> io_return (Inl InvalidIndex)
     | Some block_addr_disk \<Rightarrow>
         if block_addr_disk = 0 then io_return (Inr 0)
         else
           io_bind (load_refblock order table_index block_addr_disk) (\<lambda>r.
           case r of
             Inl e \<Rightarrow> io_return (Inl e)
           | Inr _ \<Rightarrow>
               io_bind (io_get (\<lambda>(rc, _). cache_get (refblock_cache rc) table_index)) (\<lambda>b.
               io_bind (io_unwrap b) (\<lambda>block.
               io_bind (io_unwrap (vc_index block block_index)) (\<lambda>x. io_return (Inr x))))))"

definition refcount_block :: "(nat list \<Rightarrow> nat list) \<Rightarrow> nat \<Rightarrow> (refcount_error + u16 list option) rc_io" where
  "refcount_block order table_index =
     io_bind (io_get fst) (\<lambda>rc.
     case nth_opt (ref_table rc) table_index of
       None \<Rightarrow> io_return (Inl InvalidIndex)
     | Some block_addr_disk \<Rightarrow>
         if block_addr_disk = 0 then io_return (Inr None)
         else
           io_bind (load_refblock order table_index block_addr_disk) (\<lambda>r.
           case r of
             Inl e \<Rightarrow> io_return (Inl e)
           | Inr _ \<Rightarrow>
               io_bind (io_get (\<lambda>(rc, _). cache_get (refblock_cache rc) table_index)) (\<lambda>b.
               io_bind (io_unwrap b) (\<lambda>block. io_return (Inr (Some (vc_get_values block)))))))"

end
