(* ===== verification/Qcow.thy ===== *)
theory Qcow
  imports Refcount
begin

text \<open>
  Sparse disk images (\<^verbatim>\<open>qcow/src/qcow.rs\<close>): the header, opening and creating an image, the two
  levels of tables that map guest clusters to clusters of the file, allocation, and the
  operations of the disk (\<^verbatim>\<open>Read\<close>, \<^verbatim>\<open>Seek\<close>, \<^verbatim>\<open>Write\<close>, \<^verbatim>\<open>WriteZeroes\<close>). \<open>order\<close> is the iteration order
  of the hash maps of the caches.

  Loops whose end depends on the state of the file carry a number of rounds; to run out of
  rounds is a panic of the model, so that every proof that an operation does not panic also
  shows that the rounds are enough.
\<close>

section \<open>Errors\<close>

datatype qcow_error =
    BackingFilesNotSupported
  | GettingFileSize io_error
  | GettingRefcount refcount_error
  | InvalidClusterSize
  | InvalidL1TableOffset
  | InvalidMagic
  | InvalidOffset u64
  | InvalidRefcountTableOffset
  | NoRefcountClusters
  | ReadingHeader io_error
  | ReadingRefCountTable io_error
  | SeekingFile io_error
  | SettingRefcountRefcount io_error
  | WritingHeader io_error
  | UnsupportedRefcountOrder
  | UnsupportedVersion u32

text \<open>\<^verbatim>\<open>map_err\<close> on a computation, and the sequence of computations with such results.\<close>

definition err_map :: "(io_error \<Rightarrow> 'e) \<Rightarrow> ('s, 'a) io \<Rightarrow> ('s, 'e + 'a) io" where
  "err_map f m = io_bind (io_try m) (\<lambda>r. io_return (case r of Inl e \<Rightarrow> Inl (f e) | Inr x \<Rightarrow> Inr x))"

definition res_bind :: "('s, 'e + 'a) io \<Rightarrow> ('a \<Rightarrow> ('s, 'e + 'b) io) \<Rightarrow> ('s, 'e + 'b) io" where
  "res_bind m f = io_bind m (\<lambda>r. case r of Inl e \<Rightarrow> io_return (Inl e) | Inr x \<Rightarrow> f x)"

abbreviation res_fail :: "'e \<Rightarrow> ('s, 'e + 'a) io" where
  "res_fail e \<equiv> io_return (Inl e)"

abbreviation res_return :: "'a \<Rightarrow> ('s, 'e + 'a) io" where
  "res_return x \<equiv> io_return (Inr x)"

section \<open>The header\<close>

record qcow_header =
  magic :: u32
  version :: u32
  backing_file_offset :: u64
  backing_file_size :: u32
  cluster_bits :: u32
  disk_size :: u64
  crypt_method :: u32
  l1_size :: u32
  l1_table_offset :: u64
  h_refcount_table_offset :: u64
  refcount_table_clusters :: u32
  nb_snapshots :: u32
  snapshots_offset :: u64
  incompatible_features :: u64
  compatible_features :: u64
  autoclear_features :: u64
  refcount_order :: u32
  header_size :: u32

definition read_header_num :: "(host_file, qcow_error + 'a::len word) io" where
  "read_header_num = err_map ReadingHeader read_be"

definition header_new :: "(host_file, qcow_error + qcow_header) io" where
  "header_new =
     res_bind (err_map ReadingHeader (file_seek 0)) (\<lambda>_.
     res_bind read_header_num (\<lambda>magic.
     if magic \<noteq> 0x514649fb then res_fail InvalidMagic
     else
       res_bind read_header_num (\<lambda>version.
       res_bind read_header_num (\<lambda>backing_file_offset.
       res_bind read_header_num (\<lambda>backing_file_size.
       res_bind read_header_num (\<lambda>cluster_bits.
       res_bind read_header_num (\<lambda>disk_size.
       res_bind read_header_num (\<lambda>crypt_method.
       res_bind read_header_num (\<lambda>l1_size.
       res_bind read_header_num (\<lambda>l1_table_offset.
       res_bind read_header_num (\<lambda>refcount_table_offset.
       res_bind read_header_num (\<lambda>refcount_table_clusters.
       res_bind read_header_num (\<lambda>nb_snapshots.
       res_bind read_header_num (\<lambda>snapshots_offset.
       res_bind read_header_num (\<lambda>incompatible_features.
       res_bind read_header_num (\<lambda>compatible_features.
       res_bind read_header_num (\<lambda>autoclear_features.
       res_bind read_header_num (\<lambda>refcount_order.
       res_bind read_header_num (\<lambda>header_size.
       res_return \<lparr>magic = magic, version = version, backing_file_offset = backing_file_offset,
         backing_file_size = backing_file_size, cluster_bits = cluster_bits, disk_size = disk_size,
         crypt_method = crypt_method, l1_size = l1_size, l1_table_offset = l1_table_offset,
         h_refcount_table_offset = refcount_table_offset, refcount_table_clusters = refcount_table_clusters,
         nb_snapshots = nb_snapshots, snapshots_offset = snapshots_offset,
         incompatible_features = incompatible_features, compatible_features = compatible_features,
         autoclear_features = autoclear_features, refcount_order = refcount_order,
         header_size = header_size\<rparr>)))))))))))))))))))"

definition div_round_up :: "'a::len word \<Rightarrow> 'a word \<Rightarrow> 'a word" where
  "div_round_up dividend divisor = (dividend + divisor - 1) div divisor"

definition max_refcount_clusters :: "u32 \<Rightarrow> u32 \<Rightarrow> u32 \<Rightarrow> usize" where
  "max_refcount_clusters rc_order cluster_size num_clusters =
     (let refcount_bytes = push_bit (unat rc_order mod 32) 1 div 8;
          for_data = div_round_up (num_clusters * refcount_bytes) cluster_size;
          for_refcounts = div_round_up (for_data * refcount_bytes) cluster_size
      in ucast for_data + ucast for_refcounts)"

definition create_for_size :: "u64 \<Rightarrow> qcow_header" where
  "create_for_size sz =
     (let cluster_size = push_bit 16 1 :: u32;
          l2_size = cluster_size div 8;
          num_clusters = ucast (div_round_up sz (ucast cluster_size)) :: u32;
          num_l2_clusters = div_round_up num_clusters l2_size;
          l1_clusters = div_round_up num_l2_clusters cluster_size
      in \<lparr>magic = 0x514649fb, version = 3, backing_file_offset = 0, backing_file_size = 0,
           cluster_bits = 16, disk_size = sz, crypt_method = 0, l1_size = num_l2_clusters,
           l1_table_offset = ucast cluster_size,
           h_refcount_table_offset = ucast (cluster_size * (l1_clusters + 1)),
           refcount_table_clusters =
             (let max_refcount_clusters = ucast (max_refcount_clusters 4 cluster_size num_clusters) :: u32
              in div_round_up (max_refcount_clusters * 8) cluster_size),
           nb_snapshots = 0, snapshots_offset = 0, incompatible_features = 0, compatible_features = 0,
           autoclear_features = 0, refcount_order = 4, header_size = 104\<rparr>)"

definition header_bytes_writes :: "qcow_header \<Rightarrow> (host_file, unit) io" where
  "header_bytes_writes h =
     io_bind (write_be (magic h)) (\<lambda>_. io_bind (write_be (version h)) (\<lambda>_.
     io_bind (write_be (backing_file_offset h)) (\<lambda>_. io_bind (write_be (backing_file_size h)) (\<lambda>_.
     io_bind (write_be (cluster_bits h)) (\<lambda>_. io_bind (write_be (disk_size h)) (\<lambda>_.
     io_bind (write_be (crypt_method h)) (\<lambda>_. io_bind (write_be (l1_size h)) (\<lambda>_.
     io_bind (write_be (l1_table_offset h)) (\<lambda>_. io_bind (write_be (h_refcount_table_offset h)) (\<lambda>_.
     io_bind (write_be (refcount_table_clusters h)) (\<lambda>_. io_bind (write_be (nb_snapshots h)) (\<lambda>_.
     io_bind (write_be (snapshots_offset h)) (\<lambda>_. io_bind (write_be (incompatible_features h)) (\<lambda>_.
     io_bind (write_be (compatible_features h)) (\<lambda>_. io_bind (write_be (autoclear_features h)) (\<lambda>_.
     io_bind (write_be (refcount_order h)) (\<lambda>_. write_be (header_size h))))))))))))))))))"

definition write_to :: "qcow_header \<Rightarrow> (host_file, qcow_error + unit) io" where
  "write_to h =
     err_map WritingHeader
       (io_bind (header_bytes_writes h) (\<lambda>_.
        let cluster_size = push_bit (unat (cluster_bits h) mod 64) 1 :: u64;
            refcount_blocks_size = ucast (refcount_table_clusters h) * cluster_size
        in io_bind (file_seek (h_refcount_table_offset h + refcount_blocks_size - 2)) (\<lambda>_.
           file_write [0])))"

section \<open>The image\<close>

record qcow_file =
  raw_file :: qcow_raw_file
  header :: qcow_header
  l1_table :: "u64 list"
  l2_entries :: u64
  l2_cache :: "u64 vec_cache cache_map"
  refcounts :: refcount
  current_offset :: u64
  unref_clusters :: "u64 list"
  avail_clusters :: "u64 list"

type_synonym 'a q_io = "(qcow_file, 'a) io"

definition on_qraw :: "(qcow_raw_file, 'a) io \<Rightarrow> 'a q_io" where
  "on_qraw = io_on raw_file (\<lambda>rf q. q\<lparr>raw_file := rf\<rparr>)"

definition on_rc :: "'a rc_io \<Rightarrow> 'a q_io" where
  "on_rc = io_on (\<lambda>q. (refcounts q, raw_file q)) (\<lambda>(rc, rf) q. q\<lparr>refcounts := rc, raw_file := rf\<rparr>)"

abbreviation on_host :: "(host_file, 'a) io \<Rightarrow> 'a q_io" where
  "on_host m \<equiv> on_qraw (on_file m)"

definition virtual_size :: "qcow_file \<Rightarrow> u64" where
  "virtual_size q = disk_size (header q)"

definition limit_range_file :: "qcow_file \<Rightarrow> u64 \<Rightarrow> usize \<Rightarrow> usize" where
  "limit_range_file q address count =
     (if checked_add address count = None \<or> address > virtual_size q then 0
      else min count (virtual_size q - address))"

definition limit_range_cluster :: "qcow_file \<Rightarrow> u64 \<Rightarrow> usize \<Rightarrow> usize" where
  "limit_range_cluster q address count =
     (let off = cluster_offset (raw_file q) address;
          limit = rf_cluster_size (raw_file q) - off
      in min count limit)"

definition l1_table_index :: "qcow_file \<Rightarrow> u64 \<Rightarrow> u64" where
  "l1_table_index q address = (address div rf_cluster_size (raw_file q)) div l2_entries q"

definition l1_address_offset :: "qcow_file \<Rightarrow> u64 \<Rightarrow> u64" where
  "l1_address_offset q address = l1_table_index q address * 8"

definition l2_table_index :: "qcow_file \<Rightarrow> u64 \<Rightarrow> u64" where
  "l2_table_index q address = (address div rf_cluster_size (raw_file q)) mod l2_entries q"

definition offset_is_cluster_boundary :: "u64 \<Rightarrow> u32 \<Rightarrow> qcow_error + unit" where
  "offset_is_cluster_boundary off bits =
     (if off AND (push_bit (unat bits mod 64) 1 - 1) \<noteq> 0 then Inl (InvalidOffset off) else Inr ())"

text \<open>The checks of the header that \<^verbatim>\<open>QcowFile::from\<close> makes before it reads the tables.\<close>

definition check_header :: "qcow_header \<Rightarrow> qcow_error + u64" where
  "check_header h =
     (if version h \<noteq> 3 then Inl (UnsupportedVersion (version h))
      else if cluster_bits h > 30 then Inl InvalidClusterSize
      else
        let cluster_size = push_bit (unat (cluster_bits h) mod 64) 1 :: u64 in
        if cluster_size < 8 then Inl InvalidClusterSize
        else if backing_file_offset h \<noteq> 0 then Inl BackingFilesNotSupported
        else if refcount_order h \<ge> 64 then Inl UnsupportedRefcountOrder
        else if push_bit (unat (refcount_order h)) (1 :: u64) \<noteq> 16 then Inl UnsupportedRefcountOrder
        else if refcount_table_clusters h = 0 then Inl NoRefcountClusters
        else case offset_is_cluster_boundary (backing_file_offset h) (cluster_bits h) of
          Inl e \<Rightarrow> Inl e
        | Inr _ \<Rightarrow> (case offset_is_cluster_boundary (l1_table_offset h) (cluster_bits h) of
          Inl e \<Rightarrow> Inl e
        | Inr _ \<Rightarrow> (case offset_is_cluster_boundary (h_refcount_table_offset h) (cluster_bits h) of
          Inl e \<Rightarrow> Inl e
        | Inr _ \<Rightarrow> (case offset_is_cluster_boundary (snapshots_offset h) (cluster_bits h) of
          Inl e \<Rightarrow> Inl e
        | Inr _ \<Rightarrow> Inr cluster_size))))"

text \<open>The tables are read with the file inside the raw file, which the image then keeps.\<close>

definition open_tables :: "qcow_header \<Rightarrow> u64 \<Rightarrow> (qcow_raw_file, qcow_error + u64 list \<times> refcount) io" where
  "open_tables h cluster_size =
     (let l2_size = cluster_size div 8;
          num_clusters = div_round_up (disk_size h) cluster_size;
          num_l2_clusters = div_round_up num_clusters l2_size
      in res_bind (err_map ReadingHeader
           (read_pointer_table (l1_table_offset h) num_l2_clusters (Some 0x00fffffffffffe00))) (\<lambda>l1.
         let num_clusters = ucast (div_round_up (disk_size h) cluster_size) :: u32;
             refcount_clusters = max_refcount_clusters (refcount_order h) (ucast cluster_size) num_clusters;
             refcount_block_entries = cluster_size * 8 div 16
         in res_bind (err_map ReadingRefCountTable
              (rc_new (h_refcount_table_offset h) refcount_clusters refcount_block_entries cluster_size)) (\<lambda>rc.
            res_return (l1, rc))))"

text \<open>\<^verbatim>\<open>QcowFile::from\<close> takes the file and returns the image.\<close>

definition qcow_from :: "host_file \<Rightarrow> (qcow_error + qcow_file) outcome" where
  "qcow_from f =
     outcome_bind (header_new f) (\<lambda>(r, f).
     case r of
       Inl _ \<Rightarrow> Return (Inl (ReadingHeader Host_io))
     | Inr (Inl e) \<Rightarrow> Return (Inl e)
     | Inr (Inr h) \<Rightarrow>
       (case check_header h of
          Inl e \<Rightarrow> Return (Inl e)
        | Inr cluster_size \<Rightarrow>
          (case rf_from f cluster_size of
             None \<Rightarrow> Return (Inl InvalidClusterSize)
           | Some rf \<Rightarrow>
             outcome_bind (open_tables h cluster_size rf) (\<lambda>(r, rf).
             case r of
               Inl _ \<Rightarrow> Return (Inl (ReadingHeader Host_io))
             | Inr (Inl e) \<Rightarrow> Return (Inl e)
             | Inr (Inr (l1, rc)) \<Rightarrow>
                 let q = \<lparr>raw_file = rf, header = h, l1_table = l1, l2_entries = cluster_size div 8,
                           l2_cache = cache_new 100, refcounts = rc, current_offset = 0,
                           unref_clusters = [], avail_clusters = []\<rparr>
                 in if checked_add (l1_table_offset h) (l1_address_offset q (virtual_size q)) = None
                    then Return (Inl InvalidL1TableOffset)
                    else if checked_add (h_refcount_table_offset h) (ucast (refcount_table_clusters h) * cluster_size) = None
                    then Return (Inl InvalidRefcountTableOffset)
                    else Return (Inr q)))))"

section \<open>Tables and clusters\<close>

definition read_l2_cluster :: "u64 \<Rightarrow> (qcow_raw_file, u64 list) io" where
  "read_l2_cluster cluster_addr =
     io_bind (read_pointer_cluster cluster_addr None) (\<lambda>file_values.
     if list_ex (\<lambda>entry. entry AND push_bit 62 1 \<noteq> 0) file_values then io_fail Enotsup
     else io_return (map (\<lambda>entry. entry AND 0x00fffffffffffe00) file_values))"

definition l2_insert :: "(nat list \<Rightarrow> nat list) \<Rightarrow> nat \<Rightarrow> u64 vec_cache \<Rightarrow> unit q_io" where
  "l2_insert order l1_index table =
     io_bind (io_get l1_table) (\<lambda>l1.
     io_on (\<lambda>q. (l2_cache q, raw_file q)) (\<lambda>(c, rf) q. q\<lparr>l2_cache := c, raw_file := rf\<rparr>)
       (cache_insert order l1_index table (\<lambda>i evicted.
          io_bind (io_unwrap (nth_opt l1 i)) (\<lambda>addr. write_pointer_table addr (vc_get_values evicted) (push_bit 63 1)))))"

text \<open>Reading an L2 table into the cache, as three of the operations do.\<close>

definition l2_load :: "(nat list \<Rightarrow> nat list) \<Rightarrow> nat \<Rightarrow> u64 \<Rightarrow> unit q_io" where
  "l2_load order l1_index l2_addr_disk =
     io_bind (io_get (\<lambda>q. cache_contains (l2_cache q) l1_index)) (\<lambda>cached.
     if cached then io_return ()
     else io_bind (on_qraw (read_l2_cluster l2_addr_disk)) (\<lambda>table.
       l2_insert order l1_index (vc_from_vec table)))"

definition l2_get :: "nat \<Rightarrow> nat \<Rightarrow> u64 q_io" where
  "l2_get l1_index l2_index =
     io_bind (io_get (\<lambda>q. cache_get (l2_cache q) l1_index)) (\<lambda>t. io_bind (io_unwrap t) (\<lambda>table.
     io_unwrap (vc_index table l2_index)))"

definition l2_set :: "nat \<Rightarrow> nat \<Rightarrow> u64 \<Rightarrow> unit q_io" where
  "l2_set l1_index l2_index addr =
     io_bind (io_get (\<lambda>q. cache_get (l2_cache q) l1_index)) (\<lambda>t. io_bind (io_unwrap t) (\<lambda>table.
     io_bind (io_unwrap (vc_index_mut l2_index addr table)) (\<lambda>table'.
     io_modify (\<lambda>q. q\<lparr>l2_cache := cache_set l1_index table' (l2_cache q)\<rparr>))))"

definition get_new_cluster :: "u64 q_io" where
  "get_new_cluster =
     io_bind (io_get id) (\<lambda>q.
     if avail_clusters q \<noteq> [] then
       let free_cluster = last (avail_clusters q) in
       io_bind (io_modify (\<lambda>q. q\<lparr>avail_clusters := butlast (avail_clusters q)\<rparr>)) (\<lambda>_.
       io_bind (on_host (file_seek free_cluster)) (\<lambda>_.
       io_bind (on_host (write_zeroes (rf_cluster_size (raw_file q)))) (\<lambda>_.
       io_return free_cluster)))
     else on_qraw add_cluster_end)"

text \<open>
  The loop of \<^verbatim>\<open>set_cluster_refcount\<close>: the clusters it allocated and the blocks it freed.
\<close>

fun set_refcount_loop ::
  "nat \<Rightarrow> (nat list \<Rightarrow> nat list) \<Rightarrow> u64 \<Rightarrow> u16 \<Rightarrow> (u64 \<times> u16 vec_cache) option \<Rightarrow> u64 list \<Rightarrow> (u64 list \<times> u64 list) q_io" where
  "set_refcount_loop 0 order address refcount new_cluster added = io_panic"
| "set_refcount_loop (Suc n) order address refcount new_cluster added =
     io_bind (on_rc (rc_set_cluster_refcount order address refcount new_cluster)) (\<lambda>r.
     case r of
       Inr None \<Rightarrow> io_return (added, [])
     | Inr (Some freed_cluster) \<Rightarrow> io_return (added, [freed_cluster])
     | Inl (EvictingRefCounts e) \<Rightarrow> io_fail e
     | Inl InvalidIndex \<Rightarrow> io_fail Einval
     | Inl (NeedCluster addr) \<Rightarrow>
         io_bind (on_qraw (read_refcount_block addr)) (\<lambda>block.
         set_refcount_loop n order address refcount (Some (addr, vc_from_vec block)) added)
     | Inl NeedNewCluster \<Rightarrow>
         io_bind get_new_cluster (\<lambda>addr.
         io_bind (io_get (\<lambda>q. refcounts_per_block (refcounts q))) (\<lambda>per_block.
         set_refcount_loop n order address refcount (Some (addr, vc_new (unat per_block))) (added @ [addr])))
     | Inl (ReadingRefCounts e) \<Rightarrow> io_fail e)"

fun set_refcount_rec :: "nat \<Rightarrow> (nat list \<Rightarrow> nat list) \<Rightarrow> u64 \<Rightarrow> u16 \<Rightarrow> u64 list q_io"
  and set_refcount_added :: "nat \<Rightarrow> (nat list \<Rightarrow> nat list) \<Rightarrow> u64 list \<Rightarrow> unit q_io" where
  "set_refcount_rec 0 order address refcount = io_panic"
| "set_refcount_rec (Suc n) order address refcount =
     io_bind (set_refcount_loop 3 order address refcount None []) (\<lambda>(added, unref).
     io_bind (set_refcount_added n order added) (\<lambda>_. io_return unref))"
| "set_refcount_added n order [] = io_return ()"
| "set_refcount_added n order (addr # addrs) =
     io_bind (set_refcount_rec n order addr 1) (\<lambda>_. set_refcount_added n order addrs)"

text \<open>Every nested call takes a cluster from the free list or the end of the file.\<close>

definition set_cluster_refcount :: "(nat list \<Rightarrow> nat list) \<Rightarrow> u64 \<Rightarrow> u16 \<Rightarrow> u64 list q_io" where
  "set_cluster_refcount order address refcount =
     io_bind (io_get (\<lambda>q. length (avail_clusters q) + 4)) (\<lambda>n. set_refcount_rec n order address refcount)"

definition append_unref :: "u64 list \<Rightarrow> unit q_io" where
  "append_unref cs = io_modify (\<lambda>q. q\<lparr>unref_clusters := unref_clusters q @ cs\<rparr>)"

definition append_data_cluster :: "(nat list \<Rightarrow> nat list) \<Rightarrow> u64 q_io" where
  "append_data_cluster order =
     io_bind get_new_cluster (\<lambda>new_addr.
     io_bind (set_cluster_refcount order new_addr 1) (\<lambda>newly_unref.
     io_bind (append_unref newly_unref) (\<lambda>_. io_return new_addr)))"

definition set_l1 :: "nat \<Rightarrow> u64 \<Rightarrow> unit q_io" where
  "set_l1 i addr =
     io_bind (io_get l1_table) (\<lambda>l1.
     if i < length l1 then io_modify (\<lambda>q. q\<lparr>l1_table := (l1_table q)[i := addr]\<rparr>) else io_panic)"

text \<open>The list of refcounts to set, which the caller passes as a reference, is returned.\<close>

definition update_cluster_addr ::
  "nat \<Rightarrow> nat \<Rightarrow> u64 \<Rightarrow> (u64 \<times> u16) list \<Rightarrow> ((u64 \<times> u16) list) q_io" where
  "update_cluster_addr l1_index l2_index cluster_addr set_refcounts =
     io_bind (io_get (\<lambda>q. cache_get (l2_cache q) l1_index)) (\<lambda>t. io_bind (io_unwrap t) (\<lambda>table.
     io_bind
       (if \<not> vc_dirty table then
          io_bind (io_get (\<lambda>q. nth_opt (l1_table q) l1_index)) (\<lambda>a. io_bind (io_unwrap a) (\<lambda>addr.
          io_bind (if addr \<noteq> 0 then append_unref [addr] else io_return ()) (\<lambda>_.
          let set_refcounts = (if addr \<noteq> 0 then set_refcounts @ [(addr, 0)] else set_refcounts) in
          io_bind get_new_cluster (\<lambda>new_addr.
          io_bind (set_l1 l1_index new_addr) (\<lambda>_.
          io_return (set_refcounts @ [(new_addr, 1)]))))))
        else io_return set_refcounts) (\<lambda>set_refcounts.
     io_bind (l2_set l1_index l2_index cluster_addr) (\<lambda>_. io_return set_refcounts))))"

definition file_offset_read :: "(nat list \<Rightarrow> nat list) \<Rightarrow> u64 \<Rightarrow> u64 option q_io" where
  "file_offset_read order address =
     io_bind (io_get id) (\<lambda>q.
     if address \<ge> virtual_size q then io_fail Einval
     else
       let l1_index = unat (l1_table_index q address) in
       io_bind (io_opt Einval (nth_opt (l1_table q) l1_index)) (\<lambda>l2_addr_disk.
       if l2_addr_disk = 0 then io_return None
       else
         let l2_index = unat (l2_table_index q address) in
         io_bind (l2_load order l1_index l2_addr_disk) (\<lambda>_.
         io_bind (l2_get l1_index l2_index) (\<lambda>cluster_addr.
         if cluster_addr = 0 then io_return None
         else io_return (Some (cluster_addr + cluster_offset (raw_file q) address))))))"

fun set_refcounts_all :: "(nat list \<Rightarrow> nat list) \<Rightarrow> (u64 \<times> u16) list \<Rightarrow> unit q_io" where
  "set_refcounts_all order [] = io_return ()"
| "set_refcounts_all order ((addr, count) # rest) =
     io_bind (set_cluster_refcount order addr count) (\<lambda>newly_unref.
     io_bind (append_unref newly_unref) (\<lambda>_. set_refcounts_all order rest))"

text \<open>The L2 table of an address that is about to be written, in the cache.\<close>

definition l2_prepare :: "(nat list \<Rightarrow> nat list) \<Rightarrow> nat \<Rightarrow> u64 \<Rightarrow> ((u64 \<times> u16) list) q_io" where
  "l2_prepare order l1_index l2_addr_disk =
     io_bind (io_get id) (\<lambda>q.
     if cache_contains (l2_cache q) l1_index then io_return []
     else
       io_bind
         (if l2_addr_disk = 0 then
            io_bind get_new_cluster (\<lambda>new_addr.
            io_bind (set_l1 l1_index new_addr) (\<lambda>_.
            io_return ([(new_addr, 1)], vc_new (unat (l2_entries q)))))
          else
            io_bind (on_qraw (read_l2_cluster l2_addr_disk)) (\<lambda>table. io_return ([], vc_from_vec table)))
         (\<lambda>(set_refcounts, l2_table).
       io_bind (l2_insert order l1_index l2_table) (\<lambda>_. io_return set_refcounts)))"

definition file_offset_write :: "(nat list \<Rightarrow> nat list) \<Rightarrow> u64 \<Rightarrow> u64 q_io" where
  "file_offset_write order address =
     io_bind (io_get id) (\<lambda>q.
     if address \<ge> virtual_size q then io_fail Einval
     else
       let l1_index = unat (l1_table_index q address); l2_index = unat (l2_table_index q address) in
       io_bind (io_opt Einval (nth_opt (l1_table q) l1_index)) (\<lambda>l2_addr_disk.
       io_bind (l2_prepare order l1_index l2_addr_disk) (\<lambda>set_refcounts.
       io_bind (l2_get l1_index l2_index) (\<lambda>a.
       io_bind
         (if a = 0 then
            io_bind (append_data_cluster order) (\<lambda>cluster_addr.
            io_bind (update_cluster_addr l1_index l2_index cluster_addr set_refcounts) (\<lambda>set_refcounts.
            io_return (cluster_addr, set_refcounts)))
          else io_return (a, set_refcounts)) (\<lambda>(cluster_addr, set_refcounts).
       io_bind (set_refcounts_all order set_refcounts) (\<lambda>_.
       io_return (cluster_addr + cluster_offset (raw_file q) address)))))))"

definition deallocate_cluster :: "(nat list \<Rightarrow> nat list) \<Rightarrow> u64 \<Rightarrow> unit q_io" where
  "deallocate_cluster order address =
     io_bind (io_get id) (\<lambda>q.
     if address \<ge> virtual_size q then io_fail Einval
     else
       let l1_index = unat (l1_table_index q address); l2_index = unat (l2_table_index q address) in
       io_bind (io_opt Einval (nth_opt (l1_table q) l1_index)) (\<lambda>l2_addr_disk.
       if l2_addr_disk = 0 then io_return ()
       else
         io_bind (l2_load order l1_index l2_addr_disk) (\<lambda>_.
         io_bind (l2_get l1_index l2_index) (\<lambda>cluster_addr.
         if cluster_addr = 0 then io_return ()
         else
           io_bind (on_rc (get_cluster_refcount order cluster_addr)) (\<lambda>r.
           case r of
             Inl _ \<Rightarrow> io_fail Einval
           | Inr refcount \<Rightarrow>
               if refcount = 0 then io_fail Einval
               else
                 let new_refcount = refcount - 1 in
                 io_bind (set_cluster_refcount order cluster_addr new_refcount) (\<lambda>newly_unref.
                 io_bind (append_unref newly_unref) (\<lambda>_.
                 io_bind (l2_set l1_index l2_index 0) (\<lambda>_.
                 if new_refcount = 0 then
                   io_bind (io_get (\<lambda>q. rf_cluster_size (raw_file q))) (\<lambda>cluster_size.
                   io_bind (io_try (on_host (fallocate PunchHole True cluster_addr cluster_size))) (\<lambda>_. io_return ()))
                 else io_return ()))))))))"

fun sync_l2_from :: "nat list \<Rightarrow> unit q_io" where
  "sync_l2_from [] = io_return ()"
| "sync_l2_from (i # is) =
     io_bind (io_get id) (\<lambda>q.
     case cache_get (l2_cache q) i of
       None \<Rightarrow> sync_l2_from is
     | Some table \<Rightarrow>
         if vc_dirty table then
           io_bind (io_unwrap (nth_opt (l1_table q) i)) (\<lambda>addr.
           if addr \<noteq> 0 then
             io_bind (on_qraw (write_pointer_table addr (vc_get_values table) (push_bit 63 1))) (\<lambda>_.
             io_bind (io_modify (\<lambda>q. q\<lparr>l2_cache := cache_set i (vc_mark_clean table) (l2_cache q)\<rparr>)) (\<lambda>_.
             sync_l2_from is))
           else io_fail Einval)
         else sync_l2_from is)"

definition sync_caches :: "(nat list \<Rightarrow> nat list) \<Rightarrow> unit q_io" where
  "sync_caches order =
     io_bind (io_get (\<lambda>q. order (cache_keys (l2_cache q)))) (\<lambda>keys.
     io_bind (sync_l2_from keys) (\<lambda>_.
     io_bind (on_rc (flush_blocks order)) (\<lambda>_.
     io_bind (on_host file_sync) (\<lambda>_.
     io_bind (io_get id) (\<lambda>q.
     io_bind (on_qraw (write_pointer_table (l1_table_offset (header q)) (l1_table q) 0)) (\<lambda>_.
     io_bind (on_rc flush_table) (\<lambda>_.
     on_host file_sync)))))))"

text \<open>Dropping the image ignores errors.\<close>

definition qcow_drop :: "(nat list \<Rightarrow> nat list) \<Rightarrow> unit q_io" where
  "qcow_drop order = io_bind (io_try (sync_caches order)) (\<lambda>_. io_return ())"

section \<open>Creating an image\<close>

text \<open>The loop over the clusters of the header and the tables, with a number of rounds.\<close>

fun refcount_metadata :: "nat \<Rightarrow> (nat list \<Rightarrow> nat list) \<Rightarrow> u64 \<Rightarrow> u64 \<Rightarrow> u64 \<Rightarrow> unit q_io" where
  "refcount_metadata 0 order cluster_size cluster_addr end_cluster_addr =
     (if cluster_addr < end_cluster_addr then io_panic else io_return ())"
| "refcount_metadata (Suc n) order cluster_size cluster_addr end_cluster_addr =
     (if cluster_addr < end_cluster_addr then
        io_bind (set_cluster_refcount order cluster_addr 1) (\<lambda>unref.
        io_bind (append_unref unref) (\<lambda>_.
        refcount_metadata n order cluster_size (cluster_addr + cluster_size) end_cluster_addr))
      else io_return ())"

definition qcow_new :: "(nat list \<Rightarrow> nat list) \<Rightarrow> host_file \<Rightarrow> u64 \<Rightarrow> (qcow_error + qcow_file) outcome" where
  "qcow_new order f sz =
     (let h = create_for_size sz in
      outcome_bind (res_bind (err_map SeekingFile (file_seek 0)) (\<lambda>_. write_to h) f) (\<lambda>(r, f).
      case r of
        Inl _ \<Rightarrow> Return (Inl (WritingHeader Host_io))
      | Inr (Inl e) \<Rightarrow> Return (Inl e)
      | Inr (Inr _) \<Rightarrow>
          outcome_bind (qcow_from f) (\<lambda>r.
          case r of
            Inl e \<Rightarrow> Return (Inl e)
          | Inr q \<Rightarrow>
              let cluster_size = push_bit (unat (cluster_bits (header q)) mod 64) 1 :: u64;
                  refcount_table_base = h_refcount_table_offset (header q);
                  end_cluster_addr = refcount_table_base + ucast (refcount_table_clusters (header q)) * cluster_size
              in outcome_bind (err_map SettingRefcountRefcount
                   (refcount_metadata (unat (end_cluster_addr div cluster_size) + 1) order cluster_size 0 end_cluster_addr) q)
                 (\<lambda>(r, q). case r of
                    Inr (Inr _) \<Rightarrow> Return (Inr q)
                  | Inr (Inl e) \<Rightarrow> Return (Inl e)
                  | Inl e \<Rightarrow> Return (Inl (SettingRefcountRefcount e))))))"

section \<open>The disk\<close>

text \<open>
  \<^verbatim>\<open>Read\<close>: the bytes that are put at the front of the buffer. The loop gets as many rounds as
  there are bytes, since every round transfers at least one.
\<close>

fun read_loop :: "nat \<Rightarrow> (nat list \<Rightarrow> nat list) \<Rightarrow> u64 \<Rightarrow> usize \<Rightarrow> usize \<Rightarrow> u8 list q_io" where
  "read_loop 0 order address read_count nread = (if nread < read_count then io_panic else io_return [])"
| "read_loop (Suc n) order address read_count nread =
     (if nread < read_count then
        let curr_addr = address + nread in
        io_bind (file_offset_read order curr_addr) (\<lambda>file_offset.
        io_bind (io_get (\<lambda>q. limit_range_cluster q curr_addr (read_count - nread))) (\<lambda>count.
        io_bind
          (case file_offset of
             Some off \<Rightarrow> io_bind (on_host (file_seek off)) (\<lambda>_. on_host (file_read_exact (unat count)))
           | None \<Rightarrow> io_return (replicate (unat count) 0)) (\<lambda>bytes.
        io_bind (read_loop n order address read_count (nread + count)) (\<lambda>rest.
        io_return (bytes @ rest)))))
      else io_return [])"

definition qcow_read :: "(nat list \<Rightarrow> nat list) \<Rightarrow> usize \<Rightarrow> u8 list q_io" where
  "qcow_read order buf_len =
     io_bind (io_get id) (\<lambda>q.
     let address = current_offset q; read_count = limit_range_file q address buf_len in
     io_bind (read_loop (unat read_count) order address read_count 0) (\<lambda>bytes.
     io_bind (io_modify (\<lambda>q. q\<lparr>current_offset := current_offset q + read_count\<rparr>)) (\<lambda>_.
     io_return bytes)))"

datatype seek_from = Seek_start u64 | Seek_end int | Seek_current int

text \<open>The offsets are \<^verbatim>\<open>i64\<close>, whose least value cannot be negated.\<close>

definition seek_relative :: "u64 \<Rightarrow> int \<Rightarrow> u64 option" where
  "seek_relative base off =
     (if off < 0 then (if off = - (2 ^ 63) then None else checked_sub base (of_int (- off)))
      else checked_add base (of_int off))"

definition qcow_seek :: "seek_from \<Rightarrow> u64 q_io" where
  "qcow_seek pos =
     io_bind (io_get id) (\<lambda>q.
     let new_offset = (case pos of
           Seek_start off \<Rightarrow> Some off
         | Seek_end off \<Rightarrow> seek_relative (virtual_size q) off
         | Seek_current off \<Rightarrow> seek_relative (current_offset q) off)
     in case new_offset of
          Some off \<Rightarrow>
            if off \<le> virtual_size q then
              io_bind (io_modify (\<lambda>q. q\<lparr>current_offset := off\<rparr>)) (\<lambda>_. io_return off)
            else io_fail Einval
        | None \<Rightarrow> io_fail Einval)"

fun write_loop :: "nat \<Rightarrow> (nat list \<Rightarrow> nat list) \<Rightarrow> u64 \<Rightarrow> u8 list \<Rightarrow> usize \<Rightarrow> usize \<Rightarrow> unit q_io" where
  "write_loop 0 order address buf write_count nwritten = (if nwritten < write_count then io_panic else io_return ())"
| "write_loop (Suc n) order address buf write_count nwritten =
     (if nwritten < write_count then
        let curr_addr = address + nwritten in
        io_bind (file_offset_write order curr_addr) (\<lambda>off.
        io_bind (io_get (\<lambda>q. limit_range_cluster q curr_addr (write_count - nwritten))) (\<lambda>count.
        io_bind (on_host (file_seek off)) (\<lambda>_.
        io_bind (on_host (file_write (slice (unat nwritten) (unat count) buf))) (\<lambda>_.
        write_loop n order address buf write_count (nwritten + count)))))
      else io_return ())"

definition qcow_write :: "(nat list \<Rightarrow> nat list) \<Rightarrow> u8 list \<Rightarrow> usize q_io" where
  "qcow_write order buf =
     io_bind (io_get id) (\<lambda>q.
     let address = current_offset q; write_count = limit_range_file q address (of_nat (length buf)) in
     io_bind (write_loop (unat write_count) order address buf write_count 0) (\<lambda>_.
     io_bind (io_modify (\<lambda>q. q\<lparr>current_offset := current_offset q + write_count\<rparr>)) (\<lambda>_.
     io_return write_count)))"

definition qcow_flush :: "(nat list \<Rightarrow> nat list) \<Rightarrow> unit q_io" where
  "qcow_flush order =
     io_bind (sync_caches order) (\<lambda>_.
     io_modify (\<lambda>q. q\<lparr>avail_clusters := avail_clusters q @ unref_clusters q, unref_clusters := []\<rparr>))"

fun zero_loop :: "nat \<Rightarrow> (nat list \<Rightarrow> nat list) \<Rightarrow> u64 \<Rightarrow> usize \<Rightarrow> usize \<Rightarrow> unit q_io" where
  "zero_loop 0 order address write_count nwritten = (if nwritten < write_count then io_panic else io_return ())"
| "zero_loop (Suc n) order address write_count nwritten =
     (if nwritten < write_count then
        let curr_addr = address + nwritten in
        io_bind (io_get id) (\<lambda>q.
        let count = limit_range_cluster q curr_addr (write_count - nwritten) in
        io_bind
          (if count = rf_cluster_size (raw_file q) then deallocate_cluster order curr_addr
           else
             io_bind (file_offset_read order curr_addr) (\<lambda>file_offset.
             case file_offset of
               None \<Rightarrow> io_return ()
             | Some off \<Rightarrow>
                 io_bind (on_host (file_seek off)) (\<lambda>_.
                 io_bind (on_host (write_zeroes count)) (\<lambda>_. io_return ())))) (\<lambda>_.
        zero_loop n order address write_count (nwritten + count)))
      else io_return ())"

definition qcow_write_zeroes :: "(nat list \<Rightarrow> nat list) \<Rightarrow> usize \<Rightarrow> usize q_io" where
  "qcow_write_zeroes order len =
     io_bind (io_get id) (\<lambda>q.
     let address = current_offset q; write_count = limit_range_file q address len in
     io_bind (zero_loop (unat write_count) order address write_count 0) (\<lambda>_.
     io_bind (io_modify (\<lambda>q. q\<lparr>current_offset := current_offset q + len\<rparr>)) (\<lambda>_.
     io_return len)))"

text \<open>The first cluster of the file without a reference, for the tests of the code.\<close>

fun first_zero_loop :: "nat \<Rightarrow> (nat list \<Rightarrow> nat list) \<Rightarrow> u64 \<Rightarrow> u64 \<Rightarrow> u64 \<Rightarrow> (refcount_error + u64 option) q_io" where
  "first_zero_loop 0 order cluster_size file_size cluster_addr =
     (if cluster_addr < file_size then io_panic else io_return (Inr None))"
| "first_zero_loop (Suc n) order cluster_size file_size cluster_addr =
     (if cluster_addr < file_size then
        io_bind (on_rc (get_cluster_refcount order cluster_addr)) (\<lambda>r.
        case r of
          Inl e \<Rightarrow> io_return (Inl e)
        | Inr c \<Rightarrow>
            if c = 0 then io_return (Inr (Some cluster_addr))
            else first_zero_loop n order cluster_size file_size (cluster_addr + cluster_size))
      else io_return (Inr None))"

definition first_zero_refcount :: "(nat list \<Rightarrow> nat list) \<Rightarrow> (qcow_error + u64 option) q_io" where
  "first_zero_refcount order =
     res_bind (err_map GettingFileSize (on_host file_len)) (\<lambda>file_size.
     io_bind (io_get (\<lambda>q. push_bit (unat (cluster_bits (header q)) mod 64) 1 :: u64)) (\<lambda>cluster_size.
     io_bind (first_zero_loop (unat (file_size div cluster_size) + 1) order cluster_size file_size 0) (\<lambda>r.
     io_return (case r of Inl e \<Rightarrow> Inl (GettingRefcount e) | Inr x \<Rightarrow> Inr x))))"

end
