(* ===== verification/Qcow_Header.thy ===== *)
theory Qcow_Header
  imports Qcow
begin

text \<open>
  Properties of the header of an image: writing and reading it, the layout of a new image,
  and headers of hostile images.
\<close>

section \<open>Writing and reading the header\<close>

text \<open>
  The bytes before the cursor were written over \<open>xs\<close>, the bytes after it are still to be read.
  With \<open>sure\<close> no system call fails.
\<close>

definition written :: "bool \<Rightarrow> u8 list \<Rightarrow> u8 list \<Rightarrow> host_file \<Rightarrow> bool" where
  "written sure xs bs f \<longleftrightarrow> (sure \<longrightarrow> answers f = []) \<and> contents f = file_put 0 bs xs \<and> cursor f = of_nat (length bs)"

definition unread :: "bool \<Rightarrow> u8 list \<Rightarrow> u8 list \<Rightarrow> host_file \<Rightarrow> bool" where
  "unread sure xs bs f \<longleftrightarrow>
     (sure \<longrightarrow> answers f = []) \<and> contents f = xs \<and> length xs < off_limit \<and> drop (unat (cursor f)) xs = bs"

lemma wp_syscall_works: "answers f = [] \<Longrightarrow> wp syscall Q E f = Q () f"
  by (simp add: wp_def syscall_def)

lemma wp_syscall_sure:
  assumes "sure \<longrightarrow> answers f = []" "\<And>as. (sure \<longrightarrow> as = []) \<Longrightarrow> Q () (f\<lparr>answers := as\<rparr>)"
    "\<And>as. \<not> sure \<Longrightarrow> E Host_io (f\<lparr>answers := as\<rparr>)"
  shows "wp syscall Q E f"
proof (cases sure)
  case True
  then show ?thesis using assms(1) assms(2) [of "[]"] by (cases f) (simp add: wp_syscall_works)
qed (use assms in \<open>auto intro: wp_syscall\<close>)

lemma wp_write_be_written:
  fixes w :: "'a::len word"
  assumes "written sure xs bs f" "length bs + LENGTH('a) div 8 < off_limit"
    "\<And>f'. written sure xs (bs @ to_be w) f' \<Longrightarrow> Q () f'" "\<And>e f'. \<not> sure \<Longrightarrow> E e f'"
  shows "wp (write_be w) Q E f"
proof -
  have c: "unat (cursor f) = length bs" using assms(1, 2) by (simp add: written_def unsigned_of_nat take_bit_nat_eq_self)
  have "file_put (length bs) (to_be w) (file_put 0 bs xs) = file_put 0 (bs @ to_be w) xs"
    using file_put_file_put [of bs "length bs" 0] by simp
  then show ?thesis
    unfolding write_be_def file_write_def wp_simps
    by (intro wp_syscall_sure) (use assms c in \<open>auto simp: wp_simps written_def\<close>)
qed

lemma wp_res_bind: "wp (res_bind m k) Q E = wp m (\<lambda>r. case r of Inl e \<Rightarrow> Q (Inl e) | Inr x \<Rightarrow> wp (k x) Q E) E"
proof -
  have "wp (case r of Inl e \<Rightarrow> res_fail e | Inr x \<Rightarrow> k x) Q E = (case r of Inl e \<Rightarrow> Q (Inl e) | Inr x \<Rightarrow> wp (k x) Q E)" for r
    by (cases r) (simp_all add: wp_simps)
  then show ?thesis by (simp add: res_bind_def wp_simps)
qed

lemma wp_err_map: "wp (err_map g m) Q E = wp m (\<lambda>x. Q (Inr x)) (\<lambda>e. Q (Inl (g e)))"
  by (simp add: err_map_def wp_simps)

lemma wp_read_num_unread:
  fixes w :: "'a::len word"
  assumes "unread sure xs (to_be w @ rest) f" "8 dvd LENGTH('a)" "\<And>f'. unread sure xs rest f' \<Longrightarrow> wp (k w) Q E f'"
    "\<And>e f'. \<not> sure \<Longrightarrow> contents f' = xs \<Longrightarrow> Q (Inl e) f'"
  shows "wp (res_bind read_header_num k) Q E f"
proof -
  let ?n = "LENGTH('a) div 8"
  have len: "length xs < off_limit" and d: "drop (unat (cursor f)) xs = to_be w @ rest" and c: "contents f = xs" "sure \<longrightarrow> answers f = []"
    using assms(1) by (auto simp: unread_def)
  then have "length xs - unat (cursor f) = ?n + length rest" by (metis length_append length_drop length_to_be)
  moreover have "0 < ?n" using assms(2) by (metis len_gt_0 dvd_div_eq_0_iff neq0_conv)
  ultimately have le: "unat (cursor f) + ?n \<le> length xs" by linarith
  then have cur: "unat (cursor f + of_nat ?n) = unat (cursor f) + ?n" using len by (intro unat_forward) simp
  have s: "slice (unat (cursor f)) ?n xs = to_be w" using d by (simp add: slice_def)
  have "drop (unat (cursor f) + ?n) xs = rest"
    using d by (metis add.commute append_eq_conv_conj drop_drop length_to_be)
  then have "unread sure xs rest (f\<lparr>answers := as, cursor := cursor f + of_nat ?n\<rparr>)" if "sure \<longrightarrow> as = []" for as
    using c len cur that by (simp add: unread_def)
  from assms(3) [OF this] show ?thesis
    unfolding wp_res_bind read_header_num_def wp_err_map read_be_def file_read_exact_def wp_simps
    by (intro wp_syscall_sure [OF c(2)]) (use assms(2, 4) le s c in \<open>simp_all add: wp_simps\<close>)
qed

definition header_bytes :: "qcow_header \<Rightarrow> u8 list" where
  "header_bytes h = to_be (magic h) @ to_be (version h) @ to_be (backing_file_offset h) @ to_be (backing_file_size h) @
     to_be (cluster_bits h) @ to_be (disk_size h) @ to_be (crypt_method h) @ to_be (l1_size h) @
     to_be (l1_table_offset h) @ to_be (h_refcount_table_offset h) @ to_be (refcount_table_clusters h) @
     to_be (nb_snapshots h) @ to_be (snapshots_offset h) @ to_be (incompatible_features h) @
     to_be (compatible_features h) @ to_be (autoclear_features h) @ to_be (refcount_order h) @ to_be (header_size h)"

lemma length_header_bytes: "length (header_bytes h) = 104"
  by (simp add: header_bytes_def)

lemma wp_header_bytes_writes:
  assumes "sure \<longrightarrow> answers f = []" "cursor f = 0" "\<And>f'. written sure (contents f) (header_bytes h) f' \<Longrightarrow> Q () f'"
    "\<And>e f'. \<not> sure \<Longrightarrow> E e f'"
  shows "wp (header_bytes_writes h) Q E f"
proof -
  have w: "written sure (contents f) [] f" using assms(1, 2) by (simp add: written_def file_put_def)
  show ?thesis
    unfolding header_bytes_writes_def wp_simps
    by (rule wp_write_be_written [OF w], simp, (erule wp_write_be_written, simp)+)
      (rule assms(3), simp add: header_bytes_def, (erule assms(4))+)
qed

lemma wp_header_new:
  assumes "magic h = 0x514649fb" "sure \<longrightarrow> answers f = []" "length (contents f) < off_limit" "take 104 (contents f) = header_bytes h"
  shows "wp header_new (\<lambda>r f'. (r = Inr h \<and> (sure \<longrightarrow> answers f' = []) \<or> \<not> sure \<and> isl r) \<and> contents f' = contents f) E f"
proof -
  let ?Q = "\<lambda>r f'. (r = Inr h \<and> (sure \<longrightarrow> answers f' = []) \<or> \<not> sure \<and> isl r) \<and> contents f' = contents f"
  have "contents f = header_bytes h @ drop 104 (contents f)" using assms(4) by (metis append_take_drop_id)
  then have u: "unread sure (contents f) (header_bytes h @ drop 104 (contents f)) (f\<lparr>answers := as, cursor := 0\<rparr>)"
    if "sure \<longrightarrow> as = []" for as
    using that assms(3) by (simp add: unread_def)
  have err: "?Q (Inl e) f'" if "\<not> sure" "contents f' = contents f" for e :: qcow_error and f' using that by simp
  have first: "wp (res_bind read_header_num (\<lambda>m. if m \<noteq> 0x514649fb then res_fail InvalidMagic else k m)) ?Q E f'"
    if "unread sure (contents f) (to_be (magic h) @ rest) f'" "\<And>f''. unread sure (contents f) rest f'' \<Longrightarrow> wp (k (magic h)) ?Q E f''" for rest f' k
    by (rule wp_read_num_unread [OF that(1)]) (use that(2) assms(1) err in auto)
  have seek: "wp (res_bind (err_map ReadingHeader (file_seek 0)) k) ?Q E f"
    if "\<And>as. (sure \<longrightarrow> as = []) \<Longrightarrow> wp (k 0) ?Q E (f\<lparr>answers := as, cursor := 0\<rparr>)" for k
    unfolding wp_res_bind wp_err_map file_seek_def wp_simps
    by (intro wp_syscall_sure [OF assms(2)]) (use that in \<open>simp_all add: wp_simps\<close>)
  show ?thesis
    unfolding header_new_def
    by (rule seek, drule u, unfold header_bytes_def append_assoc, erule first, (erule wp_read_num_unread, simp)+)
      (auto simp: wp_simps unread_def)
qed


definition example_header :: qcow_header where
  "example_header = create_for_size 0x100000"

lemma div_round_up_unat:
  fixes a b :: "'a::len word"
  assumes "b \<noteq> 0" "unat a + unat b < 2 ^ LENGTH('a)"
  shows "unat (div_round_up a b) = (unat a + unat b - 1) div unat b"
proof -
  have "0 < unat b" using assms(1) by (simp add: unat_gt_0)
  then have "unat (a + b - 1) = unat a + unat b - 1"
    using assms(2) by (subst unat_sub_no_wrap) (simp_all add: unat_add_no_wrap word_le_nat_alt Suc_le_eq)
  then show ?thesis by (simp add: div_round_up_def unat_div)
qed

lemma example_header_fields:
  "magic example_header = 0x514649fb" "cluster_bits example_header = 16"
  "h_refcount_table_offset example_header = 0x20000" "refcount_table_clusters example_header = 1"
  by (simp_all add: example_header_def create_for_size_def Let_def div_round_up_def max_refcount_clusters_def)


section \<open>The layout of a new image\<close>

text \<open>The sizes that the header of a new image is computed from, for images of up to 4 TiB.\<close>

lemma create_sizes:
  assumes "0 < unat sz" "unat sz \<le> 2 ^ 42"
  defines "n \<equiv> (unat sz + 65535) div 65536"
  shows "unat (l1_size (create_for_size sz)) = (n + 8191) div 8192"
    "h_refcount_table_offset (create_for_size sz) = 0x20000"
    "refcount_table_clusters (create_for_size sz) = 1"
    "unat (max_refcount_clusters 4 0x10000 (ucast (div_round_up sz 0x10000))) = (2 * n + 65535) div 65536 + 1"
proof -
  have n: "0 < n" "n \<le> 2 ^ 26" using assms by auto
  define c where "c = (ucast (div_round_up sz 0x10000) :: u32)"
  have "unat (div_round_up sz 0x10000) = n" using assms by (subst div_round_up_unat) simp_all
  then have c: "unat c = n" using n by (simp add: c_def unsigned_ucast_eq take_bit_nat_eq_self)
  have l2: "unat (div_round_up c 8192) = (n + 8191) div 8192" using c n by (subst div_round_up_unat) simp_all
  have "unat (div_round_up (div_round_up c 8192) 0x10000) = ((n + 8191) div 8192 + 65535) div 65536"
    using l2 n by (subst div_round_up_unat) simp_all
  also have "\<dots> = 1" using n by simp
  finally have l1: "div_round_up (div_round_up c 8192) 0x10000 = 1" by (simp add: word_unat_eq_iff)
  have c2: "unat (c * 2) = 2 * n" using c n by (simp add: unat_word_ariths)
  have fd: "unat (div_round_up (c * 2) 0x10000) = (2 * n + 65535) div 65536" (is "_ = ?fd")
    using c2 n by (subst div_round_up_unat) simp_all
  have fd_le: "?fd \<le> 2048" using n by simp
  have "unat (div_round_up (c * 2) 0x10000 * 2) = 2 * ?fd" using fd fd_le by (simp add: unat_word_ariths)
  then have "unat (div_round_up (div_round_up (c * 2) 0x10000 * 2) 0x10000) = (2 * ?fd + 65535) div 65536"
    using fd_le by (subst div_round_up_unat) simp_all
  also have "\<dots> = 1" using n fd_le by simp
  finally have fr: "div_round_up (div_round_up (c * 2) 0x10000 * 2) 0x10000 = 1" by (simp add: word_unat_eq_iff)
  have mx: "max_refcount_clusters 4 0x10000 c = ucast (div_round_up (c * 2) 0x10000) + 1"
    by (simp add: max_refcount_clusters_def Let_def fr)
  have "unat (ucast (max_refcount_clusters 4 0x10000 c) :: u32) = ?fd + 1"
    unfolding mx using fd fd_le by (simp add: unat_word_ariths unsigned_ucast_eq take_bit_nat_eq_self)
  then have "unat (ucast (max_refcount_clusters 4 0x10000 c) * 8 :: u32) = 8 * (?fd + 1)"
    using fd_le by (simp add: unat_word_ariths)
  then have "unat (div_round_up (ucast (max_refcount_clusters 4 0x10000 c) * 8) 0x10000 :: u32) = (8 * (?fd + 1) + 65535) div 65536"
    using fd_le by (subst div_round_up_unat) simp_all
  also have "\<dots> = 1" using fd_le by simp
  finally have rt: "(div_round_up (ucast (max_refcount_clusters 4 0x10000 c) * 8) 0x10000 :: u32) = 1"
    by (simp add: word_unat_eq_iff)
  note defs = create_for_size_def Let_def c_def [symmetric]
  show "unat (l1_size (create_for_size sz)) = (n + 8191) div 8192" using l2 by (simp add: defs)
  show "h_refcount_table_offset (create_for_size sz) = 0x20000" using l1 by (simp add: defs)
  show "refcount_table_clusters (create_for_size sz) = 1" using rt by (simp add: defs)
  show "unat (max_refcount_clusters 4 0x10000 (ucast (div_round_up sz 0x10000))) = ?fd + 1"
    unfolding c_def [symmetric] mx using fd fd_le by (simp add: unat_word_ariths unsigned_ucast_eq take_bit_nat_eq_self)
qed

text \<open>
  C38. The layout of a new image of up to 4 TiB: the header passes the checks made when an
  image is opened, the L1 table has an entry for every L2 table that the size needs, and the
  header, the L1 table and the refcount table do not overlap.
\<close>

theorem new_image_layout:
  assumes "0 < unat sz" "unat sz \<le> 2 ^ 42"
  shows "check_header (create_for_size sz) = Inr 0x10000 \<and>
    unat sz \<le> unat (l1_size (create_for_size sz)) * 8192 * 65536 \<and>
    104 \<le> unat (l1_table_offset (create_for_size sz)) \<and>
    unat (l1_table_offset (create_for_size sz)) + 8 * unat (l1_size (create_for_size sz))
      \<le> unat (h_refcount_table_offset (create_for_size sz))"
proof -
  note sizes = create_sizes [OF assms]
  have "l1_table_offset (create_for_size sz) = 0x10000" by (simp add: create_for_size_def Let_def)
  moreover have "check_header (create_for_size sz) = Inr 0x10000"
    using sizes(2, 3) by (simp add: check_header_def offset_is_cluster_boundary_def Let_def)
      (simp add: create_for_size_def Let_def)
  moreover have "x \<le> 536870912 * (((x + 65535) div 65536 + 8191) div 8192)" for x :: nat
  proof -
    have ceil: "y \<le> d * ((y + (d - 1)) div d)" if "0 < d" for y d :: nat
      using that mod_less_divisor [OF that, of "y + (d - 1)"] mult_div_mod_eq [of d "y + (d - 1)"] by linarith
    have "x \<le> 65536 * ((x + 65535) div 65536)" using ceil [of 65536 x] by simp
    also have "\<dots> \<le> 65536 * (8192 * (((x + 65535) div 65536 + 8191) div 8192))"
      using ceil [of 8192 "(x + 65535) div 65536"] by (intro mult_le_mono2) simp
    finally show ?thesis by simp
  qed
  moreover have "((x + 65535) div 65536 + 8191) div 8192 \<le> 8192" if "x \<le> 2 ^ 42" for x :: nat
    using that by simp
  ultimately show ?thesis using sizes(1, 2) assms by simp
qed

theorem new_image_layout_witness:
  "unat (l1_table_offset (create_for_size 0x100000)) + 8 * unat (l1_size (create_for_size 0x100000))
    \<le> unat (h_refcount_table_offset (create_for_size 0x100000))"
  using new_image_layout [of "0x100000"] by simp


section \<open>Hostile images\<close>

definition hostile_header :: qcow_header where
  "hostile_header = \<lparr>magic = 0x514649fb, version = 3, backing_file_offset = 0, backing_file_size = 0,
     cluster_bits = 3, disk_size = 2 ^ 63, crypt_method = 0, l1_size = 0, l1_table_offset = 104,
     h_refcount_table_offset = 104, refcount_table_clusters = 1, nb_snapshots = 0, snapshots_offset = 0,
     incompatible_features = 0, compatible_features = 0, autoclear_features = 0, refcount_order = 4, header_size = 104\<rparr>"

text \<open>
  C40. Opening an image can panic: a header of 104 bytes that claims clusters of eight bytes and
  a disk of \<open>2 ^ 63\<close> bytes passes all checks, and the vector for its L1 table exceeds the
  capacity of any vector.
\<close>

theorem hostile_image_panics:
  "qcow_from \<lparr>contents = header_bytes hostile_header, cursor = 0, answers = []\<rparr> = Panic"
proof -
  let ?f = "\<lparr>contents = header_bytes hostile_header, cursor = 0, answers = []\<rparr> :: host_file"
  have "wp header_new (\<lambda>r _. r = Inr hostile_header) (\<lambda>_ _. False) ?f"
    by (rule wp_mono [OF wp_header_new [of hostile_header True]]) (auto simp: hostile_header_def length_header_bytes)
  then obtain f' where f': "header_new ?f = Return (Inr (Inr hostile_header), f')" by (auto simp: wp_Return)
  have chk: "check_header hostile_header = Inr 8"
    by (simp add: check_header_def hostile_header_def offset_is_cluster_boundary_def Let_def)
  have "open_tables hostile_header 8 rf = Panic" for rf
    by (simp add: open_tables_def hostile_header_def res_bind_def err_map_def io_bind_def io_try_def
        read_pointer_table_def div_round_up_def io_panic_def)
  then show ?thesis
    using f' chk by (simp add: qcow_from_def rf_from_def power_of_two_eval)
qed

end
