(* ===== verification/Qcow_Clusters.thy ===== *)
theory Qcow_Clusters
  imports Qcow_Header
begin

text \<open>
  How an image uses the clusters of its file: every cluster has at most one use, as an L2
  table, a data cluster, a refcount block or a free cluster. The theory shows that
  allocation and the reference counts keep this invariant and do not touch the clusters of
  the disk, and that the recursion of \<^verbatim>\<open>set_cluster_refcount\<close> ends.
\<close>

section \<open>Addresses\<close>

abbreviation entry_mask :: u64 where
  "entry_mask \<equiv> 0x00fffffffffffe00"

text \<open>Numbers of entries in a cluster of \<open>2 ^ k\<close> bytes.\<close>

abbreviation l2_len :: "nat \<Rightarrow> nat" where
  "l2_len k \<equiv> 2 ^ k div 8"

abbreviation rb_len :: "nat \<Rightarrow> nat" where
  "rb_len k \<equiv> 2 ^ k div 2"

definition in_cluster :: "nat \<Rightarrow> nat \<Rightarrow> nat \<Rightarrow> bool" where
  "in_cluster k c x \<longleftrightarrow> c \<noteq> 0 \<and> c \<le> x \<and> x < c + 2 ^ k"

lemma in_cluster_unique:
  assumes "in_cluster k c x" "in_cluster k d x" "2 ^ k dvd c" "2 ^ k dvd d"
  shows "c = d"
proof -
  obtain m n where mn: "c = 2 ^ k * m" "d = 2 ^ k * n" using assms(3, 4) by (auto elim!: dvdE)
  have "2 ^ k * m < 2 ^ k * (n + 1)" "2 ^ k * n < 2 ^ k * (m + 1)"
    using assms(1, 2) by (auto simp: in_cluster_def mn)
  then have "m < n + 1" "n < m + 1" by (simp_all only: mult_less_cancel1)
  then show ?thesis by (simp add: mn)
qed

lemma cached_view_cong:
  "(\<And>i. cache_get c i = None \<Longrightarrow> load f i = load' f' i) \<Longrightarrow> cached_view load c f = cached_view load' c f'"
  by (auto simp: cached_view_def fun_eq_iff split: option.splits)

section \<open>Reference counts\<close>

text \<open>The cache holds blocks that have a cluster, of the right length.\<close>

definition rc_inv :: "nat \<Rightarrow> refcount \<Rightarrow> bool" where
  "rc_inv k rc \<longleftrightarrow> unat (refcount_block_entries rc) = rb_len k \<and> rc_cluster_size rc = 2 ^ k \<and>
     length (ref_table rc) * rb_len k * 2 ^ k \<le> 2 ^ 56 \<and> cache_wf (refblock_cache rc) \<and> 0 < capacity (refblock_cache rc) \<and>
     (\<forall>t v. cache_get (refblock_cache rc) t = Some v \<longrightarrow>
       t < length (ref_table rc) \<and> ref_table rc ! t \<noteq> 0 \<and> length (vc_vec v) = rb_len k)"

definition rc_block :: "nat \<Rightarrow> nat \<Rightarrow> nat" where
  "rc_block k a = a div 2 ^ k div rb_len k"

lemma get_refcount_index_eq:
  assumes "rc_inv k rc" "3 \<le> k" "k \<le> 30"
  shows "get_refcount_index rc a = (rc_block k (unat a), unat a div 2 ^ k mod rb_len k)"
  using assms by (simp add: get_refcount_index_def rc_inv_def rc_block_def unat_div unat_mod unat_pow2)

text \<open>The bytes outside the clusters of a table stay as they are.\<close>

definition tab_frame :: "nat \<Rightarrow> u64 list \<Rightarrow> qcow_raw_file \<Rightarrow> qcow_raw_file \<Rightarrow> bool" where
  "tab_frame k rt rf rf' \<longleftrightarrow> rf_ok k rf' \<and> rlen rf' = rlen rf \<and>
     (\<forall>x. (\<forall>c \<in> set rt. \<not> in_cluster k (unat c) x) \<longrightarrow> rbyte rf' x = rbyte rf x)"

lemma tab_frame_refl: "rf_ok k rf \<Longrightarrow> tab_frame k rt rf rf"
  by (simp add: tab_frame_def)

lemma tab_frame_contents:
  "rf_ok k rf \<Longrightarrow> contents f = contents (rf_file rf) \<Longrightarrow> tab_frame k rt rf (rf\<lparr>rf_file := f\<rparr>)"
  by (simp add: tab_frame_def rf_ok_def)

text \<open>The clusters of a table lie inside the file, and no two are the same.\<close>

definition tab_placed :: "nat \<Rightarrow> u64 list \<Rightarrow> nat \<Rightarrow> bool" where
  "tab_placed k rt n \<longleftrightarrow> (\<forall>c \<in> set rt. c \<noteq> 0 \<longrightarrow> 2 ^ k dvd unat c \<and> unat c + 2 ^ k \<le> n) \<and>
     (\<forall>i < length rt. \<forall>j < length rt. rt ! i \<noteq> 0 \<longrightarrow> rt ! i = rt ! j \<longrightarrow> i = j)"

definition rb_disk :: "nat \<Rightarrow> u64 list \<Rightarrow> qcow_raw_file \<Rightarrow> nat \<Rightarrow> u16 list" where
  "rb_disk k rt rf t =
     (if t < length rt \<and> rt ! t \<noteq> 0 then be_table (unat (rt ! t)) (rb_len k) (rbyte rf) else replicate (rb_len k) 0)"

definition rb_store :: "u64 list \<Rightarrow> nat \<Rightarrow> u16 vec_cache \<Rightarrow> (qcow_raw_file, unit) io" where
  "rb_store rt t v = io_bind (io_unwrap (nth_opt rt t)) (\<lambda>addr. write_refcount_block addr (vc_get_values v))"

lemma length_rb_disk [simp]: "length (rb_disk k rt rf t) = rb_len k"
  by (simp add: rb_disk_def)

lemma rb_disk_cong:
  assumes "\<And>x. t < length rt \<Longrightarrow> in_cluster k (unat (rt ! t)) x \<Longrightarrow> rbyte rf' x = rbyte rf x" "3 \<le> k"
  shows "rb_disk k rt rf' t = rb_disk k rt rf t"
proof -
  have "2 * rb_len k = 2 ^ k" using assms(2) by (simp add: dvd_mult_div_cancel)
  then show ?thesis
    using assms(1) by (auto simp: rb_disk_def in_cluster_def unat_eq_zero intro!: be_table_cong)
qed

lemma wp_write_refcount_block:
  assumes "rf_ok k rf" "t < length rt" "rt ! t \<noteq> 0" "tab_placed k rt (rlen rf)" "length vs = rb_len k"
  shows "wp (write_refcount_block (rt ! t) vs)
    (\<lambda>_ rf'. tab_frame k rt rf rf' \<and> rb_disk k rt rf' = (rb_disk k rt rf)(t := vs)) (\<lambda>_ _. True) rf"
proof -
  let ?c = "unat (rt ! t)"
  have k: "3 \<le> k" using assms(1) by (simp add: rf_ok_def)
  then have two: "2 * rb_len k = 2 ^ k" by (simp add: dvd_mult_div_cancel)
  then have len: "length (be_bytes vs) = 2 ^ k" using assms(5) by simp
  have c: "?c \<noteq> 0" using assms(3) by (simp add: unat_eq_zero)
  have top: "?c + 2 ^ k \<le> rlen rf" using assms(2-4) by (auto simp: tab_placed_def)
  have "tab_frame k rt rf rf' \<and> rb_disk k rt rf' = (rb_disk k rt rf)(t := vs)"
    if put: "contents (rf_file rf') = file_put ?c (be_bytes vs) (contents (rf_file rf))" and "rf_ok k rf'" for rf'
  proof
    show "tab_frame k rt rf rf'"
      using that c assms(2) len top by (auto simp: tab_frame_def fbyte_file_put length_file_put_in in_cluster_def)
    have same: "rb_disk k rt rf' t = vs"
      using be_table_put [of ?c vs "contents (rf_file rf)"] assms(2, 3, 5) put by (simp add: rb_disk_def)
    have other: "rb_disk k rt rf' u = rb_disk k rt rf u" if "u \<noteq> t" for u
    proof (rule rb_disk_cong [OF _ k])
      fix x assume u: "u < length rt" and x: "in_cluster k (unat (rt ! u)) x"
      then have nz: "rt ! u \<noteq> 0" by (auto simp: in_cluster_def unat_eq_zero)
      have "rt ! u \<noteq> rt ! t" using assms(2, 4) u nz that by (auto simp: tab_placed_def)
      then have "\<not> in_cluster k ?c x"
        using in_cluster_unique [OF x] assms(2-4) u nz by (auto simp: tab_placed_def word_unat_eq_iff)
      then show "rbyte rf' x = rbyte rf x" using c len by (auto simp: put fbyte_file_put in_cluster_def)
    qed
    show "rb_disk k rt rf' = (rb_disk k rt rf)(t := vs)" using same other by auto
  qed
  then show ?thesis
    unfolding write_refcount_block_def by (intro wp_mono [OF wp_write_table [OF assms(1), of "rt ! t" vs]]) auto
qed

lemma tab_frame_trans: "tab_frame k rt rf rf' \<Longrightarrow> tab_frame k rt rf' rf'' \<Longrightarrow> tab_frame k rt rf rf''"
  by (auto simp: tab_frame_def)

text \<open>The blocks on disk are a store that the cache can write back to.\<close>

interpretation rb: write_back "rb_disk k rt" "rb_store rt"
  "\<lambda>rf'. rf_ok k rf' \<and> tab_frame k rt rf rf' \<and> tab_placed k rt (rlen rf)" "\<lambda>t. t < length rt \<and> rt ! t \<noteq> 0"
  "\<lambda>vs. length vs = rb_len k" for k rt rf
proof
  fix f :: qcow_raw_file and i :: nat and v :: "u16 vec_cache"
  assume a: "rf_ok k f \<and> tab_frame k rt rf f \<and> tab_placed k rt (rlen rf)" "i < length rt \<and> rt ! i \<noteq> 0"
    "length (vc_vec v) = rb_len k"
  then have "tab_placed k rt (rlen f)" by (simp add: tab_frame_def)
  from wp_write_refcount_block [OF _ _ _ this a(3), of i] a
  have "wp (write_refcount_block (rt ! i) (vc_vec v))
    (\<lambda>_ rf'. tab_frame k rt f rf' \<and> rb_disk k rt rf' = (rb_disk k rt f)(i := vc_vec v)) (\<lambda>_ _. True) f"
    by simp
  then show "wp (rb_store rt i v) (\<lambda>_ f'. (rf_ok k f' \<and> tab_frame k rt rf f' \<and> tab_placed k rt (rlen rf)) \<and>
      rb_disk k rt f' = (rb_disk k rt f)(i := vc_vec v)) (\<lambda>_ _. True) f"
    using a by (auto simp: rb_store_def wp_simps nth_opt_def vc_get_values_def elim!: wp_mono intro: tab_frame_trans)
      (simp add: tab_frame_def)
qed

lemma wp_read_refcount_block:
  assumes "rf_ok k rf"
  shows "wp (read_refcount_block c)
    (\<lambda>vs rf'. (\<exists>f. rf' = rf\<lparr>rf_file := f\<rparr> \<and> contents f = contents (rf_file rf)) \<and>
      vs = be_table (unat c) (rb_len k) (rbyte rf)) (\<lambda>_ _. True) rf"
proof -
  note sz = rf_ok_sizes [OF assms]
  have "wp (file_seek c) (\<lambda>_. wp (read_words (rb_len k))
      (\<lambda>ws f. contents f = contents (rf_file rf) \<and> ws = (be_table (unat c) (rb_len k) (rbyte rf) :: u16 list)) (\<lambda>_ _. True))
      (\<lambda>_ _. True) (rf_file rf)"
    by (rule wp_file_seek) (use assms in \<open>auto simp: rf_ok_def intro!: wp_mono [OF wp_read_words]\<close>)
  then show ?thesis
    using sz(4, 5) by (auto simp: read_refcount_block_def wp_simps Let_def elim!: wp_mono)
qed

definition rc_ok :: "nat \<Rightarrow> refcount \<Rightarrow> qcow_raw_file \<Rightarrow> bool" where
  "rc_ok k rc rf \<longleftrightarrow> rc_inv k rc \<and> rf_ok k rf \<and> tab_placed k (ref_table rc) (rlen rf) \<and>
     coherent (rb_disk k (ref_table rc)) (refblock_cache rc) rf"

text \<open>The counts, as they are seen through the cache.\<close>

definition rc_view :: "nat \<Rightarrow> refcount \<Rightarrow> qcow_raw_file \<Rightarrow> nat \<Rightarrow> u16 list" where
  "rc_view k rc rf = cached_view (rb_disk k (ref_table rc)) (refblock_cache rc) rf"

definition rc_count :: "nat \<Rightarrow> refcount \<Rightarrow> qcow_raw_file \<Rightarrow> u64 \<Rightarrow> u16" where
  "rc_count k rc rf a = rc_view k rc rf (rc_block k (unat a)) ! (unat a div 2 ^ k mod rb_len k)"

lemma rc_ok_bounds: "rc_ok k rc rf \<Longrightarrow> 3 \<le> k \<and> k \<le> 30"
  by (simp add: rc_ok_def rf_ok_def)

lemma refblock_insert_eq:
  "refblock_insert order t table =
     io_bind (io_get (\<lambda>(rc, _). ref_table rc)) (\<lambda>rt.
     io_on (\<lambda>(rc, rf). (refblock_cache rc, rf)) (\<lambda>(c, rf) (rc, _). (rc\<lparr>refblock_cache := c\<rparr>, rf))
       (cache_insert order t table (rb_store rt)))"
  by (simp add: refblock_insert_def rb_store_def [abs_def])

lemma wp_refblock_insert:
  assumes "rc_ok k rc rf" "is_order order" "cache_get (refblock_cache rc) t = None"
    "t < length (ref_table rc)" "ref_table rc ! t \<noteq> 0" "vc_vec table = rb_disk k (ref_table rc) rf t"
  shows "wp (refblock_insert order t table)
    (\<lambda>_ (rc', rf'). \<exists>c. rc' = rc\<lparr>refblock_cache := c\<rparr> \<and> rc_ok k rc' rf' \<and> tab_frame k (ref_table rc) rf rf' \<and>
      rc_view k rc' rf' = rc_view k rc rf \<and> cache_get c t = Some table)
    (\<lambda>_ _. True) (rc, rf)"
proof -
  let ?rt = "ref_table rc"
  have "wp (cache_insert order t table (rb_store ?rt))
    (\<lambda>_ (c', f'). (rf_ok k f' \<and> tab_frame k ?rt rf f' \<and> tab_placed k ?rt (rlen rf)) \<and> coherent (rb_disk k ?rt) c' f' \<and>
      cached_view (rb_disk k ?rt) c' f' = cached_view (rb_disk k ?rt) (refblock_cache rc) rf \<and>
      cache_get c' t = Some table \<and>
      (\<forall>j. j \<noteq> t \<longrightarrow> cache_get c' j = cache_get (refblock_cache rc) j \<or> cache_get c' j = None))
    (\<lambda>_ _. True) (refblock_cache rc, rf)"
    by (rule rb.insert_keeps_view) (use assms in \<open>auto simp: rc_ok_def rc_inv_def tab_frame_refl\<close>)
  moreover have "rc_ok k (rc\<lparr>refblock_cache := c'\<rparr>) f'"
    if "rf_ok k f'" "tab_frame k ?rt rf f'" "coherent (rb_disk k ?rt) c' f'" "cache_get c' t = Some table"
      "\<forall>j. j \<noteq> t \<longrightarrow> cache_get c' j = cache_get (refblock_cache rc) j \<or> cache_get c' j = None" for c' f'
  proof -
    have "i < length ?rt \<and> ?rt ! i \<noteq> 0 \<and> length (vc_vec v) = rb_len k" if "cache_get c' i = Some v" for i v
    proof (cases "i = t")
      case True
      then show ?thesis using that \<open>cache_get c' t = Some table\<close> assms(4-6) by simp
    next
      case False
      then have "cache_get (refblock_cache rc) i = Some v"
        using that \<open>\<forall>j. j \<noteq> t \<longrightarrow> _ j\<close> by (metis option.distinct(1))
      then show ?thesis using assms(1) by (auto simp: rc_ok_def rc_inv_def)
    qed
    then show ?thesis using that assms(1) by (auto simp: rc_ok_def rc_inv_def coherent_def tab_frame_def)
  qed
  ultimately show ?thesis
    by (auto simp: refblock_insert_eq wp_simps rc_view_def elim!: wp_mono)
qed

text \<open>Storing a count in a cached block, which may move to a new cluster at the same time.\<close>

definition put_count :: "nat \<Rightarrow> u16 \<Rightarrow> u16 vec_cache \<Rightarrow> u16 vec_cache" where
  "put_count j r v = v\<lparr>vc_dirty := True, vc_vec := (vc_vec v)[j := r]\<rparr>"

definition rc_put :: "nat \<Rightarrow> u64 \<Rightarrow> nat \<Rightarrow> u16 \<Rightarrow> u16 vec_cache \<Rightarrow> refcount \<Rightarrow> refcount" where
  "rc_put t addr j r v rc = rc\<lparr>ref_table := (ref_table rc)[t := addr],
     refblock_cache := cache_set t (put_count j r v) (refblock_cache rc)\<rparr>"

lemma rc_put_ok:
  assumes "rc_ok k rc rf" "cache_get (refblock_cache rc) t = Some v" "addr \<noteq> 0"
    "tab_placed k ((ref_table rc)[t := addr]) (rlen rf)"
  shows "rc_ok k (rc_put t addr j r v rc) rf"
    "rc_view k (rc_put t addr j r v rc) rf = (rc_view k rc rf)(t := (rc_view k rc rf t)[j := r])"
proof -
  let ?rt = "ref_table rc"
  have t: "t < length ?rt" "length (vc_vec v) = rb_len k"
    using assms(1, 2) by (auto simp: rc_ok_def rc_inv_def)
  have disk: "rb_disk k (?rt[t := addr]) rf i = rb_disk k ?rt rf i" if "i \<noteq> t" for i
    using that by (simp add: rb_disk_def)
  show "rc_ok k (rc_put t addr j r v rc) rf"
    using assms t disk by (auto simp: rc_ok_def rc_put_def rc_inv_def coherent_def put_count_def nth_list_update)
  show "rc_view k (rc_put t addr j r v rc) rf = (rc_view k rc rf)(t := (rc_view k rc rf t)[j := r])"
    using assms(2) disk by (auto simp: rc_view_def rc_put_def cached_view_def put_count_def fun_eq_iff split: option.splits)
qed

text \<open>The results of \<^verbatim>\<open>set_cluster_refcount\<close>, by what it finds and what it is given.\<close>

lemma rc_set_invalid:
  assumes "rc_ok k rc rf" "length (ref_table rc) \<le> rc_block k (unat a)"
  shows "rc_set_cluster_refcount order a r nc (rc, rf) = Return (Inr (Inl InvalidIndex), (rc, rf))"
  using assms get_refcount_index_eq [of k rc a] rc_ok_bounds [OF assms(1)]
  by (simp add: rc_ok_def rc_set_cluster_refcount_def io_bind_def io_get_def io_return_def nth_opt_def)

lemma rc_set_cached:
  assumes "rc_ok k rc rf" "rc_block k (unat a) < length (ref_table rc)"
    "cache_get (refblock_cache rc) (rc_block k (unat a)) = Some v"
  shows "rc_set_cluster_refcount order a r nc (rc, rf) =
    (if vc_dirty v then
       Return (Inr (Inr None), (rc_put (rc_block k (unat a)) (ref_table rc ! rc_block k (unat a)) (unat a div 2 ^ k mod rb_len k) r v rc, rf))
     else case nc of
       None \<Rightarrow> Return (Inr (Inl NeedNewCluster), (rc, rf))
     | Some (addr, _) \<Rightarrow>
         Return (Inr (Inr (Some (ref_table rc ! rc_block k (unat a)))),
           (rc_put (rc_block k (unat a)) addr (unat a div 2 ^ k mod rb_len k) r v rc, rf)))"
proof -
  have "0 < rb_len k" using rc_ok_bounds [OF assms(1)] power_increasing [of 3 k "2 :: nat"] by simp
  then have j: "unat a div 2 ^ k mod rb_len k < length (vc_vec v)"
    using assms(1, 3) by (simp add: rc_ok_def rc_inv_def)
  show ?thesis
    using assms j get_refcount_index_eq [of k rc a] rc_ok_bounds [OF assms(1)]
    by (simp add: rc_ok_def rc_set_cluster_refcount_def fill_refblock_def drop_refblock_def set_ref_table_def set_refblock_def
        io_bind_def io_get_def io_return_def io_modify_def io_unwrap_def nth_opt_def cache_contains_def vc_index_mut_def
        rc_put_def put_count_def split: option.splits)
qed

lemma rc_set_uncached:
  assumes "rc_ok k rc rf" "rc_block k (unat a) < length (ref_table rc)"
    "cache_get (refblock_cache rc) (rc_block k (unat a)) = None"
  shows "rc_set_cluster_refcount order a r None (rc, rf) =
    Return (Inr (Inl (if ref_table rc ! rc_block k (unat a) = 0 then NeedNewCluster
      else NeedCluster (ref_table rc ! rc_block k (unat a)))), (rc, rf))"
  using assms get_refcount_index_eq [of k rc a] rc_ok_bounds [OF assms(1)]
  by (simp add: rc_ok_def rc_set_cluster_refcount_def fill_refblock_def io_bind_def io_get_def io_return_def nth_opt_def cache_contains_def)

lemma rc_ok_table:
  assumes "rc_ok k rc rf" "cache_get (refblock_cache rc) t = None" "tab_placed k ((ref_table rc)[t := addr]) (rlen rf)"
    "rb_disk k ((ref_table rc)[t := addr]) rf t = rb_disk k (ref_table rc) rf t"
  shows "rc_ok k (rc\<lparr>ref_table := (ref_table rc)[t := addr]\<rparr>) rf"
    "rc_view k (rc\<lparr>ref_table := (ref_table rc)[t := addr]\<rparr>) rf = rc_view k rc rf"
proof -
  have disk: "rb_disk k ((ref_table rc)[t := addr]) rf = rb_disk k (ref_table rc) rf"
  proof
    fix x
    show "rb_disk k ((ref_table rc)[t := addr]) rf x = rb_disk k (ref_table rc) rf x"
      using assms(4) by (cases "x = t") (simp_all add: rb_disk_def)
  qed
  have "i \<noteq> t" if "cache_get (refblock_cache rc) i = Some v" for i v using that assms(2) by auto
  then show "rc_ok k (rc\<lparr>ref_table := (ref_table rc)[t := addr]\<rparr>) rf"
    using assms(1, 3) disk by (fastforce simp: rc_ok_def rc_inv_def coherent_def)
  show "rc_view k (rc\<lparr>ref_table := (ref_table rc)[t := addr]\<rparr>) rf = rc_view k rc rf"
    using cached_view_cong [of "refblock_cache rc" "rb_disk k ((ref_table rc)[t := addr])" rf "rb_disk k (ref_table rc)" rf] disk
    by (simp add: rc_view_def)
qed

lemma wp_rc_set_filled:
  assumes ok: "rc_ok k rc rf" and order: "is_order order" and t: "t = rc_block k (unat a)" "t < length (ref_table rc)"
    and un: "cache_get (refblock_cache rc) t = None" and addr: "addr \<noteq> 0"
    and placed: "tab_placed k ((ref_table rc)[t := addr]) (rlen rf)"
    and tb: "vc_vec tb = rb_disk k (ref_table rc) rf t" "rb_disk k ((ref_table rc)[t := addr]) rf t = rb_disk k (ref_table rc) rf t"
  shows "wp (rc_set_cluster_refcount order a r (Some (addr, tb)))
    (\<lambda>res (rc', rf'). (\<exists>e. res = Inl (EvictingRefCounts e)) \<or>
      tab_frame k (ref_table rc') rf rf' \<and> rc_ok k rc' rf' \<and> ref_table rc' = (ref_table rc)[t := addr] \<and>
      refcount_table_offset rc' = refcount_table_offset rc \<and>
      (if vc_dirty tb
       then res = Inr None \<and> rc_view k rc' rf' = (rc_view k rc rf)(t := (rc_view k rc rf t)[unat a div 2 ^ k mod rb_len k := r]) \<and>
         (\<exists>v. cache_get (refblock_cache rc') t = Some v \<and> vc_dirty v)
       else res = Inl NeedNewCluster \<and> rc_view k rc' rf' = rc_view k rc rf \<and> cache_get (refblock_cache rc') t = Some tb))
    (\<lambda>_ _. True) (rc, rf)"
proof -
  let ?rc = "rc\<lparr>ref_table := (ref_table rc)[t := addr]\<rparr>" and ?j = "unat a div 2 ^ k mod rb_len k"
  note ok1 = rc_ok_table [OF ok un placed tb(2)]
  have "0 < rb_len k" using rc_ok_bounds [OF ok] power_increasing [of 3 k "2 :: nat"] by simp
  then have j: "?j < length (vc_vec tb)" using tb(1) by simp
  have idx: "get_refcount_index rc a = (t, ?j)"
    using get_refcount_index_eq [of k rc a] ok rc_ok_bounds [OF ok] t(1) by (simp add: rc_ok_def)
  have ins: "wp (refblock_insert order t tb)
    (\<lambda>_ (rc', rf'). \<exists>c. rc' = ?rc\<lparr>refblock_cache := c\<rparr> \<and> rc_ok k rc' rf' \<and> tab_frame k (ref_table ?rc) rf rf' \<and>
      rc_view k rc' rf' = rc_view k ?rc rf \<and> cache_get c t = Some tb)
    (\<lambda>_ _. True) (?rc, rf)"
    by (rule wp_refblock_insert [OF ok1(1) order]) (use un t addr tb in simp_all)
  have put: "rc_ok k (?rc\<lparr>refblock_cache := cache_set t (put_count ?j r tb) c\<rparr>) rf'"
    "rc_view k (?rc\<lparr>refblock_cache := cache_set t (put_count ?j r tb) c\<rparr>) rf' =
      (rc_view k (?rc\<lparr>refblock_cache := c\<rparr>) rf')(t := (rc_view k (?rc\<lparr>refblock_cache := c\<rparr>) rf' t)[?j := r])"
    if "rc_ok k (?rc\<lparr>refblock_cache := c\<rparr>) rf'" "cache_get c t = Some tb" for c rf'
  proof -
    have "tab_placed k ((ref_table rc)[t := addr]) (rlen rf')" using that(1) by (simp add: rc_ok_def)
    from rc_put_ok [OF that(1) _ addr, of t tb ?j r] this that(2)
    show "rc_ok k (?rc\<lparr>refblock_cache := cache_set t (put_count ?j r tb) c\<rparr>) rf'"
      "rc_view k (?rc\<lparr>refblock_cache := cache_set t (put_count ?j r tb) c\<rparr>) rf' =
        (rc_view k (?rc\<lparr>refblock_cache := c\<rparr>) rf')(t := (rc_view k (?rc\<lparr>refblock_cache := c\<rparr>) rf' t)[?j := r])"
      by (simp_all add: rc_put_def)
  qed
  have "vc_index_mut ?j r tb = Some (put_count ?j r tb)" using j by (simp add: vc_index_mut_def put_count_def)
  moreover have "vc_dirty (put_count ?j r tb)" by (simp add: put_count_def)
  ultimately show ?thesis
    unfolding rc_set_cluster_refcount_def
    using t(2) un ok1(2)
    by (auto simp: wp_simps put idx nth_opt_def fill_refblock_def cache_contains_def set_ref_table_def drop_refblock_def
        set_refblock_def split: option.splits intro!: wp_mono [OF ins])
qed

lemma wp_get_cluster_refcount:
  assumes ok: "rc_ok k rc rf" and order: "is_order order"
  shows "wp (get_cluster_refcount order a)
    (\<lambda>res (rc', rf'). isl res \<or>
      res = Inr (rc_count k rc rf a) \<and> rc_ok k rc' rf' \<and> tab_frame k (ref_table rc) rf rf' \<and>
      rc_view k rc' rf' = rc_view k rc rf \<and> (\<exists>c. rc' = rc\<lparr>refblock_cache := c\<rparr>))
    (\<lambda>_ _. True) (rc, rf)"
proof (cases "rc_block k (unat a) < length (ref_table rc)")
  case False
  then show ?thesis
    using get_refcount_index_eq [of k rc a] rc_ok_bounds [OF ok] ok
    by (simp add: get_cluster_refcount_def wp_simps nth_opt_def rc_ok_def)
next
  case True
  let ?t = "rc_block k (unat a)" and ?j = "unat a div 2 ^ k mod rb_len k"
  have idx: "get_refcount_index rc a = (?t, ?j)"
    using get_refcount_index_eq [of k rc a] ok rc_ok_bounds [OF ok] by (simp add: rc_ok_def)
  have "0 < rb_len k" using rc_ok_bounds [OF ok] power_increasing [of 3 k "2 :: nat"] by simp
  then have j: "?j < rb_len k" by simp
  have get: "vc_index v ?j = Some (rc_count k rc rf a)"
    if "rc_ok k rc' rf'" "cache_get (refblock_cache rc') ?t = Some v" "rc_view k rc' rf' = rc_view k rc rf" for rc' rf' v
  proof -
    have "length (vc_vec v) = rb_len k" using that(1, 2) by (auto simp: rc_ok_def rc_inv_def)
    moreover have "rc_view k rc' rf' ?t = vc_vec v" using that(2) by (simp add: rc_view_def cached_view_def)
    ultimately show ?thesis using j that(3) by (simp add: vc_index_def rc_count_def)
  qed
  consider (none) "ref_table rc ! ?t = 0" | (cached) v where "ref_table rc ! ?t \<noteq> 0" "cache_get (refblock_cache rc) ?t = Some v"
    | (uncached) "ref_table rc ! ?t \<noteq> 0" "cache_get (refblock_cache rc) ?t = None"
    by fastforce
  then show ?thesis
  proof cases
    case none
    then have "cache_get (refblock_cache rc) ?t = None"
      using ok by (cases "cache_get (refblock_cache rc) ?t") (auto simp: rc_ok_def rc_inv_def)
    then have "rc_count k rc rf a = 0" using none j by (simp add: rc_count_def rc_view_def cached_view_def rb_disk_def)
    then show ?thesis
      using none True ok tab_frame_refl [of k rf "ref_table rc"]
      by (auto simp: get_cluster_refcount_def wp_simps idx nth_opt_def rc_ok_def intro!: exI [of _ "refblock_cache rc"])
  next
    case (cached v)
    then show ?thesis
      using True ok get [OF ok cached(2) refl] tab_frame_refl [of k rf "ref_table rc"]
      by (auto simp: get_cluster_refcount_def load_refblock_def cache_contains_def wp_simps idx nth_opt_def rc_ok_def
          intro!: exI [of _ "refblock_cache rc"])
  next
    case uncached
    have rf: "rf_ok k rf" using ok by (simp add: rc_ok_def)
    have ins: "wp (refblock_insert order ?t (vc_from_vec (be_table (unat (ref_table rc ! ?t)) (rb_len k) (rbyte rf))))
      (\<lambda>_ (rc', rf'). \<exists>c. rc' = rc\<lparr>refblock_cache := c\<rparr> \<and> rc_ok k rc' rf' \<and> tab_frame k (ref_table rc) (rf\<lparr>rf_file := f\<rparr>) rf' \<and>
        rc_view k rc' rf' = rc_view k rc (rf\<lparr>rf_file := f\<rparr>) \<and>
        cache_get c ?t = Some (vc_from_vec (be_table (unat (ref_table rc ! ?t)) (rb_len k) (rbyte rf))))
      (\<lambda>_ _. True) (rc, rf\<lparr>rf_file := f\<rparr>)" if "contents f = contents (rf_file rf)" for f
    proof (rule wp_refblock_insert [OF _ order uncached(2) True uncached(1)])
      have "rb_disk k (ref_table rc) (rf\<lparr>rf_file := f\<rparr>) = rb_disk k (ref_table rc) rf"
        using that by (auto simp: rb_disk_def fun_eq_iff)
      then show "rc_ok k rc (rf\<lparr>rf_file := f\<rparr>)" using ok that by (auto simp: rc_ok_def rf_ok_def coherent_def)
      show "vc_vec (vc_from_vec (be_table (unat (ref_table rc ! ?t)) (rb_len k) (rbyte rf))) =
          rb_disk k (ref_table rc) (rf\<lparr>rf_file := f\<rparr>) ?t"
        using that True uncached(1) by (simp add: vc_from_vec_def rb_disk_def)
    qed
    have view: "rc_view k rc (rf\<lparr>rf_file := f\<rparr>) = rc_view k rc rf" if "contents f = contents (rf_file rf)" for f
      unfolding rc_view_def using that by (intro cached_view_cong) (simp add: rb_disk_def)
    have frame: "tab_frame k (ref_table rc) rf rf'"
      if "contents f = contents (rf_file rf)" "tab_frame k (ref_table rc) (rf\<lparr>rf_file := f\<rparr>) rf'" for f rf'
      using that by (simp add: tab_frame_def)
    show ?thesis
      unfolding get_cluster_refcount_def load_refblock_def on_raw_def
      using True uncached get
      by (auto simp: wp_simps idx nth_opt_def cache_contains_def view
          intro!: wp_mono [OF wp_read_refcount_block [OF rf]] wp_mono [OF ins] intro: frame)
  qed
qed

end
