(* ===== verification/Qcow_Disk.thy ===== *)
theory Qcow_Disk
  imports Qcow_Clusters Qcow_Header
begin

text \<open>
  A qcow image behaves as a flat disk: the bytes of the disk are a function of the state of
  the image, through the caches, and the operations read and change them as those of an
  array of bytes.
\<close>

section \<open>L2 tables\<close>

definition l2_disk :: "nat \<Rightarrow> u64 list \<Rightarrow> qcow_raw_file \<Rightarrow> nat \<Rightarrow> u64 list" where
  "l2_disk k l1 rf i =
     (if i < length l1 \<and> l1 ! i \<noteq> 0
      then map (\<lambda>w. w AND entry_mask) (be_table (unat (l1 ! i)) (l2_len k) (rbyte rf))
      else replicate (l2_len k) 0)"

definition l2_shape :: "nat \<Rightarrow> u64 list \<Rightarrow> bool" where
  "l2_shape k vs \<longleftrightarrow> length vs = l2_len k \<and> (\<forall>v \<in> set vs. v AND entry_mask = v)"

definition l2_store :: "u64 list \<Rightarrow> nat \<Rightarrow> u64 vec_cache \<Rightarrow> (qcow_raw_file, unit) io" where
  "l2_store l1 i v =
     io_bind (io_unwrap (nth_opt l1 i)) (\<lambda>addr. write_pointer_table addr (vc_get_values v) (push_bit 63 1))"

lemma l2_shape_disk: "l2_shape k (l2_disk k l1 rf i)"
  by (auto simp: l2_shape_def l2_disk_def and.assoc)

lemma l2_disk_cong:
  assumes "\<And>x. i < length l1 \<Longrightarrow> in_cluster k (unat (l1 ! i)) x \<Longrightarrow> rbyte rf' x = rbyte rf x" "3 \<le> k"
  shows "l2_disk k l1 rf' i = l2_disk k l1 rf i"
proof -
  have "8 dvd (2 :: nat) ^ k" using le_imp_power_dvd [OF assms(2), of "2 :: nat"] by simp
  then have "8 * l2_len k = 2 ^ k" by simp
  then have "be_table (unat (l1 ! i)) (l2_len k) (rbyte rf') = (be_table (unat (l1 ! i)) (l2_len k) (rbyte rf) :: u64 list)"
    if "i < length l1" "l1 ! i \<noteq> 0"
    using assms(1) that by (intro be_table_cong) (auto simp: in_cluster_def unat_eq_zero)
  then show ?thesis by (simp add: l2_disk_def)
qed

text \<open>An entry is stored with the flag of a used cluster, which reading takes away again.\<close>

lemma entry_decode:
  fixes e :: u64
  assumes "e AND entry_mask = e"
  shows "(if e = 0 then 0 else e OR push_bit 63 1) AND entry_mask = e"
proof -
  have "push_bit 63 (1 :: u64) AND entry_mask = 0" by simp
  then show ?thesis using assms by (simp add: bit.conj_disj_distrib2)
qed

lemma wp_write_l2:
  assumes "rf_ok k rf" "i < length l1" "l1 ! i \<noteq> 0" "tab_placed k l1 (rlen rf)" "l2_shape k vs"
  shows "wp (write_pointer_table (l1 ! i) vs (push_bit 63 1))
    (\<lambda>_ rf'. tab_frame k l1 rf rf' \<and> l2_disk k l1 rf' = (l2_disk k l1 rf)(i := vs)) (\<lambda>_ _. True) rf"
proof -
  let ?c = "unat (l1 ! i)" and ?ws = "map (\<lambda>addr. if addr = 0 then 0 else addr OR push_bit 63 1) vs"
  have k: "3 \<le> k" using assms(1) by (simp add: rf_ok_def)
  have "8 dvd (2 :: nat) ^ k" using le_imp_power_dvd [OF k, of "2 :: nat"] by simp
  then have len: "length (be_bytes ?ws) = 2 ^ k" using assms(5) by (simp add: l2_shape_def)
  have c: "?c \<noteq> 0" using assms(3) by (simp add: unat_eq_zero)
  have top: "?c + 2 ^ k \<le> rlen rf" using assms(2-4) by (auto simp: tab_placed_def)
  have "map (\<lambda>w. w AND entry_mask) ?ws = map (\<lambda>v. v) vs"
    unfolding map_map using assms(5) by (intro map_cong refl) (simp add: l2_shape_def entry_decode del: map_ident)
  then have dec: "map (\<lambda>w. w AND entry_mask) ?ws = vs" by simp
  have "tab_frame k l1 rf rf' \<and> l2_disk k l1 rf' = (l2_disk k l1 rf)(i := vs)"
    if put: "contents (rf_file rf') = file_put ?c (be_bytes ?ws) (contents (rf_file rf))" and "rf_ok k rf'" for rf'
  proof
    show "tab_frame k l1 rf rf'"
      using that c assms(2) len top by (auto simp: tab_frame_def fbyte_file_put length_file_put_in in_cluster_def)
    have "be_table ?c (length ?ws) (rbyte rf') = ?ws"
      unfolding put by (rule be_table_put) simp
    then have same: "l2_disk k l1 rf' i = vs"
      using dec assms(2, 3, 5) by (simp add: l2_disk_def l2_shape_def)
    have other: "l2_disk k l1 rf' u = l2_disk k l1 rf u" if "u \<noteq> i" for u
    proof (rule l2_disk_cong [OF _ k])
      fix x assume u: "u < length l1" and x: "in_cluster k (unat (l1 ! u)) x"
      then have nz: "l1 ! u \<noteq> 0" by (auto simp: in_cluster_def unat_eq_zero)
      have "l1 ! u \<noteq> l1 ! i" using assms(2, 4) u nz that by (auto simp: tab_placed_def)
      then have "\<not> in_cluster k ?c x"
        using in_cluster_unique [OF x] assms(2-4) u nz by (auto simp: tab_placed_def word_unat_eq_iff)
      then show "rbyte rf' x = rbyte rf x" using c len by (auto simp: put fbyte_file_put in_cluster_def)
    qed
    show "l2_disk k l1 rf' = (l2_disk k l1 rf)(i := vs)" using same other by auto
  qed
  then show ?thesis
    unfolding write_pointer_table_def by (intro wp_mono [OF wp_write_table [OF assms(1), of "l1 ! i" ?ws]]) auto
qed

interpretation l2: write_back "l2_disk k l1" "l2_store l1"
  "\<lambda>rf'. rf_ok k rf' \<and> tab_frame k l1 rf rf' \<and> tab_placed k l1 (rlen rf)" "\<lambda>i. i < length l1 \<and> l1 ! i \<noteq> 0"
  "l2_shape k" for k l1 rf
proof
  fix f :: qcow_raw_file and i :: nat and v :: "u64 vec_cache"
  assume a: "rf_ok k f \<and> tab_frame k l1 rf f \<and> tab_placed k l1 (rlen rf)" "i < length l1 \<and> l1 ! i \<noteq> 0"
    "l2_shape k (vc_vec v)"
  then have "tab_placed k l1 (rlen f)" by (simp add: tab_frame_def)
  from wp_write_l2 [OF _ _ _ this a(3), of i] a
  have "wp (write_pointer_table (l1 ! i) (vc_vec v) (push_bit 63 1))
    (\<lambda>_ rf'. tab_frame k l1 f rf' \<and> l2_disk k l1 rf' = (l2_disk k l1 f)(i := vc_vec v)) (\<lambda>_ _. True) f"
    by simp
  then show "wp (l2_store l1 i v) (\<lambda>_ f'. (rf_ok k f' \<and> tab_frame k l1 rf f' \<and> tab_placed k l1 (rlen rf)) \<and>
      l2_disk k l1 f' = (l2_disk k l1 f)(i := vc_vec v)) (\<lambda>_ _. True) f"
    using a by (auto simp: l2_store_def wp_simps nth_opt_def vc_get_values_def elim!: wp_mono intro: tab_frame_trans)
      (simp add: tab_frame_def)
qed

lemma wp_read_l2_cluster:
  assumes "rf_ok k rf"
  shows "wp (read_l2_cluster c)
    (\<lambda>vs rf'. (\<exists>f. rf' = rf\<lparr>rf_file := f\<rparr> \<and> contents f = contents (rf_file rf)) \<and>
      vs = map (\<lambda>w. w AND entry_mask) (be_table (unat c) (l2_len k) (rbyte rf))) (\<lambda>_ _. True) rf"
proof -
  note sz = rf_ok_sizes [OF assms]
  have "unat (rf_cluster_size rf div 8) * 8 < 2 ^ 63" using sz(3, 5) by simp
  note table = wp_read_pointer_table [OF assms this, of c None]
  have ones: "x AND 0xffffffffffffffff = x" for x :: u64
  proof -
    have "(0xffffffffffffffff :: u64) = - 1" by simp
    then show ?thesis by (simp only: and.right_neutral)
  qed
  show ?thesis
    unfolding read_l2_cluster_def read_pointer_cluster_def wp_simps
    by (rule wp_mono [OF table]) (use sz(3) in \<open>auto simp: wp_simps ones\<close>)
qed

section \<open>The uses of clusters\<close>

definition l2_view :: "nat \<Rightarrow> qcow_file \<Rightarrow> nat \<Rightarrow> u64 list" where
  "l2_view k q = cached_view (l2_disk k (l1_table q)) (l2_cache q) (raw_file q)"

datatype owner = Own_L2 nat | Own_Data nat nat | Own_RB nat

text \<open>The cluster of an owner; zero is none.\<close>

fun used :: "nat \<Rightarrow> qcow_file \<Rightarrow> owner \<Rightarrow> nat" where
  "used k q (Own_L2 i) = (if i < length (l1_table q) then unat (l1_table q ! i) else 0)"
| "used k q (Own_Data i j) =
     (if i < length (l1_table q) \<and> j < l2_len k then unat (l2_view k q i ! j) else 0)"
| "used k q (Own_RB t) =
     (if t < length (ref_table (refcounts q)) then unat (ref_table (refcounts q) ! t) else 0)"

declare used.simps [simp del]

fun disk_owner :: "owner \<Rightarrow> bool" where
  "disk_owner (Own_RB t) = False"
| "disk_owner _ = True"

text \<open>A cluster that may be used: inside the file, and outside the metadata \<open>M\<close>.\<close>

definition placed :: "nat \<Rightarrow> nat set \<Rightarrow> nat \<Rightarrow> nat \<Rightarrow> bool" where
  "placed k M n c \<longleftrightarrow> c \<noteq> 0 \<and> 2 ^ k dvd c \<and> c + 2 ^ k \<le> n \<and> (\<forall>x. in_cluster k c x \<longrightarrow> x \<notin> M)"

definition free :: "qcow_file \<Rightarrow> nat list" where
  "free q = map unat (avail_clusters q @ unref_clusters q)"

definition metadata :: "qcow_file \<Rightarrow> nat set" where
  "metadata q = {unat (l1_table_offset (header q))..<unat (l1_table_offset (header q)) + 8 * length (l1_table q)} \<union>
     {unat (refcount_table_offset (refcounts q))..<
       unat (refcount_table_offset (refcounts q)) + 8 * length (ref_table (refcounts q))}"

text \<open>
  What the image can be opened from again: its header at the front of the file, the place of
  its tables in the header, and as many entries in the tables as the header asks for.
\<close>

definition geometry :: "nat \<Rightarrow> qcow_header \<Rightarrow> nat \<Rightarrow> nat \<Rightarrow> bool" where
  "geometry k h l1_len rt_len \<longleftrightarrow> magic h = 0x514649fb \<and> check_header h = Inr (2 ^ k) \<and> 0 < l1_len \<and> 0 < rt_len \<and>
     l1_len = unat (div_round_up (div_round_up (disk_size h) (2 ^ k)) (2 ^ k div 8)) \<and>
     rt_len = unat (max_refcount_clusters (refcount_order h) (ucast (2 ^ k :: u64)) (ucast (div_round_up (disk_size h) (2 ^ k)))) \<and>
     checked_add (l1_table_offset h) (disk_size h div 2 ^ k div (2 ^ k div 8) * 8) \<noteq> None \<and>
     checked_add (h_refcount_table_offset h) (ucast (refcount_table_clusters h) * 2 ^ k) \<noteq> None \<and>
     {unat (l1_table_offset h)..<unat (l1_table_offset h) + 8 * l1_len} \<inter>
       {unat (h_refcount_table_offset h)..<unat (h_refcount_table_offset h) + 8 * rt_len} = {}"

definition stored :: "nat \<Rightarrow> nat set \<Rightarrow> qcow_file \<Rightarrow> bool" where
  "stored k M q \<longleftrightarrow> {0..<104} \<subseteq> M - metadata q \<and> 104 \<le> rlen (raw_file q) \<and>
     (\<forall>x < 104. rbyte (raw_file q) x = header_bytes (header q) ! x) \<and>
     refcount_table_offset (refcounts q) = h_refcount_table_offset (header q) \<and>
     geometry k (header q) (length (l1_table q)) (length (ref_table (refcounts q)))"

definition same_tables :: "qcow_file \<Rightarrow> qcow_file \<Rightarrow> bool" where
  "same_tables q q' \<longleftrightarrow> header q' = header q \<and> length (l1_table q') = length (l1_table q) \<and>
     length (ref_table (refcounts q')) = length (ref_table (refcounts q)) \<and>
     refcount_table_offset (refcounts q') = refcount_table_offset (refcounts q)"

lemma same_tables_metadata: "same_tables q q' \<Longrightarrow> metadata q' = metadata q"
  by (simp add: same_tables_def metadata_def)

lemma stored_frame:
  assumes "stored k M q" "same_tables q q'" "rlen (raw_file q) \<le> rlen (raw_file q')"
    "\<And>x. x < 104 \<Longrightarrow> rbyte (raw_file q') x = rbyte (raw_file q) x"
  shows "stored k M q'"
  using assms same_tables_metadata [OF assms(2)] by (simp add: stored_def same_tables_def)

lemma stored_outside: "stored k M q \<Longrightarrow> placed k M n c \<Longrightarrow> x < 104 \<Longrightarrow> \<not> in_cluster k c x"
  by (auto simp: stored_def placed_def)

text \<open>
  The invariant of an open image. \<open>H\<close> are clusters in the hands of the running operation,
  no longer free and not yet in use.
\<close>

definition caches_ok :: "nat \<Rightarrow> qcow_file \<Rightarrow> bool" where
  "caches_ok k q \<longleftrightarrow> rc_ok k (refcounts q) (raw_file q) \<and> coherent (l2_disk k (l1_table q)) (l2_cache q) (raw_file q) \<and>
     (\<forall>i v. cache_get (l2_cache q) i = Some v \<longrightarrow>
       i < length (l1_table q) \<and> l1_table q ! i \<noteq> 0 \<and> l2_shape k (vc_vec v))"

definition q_ok :: "nat \<Rightarrow> nat set \<Rightarrow> nat list \<Rightarrow> qcow_file \<Rightarrow> bool" where
  "q_ok k M H q \<longleftrightarrow> 9 \<le> k \<and> unat (l2_entries q) = l2_len k \<and> 0 < rlen (raw_file q) \<and> stored k M q \<and>
     metadata q \<subseteq> M \<and> (\<forall>x \<in> M. x div 2 ^ k * 2 ^ k < rlen (raw_file q)) \<and> caches_ok k q \<and>
     (\<forall>o1. used k q o1 \<noteq> 0 \<longrightarrow> placed k M (rlen (raw_file q)) (used k q o1)) \<and>
     (\<forall>o1 o2. used k q o1 \<noteq> 0 \<longrightarrow> used k q o1 = used k q o2 \<longrightarrow> o1 = o2) \<and>
     (\<forall>c \<in> set (H @ free q). placed k M (rlen (raw_file q)) c \<and> (\<forall>o1. used k q o1 \<noteq> c)) \<and> distinct (H @ free q)"

lemma q_ok_bounds: "q_ok k M H q \<Longrightarrow> 9 \<le> k \<and> k \<le> 30 \<and> rf_ok k (raw_file q)"
  by (simp add: q_ok_def caches_ok_def rc_ok_def rf_ok_def)

lemma q_ok_stored: "q_ok k M H q \<Longrightarrow> stored k M q"
  by (simp add: q_ok_def)

lemma q_ok_placed: "q_ok k M H q \<Longrightarrow> used k q o1 \<noteq> 0 \<Longrightarrow> placed k M (rlen (raw_file q)) (used k q o1)"
  by (simp add: q_ok_def)

lemma q_ok_inj: "q_ok k M H q \<Longrightarrow> used k q o1 \<noteq> 0 \<Longrightarrow> used k q o1 = used k q o2 \<Longrightarrow> o1 = o2"
  by (simp add: q_ok_def)

lemma q_ok_free:
  "q_ok k M H q \<Longrightarrow> c \<in> set (H @ free q) \<Longrightarrow> placed k M (rlen (raw_file q)) c \<and> (\<forall>o1. used k q o1 \<noteq> c)"
  by (simp add: q_ok_def)

lemma q_ok_drop: "q_ok k M (H' @ H) q \<Longrightarrow> q_ok k M H q"
  by (auto simp: q_ok_def)

lemma used_L2: "i < length (l1_table q) \<Longrightarrow> used k q (Own_L2 i) = unat (l1_table q ! i)"
  by (simp add: used.simps)

lemma l2_shape_view: "q_ok k M H q \<Longrightarrow> l2_shape k (l2_view k q i)"
  by (auto simp: q_ok_def caches_ok_def l2_view_def cached_view_def l2_shape_disk split: option.splits)

lemma l1_tab_placed:
  assumes "q_ok k M H q"
  shows "tab_placed k (l1_table q) (rlen (raw_file q))"
proof -
  have inj: "o1 = o2" if "used k q o1 \<noteq> 0" "used k q o1 = used k q o2" for o1 o2
    using assms that by (simp add: q_ok_def)
  have pl: "used k q o1 \<noteq> 0 \<Longrightarrow> placed k M (rlen (raw_file q)) (used k q o1)" for o1
    using assms by (simp add: q_ok_def)
  have "2 ^ k dvd unat c \<and> unat c + 2 ^ k \<le> rlen (raw_file q)" if "c \<in> set (l1_table q)" "c \<noteq> 0" for c
  proof -
    obtain i where "i < length (l1_table q)" "l1_table q ! i = c" using \<open>c \<in> set (l1_table q)\<close> by (auto simp: in_set_conv_nth)
    then show ?thesis using pl [of "Own_L2 i"] that(2) by (simp add: used_L2 placed_def unat_eq_zero)
  qed
  moreover have "i = j" if "i < length (l1_table q)" "j < length (l1_table q)" "l1_table q ! i \<noteq> 0" "l1_table q ! i = l1_table q ! j" for i j
    using inj [of "Own_L2 i" "Own_L2 j"] that by (simp add: used_L2 unat_eq_zero)
  ultimately show ?thesis by (auto simp: tab_placed_def)
qed

text \<open>Two states with the same disk: the same tables, and the same bytes in the clusters of the disk.\<close>

definition same_disk :: "nat \<Rightarrow> qcow_file \<Rightarrow> qcow_file \<Rightarrow> bool" where
  "same_disk k q q' \<longleftrightarrow> l1_table q' = l1_table q \<and> l2_cache q' = l2_cache q \<and> header q' = header q \<and>
     l2_entries q' = l2_entries q \<and> current_offset q' = current_offset q \<and>
     (\<forall>o1 x. disk_owner o1 \<longrightarrow> in_cluster k (used k q o1) x \<longrightarrow> rbyte (raw_file q') x = rbyte (raw_file q) x)"

text \<open>The bytes of held clusters are kept.\<close>

definition held_same :: "nat \<Rightarrow> nat list \<Rightarrow> qcow_file \<Rightarrow> qcow_file \<Rightarrow> bool" where
  "held_same k H q q' \<longleftrightarrow> (\<forall>c \<in> set H. \<forall>x. in_cluster k c x \<longrightarrow> rbyte (raw_file q') x = rbyte (raw_file q) x)"

lemma held_same_trans: "held_same k H q q' \<Longrightarrow> held_same k H q' q'' \<Longrightarrow> held_same k H q q''"
  by (simp add: held_same_def)

lemma held_same_drop: "held_same k (H' @ H) q q' \<Longrightarrow> held_same k H q q'"
  by (auto simp: held_same_def)

lemma same_disk_refl: "same_disk k q q"
  by (simp add: same_disk_def)

lemma same_disk_l2_disk:
  assumes "same_disk k q q'" "3 \<le> k"
  shows "l2_disk k (l1_table q) (raw_file q') = l2_disk k (l1_table q) (raw_file q)"
proof
  fix i
  show "l2_disk k (l1_table q) (raw_file q') i = l2_disk k (l1_table q) (raw_file q) i"
  proof (rule l2_disk_cong [OF _ assms(2)])
    fix x assume "i < length (l1_table q)" "in_cluster k (unat (l1_table q ! i)) x"
    moreover have "disk_owner (Own_L2 i)" by simp
    ultimately show "rbyte (raw_file q') x = rbyte (raw_file q) x"
      using assms(1) unfolding same_disk_def by (metis used_L2)
  qed
qed

lemma same_disk_view:
  assumes "same_disk k q q'" "3 \<le> k"
  shows "l2_view k q' = l2_view k q" "disk_owner o1 \<Longrightarrow> used k q' o1 = used k q o1"
proof -
  show v: "l2_view k q' = l2_view k q"
    using assms same_disk_l2_disk [OF assms] by (auto simp: l2_view_def same_disk_def intro!: cached_view_cong)
  then show "disk_owner o1 \<Longrightarrow> used k q' o1 = used k q o1"
    using assms(1) by (cases o1) (simp_all add: same_disk_def used.simps)
qed

lemma same_disk_trans:
  assumes "same_disk k q q'" "same_disk k q' q''" "3 \<le> k"
  shows "same_disk k q q''"
  using assms same_disk_view(2) [OF assms(1, 3)] by (auto simp: same_disk_def)

lemma tab_placed_mono: "tab_placed k tab n \<Longrightarrow> n \<le> n' \<Longrightarrow> tab_placed k tab n'"
  by (fastforce simp: tab_placed_def)

lemma placed_mono: "placed k M n c \<Longrightarrow> n \<le> n' \<Longrightarrow> placed k M n' c"
  by (auto simp: placed_def)

text \<open>Changing bytes that no owner uses, and growing the file.\<close>

lemma q_ok_meta_bytes:
  assumes ok: "q_ok k M H q" and rf: "rf_ok k rf'" "rlen (raw_file q) \<le> rlen rf'"
    and same: "\<And>i x. in_cluster k (used k q (Own_L2 i)) x \<Longrightarrow> rbyte rf' x = rbyte (raw_file q) x"
      "\<And>t x. in_cluster k (used k q (Own_RB t)) x \<Longrightarrow> rbyte rf' x = rbyte (raw_file q) x"
      "\<And>x. x < 104 \<Longrightarrow> rbyte rf' x = rbyte (raw_file q) x"
  shows "q_ok k M H (q\<lparr>raw_file := rf'\<rparr>)" "used k (q\<lparr>raw_file := rf'\<rparr>) = used k q"
    "rc_view k (refcounts q) rf' = rc_view k (refcounts q) (raw_file q)"
proof -
  have k: "3 \<le> k" using q_ok_bounds [OF ok] by simp
  let ?rc = "refcounts q"
  have rb: "rb_disk k (ref_table ?rc) rf' = rb_disk k (ref_table ?rc) (raw_file q)"
  proof
    fix t
    show "rb_disk k (ref_table ?rc) rf' t = rb_disk k (ref_table ?rc) (raw_file q) t"
      by (rule rb_disk_cong [OF _ k]) (use same(2) [of t] in \<open>simp add: used.simps\<close>)
  qed
  have l2: "l2_disk k (l1_table q) rf' = l2_disk k (l1_table q) (raw_file q)"
  proof
    fix i
    show "l2_disk k (l1_table q) rf' i = l2_disk k (l1_table q) (raw_file q) i"
      by (rule l2_disk_cong [OF _ k]) (use same(1) [of i] in \<open>simp add: used_L2\<close>)
  qed
  show "rc_view k ?rc rf' = rc_view k ?rc (raw_file q)"
    unfolding rc_view_def by (rule cached_view_cong) (simp add: rb)
  have "l2_view k (q\<lparr>raw_file := rf'\<rparr>) = l2_view k q"
    unfolding l2_view_def by (simp, rule cached_view_cong) (simp add: l2)
  then show used: "used k (q\<lparr>raw_file := rf'\<rparr>) = used k q"
    by (intro ext, case_tac x) (simp_all add: used.simps)
  have "coherent (l2_disk k (l1_table q)) (l2_cache q) rf'"
    using ok l2 by (simp add: q_ok_def caches_ok_def coherent_def)
  moreover have "rc_ok k ?rc rf'"
    using ok rf rb by (auto simp: q_ok_def caches_ok_def rc_ok_def coherent_def intro: tab_placed_mono)
  ultimately have "caches_ok k (q\<lparr>raw_file := rf'\<rparr>)" using ok by (simp add: q_ok_def caches_ok_def)
  moreover have "placed k M (rlen rf') c" if "placed k M (rlen (raw_file q)) c" for c
    using placed_mono [OF that rf(2)] .
  moreover have "stored k M (q\<lparr>raw_file := rf'\<rparr>)"
    by (rule stored_frame [OF q_ok_stored [OF ok]]) (use rf(2) same(3) in \<open>simp_all add: same_tables_def\<close>)
  ultimately show "q_ok k M H (q\<lparr>raw_file := rf'\<rparr>)"
    using ok rf(2) by (auto simp: q_ok_def used free_def metadata_def dest: less_le_trans)
qed

lemma q_ok_bytes:
  assumes ok: "q_ok k M H q" and rf: "rf_ok k rf'" "rlen (raw_file q) \<le> rlen rf'"
    and same: "\<And>o1 x. in_cluster k (used k q o1) x \<Longrightarrow> rbyte rf' x = rbyte (raw_file q) x"
      "\<And>x. x < 104 \<Longrightarrow> rbyte rf' x = rbyte (raw_file q) x"
  shows "q_ok k M H (q\<lparr>raw_file := rf'\<rparr>)" "same_disk k q (q\<lparr>raw_file := rf'\<rparr>)"
    "rc_view k (refcounts q) rf' = rc_view k (refcounts q) (raw_file q)"
  using q_ok_meta_bytes [OF ok rf same(1) same(1) same(2)] same(1) by (simp_all add: same_disk_def)

text \<open>Changing the reference counts: a block may move to a held cluster, and its old cluster is held then.\<close>

lemma q_ok_rc:
  assumes ok: "q_ok k M H q" and rc: "rc_ok k rc' rf'" "tab_frame k (ref_table rc') (raw_file q) rf'"
    and tab: "length (ref_table rc') = length (ref_table (refcounts q))"
      "refcount_table_offset rc' = refcount_table_offset (refcounts q)"
    and moved: "\<And>t. t < length (ref_table rc') \<Longrightarrow> ref_table rc' ! t \<noteq> ref_table (refcounts q) ! t \<Longrightarrow>
        unat (ref_table rc' ! t) \<in> set H"
    and held: "\<And>c. c \<in> set H' \<Longrightarrow> c \<noteq> 0 \<and> (c \<in> set H \<or> (\<exists>t. c = used k q (Own_RB t)))"
      "\<And>c t. c \<in> set H' \<Longrightarrow> t < length (ref_table rc') \<Longrightarrow> unat (ref_table rc' ! t) \<noteq> c" "distinct H'"
  shows "q_ok k M H' (q\<lparr>refcounts := rc', raw_file := rf'\<rparr>)" "same_disk k q (q\<lparr>refcounts := rc', raw_file := rf'\<rparr>)"
    "held_same k H' q (q\<lparr>refcounts := rc', raw_file := rf'\<rparr>)"
proof -
  let ?q = "q\<lparr>refcounts := rc', raw_file := rf'\<rparr>"
  have k: "3 \<le> k" using q_ok_bounds [OF ok] by simp
  have inj: "o1 = o2" if "used k q o1 \<noteq> 0" "used k q o1 = used k q o2" for o1 o2 using ok that by (simp add: q_ok_def)
  have pl: "placed k M (rlen (raw_file q)) (used k q o1)" if "used k q o1 \<noteq> 0" for o1 using ok that by (simp add: q_ok_def)
  have H: "placed k M (rlen (raw_file q)) c \<and> (\<forall>o1. used k q o1 \<noteq> c)" if "c \<in> set (H @ free q)" for c
    using ok that by (simp add: q_ok_def)
  have len: "rlen rf' = rlen (raw_file q)" using rc(2) by (simp add: tab_frame_def)
  have rb: "used k ?q (Own_RB t) = used k q (Own_RB t) \<or> used k ?q (Own_RB t) \<in> set H" for t
    using moved [of t] tab(1) by (cases "ref_table rc' ! t = ref_table (refcounts q) ! t") (auto simp: used.simps)
  have other: "used k q o1 \<noteq> used k ?q (Own_RB t)" if "disk_owner o1" "used k q o1 \<noteq> 0" for o1 t
    using rb [of t] inj [of o1 "Own_RB t"] H [of "used k ?q (Own_RB t)"] that by auto
  have sd: "same_disk k q ?q"
    unfolding same_disk_def
  proof (intro conjI allI impI)
    fix o1 x assume o1: "disk_owner o1" and x: "in_cluster k (used k q o1) x"
    then have nz: "used k q o1 \<noteq> 0" by (simp add: in_cluster_def)
    have "\<not> in_cluster k (unat c) x" if "c \<in> set (ref_table rc')" for c
    proof
      assume c: "in_cluster k (unat c) x"
      obtain t where t: "t < length (ref_table rc')" "c = ref_table rc' ! t"
        using \<open>c \<in> set (ref_table rc')\<close> by (auto simp: in_set_conv_nth)
      have "2 ^ k dvd unat c" using rc(1) c t by (auto simp: rc_ok_def tab_placed_def in_cluster_def unat_eq_zero)
      then have "unat c = used k q o1"
        using in_cluster_unique [OF c x] pl [OF nz] by (simp add: placed_def)
      then show False using other [OF o1 nz, of t] t by (simp add: used.simps)
    qed
    then show "rbyte (raw_file ?q) x = rbyte (raw_file q) x" using rc(2) by (simp add: tab_frame_def)
  qed simp_all
  then show "same_disk k q ?q" .
  have used: "used k ?q o1 = used k q o1" if "disk_owner o1" for o1
    using same_disk_view(2) [OF sd k that] .
  have "coherent (l2_disk k (l1_table q)) (l2_cache q) rf'"
    using ok same_disk_l2_disk [OF sd k] by (simp add: q_ok_def caches_ok_def coherent_def)
  then have caches: "caches_ok k ?q" using ok rc(1) by (simp add: q_ok_def caches_ok_def)
  have pl': "placed k M (rlen rf') (used k ?q o1)" if "used k ?q o1 \<noteq> 0" for o1
  proof (cases "disk_owner o1")
    case True
    then show ?thesis using pl that used len by simp
  next
    case False
    then obtain t where o1: "o1 = Own_RB t" by (cases o1) auto
    then show ?thesis using rb [of t] pl [of "Own_RB t"] H [of "used k ?q (Own_RB t)"] that len by auto
  qed
  have inj': "o1 = o2" if "used k ?q o1 \<noteq> 0" "used k ?q o1 = used k ?q o2" for o1 o2
  proof -
    have rbs: "t = u" if "used k ?q (Own_RB t) \<noteq> 0" "used k ?q (Own_RB t) = used k ?q (Own_RB u)" for t u
    proof -
      have tu: "t < length (ref_table rc')" "u < length (ref_table rc')" using that by (auto simp: used.simps split: if_splits)
      then have "ref_table rc' ! t = ref_table rc' ! u" "ref_table rc' ! t \<noteq> 0"
        using that by (auto simp: used.simps word_unat_eq_iff)
      then show ?thesis using tu rc(1) by (simp add: rc_ok_def tab_placed_def)
    qed
    show ?thesis
      using that used inj other rbs by (cases o1; cases o2) (metis disk_owner.simps)+
  qed
  have free: "placed k M (rlen rf') c \<and> (\<forall>o1. used k ?q o1 \<noteq> c)" if c: "c \<in> set (H' @ free q)" for c
  proof (cases "c \<in> set H'")
    case True
    have nz: "c \<noteq> 0" using held(1) [OF True] by simp
    have "used k ?q o1 \<noteq> c" for o1
    proof (cases "disk_owner o1")
      case disk: True
      show ?thesis using held(1) [OF True] used [OF disk] H [of c] inj [of o1] disk by auto
    next
      case False
      then obtain t where "o1 = Own_RB t" by (cases o1) auto
      then show ?thesis using held(2) [OF True] nz by (auto simp: used.simps)
    qed
    then show ?thesis using held(1) [OF True] H [of c] pl len by auto
  next
    case False
    then have cf: "c \<in> set (free q)" using c by simp
    then have "c \<notin> set H" using ok by (auto simp: q_ok_def)
    have "used k ?q o1 \<noteq> c" for o1
    proof (cases "disk_owner o1")
      case True
      then show ?thesis using used H [of c] cf by simp
    next
      case False
      then obtain t where "o1 = Own_RB t" by (cases o1) auto
      then show ?thesis using rb [of t] H [of c] cf \<open>c \<notin> set H\<close> by auto
    qed
    then show ?thesis using H [of c] cf len by simp
  qed
  have "set H' \<inter> set (free q) = {}"
    using held(1) H ok by (fastforce simp: q_ok_def)
  then have dist: "distinct (H' @ free q)" using held(3) ok by (simp add: q_ok_def)
  show "held_same k H' q ?q"
    unfolding held_same_def
  proof (intro ballI allI impI)
    fix c x assume c: "c \<in> set H'" and x: "in_cluster k c x"
    have "2 ^ k dvd c" using free [of c] c by (simp add: placed_def)
    then have "\<not> in_cluster k (unat d) x" if "d \<in> set (ref_table rc')" for d
      using in_cluster_unique [OF x, of "unat d"] that held(2) [OF c] rc(1)
      by (auto simp: in_set_conv_nth rc_ok_def tab_placed_def in_cluster_def unat_eq_zero)
    then show "rbyte (raw_file ?q) x = rbyte (raw_file q) x" using rc(2) by (simp add: tab_frame_def)
  qed
  have "\<not> in_cluster k (unat d) x" if d: "d \<in> set (ref_table rc')" and x: "x < 104" for d x
  proof (cases "d = 0")
    case False
    obtain t where "t < length (ref_table rc')" "d = ref_table rc' ! t" using d by (auto simp: in_set_conv_nth)
    then have "placed k M (rlen rf') (unat d)" using pl' [of "Own_RB t"] False by (simp add: used.simps unat_eq_zero)
    then show ?thesis using stored_outside [OF q_ok_stored [OF ok]] x by blast
  qed (simp add: in_cluster_def)
  then have "rbyte rf' x = rbyte (raw_file q) x" if "x < 104" for x
    using rc(2) that by (simp add: tab_frame_def)
  then have "stored k M ?q"
    by (intro stored_frame [OF q_ok_stored [OF ok]]) (use len tab in \<open>simp_all add: same_tables_def\<close>)
  then show "q_ok k M H' ?q"
    using ok caches pl' inj' free dist len tab by (auto simp: q_ok_def metadata_def free_def)
qed

text \<open>Blocks may be written and loaded.\<close>

lemma q_ok_blocks:
  assumes ok: "q_ok k M H q" and rc: "rc_ok k rc' rf'" "tab_frame k (ref_table rc') (raw_file q) rf'"
    "ref_table rc' = ref_table (refcounts q)" "refcount_table_offset rc' = refcount_table_offset (refcounts q)"
  shows "q_ok k M H (q\<lparr>refcounts := rc', raw_file := rf'\<rparr>)" "same_disk k q (q\<lparr>refcounts := rc', raw_file := rf'\<rparr>)"
    "held_same k H q (q\<lparr>refcounts := rc', raw_file := rf'\<rparr>)"
proof -
  have H: "distinct H" using ok by (simp add: q_ok_def)
  have held: "c \<noteq> 0 \<and> (c \<in> set H \<or> (\<exists>u. c = used k q (Own_RB u)))" if "c \<in> set H" for c
    using q_ok_free [OF ok, of c] that by (auto simp: placed_def)
  have notin: "unat (ref_table rc' ! u) \<noteq> c" if "c \<in> set H" "u < length (ref_table rc')" for c u
  proof -
    have "used k q (Own_RB u) \<noteq> c" using q_ok_free [OF ok, of c] that(1) by simp
    then show ?thesis using that(2) rc(3) by (simp add: used.simps)
  qed
  have len: "length (ref_table rc') = length (ref_table (refcounts q))" using rc(3) by simp
  have moved: "unat (ref_table rc' ! u) \<in> set H" if "ref_table rc' ! u \<noteq> ref_table (refcounts q) ! u" for u
    using that rc(3) by simp
  show "q_ok k M H (q\<lparr>refcounts := rc', raw_file := rf'\<rparr>)" "same_disk k q (q\<lparr>refcounts := rc', raw_file := rf'\<rparr>)"
    "held_same k H q (q\<lparr>refcounts := rc', raw_file := rf'\<rparr>)"
    using q_ok_rc [OF ok rc(1, 2) len rc(4) moved held notin H] by auto
qed

section \<open>Allocation\<close>

lemma used_lists [simp]:
  "used k (q\<lparr>avail_clusters := as\<rparr>) = used k q" "used k (q\<lparr>unref_clusters := us\<rparr>) = used k q"
  "used k (q\<lparr>current_offset := off\<rparr>) = used k q"
proof -
  have v: "l2_view k (q\<lparr>avail_clusters := as\<rparr>) = l2_view k q" "l2_view k (q\<lparr>unref_clusters := us\<rparr>) = l2_view k q"
    "l2_view k (q\<lparr>current_offset := off\<rparr>) = l2_view k q"
    by (simp_all add: l2_view_def)
  show "used k (q\<lparr>avail_clusters := as\<rparr>) = used k q" "used k (q\<lparr>unref_clusters := us\<rparr>) = used k q"
    "used k (q\<lparr>current_offset := off\<rparr>) = used k q"
    by (rule ext, case_tac x, simp_all add: used.simps v)+
qed

lemma caches_ok_lists [simp]:
  "caches_ok k (q\<lparr>avail_clusters := as\<rparr>) = caches_ok k q" "caches_ok k (q\<lparr>unref_clusters := us\<rparr>) = caches_ok k q"
  "caches_ok k (q\<lparr>current_offset := off\<rparr>) = caches_ok k q"
  by (simp_all add: caches_ok_def)

lemma q_ok_pop:
  assumes "q_ok k M H q" "avail_clusters q = as @ [c]"
  shows "q_ok k M (unat c # H) (q\<lparr>avail_clusters := as\<rparr>)"
proof -
  have "set (unat c # H @ free (q\<lparr>avail_clusters := as\<rparr>)) = set (H @ free q)"
    using assms(2) by (auto simp: free_def)
  moreover have "distinct (unat c # H @ free (q\<lparr>avail_clusters := as\<rparr>))"
    using assms by (auto simp: q_ok_def free_def)
  moreover have "stored k M (q\<lparr>avail_clusters := as\<rparr>)" by (rule stored_frame [OF q_ok_stored [OF assms(1)]]) (simp_all add: same_tables_def)
  ultimately show ?thesis using assms(1) by (auto simp: q_ok_def metadata_def)
qed

lemma wp_on_qraw [wp_simps]:
  "wp (on_qraw m) Q E = (\<lambda>q. wp m (\<lambda>x rf. Q x (q\<lparr>raw_file := rf\<rparr>)) (\<lambda>e rf. E e (q\<lparr>raw_file := rf\<rparr>)) (raw_file q))"
  by (simp add: on_qraw_def wp_simps)

lemma wp_on_rc [wp_simps]:
  "wp (on_rc m) Q E = (\<lambda>q. wp m (\<lambda>x (rc, rf). Q x (q\<lparr>refcounts := rc, raw_file := rf\<rparr>))
     (\<lambda>e (rc, rf). E e (q\<lparr>refcounts := rc, raw_file := rf\<rparr>)) (refcounts q, raw_file q))"
  by (simp add: on_rc_def wp_simps case_prod_unfold)

text \<open>Clearing a cluster of the file.\<close>

lemma wp_clear_cluster:
  assumes "rf_ok k rf" "unat c + 2 ^ k \<le> rlen rf" "unat c \<noteq> 0"
  shows "wp (io_bind (on_file (file_seek c)) (\<lambda>_. on_file (write_zeroes (rf_cluster_size rf))))
    (\<lambda>_ rf'. rf_ok k rf' \<and> rlen rf' = rlen rf \<and> (\<forall>x. rbyte rf' x = (if in_cluster k (unat c) x then 0 else rbyte rf x)))
    (\<lambda>_ _. True) rf"
proof -
  note sz = rf_ok_sizes(1) [OF assms(1)]
  have "wp (file_seek c) (\<lambda>_. wp (write_zeroes (rf_cluster_size rf))
      (\<lambda>_ f. contents f = file_put (unat c) (replicate (2 ^ k) 0) (contents (rf_file rf))) (\<lambda>_ _. True)) (\<lambda>_ _. True) (rf_file rf)"
  proof (rule wp_file_seek)
    fix as assume "unat c < off_limit"
    then show "wp (write_zeroes (rf_cluster_size rf))
      (\<lambda>_ f. contents f = file_put (unat c) (replicate (2 ^ k) 0) (contents (rf_file rf))) (\<lambda>_ _. True)
      ((rf_file rf)\<lparr>answers := as, cursor := c\<rparr>)"
      by (intro wp_mono [OF wp_write_zeroes]) (auto simp: sz)
  qed simp
  moreover have "rf_ok k (rf\<lparr>rf_file := f\<rparr>) \<and> length (contents f) = rlen rf \<and>
      (\<forall>x. fbyte (contents f) x = (if in_cluster k (unat c) x then 0 else rbyte rf x))"
    if "contents f = file_put (unat c) (replicate (2 ^ k) 0) (contents (rf_file rf))" for f
    using that assms by (auto simp: rf_ok_def length_file_put_in fbyte_file_put in_cluster_def)
  ultimately show ?thesis by (auto simp: wp_simps elim!: wp_mono)
qed

definition new_cluster_post :: "nat \<Rightarrow> nat set \<Rightarrow> nat list \<Rightarrow> qcow_file \<Rightarrow> u64 \<Rightarrow> qcow_file \<Rightarrow> bool" where
  "new_cluster_post k M H q a q' \<longleftrightarrow> q_ok k M (unat a # H) q' \<and> same_disk k q q' \<and> refcounts q' = refcounts q \<and>
     rc_view k (refcounts q) (raw_file q') = rc_view k (refcounts q) (raw_file q) \<and>
     unref_clusters q' = unref_clusters q \<and> (\<forall>x. in_cluster k (unat a) x \<longrightarrow> rbyte (raw_file q') x = 0) \<and>
     rlen (raw_file q) \<le> rlen (raw_file q') \<and> held_same k H q q' \<and>
     (if avail_clusters q = []
      then avail_clusters q' = [] \<and> rlen (raw_file q') = unat a + 2 ^ k \<and> rlen (raw_file q) \<le> unat a \<and>
        unat a < rlen (raw_file q) + 2 ^ k
      else a = last (avail_clusters q) \<and> avail_clusters q' = butlast (avail_clusters q))"

lemma wp_get_new_cluster:
  assumes ok: "q_ok k M H q"
  shows "wp get_new_cluster (\<lambda>a q'. new_cluster_post k M H q a q') (\<lambda>_ _. True) q"
proof (cases "avail_clusters q = []")
  case True
  have rf: "rf_ok k (raw_file q)" using q_ok_bounds [OF ok] by simp
  have post: "new_cluster_post k M H q a (q\<lparr>raw_file := rf'\<rparr>)"
    if a: "rf_ok k rf'" "rbyte rf' = rbyte (raw_file q)" "rlen rf' = unat a + 2 ^ k" "rlen (raw_file q) \<le> unat a"
      "unat a < rlen (raw_file q) + 2 ^ k" "2 ^ k dvd unat a" for a rf'
  proof -
    let ?q = "q\<lparr>raw_file := rf'\<rparr>"
    note bytes = q_ok_bytes [OF ok a(1)]
    have qok: "q_ok k M H ?q" and sd: "same_disk k q ?q" and rv: "rc_view k (refcounts q) rf' = rc_view k (refcounts q) (raw_file q)"
      using bytes a(2-4) by simp_all
    have nz: "unat a \<noteq> 0" using ok a(4) by (auto simp: q_ok_def)
    have "x \<notin> M" if "in_cluster k (unat a) x" for x
    proof
      assume "x \<in> M"
      then have "x div 2 ^ k * 2 ^ k < unat a" using ok a(4) by (force simp: q_ok_def)
      moreover obtain m where m: "unat a = 2 ^ k * m" using a(6) by (auto elim: dvdE)
      ultimately have "x div 2 ^ k < m" by (simp add: mult.commute)
      then have "x < 2 ^ k * m" by (simp add: div_less_iff_less_mult mult.commute)
      then show False using that m by (simp add: in_cluster_def)
    qed
    then have pl: "placed k M (rlen rf') (unat a)" using a nz by (simp add: placed_def)
    have below: "c + 2 ^ k \<le> rlen (raw_file q)" if "placed k M (rlen (raw_file q)) c" for c using that by (simp add: placed_def)
    have k2: "0 < (2 :: nat) ^ k" by simp
    have notpl: "\<not> placed k M (rlen (raw_file q)) (unat a)" using below [of "unat a"] a(4) k2 by auto
    have un: "used k ?q o1 \<noteq> unat a" for o1
    proof -
      have "used k ?q o1 = used k q o1"
        using same_disk_view(1) [OF sd] q_ok_bounds [OF ok] by (cases o1) (simp_all add: used.simps)
      then show ?thesis using notpl q_ok_placed [OF ok, of o1] nz by auto
    qed
    have nf: "unat a \<notin> set (H @ free q)" using notpl q_ok_free [OF ok] by blast
    have "q_ok k M (unat a # H) ?q"
      using qok pl un nf by (auto simp: q_ok_def free_def)
    moreover have "rbyte rf' x = 0" if "in_cluster k (unat a) x" for x
      using that a(2, 4) by (simp add: in_cluster_def fbyte_def)
    ultimately show ?thesis using sd rv True a by (simp add: new_cluster_post_def held_same_def)
  qed
  show ?thesis
    using True by (auto simp: get_new_cluster_def wp_simps intro!: wp_mono [OF wp_add_cluster_end [OF rf]] post)
next
  case False
  let ?c = "last (avail_clusters q)" and ?q = "q\<lparr>avail_clusters := butlast (avail_clusters q)\<rparr>"
  have pop: "q_ok k M (unat ?c # H) ?q" using q_ok_pop [OF ok] False by simp
  have rf: "rf_ok k (raw_file q)" using q_ok_bounds [OF ok] by simp
  have pl: "placed k M (rlen (raw_file q)) (unat ?c)" and un: "\<And>o1. used k q o1 \<noteq> unat ?c"
    using pop by (auto simp: q_ok_def)
  have post: "new_cluster_post k M H q ?c (?q\<lparr>raw_file := rf'\<rparr>)"
    if a: "rf_ok k rf'" "rlen rf' = rlen (raw_file q)"
      "\<forall>x. rbyte rf' x = (if in_cluster k (unat ?c) x then 0 else rbyte (raw_file q) x)" for rf'
  proof -
    have same: "rbyte rf' x = rbyte (raw_file q) x" if "in_cluster k (used k q o1) x" for o1 x
    proof -
      have "used k q o1 \<noteq> 0" using that by (simp add: in_cluster_def)
      then have "\<not> in_cluster k (unat ?c) x"
        using in_cluster_unique [OF that] un [of o1] ok pl by (auto simp: q_ok_def placed_def)
      then show ?thesis using a(3) by simp
    qed
    have "rbyte rf' x = rbyte (raw_file q) x" if "x < 104" for x
      using stored_outside [OF q_ok_stored [OF ok] pl that] a(3) by simp
    with q_ok_bytes [OF pop a(1)] same a(2)
    have "q_ok k M (unat ?c # H) (?q\<lparr>raw_file := rf'\<rparr>)" "same_disk k ?q (?q\<lparr>raw_file := rf'\<rparr>)"
      "rc_view k (refcounts q) rf' = rc_view k (refcounts q) (raw_file q)"
      by simp_all
    moreover have "held_same k H q (?q\<lparr>raw_file := rf'\<rparr>)"
      unfolding held_same_def
    proof (intro ballI allI impI)
      fix d x assume d: "d \<in> set H" "in_cluster k d x"
      then have "d \<noteq> unat ?c" "2 ^ k dvd d" using pop q_ok_free [OF ok, of d] by (auto simp: q_ok_def placed_def)
      then have "\<not> in_cluster k (unat ?c) x" using in_cluster_unique [OF d(2)] pl by (auto simp: placed_def)
      then show "rbyte (raw_file (?q\<lparr>raw_file := rf'\<rparr>)) x = rbyte (raw_file q) x" using a(3) by simp
    qed
    ultimately show ?thesis using False a(2, 3) by (simp add: new_cluster_post_def same_disk_def)
  qed
  have "wp (io_bind (on_file (file_seek ?c)) (\<lambda>_. on_file (write_zeroes (rf_cluster_size (raw_file q)))))
    (\<lambda>_ rf'. new_cluster_post k M H q ?c (?q\<lparr>raw_file := rf'\<rparr>)) (\<lambda>_ _. True) (raw_file q)"
    by (rule wp_mono [OF wp_clear_cluster [OF rf, of ?c]]) (use pl post in \<open>auto simp: placed_def\<close>)
  then show ?thesis using False by (simp add: get_new_cluster_def wp_simps Let_def)
qed

section \<open>Setting a reference count\<close>

definition rb_dirty :: "qcow_file \<Rightarrow> nat \<Rightarrow> bool" where
  "rb_dirty q t \<longleftrightarrow> (\<exists>v. cache_get (refblock_cache (refcounts q)) t = Some v \<and> vc_dirty v)"

text \<open>The counts of the image, and the counts with that of one cluster changed.\<close>

definition q_counts :: "nat \<Rightarrow> qcow_file \<Rightarrow> nat \<Rightarrow> u16 list" where
  "q_counts k q = rc_view k (refcounts q) (raw_file q)"

definition set_count :: "nat \<Rightarrow> u64 \<Rightarrow> u16 \<Rightarrow> (nat \<Rightarrow> u16 list) \<Rightarrow> (nat \<Rightarrow> u16 list)" where
  "set_count k a r cs = cs(rc_block k (unat a) := (cs (rc_block k (unat a)))[unat a div 2 ^ k mod rb_len k := r])"

text \<open>What the loop of \<^verbatim>\<open>set_cluster_refcount\<close> leaves behind.\<close>

definition loop_post ::
  "nat \<Rightarrow> nat set \<Rightarrow> nat list \<Rightarrow> qcow_file \<Rightarrow> u64 \<Rightarrow> u16 \<Rightarrow> u64 list \<Rightarrow> u64 list \<Rightarrow> qcow_file \<Rightarrow> bool" where
  "loop_post k M H q a r added unref q' \<longleftrightarrow> q_ok k M (map unat unref @ H) q' \<and> same_disk k q q' \<and>
     unref_clusters q' = unref_clusters q \<and> rc_block k (unat a) < length (ref_table (refcounts q)) \<and>
     length (ref_table (refcounts q')) = length (ref_table (refcounts q)) \<and> rlen (raw_file q) \<le> rlen (raw_file q') \<and>
     held_same k H q q' \<and> rb_dirty q' (rc_block k (unat a)) \<and> q_counts k q' = set_count k a r (q_counts k q) \<and>
     (added = [] \<and> avail_clusters q' = avail_clusters q \<and> rlen (raw_file q') = rlen (raw_file q) \<or>
      (\<exists>c. added = [c] \<and> 2 ^ k dvd unat c \<and> \<not> rb_dirty q (rc_block k (unat a)) \<and>
        (if avail_clusters q = []
         then avail_clusters q' = [] \<and> rlen (raw_file q') = unat c + 2 ^ k \<and> rlen (raw_file q) \<le> unat c \<and>
           unat c < rlen (raw_file q) + 2 ^ k
         else c = last (avail_clusters q) \<and> avail_clusters q' = butlast (avail_clusters q))))"

lemma be_table_zero:
  assumes "8 dvd LENGTH('a)" "\<And>i. pos \<le> i \<Longrightarrow> i < pos + LENGTH('a) div 8 * n \<Longrightarrow> g i = 0"
  shows "(be_table pos n g :: 'a::len word list) = replicate n 0"
proof -
  have z: "be_bytes (replicate n (0 :: 'a word)) ! i = 0" if "i < length (be_bytes (replicate n (0 :: 'a word)))" for i
  proof -
    have "to_be (0 :: 'a word) = replicate (LENGTH('a) div 8) 0"
      by (simp add: to_be_def to_le_def map_replicate_const)
    then have "set (be_bytes (replicate n (0 :: 'a word))) \<subseteq> {0}" by (induction n) (auto simp: be_bytes_def)
    then show ?thesis using nth_mem [OF that] by blast
  qed
  have "be_table pos (length (replicate n (0 :: 'a word))) g = replicate n (0 :: 'a word)"
    by (rule be_table_bytes [OF assms(1)]) (use z assms(2) in simp)
  then show ?thesis by simp
qed

text \<open>A block without a cluster of its own, or one that is on disk unchanged, gets a new cluster.\<close>

lemma moved_block:
  assumes ok: "q_ok k M H q" and new: "new_cluster_post k M H q c q1"
    and t: "t < length (ref_table (refcounts q))"
  shows "c \<noteq> 0" "tab_placed k ((ref_table (refcounts q1))[t := c]) (rlen (raw_file q1))"
    "rb_disk k ((ref_table (refcounts q1))[t := c]) (raw_file q1) t = replicate (rb_len k) 0"
proof -
  let ?rt = "ref_table (refcounts q1)"
  have ok1: "q_ok k M (unat c # H) q1" and rt: "?rt = ref_table (refcounts q)"
    and z: "\<And>x. in_cluster k (unat c) x \<Longrightarrow> rbyte (raw_file q1) x = 0"
    using new by (auto simp: new_cluster_post_def)
  have pl: "placed k M (rlen (raw_file q1)) (unat c)" "\<And>o1. used k q1 o1 \<noteq> unat c"
    using q_ok_free [OF ok1, of "unat c"] by auto
  then show nz: "c \<noteq> 0" by (auto simp: placed_def)
  have tab: "tab_placed k ?rt (rlen (raw_file q1))" using ok1 by (simp add: q_ok_def caches_ok_def rc_ok_def)
  have nu: "?rt ! u \<noteq> c" if "u < length ?rt" for u
    using pl(2) [of "Own_RB u"] that by (auto simp: used.simps)
  show "tab_placed k (?rt[t := c]) (rlen (raw_file q1))"
    unfolding tab_placed_def
  proof (intro conjI ballI allI impI)
    fix d assume "d \<in> set (?rt[t := c])" "d \<noteq> 0"
    then have "d = c \<or> d \<in> set ?rt" using set_update_subset_insert by fastforce
    then show "2 ^ k dvd unat d" "unat d + 2 ^ k \<le> rlen (raw_file q1)"
      using tab pl(1) \<open>d \<noteq> 0\<close> by (auto simp: tab_placed_def placed_def)
  next
    fix i j assume "i < length (?rt[t := c])" "j < length (?rt[t := c])" "?rt[t := c] ! i \<noteq> 0" "?rt[t := c] ! i = ?rt[t := c] ! j"
    then show "i = j"
      using tab nu t rt by (auto simp: tab_placed_def nth_list_update split: if_splits)
  qed
  have "2 * rb_len k = 2 ^ k" using q_ok_bounds [OF ok] by (simp add: dvd_mult_div_cancel)
  then have "be_table (unat c) (rb_len k) (rbyte (raw_file q1)) = (replicate (rb_len k) 0 :: u16 list)"
    using z nz by (intro be_table_zero) (auto simp: in_cluster_def unat_eq_zero)
  then show "rb_disk k (?rt[t := c]) (raw_file q1) t = replicate (rb_len k) 0"
    using t rt by (simp add: rb_disk_def)
qed

lemma loop_post_moved:
  assumes ok: "q_ok k M H q" and new: "new_cluster_post k M H q c q1"
    and t: "t = rc_block k (unat a)" "t < length (ref_table (refcounts q))" "\<not> rb_dirty q t"
    and rc: "rc_ok k rc' rf'" "tab_frame k (ref_table rc') (raw_file q1) rf'"
      "ref_table rc' = (ref_table (refcounts q1))[t := c]"
      "refcount_table_offset rc' = refcount_table_offset (refcounts q1)"
      "rc_view k rc' rf' = set_count k a r (rc_view k (refcounts q1) (raw_file q1))"
      "\<exists>v. cache_get (refblock_cache rc') t = Some v \<and> vc_dirty v"
    and unref: "unref = (if ref_table (refcounts q) ! t = 0 then [] else [ref_table (refcounts q) ! t])"
  shows "loop_post k M H q a r [c] unref (q1\<lparr>refcounts := rc', raw_file := rf'\<rparr>)"
proof -
  have k: "3 \<le> k" using q_ok_bounds [OF ok] by simp
  have ok1: "q_ok k M (unat c # H) q1" and rcs: "refcounts q1 = refcounts q" and sd: "same_disk k q q1"
    using new by (auto simp: new_cluster_post_def)
  have un: "used k q1 o1 \<noteq> d" if "d \<in> set (unat c # H)" for o1 d using q_ok_free [OF ok1, of d] that by auto
  have nth: "used k q1 (Own_RB u) = unat (ref_table (refcounts q) ! u)" if "u < length (ref_table (refcounts q))" for u
    using that rcs by (simp add: used.simps)
  have al: "2 ^ k dvd unat c" using q_ok_free [OF ok1, of "unat c"] by (simp add: placed_def)
  have dist: "distinct (unat c # H)" using ok1 by (simp add: q_ok_def)
  have held: "d \<noteq> 0 \<and> (d \<in> set (unat c # H) \<or> (\<exists>u. d = used k q1 (Own_RB u)))" if "d \<in> set (map unat unref @ H)" for d
    using that unref nth [OF t(2)] q_ok_free [OF ok1, of d]
    by (auto simp: unat_gt_0 placed_def split: if_splits intro: exI [of _ t])
  have notin: "unat (ref_table rc' ! u) \<noteq> d" if d: "d \<in> set (map unat unref @ H)" and u: "u < length (ref_table rc')" for d u
  proof (cases "u = t")
    case True
    then have "unat (ref_table rc' ! u) = unat c" using u rc(3) by simp
    then show ?thesis using d unref dist un [of "unat c" "Own_RB t"] nth [OF t(2)] by (auto split: if_splits)
  next
    case False
    then have e: "unat (ref_table rc' ! u) = used k q1 (Own_RB u)" using u rc(3) rcs nth [of u] by simp
    show ?thesis
    proof
      assume d': "unat (ref_table rc' ! u) = d"
      then have "d \<notin> set H" using e un [of d "Own_RB u"] by auto
      then have "d = used k q1 (Own_RB t)" "d \<noteq> 0" using d unref nth [OF t(2)] by (auto simp: unat_gt_0 split: if_splits)
      then show False using q_ok_inj [OF ok1, of "Own_RB t" "Own_RB u"] d' e False by simp
    qed
  qed
  have distinct': "distinct (map unat unref @ H)"
    using unref dist nth [OF t(2)] un [of _ "Own_RB t"] by (auto split: if_splits)
  have len: "length (ref_table rc') = length (ref_table (refcounts q1))" using rc(3) by simp
  have moved: "unat (ref_table rc' ! u) \<in> set (unat c # H)"
    if "u < length (ref_table rc')" "ref_table rc' ! u \<noteq> ref_table (refcounts q1) ! u" for u
    using that rc(3) by (cases "u = t") auto
  note qrc = q_ok_rc [OF ok1 rc(1, 2) len rc(4) moved held notin distinct']
  have "rlen rf' = rlen (raw_file q1)" using rc(2) by (simp add: tab_frame_def)
  then show ?thesis
    using qrc(1) same_disk_trans [OF sd qrc(2) k] held_same_drop [OF qrc(3)] al new t rc(3, 5, 6) rcs held_same_trans [of k H q q1]
    by (auto simp: loop_post_def new_cluster_post_def rb_dirty_def q_counts_def)
qed

lemma loop_post_kept:
  assumes ok: "q_ok k M H q" and t: "t = rc_block k (unat a)" "t < length (ref_table (refcounts q))"
    and v: "cache_get (refblock_cache (refcounts q)) t = Some v" "vc_dirty v"
  shows "loop_post k M H q a r [] []
    (q\<lparr>refcounts := rc_put t (ref_table (refcounts q) ! t) (unat a div 2 ^ k mod rb_len k) r v (refcounts q), raw_file := raw_file q\<rparr>)"
proof -
  let ?rc = "refcounts q"
  have rc: "rc_ok k ?rc (raw_file q)" using ok by (simp add: q_ok_def caches_ok_def)
  have "ref_table ?rc ! t \<noteq> 0" "tab_placed k ((ref_table ?rc)[t := ref_table ?rc ! t]) (rlen (raw_file q))"
    using rc v(1) by (auto simp: rc_ok_def rc_inv_def)
  note put = rc_put_ok [OF rc v(1) this, of "unat a div 2 ^ k mod rb_len k" r]
  let ?rc' = "rc_put t (ref_table ?rc ! t) (unat a div 2 ^ k mod rb_len k) r v ?rc"
  have tab: "ref_table ?rc' = ref_table ?rc" "refcount_table_offset ?rc' = refcount_table_offset ?rc"
    by (simp_all add: rc_put_def)
  have "tab_frame k (ref_table ?rc') (raw_file q) (raw_file q)"
    using q_ok_bounds [OF ok] by (simp add: tab_frame_refl)
  note qrc = q_ok_blocks [OF ok put(1) this tab]
  show ?thesis
    using qrc t v put(2) by (simp add: loop_post_def rb_dirty_def q_counts_def set_count_def rc_put_def put_count_def)
qed

end
