(* ===== verification/Qcow_Allocation.thy ===== *)
theory Qcow_Allocation
  imports Qcow_Disk
begin

text \<open>
  The operations of \<^verbatim>\<open>qcow.rs\<close> that allocate clusters: setting a reference count, which may
  itself need clusters and then sets their counts too, and appending a cluster of data.
\<close>

section \<open>The loop\<close>

lemma wp_on_rc_Return:
  "m (refcounts q, raw_file q) = Return (Inr x, (rc, rf)) \<Longrightarrow> 
    wp (on_rc m) Q E q = Q x (q\<lparr>refcounts := rc, raw_file := rf\<rparr>)"
  by (simp add: wp_on_rc wp_def)

lemma q_ok_rc_ok: "q_ok k M H q \<Longrightarrow> rc_ok k (refcounts q) (raw_file q)"
  by (simp add: q_ok_def caches_ok_def)

lemma refcounts_per_block_eq: "q_ok k M H q \<Longrightarrow> unat (refcounts_per_block (refcounts q)) = rb_len k"
  by (simp add: q_ok_def caches_ok_def rc_ok_def rc_inv_def refcounts_per_block_def)

definition needs_cluster :: "qcow_file \<Rightarrow> nat \<Rightarrow> bool" where
  "needs_cluster q t \<longleftrightarrow> t < length (ref_table (refcounts q)) \<and>
     (case cache_get (refblock_cache (refcounts q)) t of None \<Rightarrow> ref_table (refcounts q) ! t = 0 | Some v \<Rightarrow> \<not> vc_dirty v)"

lemma wp_loop_alloc:
  assumes ok: "q_ok k M H q" and order: "is_order order" and need: "needs_cluster q (rc_block k (unat a))"
  shows "wp (io_bind get_new_cluster (\<lambda>addr.
      io_bind (io_get (\<lambda>q. refcounts_per_block (refcounts q))) (\<lambda>per_block.
      set_refcount_loop (Suc n) order a r (Some (addr, vc_new (unat per_block))) [addr])))
    (\<lambda>(added, unref) q'. loop_post k M H q a r added unref q') (\<lambda>_ _. True) q"
proof -
  let ?t = "rc_block k (unat a)" and ?j = "unat a div 2 ^ k mod rb_len k" and ?rc = "refcounts q"
  have t: "?t < length (ref_table ?rc)" "\<not> rb_dirty q ?t"
    using need by (auto simp: needs_cluster_def rb_dirty_def split: option.splits)
  have round: "wp (set_refcount_loop (Suc n) order a r (Some (c, vc_new (rb_len k))) [c])
      (\<lambda>(added, unref) q'. loop_post k M H q a r added unref q') (\<lambda>_ _. True) q1"
    if new: "new_cluster_post k M H q c q1" for c q1
  proof -
    note moved = moved_block [OF ok new t(1)]
    have rcs: "refcounts q1 = ?rc" and ok1: "q_ok k M (unat c # H) q1" using new by (auto simp: new_cluster_post_def)
    have rc1: "rc_ok k ?rc (raw_file q1)" using q_ok_rc_ok [OF ok1] rcs by simp
    note post = loop_post_moved [OF ok new refl t]
    show ?thesis
    proof (cases "cache_get (refblock_cache ?rc) ?t")
      case None
      then have z: "ref_table ?rc ! ?t = 0" using need by (simp add: needs_cluster_def)
      have disk: "rb_disk k (ref_table ?rc) (raw_file q1) ?t = replicate (rb_len k) 0" using z by (simp add: rb_disk_def)
      have "wp (rc_set_cluster_refcount order a r (Some (c, vc_new (rb_len k))))
        (\<lambda>res (rc', rf'). (\<exists>e. res = Inl (EvictingRefCounts e)) \<or>
          res = Inr None \<and> loop_post k M H q a r [c] [] (q1\<lparr>refcounts := rc', raw_file := rf'\<rparr>)) (\<lambda>_ _. True) (?rc, raw_file q1)"
        by (rule wp_mono [OF wp_rc_set_filled [OF rc1 order refl t(1) None moved(1), of "vc_new (rb_len k)" r]])
          (use moved disk rcs z in \<open>auto simp: vc_new_def set_count_def intro!: post\<close>)
      then show ?thesis
        by (auto simp: wp_simps rcs split: sum.splits option.splits elim!: wp_mono)
    next
      case (Some v)
      then have cl: "\<not> vc_dirty v" using need by (simp add: needs_cluster_def)
      have nz: "ref_table ?rc ! ?t \<noteq> 0" using rc1 Some by (auto simp: rc_ok_def rc_inv_def)
      note put = rc_put_ok [OF rc1 Some moved(1), of ?j r]
      have pl: "tab_placed k ((ref_table ?rc)[?t := c]) (rlen (raw_file q1))" using moved(2) rcs by simp
      have rf1: "rf_ok k (raw_file q1)" using q_ok_bounds [OF ok1] by simp
      have "loop_post k M H q a r [c] [ref_table ?rc ! ?t] (q1\<lparr>refcounts := rc_put ?t c ?j r v ?rc, raw_file := raw_file q1\<rparr>)"
        by (rule post) (use put pl nz rcs rf1 in \<open>auto simp: tab_frame_refl rc_put_def set_count_def put_count_def\<close>)
      then show ?thesis
        using rc_set_cached [OF rc1 t(1) Some, of order r "Some (c, vc_new (rb_len k))"] cl
        by (simp add: wp_bind wp_return wp_on_rc_Return rcs)
    qed
  qed
  have "unat (refcounts_per_block (refcounts q1)) = rb_len k" if "new_cluster_post k M H q c q1" for c q1
    using that refcounts_per_block_eq [of k M "unat c # H" q1] by (simp add: new_cluster_post_def)
  with round show ?thesis
    by (auto simp: wp_simps simp del: set_refcount_loop.simps intro!: wp_mono [OF wp_get_new_cluster [OF ok]])
qed

lemma loop_post_read:
  assumes "q_ok k M H q" "same_disk k q q1" "refcounts q1 = rc1" "ref_table rc1 = ref_table (refcounts q)"
    "q_counts k q1 = q_counts k q" "unref_clusters q1 = unref_clusters q" "avail_clusters q1 = avail_clusters q"
    "rlen (raw_file q1) = rlen (raw_file q)" "held_same k H q q1" "\<not> rb_dirty q (rc_block k (unat a))"
    "loop_post k M H q1 a r added unref q'"
  shows "loop_post k M H q a r added unref q'"
  using assms same_disk_trans [OF assms(2)] held_same_trans [OF assms(9)] q_ok_bounds [OF assms(1)] by (auto simp: loop_post_def)

lemma set_refcount_step:
  "wp (set_refcount_loop (Suc n) order a r nc added) Q E q =
    wp (on_rc (rc_set_cluster_refcount order a r nc)) (\<lambda>res. wp (case res of
        Inr None \<Rightarrow> io_return (added, [])
      | Inr (Some freed_cluster) \<Rightarrow> io_return (added, [freed_cluster])
      | Inl (EvictingRefCounts e) \<Rightarrow> io_fail e
      | Inl InvalidIndex \<Rightarrow> io_fail Einval
      | Inl (NeedCluster addr) \<Rightarrow>
          io_bind (on_qraw (read_refcount_block addr)) (\<lambda>block.
          set_refcount_loop n order a r (Some (addr, vc_from_vec block)) added)
      | Inl NeedNewCluster \<Rightarrow>
          io_bind get_new_cluster (\<lambda>addr.
          io_bind (io_get (\<lambda>q. refcounts_per_block (refcounts q))) (\<lambda>per_block.
          set_refcount_loop n order a r (Some (addr, vc_new (unat per_block))) (added @ [addr])))
      | Inl (ReadingRefCounts e) \<Rightarrow> io_fail e) Q E) E q"
  by (simp add: wp_bind)

lemma wp_loop_load:
  assumes ok: "q_ok k M H q" and order: "is_order order" and t: "rc_block k (unat a) < length (ref_table (refcounts q))"
    "cache_get (refblock_cache (refcounts q)) (rc_block k (unat a)) = None"
    "ref_table (refcounts q) ! rc_block k (unat a) \<noteq> 0"
  shows "wp (io_bind (on_qraw (read_refcount_block (ref_table (refcounts q) ! rc_block k (unat a)))) (\<lambda>block.
      set_refcount_loop (Suc (Suc n)) order a r
        (Some (ref_table (refcounts q) ! rc_block k (unat a), vc_from_vec block)) []))
    (\<lambda>(added, unref) q'. loop_post k M H q a r added unref q') (\<lambda>_ _. True) q"
proof -
  let ?t = "rc_block k (unat a)" and ?rc = "refcounts q" and ?c = "ref_table (refcounts q) ! rc_block k (unat a)"
  let ?tb = "vc_from_vec (be_table (unat ?c) (rb_len k) (rbyte (raw_file q))) :: u16 vec_cache"
  have rf: "rf_ok k (raw_file q)" using q_ok_bounds [OF ok] by simp
  have "wp (set_refcount_loop (Suc (Suc n)) order a r (Some (?c, ?tb)) [])
      (\<lambda>(added, unref) q'. loop_post k M H q a r added unref q') (\<lambda>_ _. True) (q\<lparr>raw_file := (raw_file q)\<lparr>rf_file := f\<rparr>\<rparr>)"
    if f: "contents f = contents (rf_file (raw_file q))" for f
  proof -
    let ?rf = "(raw_file q)\<lparr>rf_file := f\<rparr>" and ?q = "q\<lparr>raw_file := (raw_file q)\<lparr>rf_file := f\<rparr>\<rparr>"
    have rf': "rf_ok k ?rf" using rf f by (simp add: rf_ok_def)
    note bytes = q_ok_bytes [OF ok rf']
    have ok': "q_ok k M H ?q" and sd: "same_disk k q ?q" and rv: "rc_view k ?rc ?rf = rc_view k ?rc (raw_file q)"
      using bytes f by simp_all
    have rc: "rc_ok k ?rc ?rf" using q_ok_rc_ok [OF ok'] by simp
    have tab: "tab_placed k ((ref_table ?rc)[?t := ?c]) (rlen ?rf)" using rc by (simp add: rc_ok_def)
    have disk: "vc_vec ?tb = rb_disk k (ref_table ?rc) ?rf ?t" using t f by (simp add: rb_disk_def vc_from_vec_def)
    have alloc: "wp (io_bind get_new_cluster (\<lambda>addr.
           io_bind (io_get (\<lambda>q. refcounts_per_block (refcounts q))) (\<lambda>per_block.
           set_refcount_loop (Suc n) order a r (Some (addr, vc_new (unat per_block))) [addr])))
         (\<lambda>(added, unref) q'. loop_post k M H q a r added unref q') (\<lambda>_ _. True) (?q\<lparr>refcounts := rc', raw_file := rf'\<rparr>)"
      if rc': "tab_frame k (ref_table rc') ?rf rf'" "rc_ok k rc' rf'" "ref_table rc' = ref_table ?rc"
        "refcount_table_offset rc' = refcount_table_offset ?rc" "rc_view k rc' rf' = rc_view k ?rc ?rf"
        "cache_get (refblock_cache rc') ?t = Some ?tb" for rc' rf'
    proof -
      let ?q' = "?q\<lparr>refcounts := rc', raw_file := rf'\<rparr>"
      note keep = q_ok_blocks [OF ok', of rc' rf'] same_disk_trans [OF sd, of ?q']
      have ok2: "q_ok k M H ?q'" and sd2: "same_disk k q ?q'"
        using keep rc' q_ok_bounds [OF ok] by simp_all
      have held: "held_same k H q ?q'"
        using q_ok_blocks(3) [OF ok', of rc' rf'] rc' f by (simp add: held_same_def)
      have need: "needs_cluster ?q' ?t" using rc'(3, 6) t(1) by (simp add: needs_cluster_def vc_from_vec_def)
      have "loop_post k M H q a r added unref q2" if "loop_post k M H ?q' a r added unref q2" for added unref q2
        by (rule loop_post_read [OF ok sd2 refl _ _ _ _ _ held _ that])
          (use rc' rv t f in \<open>auto simp: q_counts_def rb_dirty_def tab_frame_def\<close>)
      then show ?thesis
        by (intro wp_mono [OF wp_loop_alloc [OF ok2 order need]]) auto
    qed
    have "wp (rc_set_cluster_refcount order a r (Some (?c, ?tb)))
      (\<lambda>res (rc', rf'). (\<exists>e. res = Inl (EvictingRefCounts e)) \<or> res = Inl NeedNewCluster \<and>
         wp (io_bind get_new_cluster (\<lambda>addr.
           io_bind (io_get (\<lambda>q. refcounts_per_block (refcounts q))) (\<lambda>per_block.
           set_refcount_loop (Suc n) order a r (Some (addr, vc_new (unat per_block))) [addr])))
         (\<lambda>(added, unref) q'. loop_post k M H q a r added unref q') (\<lambda>_ _. True) (?q\<lparr>refcounts := rc', raw_file := rf'\<rparr>))
      (\<lambda>_ _. True) (?rc, ?rf)"
      by (rule wp_mono [OF wp_rc_set_filled [OF rc order refl t(1, 2, 3) tab disk, of r]])
        (use alloc in \<open>auto simp: vc_from_vec_def\<close>)
    then show ?thesis
      by (auto simp: set_refcount_step wp_on_rc wp_fail case_prod_unfold simp del: set_refcount_loop.simps split: sum.splits option.splits elim!: wp_mono)
  qed
  then show ?thesis
    by (auto simp: wp_bind wp_on_qraw simp del: set_refcount_loop.simps intro!: wp_mono [OF wp_read_refcount_block [OF rf]])
qed

lemma wp_set_refcount_loop:
  assumes ok: "q_ok k M H q" and order: "is_order order"
  shows "wp (set_refcount_loop 3 order a r None []) (\<lambda>(added, unref) q'. loop_post k M H q a r added unref q') (\<lambda>_ _. True) q"
proof -
  let ?t = "rc_block k (unat a)" and ?rc = "refcounts q"
  note rc = q_ok_rc_ok [OF ok]
  have three: "(3 :: nat) = Suc (Suc (Suc 0))" by simp
  consider (invalid) "length (ref_table ?rc) \<le> ?t"
    | (dirty) v where "?t < length (ref_table ?rc)" "cache_get (refblock_cache ?rc) ?t = Some v" "vc_dirty v"
    | (clean) v where "?t < length (ref_table ?rc)" "cache_get (refblock_cache ?rc) ?t = Some v" "\<not> vc_dirty v"
    | (none) "?t < length (ref_table ?rc)" "cache_get (refblock_cache ?rc) ?t = None" "ref_table ?rc ! ?t = 0"
    | (load) "?t < length (ref_table ?rc)" "cache_get (refblock_cache ?rc) ?t = None" "ref_table ?rc ! ?t \<noteq> 0"
    by (cases "cache_get (refblock_cache ?rc) ?t") force+
  then show ?thesis
  proof cases
    case invalid
    then show ?thesis
      using rc_set_invalid [OF rc, of a order r None] by (simp add: three wp_bind wp_fail wp_on_rc_Return)
  next
    case (dirty v)
    then show ?thesis
      using rc_set_cached [OF rc dirty(1, 2), of order r None] loop_post_kept [OF ok refl dirty]
      by (simp add: three wp_bind wp_return wp_on_rc_Return)
  next
    case (clean v)
    then have "needs_cluster q ?t" by (simp add: needs_cluster_def)
    with wp_loop_alloc [OF ok order this, of "Suc 0" r] rc_set_cached [OF rc clean(1, 2), of order r None] clean(3)
    show ?thesis by (simp add: three set_refcount_step wp_bind wp_on_rc_Return del: set_refcount_loop.simps)
  next
    case none
    then have "needs_cluster q ?t" by (simp add: needs_cluster_def)
    with wp_loop_alloc [OF ok order this, of "Suc 0" r] rc_set_uncached [OF rc none(1, 2), of order r] none(3)
    show ?thesis by (simp add: three set_refcount_step wp_bind wp_on_rc_Return del: set_refcount_loop.simps)
  next
    case load
    note wp_loop_load [OF ok order load]
    then show ?thesis
      using rc_set_uncached [OF rc load(1, 2), of order r] load(3)
      by (simp add: three set_refcount_step wp_bind wp_on_rc_Return del: set_refcount_loop.simps)
  qed
qed

section \<open>Setting a count, and the counts of the clusters that needs\<close>

text \<open>
  The number of rounds that suffices. While there are free clusters every round takes one. After
  that the file grows, a cluster after the other, and the block of a new cluster has just been
  changed, unless the new cluster is the first of its block.
\<close>

definition enough :: "nat \<Rightarrow> nat \<Rightarrow> u64 \<Rightarrow> qcow_file \<Rightarrow> bool" where
  "enough k n a q \<longleftrightarrow> length (avail_clusters q) + 4 \<le> n \<or> 0 < n \<and> rb_dirty q (rc_block k (unat a)) \<or>
     avail_clusters q = [] \<and> 2 ^ k dvd unat a \<and> unat a + 2 ^ k = rlen (raw_file q) \<and>
     (3 \<le> n \<or> 2 \<le> n \<and> 2 ^ k * rb_len k dvd unat a)"

lemma enough_pos: "enough k n a q \<Longrightarrow> \<exists>m. n = Suc m"
  by (cases n) (auto simp: enough_def)

lemma rc_block_next:
  assumes "9 \<le> k" "2 ^ k dvd a"
  shows "rc_block k (a + 2 ^ k) = rc_block k a \<or> 2 ^ k * rb_len k dvd a + 2 ^ k"
    "2 ^ k * rb_len k dvd a \<Longrightarrow> rc_block k (a + 2 ^ k) = rc_block k a"
proof -
  obtain m where m: "a = 2 ^ k * m" using assms(2) by (auto elim: dvdE)
  have a: "a + 2 ^ k = 2 ^ k * Suc m" by (simp add: m)
  have R: "2 \<le> rb_len k" using assms(1) power_increasing [of 9 k "2 :: nat"] by simp
  have b: "rc_block k (2 ^ k * i) = i div rb_len k" for i by (simp add: rc_block_def)
  show "rc_block k (a + 2 ^ k) = rc_block k a \<or> 2 ^ k * rb_len k dvd a + 2 ^ k"
    unfolding a b unfolding m b by (simp add: div_Suc mod_eq_0_iff_dvd del: mult_Suc_right)
  assume "2 ^ k * rb_len k dvd a"
  then have "m mod rb_len k = 0" by (simp add: m mod_eq_0_iff_dvd)
  then have "Suc m mod rb_len k \<noteq> 0" using R by (simp add: mod_Suc)
  then show "rc_block k (a + 2 ^ k) = rc_block k a" unfolding a b unfolding m b by (simp add: div_Suc)
qed

lemma next_cluster:
  fixes a c :: nat
  assumes "2 ^ k dvd a" "2 ^ k dvd c" "a + 2 ^ k \<le> c" "c < a + 2 ^ k + 2 ^ k"
  shows "c = a + 2 ^ k"
proof -
  obtain m p where mp: "a = 2 ^ k * m" "c = 2 ^ k * p" using assms(1, 2) by (auto elim!: dvdE)
  have "2 ^ k * (m + 1) \<le> 2 ^ k * p" "2 ^ k * p < 2 ^ k * (m + 2)"
    using assms(3, 4) by (simp_all add: mp algebra_simps)
  then have "m + 1 \<le> p" "p < m + 2" by (simp_all only: nat_mult_le_cancel1 nat_mult_less_cancel1 zero_less_power zero_less_numeral)
  then have "p = m + 1" by simp
  then show ?thesis by (simp add: mp)
qed

lemma enough_next:
  assumes k: "9 \<le> k" and post: "loop_post k M H q a r [c] unref q'" and en: "enough k (Suc n) a q"
  shows "enough k n c q'"
proof (cases "avail_clusters q = []")
  case False
  then have "\<not> rb_dirty q (rc_block k (unat a))" "length (avail_clusters q') + 1 = length (avail_clusters q)"
    using post by (auto simp: loop_post_def)
  then show ?thesis using en False by (auto simp: enough_def)
next
  case True
  then have c: "2 ^ k dvd unat c" "avail_clusters q' = []" "rlen (raw_file q') = unat c + 2 ^ k" "rlen (raw_file q) \<le> unat c"
    "unat c < rlen (raw_file q) + 2 ^ k" "\<not> rb_dirty q (rc_block k (unat a))" "rb_dirty q' (rc_block k (unat a))"
    using post by (auto simp: loop_post_def)
  show ?thesis
  proof (cases "4 \<le> Suc n")
    case True
    then show ?thesis using c by (simp add: enough_def)
  next
    case False
    then have a: "2 ^ k dvd unat a" "unat a + 2 ^ k = rlen (raw_file q)" "3 \<le> Suc n \<or> 2 \<le> Suc n \<and> 2 ^ k * rb_len k dvd unat a"
      using en True c(6) by (auto simp: enough_def)
    have "unat c = unat a + 2 ^ k" using next_cluster [OF a(1) c(1)] c(4, 5) a(2) by simp
    then show ?thesis using a(3) rc_block_next [OF k a(1)] c by (auto simp: enough_def)
  qed
qed

definition refcount_post ::
  "nat \<Rightarrow> nat set \<Rightarrow> nat list \<Rightarrow> qcow_file \<Rightarrow> u64 \<Rightarrow> u16 \<Rightarrow> u64 list \<Rightarrow> qcow_file \<Rightarrow> bool" where
  "refcount_post k M H q a r unref q' \<longleftrightarrow> q_ok k M (map unat unref @ H) q' \<and> same_disk k q q' \<and>
     unref_clusters q' = unref_clusters q \<and> rc_block k (unat a) < length (ref_table (refcounts q)) \<and>
     length (ref_table (refcounts q')) = length (ref_table (refcounts q)) \<and>
     set (avail_clusters q') \<subseteq> set (avail_clusters q) \<and> rlen (raw_file q) \<le> rlen (raw_file q') \<and> held_same k H q q' \<and>
     (\<exists>cs. q_counts k q' = fold (\<lambda>c. set_count k c 1) cs (set_count k a r (q_counts k q)) \<and>
       (\<forall>c \<in> set cs. 2 ^ k dvd unat c \<and> (c \<in> set (avail_clusters q) \<or> rlen (raw_file q) \<le> unat c)))"

lemma refcount_post_loop:
  assumes "loop_post k M H q a r [] unref q'"
  shows "refcount_post k M H q a r unref q'"
  using assms by (auto simp: loop_post_def refcount_post_def intro: exI [of _ "[]"])

lemma refcount_post_nested:
  assumes k: "3 \<le> k" and loop: "loop_post k M H q a r [c] unref q1"
    and rest: "refcount_post k M (map unat unref @ H) q1 c 1 unref' q'"
  shows "refcount_post k M H q a r unref q'"
proof -
  obtain cs where cs: "q_counts k q' = fold (\<lambda>c. set_count k c 1) cs (set_count k c 1 (q_counts k q1))"
    "\<forall>d \<in> set cs. 2 ^ k dvd unat d \<and> (d \<in> set (avail_clusters q1) \<or> rlen (raw_file q1) \<le> unat d)"
    using rest by (auto simp: refcount_post_def)
  have sub: "set (avail_clusters q1) \<subseteq> set (avail_clusters q)" "rlen (raw_file q) \<le> rlen (raw_file q1)"
    using loop by (auto simp: loop_post_def split: if_splits dest: in_set_butlastD)
  have c: "2 ^ k dvd unat c \<and> (c \<in> set (avail_clusters q) \<or> rlen (raw_file q) \<le> unat c)"
    using loop by (auto simp: loop_post_def split: if_splits)
  have "q_counts k q' = fold (\<lambda>c. set_count k c 1) (c # cs) (set_count k a r (q_counts k q))"
    using cs(1) loop by (simp add: loop_post_def)
  moreover have "\<forall>d \<in> set (c # cs). 2 ^ k dvd unat d \<and> (d \<in> set (avail_clusters q) \<or> rlen (raw_file q) \<le> unat d)"
    using cs(2) sub c by auto
  ultimately have counts: "\<exists>cs. q_counts k q' = fold (\<lambda>c. set_count k c 1) cs (set_count k a r (q_counts k q)) \<and>
      (\<forall>d \<in> set cs. 2 ^ k dvd unat d \<and> (d \<in> set (avail_clusters q) \<or> rlen (raw_file q) \<le> unat d))"
    by blast
  have qok: "q_ok k M (map unat unref @ H) q'" "same_disk k q q'"
    using rest loop same_disk_trans [of k q q1 q'] k q_ok_drop [of k M "map unat unref'"] by (auto simp: refcount_post_def loop_post_def)
  have "held_same k H q q'"
    using held_same_trans [of k H q q1 q'] held_same_drop [of k "map unat unref" H q1 q'] loop rest
    by (simp add: loop_post_def refcount_post_def)
  moreover have "set (avail_clusters q') \<subseteq> set (avail_clusters q)" "rlen (raw_file q) \<le> rlen (raw_file q')"
    using rest sub by (auto simp: refcount_post_def)
  ultimately show ?thesis
    using qok counts rest loop unfolding refcount_post_def by (simp add: refcount_post_def loop_post_def)
qed

lemma wp_set_refcount_rec:
  assumes "is_order order" "q_ok k M H q" "enough k n a q"
  shows "wp (set_refcount_rec n order a r) (\<lambda>unref q'. refcount_post k M H q a r unref q') (\<lambda>_ _. True) q"
  using assms(2, 3)
proof (induction n arbitrary: a r q H)
  case 0
  then show ?case using enough_pos by blast
next
  case (Suc n)
  note k = q_ok_bounds [OF Suc.prems(1)]
  have "wp (set_refcount_added n order added) (\<lambda>_ q'. refcount_post k M H q a r unref q') (\<lambda>_ _. True) q1"
    if loop: "loop_post k M H q a r added unref q1" for added unref q1
  proof -
    consider "added = []" | c where "added = [c]" using loop by (auto simp: loop_post_def)
    then show ?thesis
    proof cases
      case 1
      then show ?thesis using loop by (simp add: wp_simps refcount_post_loop)
    next
      case (2 c)
      have "q_ok k M (map unat unref @ H) q1" using loop by (simp add: loop_post_def)
      moreover have "enough k n c q1" using enough_next [OF _ _ Suc.prems(2)] loop k 2 by blast
      ultimately show ?thesis
        using Suc.IH 2 loop refcount_post_nested k
        by (fastforce simp: wp_simps elim!: wp_mono)
    qed
  qed
  then show ?case
    by (auto simp: wp_simps intro!: wp_mono [OF wp_set_refcount_loop [OF Suc.prems(1) assms(1)]])
qed

lemma wp_set_cluster_refcount:
  assumes "q_ok k M H q" "is_order order"
  shows "wp (set_cluster_refcount order a r) (\<lambda>unref q'. refcount_post k M H q a r unref q') (\<lambda>_ _. True) q"
  using wp_set_refcount_rec [OF assms(2, 1)] by (simp add: set_cluster_refcount_def wp_simps enough_def)

end
