(* ===== verification/Qcow_Mapping.thy ===== *)
theory Qcow_Mapping
  imports Qcow_Allocation
begin

text \<open>
  The translation of disk addresses to addresses of the image file: the disk that an image
  holds, and the operations of \<^verbatim>\<open>qcow.rs\<close> that look up and change the L2 tables.
\<close>

section \<open>The disk of an image\<close>

definition data_owner :: "nat \<Rightarrow> nat \<Rightarrow> owner" where
  "data_owner k a = Own_Data (a div 2 ^ k div l2_len k) (a div 2 ^ k mod l2_len k)"

text \<open>The byte at an address of the disk; addresses without a cluster read as zero.\<close>

definition vdisk :: "nat \<Rightarrow> qcow_file \<Rightarrow> nat \<Rightarrow> u8" where
  "vdisk k q a =
     (if used k q (data_owner k a) = 0 then 0
      else rbyte (raw_file q) (used k q (data_owner k a) + a mod 2 ^ k))"

definition keeps_disk :: "nat \<Rightarrow> qcow_file \<Rightarrow> qcow_file \<Rightarrow> bool" where
  "keeps_disk k q q' \<longleftrightarrow> vdisk k q' = vdisk k q \<and> header q' = header q \<and> l2_entries q' = l2_entries q \<and>
     current_offset q' = current_offset q \<and> length (l1_table q') = length (l1_table q)"

lemma keeps_disk_refl: "keeps_disk k q q"
  by (simp add: keeps_disk_def)

lemma keeps_disk_trans: "keeps_disk k q q' \<Longrightarrow> keeps_disk k q' q'' \<Longrightarrow> keeps_disk k q q''"
  by (simp add: keeps_disk_def)

lemma in_cluster_mod: "c \<noteq> 0 \<Longrightarrow> in_cluster k c (c + a mod 2 ^ k)"
  by (simp add: in_cluster_def)

lemma same_disk_keeps:
  assumes "same_disk k q q'" "3 \<le> k"
  shows "keeps_disk k q q'"
proof -
  have "vdisk k q' a = vdisk k q a" for a
  proof -
    have "disk_owner (data_owner k a)" by (simp add: data_owner_def)
    then have "used k q' (data_owner k a) = used k q (data_owner k a)"
      "used k q (data_owner k a) \<noteq> 0 \<Longrightarrow>
        rbyte (raw_file q') (used k q (data_owner k a) + a mod 2 ^ k) = rbyte (raw_file q) (used k q (data_owner k a) + a mod 2 ^ k)"
      using same_disk_view(2) [OF assms] assms(1) in_cluster_mod by (auto simp: same_disk_def)
    then show ?thesis by (simp add: vdisk_def)
  qed
  then show ?thesis using assms(1) by (auto simp: keeps_disk_def same_disk_def)
qed

text \<open>The owner of an address names the table and the entry the code looks at.\<close>

lemma table_indices:
  assumes "q_ok k M H q"
  shows "unat (l1_table_index q a) = unat a div 2 ^ k div l2_len k"
    "unat (l2_table_index q a) = unat a div 2 ^ k mod l2_len k"
  using assms q_ok_bounds [OF assms] rf_ok_sizes(1) [of k "raw_file q"]
  by (simp_all add: l1_table_index_def l2_table_index_def unat_div unat_mod q_ok_def)

section \<open>Changing the tables\<close>

text \<open>A change of the L1 table and of the cached L2 tables that puts held clusters to use.\<close>

lemma q_ok_used:
  assumes ok: "q_ok k M H q" and caches: "caches_ok k q'"
    and same: "raw_file q' = raw_file q" "l2_entries q' = l2_entries q" "same_tables q q'"
    and used: "\<And>o1. used k q' o1 = used k q o1 \<or> used k q' o1 = 0 \<or> used k q' o1 \<in> set H"
    and inj: "\<And>o1 o2. used k q' o1 \<in> set H \<Longrightarrow> used k q' o1 = used k q' o2 \<Longrightarrow> o1 = o2"
    and free: "\<And>c. c \<in> set (H' @ free q') \<Longrightarrow> c \<in> set (H @ free q) \<or> c \<noteq> 0 \<and> (\<exists>o1. c = used k q o1)"
      "\<And>c o1. c \<in> set (H' @ free q') \<Longrightarrow> used k q' o1 \<noteq> c" "distinct (H' @ free q')"
  shows "q_ok k M H' q'"
proof -
  have H: "placed k M (rlen (raw_file q)) c" "used k q o1 \<noteq> c" if "c \<in> set H" for c o1
    using q_ok_free [OF ok, of c] that by auto
  have pl: "placed k M (rlen (raw_file q)) (used k q' o1)" if "used k q' o1 \<noteq> 0" for o1
    using used [of o1] that q_ok_placed [OF ok, of o1] H(1) [of "used k q' o1"] by auto
  moreover have "o1 = o2" if "used k q' o1 \<noteq> 0" "used k q' o1 = used k q' o2" for o1 o2
    using used [of o1] used [of o2] that q_ok_inj [OF ok, of o1 o2] inj [of o1 o2] inj [of o2 o1] by fastforce
  moreover have "placed k M (rlen (raw_file q)) c" if "c \<in> set (H' @ free q')" for c
    using free(1) [OF that] q_ok_free [OF ok, of c] q_ok_placed [OF ok] by auto
  moreover have "stored k M q'"
    using stored_frame [OF q_ok_stored [OF ok] same(3)] same(1) by simp
  ultimately show ?thesis
    using ok caches same(1, 2) same_tables_metadata [OF same(3)] free(2, 3) by (auto simp: q_ok_def)
qed

text \<open>Cached L2 tables may be loaded, written and dropped.\<close>

lemma q_ok_l2_blocks:
  assumes ok: "q_ok k M H q" and rf: "tab_frame k (l1_table q) (raw_file q) rf'"
    and coh: "coherent (l2_disk k (l1_table q)) c' rf'"
    and view: "cached_view (l2_disk k (l1_table q)) c' rf' = l2_view k q"
    and shape: "\<And>i v. cache_get c' i = Some v \<Longrightarrow> i < length (l1_table q) \<and> l1_table q ! i \<noteq> 0 \<and> l2_shape k (vc_vec v)"
  shows "q_ok k M H (q\<lparr>l2_cache := c', raw_file := rf'\<rparr>)" "keeps_disk k q (q\<lparr>l2_cache := c', raw_file := rf'\<rparr>)"
    "used k (q\<lparr>l2_cache := c', raw_file := rf'\<rparr>) = used k q" "rc_view k (refcounts q) rf' = rc_view k (refcounts q) (raw_file q)"
    "held_same k H q (q\<lparr>l2_cache := c', raw_file := rf'\<rparr>)"
proof -
  let ?q = "q\<lparr>l2_cache := c', raw_file := rf'\<rparr>"
  have k: "3 \<le> k" using q_ok_bounds [OF ok] by simp
  have len: "rlen rf' = rlen (raw_file q)" "rf_ok k rf'" using rf by (simp_all add: tab_frame_def)
  have other: "rbyte rf' x = rbyte (raw_file q) x" if x: "in_cluster k c x" "2 ^ k dvd c" and c: "\<And>i. used k q (Own_L2 i) \<noteq> c" for c x
  proof -
    have "\<not> in_cluster k (unat d) x" if d: "d \<in> set (l1_table q)" for d
    proof
      assume dx: "in_cluster k (unat d) x"
      obtain i where i: "i < length (l1_table q)" "l1_table q ! i = d" using d by (auto simp: in_set_conv_nth)
      have "unat d = c"
        using in_cluster_unique [OF dx x(1)] x(2) q_ok_placed [OF ok, of "Own_L2 i"] dx i
        by (auto simp: used_L2 placed_def in_cluster_def)
      then show False using c [of i] i by (simp add: used_L2)
    qed
    then show ?thesis using rf by (simp add: tab_frame_def)
  qed
  show used: "used k ?q = used k q"
  proof
    fix o1 show "used k ?q o1 = used k q o1" using view by (cases o1) (simp_all add: used.simps l2_view_def)
  qed
  have data: "rbyte rf' x = rbyte (raw_file q) x" if x: "in_cluster k (used k q o1) x" and o1: "\<And>i. o1 \<noteq> Own_L2 i" for o1 x
  proof -
    have nz: "used k q o1 \<noteq> 0" using x by (simp add: in_cluster_def)
    have "used k q (Own_L2 i) \<noteq> used k q o1" for i using q_ok_inj [OF ok nz, of "Own_L2 i"] o1 [of i] by auto
    then show ?thesis using other [OF x] q_ok_placed [OF ok nz] by (simp add: placed_def)
  qed
  have rb: "rb_disk k (ref_table (refcounts q)) rf' = rb_disk k (ref_table (refcounts q)) (raw_file q)"
  proof
    fix t
    show "rb_disk k (ref_table (refcounts q)) rf' t = rb_disk k (ref_table (refcounts q)) (raw_file q) t"
      by (rule rb_disk_cong [OF _ k]) (use data [of "Own_RB t"] in \<open>simp add: used.simps\<close>)
  qed
  show "rc_view k (refcounts q) rf' = rc_view k (refcounts q) (raw_file q)"
    unfolding rc_view_def by (rule cached_view_cong) (simp add: rb)
  show "held_same k H q ?q"
    unfolding held_same_def using other q_ok_free [OF ok] by (auto simp: placed_def)
  have "rc_ok k (refcounts q) rf'"
    using q_ok_rc_ok [OF ok] rb len by (auto simp: rc_ok_def coherent_def)
  then have "caches_ok k ?q" using coh shape by (auto simp: caches_ok_def)
  moreover have "rbyte rf' x = rbyte (raw_file q) x" if x: "x < 104" for x
  proof -
    have "\<not> in_cluster k (unat d) x" if d: "d \<in> set (l1_table q)" for d
    proof (cases "d = 0")
      case False
      obtain i where "i < length (l1_table q)" "l1_table q ! i = d" using d by (auto simp: in_set_conv_nth)
      then have "placed k M (rlen (raw_file q)) (unat d)"
        using q_ok_placed [OF ok, of "Own_L2 i"] False by (simp add: used_L2 unat_eq_zero)
      then show ?thesis using stored_outside [OF q_ok_stored [OF ok]] x by blast
    qed (simp add: in_cluster_def)
    then show ?thesis using rf by (simp add: tab_frame_def)
  qed
  then have "stored k M ?q"
    by (intro stored_frame [OF q_ok_stored [OF ok]]) (use len in \<open>simp_all add: same_tables_def\<close>)
  ultimately show "q_ok k M H ?q" using ok used len by (auto simp: q_ok_def metadata_def free_def)
  have "vdisk k ?q a = vdisk k q a" for a
    using data [OF in_cluster_mod, of "data_owner k a"] by (simp add: vdisk_def used data_owner_def)
  then show "keeps_disk k q ?q" by (auto simp: keeps_disk_def)
qed

section \<open>Looking up an address\<close>

text \<open>A table in the cache, everything else as before.\<close>

definition l2_ready :: "nat \<Rightarrow> nat set \<Rightarrow> nat list \<Rightarrow> nat \<Rightarrow> qcow_file \<Rightarrow> qcow_file \<Rightarrow> bool" where
  "l2_ready k M H i q q' \<longleftrightarrow> q_ok k M H q' \<and> keeps_disk k q q' \<and> used k q' = used k q \<and> l1_table q' = l1_table q \<and>
     refcounts q' = refcounts q \<and> avail_clusters q' = avail_clusters q \<and> unref_clusters q' = unref_clusters q \<and>
     q_counts k q' = q_counts k q \<and> rlen (raw_file q') = rlen (raw_file q) \<and> held_same k H q q' \<and>
     cache_contains (l2_cache q') i"

lemma l2_insert_eq:
  "l2_insert order i table = io_bind (io_get l1_table) (\<lambda>l1.
     io_on (\<lambda>q. (l2_cache q, raw_file q)) (\<lambda>(c, rf) q. q\<lparr>l2_cache := c, raw_file := rf\<rparr>) (cache_insert order i table (l2_store l1)))"
  by (simp add: l2_insert_def l2_store_def [abs_def])

lemma wp_l2_insert:
  assumes ok: "q_ok k M H q" and order: "is_order order" and un: "cache_get (l2_cache q) i = None"
    and i: "i < length (l1_table q)" "l1_table q ! i \<noteq> 0" "vc_vec table = l2_disk k (l1_table q) (raw_file q) i"
  shows "wp (l2_insert order i table)
    (\<lambda>_ q'. l2_ready k M H i q q' \<and> cache_get (l2_cache q') i = Some table) (\<lambda>_ _. True) q"
proof -
  let ?l1 = "l1_table q"
  have rf: "rf_ok k (raw_file q)" using q_ok_bounds [OF ok] by simp
  note l1 = l1_tab_placed [OF ok]
  have caches: "coherent (l2_disk k ?l1) (l2_cache q) (raw_file q)"
    "\<And>j v. cache_get (l2_cache q) j = Some v \<Longrightarrow> j < length ?l1 \<and> ?l1 ! j \<noteq> 0 \<and> l2_shape k (vc_vec v)"
    using ok by (auto simp: q_ok_def caches_ok_def)
  have shape: "l2_shape k (vc_vec table)" using i(3) by (simp add: l2_shape_disk)
  have "wp (cache_insert order i table (l2_store ?l1))
    (\<lambda>_ (c', f'). (rf_ok k f' \<and> tab_frame k ?l1 (raw_file q) f' \<and> tab_placed k ?l1 (rlen (raw_file q))) \<and>
      coherent (l2_disk k ?l1) c' f' \<and> cached_view (l2_disk k ?l1) c' f' = cached_view (l2_disk k ?l1) (l2_cache q) (raw_file q) \<and>
      cache_get c' i = Some table \<and> (\<forall>j. j \<noteq> i \<longrightarrow> cache_get c' j = cache_get (l2_cache q) j \<or> cache_get c' j = None))
    (\<lambda>_ _. True) (l2_cache q, raw_file q)"
    by (rule l2.insert_keeps_view) (use rf l1 caches order un i(3) in \<open>auto simp: tab_frame_refl\<close>)
  moreover have "l2_ready k M H i q (q\<lparr>l2_cache := c', raw_file := f'\<rparr>)"
    if c': "tab_frame k ?l1 (raw_file q) f'" "coherent (l2_disk k ?l1) c' f'"
      "cached_view (l2_disk k ?l1) c' f' = cached_view (l2_disk k ?l1) (l2_cache q) (raw_file q)" "cache_get c' i = Some table"
      "\<forall>j. j \<noteq> i \<longrightarrow> cache_get c' j = cache_get (l2_cache q) j \<or> cache_get c' j = None" for c' f'
  proof -
    have "j < length ?l1 \<and> ?l1 ! j \<noteq> 0 \<and> l2_shape k (vc_vec v)" if "cache_get c' j = Some v" for j v
      using that c'(4) c'(5) [rule_format, of j] i caches(2) [of j v] shape by (cases "j = i") auto
    note new = q_ok_l2_blocks [OF ok c'(1, 2) c'(3) [folded l2_view_def] this]
    from new show ?thesis
      using c'(1, 4) by (simp add: l2_ready_def q_counts_def cache_contains_def tab_frame_def)
  qed
  ultimately show ?thesis
    by (auto simp: l2_insert_eq wp_simps case_prod_unfold elim!: wp_mono)
qed

lemma l2_ready_refl: "q_ok k M H q \<Longrightarrow> cache_contains (l2_cache q) i \<Longrightarrow> l2_ready k M H i q q"
  by (simp add: l2_ready_def keeps_disk_refl held_same_def)

text \<open>Reading moves the position in the file only.\<close>

lemma q_ok_cursor:
  assumes ok: "q_ok k M H q" and f: "contents f = contents (rf_file (raw_file q))"
  defines "q' \<equiv> q\<lparr>raw_file := (raw_file q)\<lparr>rf_file := f\<rparr>\<rparr>"
  shows "q_ok k M H q'" "keeps_disk k q q'" "used k q' = used k q" "q_counts k q' = q_counts k q"
    "rlen (raw_file q') = rlen (raw_file q)" "held_same k H q q'" "rbyte (raw_file q') = rbyte (raw_file q)"
proof -
  have k: "3 \<le> k" using q_ok_bounds [OF ok] by simp
  have rf: "rf_ok k (raw_file q')" using q_ok_bounds [OF ok] f by (simp add: q'_def rf_ok_def)
  show b: "rlen (raw_file q') = rlen (raw_file q)" "rbyte (raw_file q') = rbyte (raw_file q)" using f by (simp_all add: q'_def)
  show "held_same k H q q'" using b by (simp add: held_same_def)
  have q': "q' = q\<lparr>raw_file := raw_file q'\<rparr>" by (simp add: q'_def)
  note bytes = q_ok_bytes [OF ok rf] q_ok_meta_bytes [OF ok rf]
  show "q_ok k M H q'" by (subst q') (rule bytes(1); simp add: b)
  have "same_disk k q q'" by (subst q') (rule bytes(2); simp add: b)
  then show "keeps_disk k q q'" using same_disk_keeps k by blast
  show "used k q' = used k q" by (subst q') (rule bytes(5); simp add: b)
  have "rc_view k (refcounts q) (raw_file q') = rc_view k (refcounts q) (raw_file q)" by (rule bytes(3); simp add: b)
  then show "q_counts k q' = q_counts k q" by (simp add: q_counts_def q'_def)
qed

lemma wp_l2_load:
  assumes ok: "q_ok k M H q" and order: "is_order order" and i: "i < length (l1_table q)" "l1_table q ! i \<noteq> 0"
  shows "wp (l2_load order i (l1_table q ! i)) (\<lambda>_ q'. l2_ready k M H i q q') (\<lambda>_ _. True) q"
proof (cases "cache_get (l2_cache q) i")
  case (Some v)
  then show ?thesis using l2_ready_refl [OF ok, of i] by (simp add: l2_load_def wp_simps cache_contains_def)
next
  case None
  have rf: "rf_ok k (raw_file q)" using q_ok_bounds [OF ok] by simp
  let ?ws = "map (\<lambda>w. w AND entry_mask) (be_table (unat (l1_table q ! i)) (l2_len k) (rbyte (raw_file q))) :: u64 list"
  have "wp (l2_insert order i (vc_from_vec ?ws)) (\<lambda>_ q'. l2_ready k M H i q q') (\<lambda>_ _. True) (q\<lparr>raw_file := (raw_file q)\<lparr>rf_file := f\<rparr>\<rparr>)"
    if f: "contents f = contents (rf_file (raw_file q))" for f
  proof -
    let ?q = "q\<lparr>raw_file := (raw_file q)\<lparr>rf_file := f\<rparr>\<rparr>"
    note cur = q_ok_cursor [OF ok f]
    have "vc_vec (vc_from_vec ?ws) = l2_disk k (l1_table ?q) (raw_file ?q) i"
      using i f by (simp add: vc_from_vec_def l2_disk_def)
    from wp_l2_insert [OF cur(1) order _ _ _ this] None i
    have "wp (l2_insert order i (vc_from_vec ?ws)) (\<lambda>_ q'. l2_ready k M H i ?q q' \<and> cache_get (l2_cache q') i = Some (vc_from_vec ?ws)) (\<lambda>_ _. True) ?q"
      by simp
    then show ?thesis
      by (rule wp_mono) (use cur in \<open>auto simp: l2_ready_def intro: keeps_disk_trans held_same_trans\<close>)
  qed
  then show ?thesis
    using None by (auto simp: l2_load_def wp_simps cache_contains_def intro!: wp_mono [OF wp_read_l2_cluster [OF rf]])
qed

lemma entry_bound: "c AND entry_mask = c \<Longrightarrow> unat (c :: u64) < 2 ^ 56"
proof -
  assume c: "c AND entry_mask = c"
  have "unat (c AND entry_mask) \<le> unat (entry_mask :: u64)"
    using word_and_le1 [of c entry_mask] by (simp add: word_le_nat_alt)
  then show ?thesis using c by simp
qed

lemma l2_entry:
  assumes ok: "q_ok k M H q" and i: "i < length (l1_table q)" and j: "j < l2_len k" and c: "cache_contains (l2_cache q) i"
  obtains v where "cache_get (l2_cache q) i = Some v" "length (vc_vec v) = l2_len k" "vc_vec v = l2_view k q i"
    "unat (vc_vec v ! j) = used k q (Own_Data i j)" "unat (vc_vec v ! j) < 2 ^ 56"
proof -
  obtain v where v: "cache_get (l2_cache q) i = Some v" using c by (auto simp: cache_contains_def)
  have shape: "l2_shape k (vc_vec v)" using ok v by (auto simp: q_ok_def caches_ok_def)
  have "vc_vec v = l2_view k q i" using v by (simp add: l2_view_def cached_view_def)
  moreover have "vc_vec v ! j AND entry_mask = vc_vec v ! j" using shape j by (simp add: l2_shape_def)
  ultimately show ?thesis
    using that [of v] v shape i j entry_bound by (simp add: l2_shape_def used.simps)
qed

lemma wp_l2_get:
  assumes ok: "q_ok k M H q" and i: "i < length (l1_table q)" and j: "j < l2_len k" and c: "cache_contains (l2_cache q) i"
    and post: "\<And>c. unat c = used k q (Own_Data i j) \<Longrightarrow> unat c < 2 ^ 56 \<Longrightarrow> Q c q"
  shows "wp (l2_get i j) Q E q"
proof -
  obtain v where v: "cache_get (l2_cache q) i = Some v" "length (vc_vec v) = l2_len k"
    "unat (vc_vec v ! j) = used k q (Own_Data i j)" "unat (vc_vec v ! j) < 2 ^ 56"
    by (rule l2_entry [OF ok i j c])
  then show ?thesis using j post [OF v(3, 4)] by (simp add: l2_get_def wp_simps vc_index_def)
qed

lemma cluster_address:
  assumes "q_ok k M H q" "unat (c :: u64) < 2 ^ 56"
  shows "unat (c + cluster_offset (raw_file q) a) = unat c + unat a mod 2 ^ k"
proof -
  have rf: "rf_ok k (raw_file q)" using q_ok_bounds [OF assms(1)] by simp
  have "unat a mod 2 ^ k < 2 ^ k" by simp
  then have "unat a mod 2 ^ k < 2 ^ 30" using rf_ok_sizes(5) [OF rf] by linarith
  then have "unat c + unat a mod 2 ^ k < 2 ^ 64" using assms(2) by simp
  then show ?thesis using rf_ok_sizes(2) [OF rf, of a] by (simp add: unat_word_ariths)
qed

lemma l2_len_pos: "q_ok k M H q \<Longrightarrow> 0 < l2_len k"
  using power_increasing [of 3 k "2 :: nat"] by (simp add: q_ok_def)

lemma unused_table:
  assumes ok: "q_ok k M H q" and z: "l1_table q ! i = 0" and j: "j < l2_len k"
  shows "used k q (Own_Data i j) = 0"
proof -
  have "cache_get (l2_cache q) i = None"
    using ok z by (cases "cache_get (l2_cache q) i") (auto simp: q_ok_def caches_ok_def)
  then show ?thesis using z j by (simp add: used.simps l2_view_def cached_view_def l2_disk_def)
qed

definition looked_up :: "nat \<Rightarrow> nat set \<Rightarrow> nat list \<Rightarrow> u64 \<Rightarrow> qcow_file \<Rightarrow> u64 option \<Rightarrow> qcow_file \<Rightarrow> bool" where
  "looked_up k M H a q res q' \<longleftrightarrow> q_ok k M H q' \<and> keeps_disk k q q' \<and> a < virtual_size q \<and>
     (case res of None \<Rightarrow> used k q' (data_owner k (unat a)) = 0
      | Some off \<Rightarrow> used k q' (data_owner k (unat a)) \<noteq> 0 \<and> unat off = used k q' (data_owner k (unat a)) + unat a mod 2 ^ k)"

lemma wp_file_offset_read:
  assumes ok: "q_ok k M H q" and order: "is_order order"
  shows "wp (file_offset_read order a) (\<lambda>res q'. looked_up k M H a q res q') (\<lambda>_ _. True) q"
proof -
  let ?i = "unat a div 2 ^ k div l2_len k" and ?j = "unat a div 2 ^ k mod l2_len k"
  note ind = table_indices [OF ok, of a]
  have j: "?j < l2_len k" using l2_len_pos [OF ok] by simp
  have owner: "data_owner k (unat a) = Own_Data ?i ?j" by (simp add: data_owner_def)
  show ?thesis
  proof (cases "a < virtual_size q \<and> ?i < length (l1_table q)")
    case False
    then show ?thesis
      by (auto simp: file_offset_read_def wp_simps Let_def ind nth_opt_def not_less)
  next
    case True
    show ?thesis
    proof (cases "l1_table q ! ?i = 0")
      case z: True
      then have "used k q (data_owner k (unat a)) = 0" using unused_table [OF ok _ j] by (simp add: owner)
      then show ?thesis
        using True z ok by (simp add: file_offset_read_def wp_simps Let_def ind nth_opt_def looked_up_def keeps_disk_refl)
    next
      case nz: False
      have "wp (l2_get ?i ?j) (\<lambda>c. wp (if c = 0 then io_return None
          else io_return (Some (c + cluster_offset (raw_file q) a))) (\<lambda>res q'. looked_up k M H a q res q') (\<lambda>_ _. True)) (\<lambda>_ _. True) q'"
        if r: "l2_ready k M H ?i q q'" for q'
      proof (rule wp_l2_get [OF _ _ j, of M H q' ?i])
        show "q_ok k M H q'" "?i < length (l1_table q')" "cache_contains (l2_cache q') ?i"
          using r True by (simp_all add: l2_ready_def)
      next
        fix c :: u64 assume c: "unat c = used k q' (Own_Data ?i ?j)" "unat c < 2 ^ 56"
        have "unat (c + cluster_offset (raw_file q) a) = unat c + unat a mod 2 ^ k" by (rule cluster_address [OF ok c(2)])
        moreover have "c = 0 \<longleftrightarrow> used k q' (Own_Data ?i ?j) = 0" using c(1) by (metis unat_eq_zero)
        ultimately show "wp (if c = 0 then io_return None else io_return (Some (c + cluster_offset (raw_file q) a)))
            (\<lambda>res q'. looked_up k M H a q res q') (\<lambda>_ _. True) q'"
          using r True c(1) by (auto simp: wp_simps looked_up_def owner l2_ready_def)
      qed
      then show ?thesis
        using True nz by (auto simp: file_offset_read_def wp_simps Let_def ind nth_opt_def cong: if_cong
            intro!: wp_mono [OF wp_l2_load [OF ok order _ nz]])
    qed
  qed
qed

section \<open>Putting clusters to use\<close>

lemma and_mask_id: "n < LENGTH('a) \<Longrightarrow> unat (x :: 'a::len word) < 2 ^ n \<Longrightarrow> x AND (2 ^ n - 1) = x"
  by (simp add: word_unat_eq_iff unat_and_mask)

lemma and_not_mask_id: "n < LENGTH('a) \<Longrightarrow> 2 ^ n dvd unat (x :: 'a::len word) \<Longrightarrow> x AND NOT (2 ^ n - 1) = x"
  by (simp add: word_unat_eq_iff unat_and_not_mask dvd_imp_mod_0)

lemma entry_of_cluster:
  assumes "9 \<le> k" "2 ^ k dvd unat (c :: u64)" "unat c < 2 ^ 56"
  shows "c AND entry_mask = c"
proof -
  have m: "(entry_mask :: u64) = (2 ^ 56 - 1) AND NOT (2 ^ 9 - 1)" by simp
  have "2 ^ 9 dvd unat c" by (rule dvd_trans [OF le_imp_power_dvd [OF assms(1)] assms(2)])
  then have ids: "c AND NOT (2 ^ 9 - 1) = c" "c AND (2 ^ 56 - 1) = c"
    by (rule and_not_mask_id [rotated], simp) (rule and_mask_id [OF _ assms(3)], simp)
  have "c AND entry_mask = (c AND (2 ^ 56 - 1)) AND NOT (2 ^ 9 - 1)" by (simp only: m and.assoc)
  then show ?thesis by (simp only: ids)
qed

lemma q_ok_caches: "q_ok k M H q \<Longrightarrow> caches_ok k q"
  by (simp add: q_ok_def)

text \<open>A new table: an empty cluster becomes the L2 table of an unused L1 entry.\<close>

lemma q_ok_new_table:
  assumes ok: "q_ok k M (unat c # H) q" and i: "i < length (l1_table q)" "l1_table q ! i = 0"
    and z: "\<And>x. in_cluster k (unat c) x \<Longrightarrow> rbyte (raw_file q) x = 0"
  defines "q' \<equiv> q\<lparr>l1_table := (l1_table q)[i := c]\<rparr>"
  shows "q_ok k M H q'" "used k q' = (used k q)(Own_L2 i := unat c)" "keeps_disk k q q'"
    "l2_disk k (l1_table q') (raw_file q') i = replicate (l2_len k) 0" "cache_get (l2_cache q') i = None" "c \<noteq> 0"
proof -
  have k: "3 \<le> k" using q_ok_bounds [OF ok] by simp
  have c: "placed k M (rlen (raw_file q)) (unat c)" "\<And>o1. used k q o1 \<noteq> unat c" "unat c \<notin> set (H @ free q)"
    using q_ok_free [OF ok, of "unat c"] ok by (auto simp: q_ok_def)
  then show nz: "c \<noteq> 0" by (auto simp: placed_def)
  have get: "cache_get (l2_cache q) i = None"
    using ok i(2) by (cases "cache_get (l2_cache q) i") (auto simp: q_ok_def caches_ok_def)
  then show "cache_get (l2_cache q') i = None" by (simp add: q'_def)
  have "8 dvd (2 :: nat) ^ k" using le_imp_power_dvd [OF k, of "2 :: nat"] by simp
  then have "8 * l2_len k = 2 ^ k" by simp
  then have "be_table (unat c) (l2_len k) (rbyte (raw_file q)) = (replicate (l2_len k) 0 :: u64 list)"
    using z nz by (intro be_table_zero) (auto simp: in_cluster_def unat_eq_zero)
  then have disk_i: "l2_disk k ((l1_table q)[i := c]) (raw_file q) i = replicate (l2_len k) 0"
    using i by (simp add: l2_disk_def)
  then show "l2_disk k (l1_table q') (raw_file q') i = replicate (l2_len k) 0" by (simp add: q'_def)
  have disk: "l2_disk k ((l1_table q)[i := c]) (raw_file q) = l2_disk k (l1_table q) (raw_file q)"
  proof
    fix u show "l2_disk k ((l1_table q)[i := c]) (raw_file q) u = l2_disk k (l1_table q) (raw_file q) u"
      using disk_i i by (cases "u = i") (simp_all add: l2_disk_def)
  qed
  then have view: "l2_view k q' = l2_view k q"
    unfolding l2_view_def q'_def by (simp, intro cached_view_cong) simp
  show used: "used k q' = (used k q)(Own_L2 i := unat c)"
  proof
    fix o1 show "used k q' o1 = ((used k q)(Own_L2 i := unat c)) o1"
      using i view by (cases o1) (auto simp: used.simps q'_def)
  qed
  have "(l1_table q)[i := c] ! j = l1_table q ! j" if "cache_get (l2_cache q) j = Some v" for j v
    using that get by (cases "j = i") auto
  then have caches: "caches_ok k q'" using q_ok_caches [OF ok] disk by (auto simp: caches_ok_def q'_def coherent_def)
  have frame: "raw_file q' = raw_file q" "l2_entries q' = l2_entries q" "same_tables q q'"
    by (simp_all add: q'_def same_tables_def)
  have free: "free q' = free q" "distinct (H @ free q)" using ok by (simp_all add: free_def q'_def q_ok_def)
  have "used k q o1 \<noteq> d" if "d \<in> set (H @ free q)" for o1 d using q_ok_free [OF ok, of d] that by auto
  then show "q_ok k M H q'"
    by (intro q_ok_used [OF ok caches frame]) (use c free in \<open>auto simp: used split: if_splits\<close>)
  show "keeps_disk k q q'"
    using frame by (auto simp: keeps_disk_def vdisk_def used data_owner_def) (simp_all add: q'_def)
qed

lemma q_ok_unref:
  assumes "q_ok k M (map unat cs @ H) q"
  shows "q_ok k M H (q\<lparr>unref_clusters := unref_clusters q @ cs\<rparr>)"
proof -
  let ?q = "q\<lparr>unref_clusters := unref_clusters q @ cs\<rparr>"
  have set: "set (H @ free ?q) = set ((map unat cs @ H) @ free q)" by (auto simp: free_def)
  have "distinct ((map unat cs @ H) @ free q)" using assms by (simp add: q_ok_def)
  then have dist: "distinct (H @ free ?q)" by (auto simp: free_def)
  have used: "used k q o1 \<noteq> c" if "c \<in> set (H @ free ?q)" for c o1 using q_ok_free [OF assms, of c] that set by blast
  have meta: "same_tables q ?q" by (simp add: same_tables_def)
  have un: "used k q o1 \<notin> set (map unat cs @ H)" for o1 using q_ok_free [OF assms, of "used k q o1"] by auto
  show ?thesis
  proof (rule q_ok_used [OF assms _ _ _ meta _ _ _ _ dist])
    show "c \<in> set ((map unat cs @ H) @ free q) \<or> c \<noteq> 0 \<and> (\<exists>o1. c = used k q o1)" if "c \<in> set (H @ free ?q)" for c
      using that set by blast
    show "used k ?q o1 \<noteq> c" if "c \<in> set (H @ free ?q)" for c o1 using used [OF that] by simp
    show "o1 = o2" if "used k ?q o1 \<in> set (map unat cs @ H)" for o1 o2 using that un [of o1] by simp
  qed (use q_ok_caches [OF assms] in simp_all)
qed

text \<open>Changing an entry of a cached table, which may move to another cluster.\<close>

definition l2_put :: "nat \<Rightarrow> nat \<Rightarrow> u64 \<Rightarrow> u64 \<Rightarrow> u64 vec_cache \<Rightarrow> qcow_file \<Rightarrow> qcow_file" where
  "l2_put i j c n v q = q\<lparr>l1_table := (l1_table q)[i := n],
     l2_cache := cache_set i (v\<lparr>vc_dirty := True, vc_vec := (vc_vec v)[j := c]\<rparr>) (l2_cache q)\<rparr>"

lemma l2_put_frame [simp]:
  "raw_file (l2_put i j c n v q) = raw_file q" "l2_entries (l2_put i j c n v q) = l2_entries q"
  "same_tables q (l2_put i j c n v q)" "free (l2_put i j c n v q) = free q"
  "header (l2_put i j c n v q) = header q" "current_offset (l2_put i j c n v q) = current_offset q"
  "length (l1_table (l2_put i j c n v q)) = length (l1_table q)" "refcounts (l2_put i j c n v q) = refcounts q"
  "avail_clusters (l2_put i j c n v q) = avail_clusters q" "unref_clusters (l2_put i j c n v q) = unref_clusters q"
  by (simp_all add: l2_put_def same_tables_def free_def)

lemma l2_put_used:
  assumes ok: "caches_ok k q" and v: "cache_get (l2_cache q) i = Some v" and j: "j < l2_len k"
    and n: "n \<noteq> 0" and c: "c AND entry_mask = c"
  shows "caches_ok k (l2_put i j c n v q)"
    "used k (l2_put i j c n v q) = (used k q)(Own_L2 i := unat n, Own_Data i j := unat c)"
proof -
  have i: "i < length (l1_table q)" "l2_shape k (vc_vec v)" using ok v by (auto simp: caches_ok_def)
  have "v' AND entry_mask = v'" if "v' \<in> set ((vc_vec v)[j := c])" for v'
    using that set_update_subset_insert [of "vc_vec v" j c] i(2) c by (auto simp: l2_shape_def)
  then have shape: "l2_shape k ((vc_vec v)[j := c])" using i(2) by (simp add: l2_shape_def)
  have disk: "l2_disk k ((l1_table q)[i := n]) (raw_file q) u = l2_disk k (l1_table q) (raw_file q) u" if "u \<noteq> i" for u
    using that by (simp add: l2_disk_def)
  show "caches_ok k (l2_put i j c n v q)"
    using ok i shape n disk by (auto simp: caches_ok_def l2_put_def coherent_def nth_list_update split: if_splits)
  have view: "l2_view k (l2_put i j c n v q) = (l2_view k q)(i := (l2_view k q i)[j := c])"
    using v disk by (auto simp: l2_view_def l2_put_def cached_view_def fun_eq_iff split: option.splits)
  have len: "length (l2_view k q i) = l2_len k" using v i(2) by (simp add: l2_view_def cached_view_def l2_shape_def)
  show "used k (l2_put i j c n v q) = (used k q)(Own_L2 i := unat n, Own_Data i j := unat c)"
  proof
    fix o1
    show "used k (l2_put i j c n v q) o1 = ((used k q)(Own_L2 i := unat n, Own_Data i j := unat c)) o1"
    proof (cases o1)
      case (Own_L2 u)
      then show ?thesis using i by (simp add: used.simps l2_put_def)
    next
      case (Own_Data u w)
      then show ?thesis using i j len view by (auto simp: used.simps)
    next
      case (Own_RB t)
      then show ?thesis by (simp add: used.simps)
    qed
  qed
qed

lemma l2_set_eq:
  assumes "cache_get (l2_cache q) i = Some v" "j < length (vc_vec v)"
  shows "wp (l2_set i j c) Q E q = Q () (l2_put i j c (l1_table q ! i) v q)"
  using assms by (simp add: l2_set_def wp_simps vc_index_mut_def l2_put_def)

text \<open>An entry that was unused now names an empty cluster: the disk is the same.\<close>

lemma vdisk_put:
  assumes "used k q' = (used k q)(Own_L2 i := n, Own_Data i j := c)" "used k q (Own_Data i j) = 0"
    "raw_file q' = raw_file q" "\<And>x. in_cluster k c x \<Longrightarrow> rbyte (raw_file q) x = 0"
  shows "vdisk k q' = vdisk k q"
proof
  fix a show "vdisk k q' a = vdisk k q a"
    using assms in_cluster_mod [of c k a] by (auto simp: vdisk_def data_owner_def)
qed

lemma q_ok_put_dirty:
  assumes ok: "q_ok k M (unat c # H) q" and v: "cache_get (l2_cache q) i = Some v" and j: "j < l2_len k"
    and c: "c AND entry_mask = c" and un: "used k q (Own_Data i j) = 0"
    and z: "\<And>x. in_cluster k (unat c) x \<Longrightarrow> rbyte (raw_file q) x = 0"
  defines "q' \<equiv> l2_put i j c (l1_table q ! i) v q"
  shows "q_ok k M H q'" "keeps_disk k q q'" "used k q' (Own_Data i j) = unat c"
proof -
  have n: "i < length (l1_table q)" "l1_table q ! i \<noteq> 0" using q_ok_caches [OF ok] v by (auto simp: caches_ok_def)
  note put = l2_put_used [OF q_ok_caches [OF ok] v j n(2) c]
  have "(used k q)(Own_L2 i := unat (l1_table q ! i)) = used k q" using n(1) by (auto simp: used_L2)
  then have used: "used k q' = (used k q)(Own_Data i j := unat c)" using put(2) by (simp add: q'_def)
  then show "used k q' (Own_Data i j) = unat c" by simp
  have frame: "raw_file q' = raw_file q" "l2_entries q' = l2_entries q" "same_tables q q'" "free q' = free q"
    by (simp_all add: q'_def)
  have f: "used k q o1 \<noteq> d" if "d \<in> set (unat c # H @ free q)" for o1 d using q_ok_free [OF ok, of d] that by auto
  have dist: "distinct (unat c # H @ free q)" using ok by (simp add: q_ok_def)
  show "q_ok k M H q'"
    by (rule q_ok_used [OF ok put(1) [folded q'_def] frame(1-3)]) (use f dist frame(4) in \<open>auto simp: used split: if_splits\<close>)
  have "vdisk k q' = vdisk k q" using vdisk_put [OF put(2) un _ z] by (simp add: q'_def)
  then show "keeps_disk k q q'" by (simp add: keeps_disk_def q'_def)
qed

lemma q_ok_put_moved:
  assumes ok: "q_ok k M (unat n # unat c # H) q" and v: "cache_get (l2_cache q) i = Some v" and j: "j < l2_len k"
    and c: "c AND entry_mask = c" and un: "used k q (Own_Data i j) = 0"
    and z: "\<And>x. in_cluster k (unat c) x \<Longrightarrow> rbyte (raw_file q) x = 0"
  defines "q' \<equiv> l2_put i j c n v (q\<lparr>unref_clusters := unref_clusters q @ [l1_table q ! i]\<rparr>)"
  shows "q_ok k M H q'" "keeps_disk k q q'" "used k q' (Own_Data i j) = unat c"
proof -
  let ?H = "unat n # unat c # H" and ?old = "unat (l1_table q ! i)"
  have i: "i < length (l1_table q)" "l1_table q ! i \<noteq> 0" using q_ok_caches [OF ok] v by (auto simp: caches_ok_def)
  have old: "used k q (Own_L2 i) = ?old" "?old \<noteq> 0" using i by (simp_all add: used_L2 unat_eq_zero)
  have f: "used k q o1 \<noteq> d" if "d \<in> set (?H @ free q)" for o1 d using q_ok_free [OF ok, of d] that by auto
  have dist: "distinct (?H @ free q)" using ok by (simp add: q_ok_def)
  have n: "n \<noteq> 0" using q_ok_free [OF ok, of "unat n"] by (auto simp: placed_def)
  have put: "caches_ok k q'" "used k q' = (used k q)(Own_L2 i := unat n, Own_Data i j := unat c)"
    using l2_put_used [of k "q\<lparr>unref_clusters := unref_clusters q @ [l1_table q ! i]\<rparr>", OF _ _ j n c] q_ok_caches [OF ok] v
    by (simp_all add: q'_def)
  then show "used k q' (Own_Data i j) = unat c" by simp
  have frame: "raw_file q' = raw_file q" "l2_entries q' = l2_entries q" "same_tables q q'" "free q' = free q @ [?old]"
    by (simp_all add: q'_def same_tables_def free_def)
  have nc: "unat n \<noteq> unat c" "unat n \<noteq> ?old" "unat c \<noteq> ?old" "?old \<notin> set (H @ free q)"
    using dist f [of "unat n" "Own_L2 i"] f [of "unat c" "Own_L2 i"] f [of ?old "Own_L2 i"] old by auto
  show "q_ok k M H q'"
  proof (rule q_ok_used [OF ok put(1) frame(1-3)])
    show "used k q' o1 = used k q o1 \<or> used k q' o1 = 0 \<or> used k q' o1 \<in> set ?H" for o1 by (simp add: put(2))
    show "o1 = o2" if "used k q' o1 \<in> set ?H" "used k q' o1 = used k q' o2" for o1 o2
      using that f [of "used k q' o1" o1] f [of "used k q' o1" o2] nc(1) by (auto simp: put(2) split: if_splits)
    show "d \<in> set (?H @ free q) \<or> d \<noteq> 0 \<and> (\<exists>o1. d = used k q o1)" if "d \<in> set (H @ free q')" for d
      using that old by (auto simp: frame(4) intro: exI [of _ "Own_L2 i"])
    show "used k q' o1 \<noteq> d" if "d \<in> set (H @ free q')" for d o1
    proof -
      have d: "d \<in> set (H @ free q) \<or> d = ?old" using that by (auto simp: frame(4))
      consider "o1 = Own_L2 i" | "o1 = Own_Data i j" | "used k q' o1 = used k q o1" "o1 \<noteq> Own_L2 i"
        using put(2) by (metis fun_upd_apply)
      then show ?thesis
      proof cases
        case 3
        have "used k q o1 \<noteq> ?old" using q_ok_inj [OF ok, of "Own_L2 i" o1] old 3(2) by auto
        then show ?thesis using d f [of d o1] 3(1) by auto
      qed (use d dist nc in \<open>auto simp: put(2)\<close>)
    qed
    show "distinct (H @ free q')" using dist nc(4) by (simp add: frame(4))
  qed
  have "vdisk k q' = vdisk k q" using vdisk_put [OF put(2) un frame(1) z] .
  then show "keeps_disk k q q'" by (simp add: keeps_disk_def q'_def)
qed

lemma wp_get_new_cluster_unref:
  assumes "q_ok k M H q"
  shows "wp get_new_cluster (\<lambda>a q'. \<exists>q1. q' = q1\<lparr>unref_clusters := us\<rparr> \<and> new_cluster_post k M H q a q1) (\<lambda>_ _. True)
    (q\<lparr>unref_clusters := us\<rparr>)"
proof -
  have "wp get_new_cluster Q (\<lambda>_ _. True) (q\<lparr>unref_clusters := us\<rparr>)"
    if "wp get_new_cluster (\<lambda>a q'. Q a (q'\<lparr>unref_clusters := us\<rparr>)) (\<lambda>_ _. True) q" for Q :: "u64 \<Rightarrow> qcow_file \<Rightarrow> bool"
    using that by (cases q) (auto simp: get_new_cluster_def wp_simps Let_def split: if_splits)
  then show ?thesis
    by this (rule wp_mono [OF wp_get_new_cluster [OF assms]]; force)
qed

definition entry_set :: "nat \<Rightarrow> nat set \<Rightarrow> nat list \<Rightarrow> nat \<Rightarrow> nat \<Rightarrow> u64 \<Rightarrow> qcow_file \<Rightarrow> qcow_file \<Rightarrow> bool" where
  "entry_set k M H i j c q q' \<longleftrightarrow> q_ok k M H q' \<and> keeps_disk k q q' \<and> used k q' (Own_Data i j) = unat c"

lemma wp_update_cluster_addr:
  assumes ok: "q_ok k M (unat c # H) q" and i: "cache_contains (l2_cache q) i" and j: "j < l2_len k"
    and c: "c AND entry_mask = c" and un: "used k q (Own_Data i j) = 0"
    and z: "\<And>x. in_cluster k (unat c) x \<Longrightarrow> rbyte (raw_file q) x = 0"
  shows "wp (update_cluster_addr i j c rs) (\<lambda>_ q'. entry_set k M H i j c q q') (\<lambda>_ _. True) q"
proof -
  obtain v where v: "cache_get (l2_cache q) i = Some v" using i by (auto simp: cache_contains_def)
  then have l1: "i < length (l1_table q)" "l1_table q ! i \<noteq> 0" "length (vc_vec v) = l2_len k"
    using q_ok_caches [OF ok] by (auto simp: caches_ok_def l2_shape_def)
  show ?thesis
  proof (cases "vc_dirty v")
    case True
    then show ?thesis
      using v l1 j q_ok_put_dirty [OF ok v j c un z]
      by (simp add: update_cluster_addr_def wp_simps l2_set_eq entry_set_def)
  next
    case False
    let ?us = "unref_clusters q @ [l1_table q ! i]"
    have k: "3 \<le> k" using q_ok_bounds [OF ok] by simp
    have post: "entry_set k M H i j c q (l2_put i j c n v (q1\<lparr>unref_clusters := ?us\<rparr>))"
      if new: "new_cluster_post k M (unat c # H) q n q1" for n q1
    proof -
      have ok1: "q_ok k M (unat n # unat c # H) q1" and sd: "same_disk k q q1" and hs: "held_same k (unat c # H) q q1"
        and us: "unref_clusters q1 = unref_clusters q"
        using new by (auto simp: new_cluster_post_def)
      have "cache_get (l2_cache q1) i = Some v" "used k q1 (Own_Data i j) = 0" "l1_table q1 ! i = l1_table q ! i"
        using v sd un same_disk_view(2) [OF sd k] by (simp_all add: same_disk_def)
      moreover have "rbyte (raw_file q1) x = 0" if "in_cluster k (unat c) x" for x using hs z that by (simp add: held_same_def)
      ultimately show ?thesis
        using q_ok_put_moved [OF ok1 _ j c, of i v] keeps_disk_trans [OF same_disk_keeps [OF sd k]] us by (simp add: entry_set_def)
    qed
    have "l1_table q1 ! i \<noteq> 0 \<and> length (l1_table q1) = length (l1_table q) \<and> cache_get (l2_cache q1) i = Some v"
      if "new_cluster_post k M (unat c # H) q n q1" for n q1
      using that l1 v by (auto simp: new_cluster_post_def same_disk_def)
    with post show ?thesis
      using v l1 j False
      by (auto simp: update_cluster_addr_def wp_simps append_unref_def set_l1_def l2_set_def vc_index_mut_def nth_opt_def
          l2_put_def intro!: wp_mono [OF wp_get_new_cluster_unref [OF ok]])
  qed
qed

section \<open>Addresses to write to\<close>

lemma block_bound:
  assumes "q_ok k M H q" "rc_block k (unat a) < length (ref_table (refcounts q))"
  shows "unat a < 2 ^ 56"
proof -
  have len: "length (ref_table (refcounts q)) * rb_len k * 2 ^ k \<le> 2 ^ 56"
    using q_ok_rc_ok [OF assms(1)] by (simp add: rc_ok_def rc_inv_def)
  have "0 < rb_len k" using q_ok_bounds [OF assms(1)] power_increasing [of 3 k "2 :: nat"] by simp
  then have "unat a < length (ref_table (refcounts q)) * rb_len k * 2 ^ k"
    using assms(2) by (simp add: rc_block_def div_less_iff_less_mult)
  then show ?thesis using len by linarith
qed

definition appended :: "nat \<Rightarrow> nat set \<Rightarrow> nat list \<Rightarrow> u64 \<Rightarrow> qcow_file \<Rightarrow> qcow_file \<Rightarrow> bool" where
  "appended k M H c q q' \<longleftrightarrow> q_ok k M (unat c # H) q' \<and> same_disk k q q' \<and> c AND entry_mask = c \<and> unat c < 2 ^ 56 \<and> c \<noteq> 0 \<and>
     (\<forall>x. in_cluster k (unat c) x \<longrightarrow> rbyte (raw_file q') x = 0)"

lemma wp_append_data_cluster:
  assumes ok: "q_ok k M H q" and order: "is_order order"
  shows "wp (append_data_cluster order) (\<lambda>c q'. appended k M H c q q') (\<lambda>_ _. True) q"
proof -
  note k = q_ok_bounds [OF ok]
  have post: "appended k M H c q (q2\<lparr>unref_clusters := unref_clusters q2 @ unref\<rparr>)"
    if new: "new_cluster_post k M H q c q1" and rc: "refcount_post k M (unat c # H) q1 c 1 unref q2" for c q1 unref q2
  proof -
    have q2: "q_ok k M (map unat unref @ unat c # H) q2" "same_disk k q1 q2" "held_same k (unat c # H) q1 q2"
      and q1: "q_ok k M (unat c # H) q1" "same_disk k q q1" "\<And>x. in_cluster k (unat c) x \<Longrightarrow> rbyte (raw_file q1) x = 0"
      using new rc by (auto simp: new_cluster_post_def refcount_post_def)
    have c: "placed k M (rlen (raw_file q1)) (unat c)" using q_ok_free [OF q1(1), of "unat c"] by simp
    have b: "unat c < 2 ^ 56" by (rule block_bound [OF q1(1)]) (use rc in \<open>simp add: refcount_post_def\<close>)
    have "c AND entry_mask = c" by (rule entry_of_cluster [OF _ _ b, of k]) (use k c in \<open>simp_all add: placed_def\<close>)
    moreover have "same_disk k q q2" using same_disk_trans [OF q1(2) q2(2)] k by simp
    ultimately show ?thesis
      using q_ok_unref [OF q2(1)] q1(3) q2(3) b c by (auto simp: appended_def same_disk_def held_same_def placed_def)
  qed
  have "wp (set_cluster_refcount order c 1) (\<lambda>unref q2. appended k M H c q (q2\<lparr>unref_clusters := unref_clusters q2 @ unref\<rparr>)) (\<lambda>_ _. True) q1"
    if new: "new_cluster_post k M H q c q1" for c q1
    by (rule wp_mono [OF wp_set_cluster_refcount [OF _ order]]) (use new post [OF new] in \<open>auto simp: new_cluster_post_def\<close>)
  then show ?thesis
    by (auto simp: append_data_cluster_def append_unref_def wp_simps intro!: wp_mono [OF wp_get_new_cluster [OF ok]])
qed

lemma wp_set_refcounts_all:
  assumes "q_ok k M H q" "is_order order"
  shows "wp (set_refcounts_all order rs) (\<lambda>_ q'. q_ok k M H q' \<and> same_disk k q q') (\<lambda>_ _. True) q"
  using assms(1)
proof (induction rs arbitrary: q)
  case Nil
  then show ?case by (simp add: wp_simps same_disk_refl)
next
  case (Cons r rs)
  obtain a c where r: "r = (a, c)" by (cases r)
  note k = q_ok_bounds [OF Cons.prems]
  have "wp (set_refcounts_all order rs) (\<lambda>_ q'. q_ok k M H q' \<and> same_disk k q q') (\<lambda>_ _. True)
      (q1\<lparr>unref_clusters := unref_clusters q1 @ unref\<rparr>)"
    if post: "refcount_post k M H q a c unref q1" for unref q1
  proof -
    let ?q = "q1\<lparr>unref_clusters := unref_clusters q1 @ unref\<rparr>"
    have "q_ok k M H ?q" by (rule q_ok_unref) (use post in \<open>simp add: refcount_post_def\<close>)
    moreover have sd: "same_disk k q ?q" using post by (simp add: refcount_post_def same_disk_def)
    ultimately show ?thesis
      using same_disk_trans [OF sd] k by (intro wp_mono [OF Cons.IH]) auto
  qed
  then show ?case
    by (auto simp: r append_unref_def wp_simps intro!: wp_mono [OF wp_set_cluster_refcount [OF Cons.prems assms(2)]])
qed

definition prepared :: "nat \<Rightarrow> nat set \<Rightarrow> nat list \<Rightarrow> nat \<Rightarrow> qcow_file \<Rightarrow> qcow_file \<Rightarrow> bool" where
  "prepared k M H i q q' \<longleftrightarrow> q_ok k M H q' \<and> keeps_disk k q q' \<and> cache_contains (l2_cache q') i \<and>
     (\<forall>u w. used k q' (Own_Data u w) = used k q (Own_Data u w))"

lemma prepared_ready: "l2_ready k M H i q q' \<Longrightarrow> prepared k M H i q q'"
  by (simp add: l2_ready_def prepared_def)

lemma wp_l2_prepare:
  assumes ok: "q_ok k M H q" and order: "is_order order" and i: "i < length (l1_table q)"
  shows "wp (l2_prepare order i (l1_table q ! i)) (\<lambda>_ q'. prepared k M H i q q') (\<lambda>_ _. True) q"
proof (cases "cache_contains (l2_cache q) i \<or> l1_table q ! i \<noteq> 0")
  case True
  then have nz: "l1_table q ! i \<noteq> 0" using q_ok_caches [OF ok] by (auto simp: caches_ok_def cache_contains_def)
  have "wp (l2_load order i (l1_table q ! i)) (\<lambda>_ q'. prepared k M H i q q') (\<lambda>_ _. True) q"
    by (rule wp_mono [OF wp_l2_load [OF ok order i nz]]) (auto intro: prepared_ready)
  then show ?thesis using nz by (simp add: l2_prepare_def l2_load_def wp_simps split: if_splits)
next
  case False
  note k = q_ok_bounds [OF ok]
  have "wp (l2_insert order i (vc_new (l2_len k))) (\<lambda>_ q'. prepared k M H i q q') (\<lambda>_ _. True) (q1\<lparr>l1_table := (l1_table q1)[i := c]\<rparr>)"
    if new: "new_cluster_post k M H q c q1" for c q1
  proof -
    let ?q = "q1\<lparr>l1_table := (l1_table q1)[i := c]\<rparr>"
    have ok1: "q_ok k M (unat c # H) q1" and sd: "same_disk k q q1"
      and z: "\<And>x. in_cluster k (unat c) x \<Longrightarrow> rbyte (raw_file q1) x = 0"
      using new by (auto simp: new_cluster_post_def)
    have l1: "l1_table q1 = l1_table q" using sd by (simp add: same_disk_def)
    have i1: "i < length (l1_table q1)" "l1_table q1 ! i = 0" using False i by (simp_all add: l1)
    note t = q_ok_new_table [OF ok1 i1 z]
    have "vc_vec (vc_new (l2_len k)) = l2_disk k (l1_table ?q) (raw_file ?q) i" using t(4) by (simp add: vc_new_def)
    note ins = wp_l2_insert [OF t(1) order t(5) _ _ this]
    have kd: "keeps_disk k q ?q" using keeps_disk_trans [OF same_disk_keeps [OF sd] t(3)] k by simp
    have "used k ?q (Own_Data u w) = used k q (Own_Data u w)" for u w using t(2) same_disk_view(2) [OF sd] k by simp
    then show ?thesis
      by (intro wp_mono [OF ins]) (use i1 t(6) kd in \<open>auto simp: prepared_def l2_ready_def intro: keeps_disk_trans\<close>)
  qed
  moreover have "length (l1_table q1) = length (l1_table q)" if "new_cluster_post k M H q c q1" for c q1
    using that by (auto simp: new_cluster_post_def same_disk_def)
  ultimately show ?thesis
    using False i ok by (auto simp: l2_prepare_def set_l1_def wp_simps q_ok_def intro!: wp_mono [OF wp_get_new_cluster [OF ok]])
qed

definition write_ready :: "nat \<Rightarrow> nat set \<Rightarrow> nat list \<Rightarrow> u64 \<Rightarrow> qcow_file \<Rightarrow> u64 \<Rightarrow> qcow_file \<Rightarrow> bool" where
  "write_ready k M H a q off q' \<longleftrightarrow> q_ok k M H q' \<and> keeps_disk k q q' \<and> a < virtual_size q \<and>
     used k q' (data_owner k (unat a)) \<noteq> 0 \<and> unat off = used k q' (data_owner k (unat a)) + unat a mod 2 ^ k"

lemma wp_file_offset_write:
  assumes ok: "q_ok k M H q" and order: "is_order order"
  shows "wp (file_offset_write order a) (\<lambda>off q'. write_ready k M H a q off q') (\<lambda>_ _. True) q"
proof (cases "a < virtual_size q \<and> unat a div 2 ^ k div l2_len k < length (l1_table q)")
  case False
  then show ?thesis
    by (auto simp: file_offset_write_def wp_simps Let_def table_indices [OF ok] nth_opt_def not_less)
next
  case True
  let ?i = "unat a div 2 ^ k div l2_len k" and ?j = "unat a div 2 ^ k mod l2_len k"
  let ?fin = "\<lambda>c rs. wp (set_refcounts_all order rs) (\<lambda>_ q'. write_ready k M H a q (c + cluster_offset (raw_file q) a) q') (\<lambda>_ _. True)"
  let ?alloc = "\<lambda>rs. wp (append_data_cluster order) (\<lambda>c. wp (update_cluster_addr ?i ?j c rs) (?fin c) (\<lambda>_ _. True)) (\<lambda>_ _. True)"
  note k = q_ok_bounds [OF ok]
  have j: "?j < l2_len k" using l2_len_pos [OF ok] by simp
  have owner: "data_owner k (unat a) = Own_Data ?i ?j" by (simp add: data_owner_def)
  have fin: "?fin c rs q2"
    if es: "entry_set k M H ?i ?j c q1 q2" and p: "prepared k M H ?i q q1" and c: "unat c < 2 ^ 56" "c \<noteq> 0" for c q1 q2 rs
  proof -
    have "write_ready k M H a q (c + cluster_offset (raw_file q) a) q'" if "q_ok k M H q'" "same_disk k q2 q'" for q'
      using that es p c same_disk_view(2) [OF that(2)] k True cluster_address [OF ok c(1), of a]
        keeps_disk_trans [OF _ same_disk_keeps [OF that(2)], of q] keeps_disk_trans [of k q q1 q2]
      by (simp add: write_ready_def entry_set_def prepared_def owner unat_eq_zero)
    then show ?thesis using es by (intro wp_mono [OF wp_set_refcounts_all [OF _ order]]) (auto simp: entry_set_def)
  qed
  have alloc: "?alloc rs q1"
    if p: "prepared k M H ?i q q1" and un: "used k q1 (Own_Data ?i ?j) = 0" for q1 rs
  proof -
    have ok1: "q_ok k M H q1" using p by (simp add: prepared_def)
    have "wp (update_cluster_addr ?i ?j c rs) (?fin c) (\<lambda>_ _. True) q2"
      if ap: "appended k M H c q1 q2" for c q2
    proof -
      have q2: "q_ok k M (unat c # H) q2" "same_disk k q1 q2" and c: "c AND entry_mask = c" "unat c < 2 ^ 56" "c \<noteq> 0"
        and z: "\<And>x. in_cluster k (unat c) x \<Longrightarrow> rbyte (raw_file q2) x = 0"
        using ap by (auto simp: appended_def)
      have "cache_contains (l2_cache q2) ?i" "used k q2 (Own_Data ?i ?j) = 0"
        using p un q2(2) same_disk_view(2) [OF q2(2)] k by (simp_all add: prepared_def same_disk_def)
      note upd = wp_update_cluster_addr [OF q2(1) this(1) j c(1) this(2) z]
      have "entry_set k M H ?i ?j c q1 q3" if "entry_set k M H ?i ?j c q2 q3" for q3
        using that keeps_disk_trans [OF same_disk_keeps [OF q2(2)]] k by (simp add: entry_set_def)
      then show ?thesis using fin [OF _ p c(2, 3)] by (intro wp_mono [OF upd]) auto
    qed
    then show ?thesis by (intro wp_mono [OF wp_append_data_cluster [OF ok1 order]]) auto
  qed
  have look: "wp (l2_get ?i ?j) (\<lambda>c.
      if c = 0
      then ?alloc rs
      else ?fin c rs)
    (\<lambda>_ _. True) q1" if p: "prepared k M H ?i q q1" for q1 rs
  proof (rule wp_l2_get [OF _ _ j, of M H q1 ?i])
    show "q_ok k M H q1" "?i < length (l1_table q1)" "cache_contains (l2_cache q1) ?i"
      using p True by (simp_all add: prepared_def keeps_disk_def)
    fix c :: u64 assume c: "unat c = used k q1 (Own_Data ?i ?j)" "unat c < 2 ^ 56"
    have "entry_set k M H ?i ?j c q1 q1" using p c(1) by (simp add: entry_set_def prepared_def keeps_disk_refl)
    from fin [OF this p c(2)] alloc [OF p] c(1)
    show "(if c = 0
      then ?alloc rs
      else ?fin c rs) q1"
      by auto
  qed
  show ?thesis
    using True look
    by (auto simp: file_offset_write_def wp_simps Let_def table_indices [OF ok] nth_opt_def cong: if_cong
        intro!: wp_mono [OF wp_l2_prepare [OF ok order]])
qed

end
