(* ===== verification/Qcow_Access.thy ===== *)
theory Qcow_Access
  imports Qcow_Mapping
begin

text \<open>
  The loops that read, write and zero ranges of the disk, a cluster at a time: each reads the
  bytes of the disk, or changes exactly the bytes of its range.
\<close>

section \<open>Access to the bytes of a cluster\<close>

text \<open>A change of the bytes from \<open>a\<close> on.\<close>

definition disk_put :: "nat \<Rightarrow> u8 list \<Rightarrow> (nat \<Rightarrow> u8) \<Rightarrow> nat \<Rightarrow> u8" where
  "disk_put a bs d = (\<lambda>x. if a \<le> x \<and> x < a + length bs then bs ! (x - a) else d x)"

definition disk_get :: "nat \<Rightarrow> nat \<Rightarrow> (nat \<Rightarrow> u8) \<Rightarrow> u8 list" where
  "disk_get a n d = map (\<lambda>x. d (a + x)) [0..<n]"

lemma disk_put_Nil [simp]: "disk_put a [] d = d"
  by (auto simp: disk_put_def fun_eq_iff)

lemma disk_put_append: "disk_put (a + length bs) cs (disk_put a bs d) = disk_put a (bs @ cs) d"
  by (auto simp: disk_put_def fun_eq_iff nth_append)

lemma length_disk_get [simp]: "length (disk_get a n d) = n"
  by (simp add: disk_get_def)

lemma disk_get_append: "disk_get a m d @ disk_get (a + m) n d = disk_get a (m + n) d"
  by (auto simp: disk_get_def intro!: nth_equalityI simp: nth_append)

lemma data_owner_eq: "0 < l2_len k \<Longrightarrow> data_owner k a = data_owner k b \<longleftrightarrow> a div 2 ^ k = b div 2 ^ k"
  unfolding data_owner_def by (metis div_mult_mod_eq owner.inject(2))

lemma block_range:
  fixes A B r s w n :: nat
  assumes "n \<le> w - r" "r < w" "s < w"
  shows "A * w + r \<le> B * w + s \<and> B * w + s < A * w + r + n \<longleftrightarrow> B = A \<and> r \<le> s \<and> s < r + n"
proof -
  consider "A = B" | "A + 1 \<le> B" | "B + 1 \<le> A" by linarith
  then show ?thesis
  proof cases
    case 2
    then have "A * w + w \<le> B * w" using mult_le_mono1 [OF 2, of w] by simp
    then show ?thesis using 2 assms by auto
  next
    case 3
    then have "B * w + w \<le> A * w" using mult_le_mono1 [OF 3, of w] by simp
    then show ?thesis using 3 assms by auto
  qed auto
qed

lemma same_cluster_range:
  fixes a b :: nat
  assumes "n \<le> 2 ^ k - a mod 2 ^ k"
  shows "a \<le> b \<and> b < a + n \<longleftrightarrow> b div 2 ^ k = a div 2 ^ k \<and> a mod 2 ^ k \<le> b mod 2 ^ k \<and> b mod 2 ^ k < a mod 2 ^ k + n"
proof -
  have "a mod 2 ^ k < 2 ^ k" "b mod 2 ^ k < 2 ^ k" by simp_all
  from block_range [OF assms this, of "a div 2 ^ k" "b div 2 ^ k"] show ?thesis unfolding div_mult_mod_eq .
qed

lemma same_cluster_diff: "b div 2 ^ k = a div 2 ^ k \<Longrightarrow> b - a = b mod 2 ^ k - (a :: nat) mod 2 ^ k"
  by (metis diff_cancel2 add.commute div_mult_mod_eq)

text \<open>Writing inside the cluster of an address.\<close>

lemma vdisk_data_write:
  assumes ok: "q_ok k M H q" and u: "used k q (data_owner k a) \<noteq> 0" and n: "length bs \<le> 2 ^ k - a mod 2 ^ k"
    and f: "contents f = file_put (used k q (data_owner k a) + a mod 2 ^ k) bs (contents (rf_file (raw_file q)))"
  defines "q' \<equiv> q\<lparr>raw_file := (raw_file q)\<lparr>rf_file := f\<rparr>\<rparr>"
  shows "q_ok k M H q'" "used k q' = used k q" "vdisk k q' = disk_put a bs (vdisk k q)"
proof -
  let ?c = "used k q (data_owner k a)" and ?rf = "(raw_file q)\<lparr>rf_file := f\<rparr>"
  note k = q_ok_bounds [OF ok]
  have c: "placed k M (rlen (raw_file q)) ?c" using q_ok_placed [OF ok u] .
  have "a mod 2 ^ k < 2 ^ k" by simp
  then have top: "?c + a mod 2 ^ k + length bs \<le> ?c + 2 ^ k" using n by linarith
  then have len: "rlen ?rf = rlen (raw_file q)"
    using c f by (simp add: placed_def length_file_put_in)
  have rf: "rf_ok k ?rf" using k len by (simp add: rf_ok_def)
  have byte: "fbyte (contents f) x = (if ?c + a mod 2 ^ k \<le> x \<and> x < ?c + a mod 2 ^ k + length bs then bs ! (x - (?c + a mod 2 ^ k)) else rbyte (raw_file q) x)" for x
    using f by (simp add: fbyte_file_put)
  have other: "rbyte ?rf x = rbyte (raw_file q) x" if o1: "o1 \<noteq> data_owner k a" and x: "in_cluster k (used k q o1) x" for o1 x
  proof -
    have nz: "used k q o1 \<noteq> 0" using x by (simp add: in_cluster_def)
    then have "used k q o1 \<noteq> ?c" using q_ok_inj [OF ok nz] o1 by auto
    then have "\<not> in_cluster k ?c x" using in_cluster_unique [OF x] q_ok_placed [OF ok nz] c by (auto simp: placed_def)
    then show ?thesis using top u by (auto simp: byte in_cluster_def)
  qed
  have le: "rlen (raw_file q) \<le> rlen ?rf" using len by simp
  have "rbyte ?rf x = rbyte (raw_file q) x" if "in_cluster k (used k q (Own_L2 i)) x" for i x
    by (rule other [OF _ that]) (simp add: data_owner_def)
  moreover have "rbyte ?rf x = rbyte (raw_file q) x" if "in_cluster k (used k q (Own_RB t)) x" for t x
    by (rule other [OF _ that]) (simp add: data_owner_def)
  moreover have "rbyte ?rf x = rbyte (raw_file q) x" if "x < 104" for x
  proof -
    have "\<not> in_cluster k ?c x" using stored_outside [OF q_ok_stored [OF ok] q_ok_placed [OF ok u] that] .
    then show ?thesis using top u by (auto simp: byte in_cluster_def)
  qed
  ultimately show "q_ok k M H q'" and used: "used k q' = used k q"
    unfolding q'_def using q_ok_meta_bytes [OF ok rf le] by blast+
  have L: "0 < l2_len k" by (rule l2_len_pos [OF ok])
  show "vdisk k q' = disk_put a bs (vdisk k q)"
  proof
    fix b
    show "vdisk k q' b = disk_put a bs (vdisk k q) b"
    proof (cases "data_owner k b = data_owner k a")
      case True
      then have d: "b div 2 ^ k = a div 2 ^ k" using data_owner_eq [OF L, of b a] by simp
      have "vdisk k q' b = rbyte ?rf (?c + b mod 2 ^ k)" using True u used by (simp add: vdisk_def q'_def)
      moreover have "b - a = b mod 2 ^ k - a mod 2 ^ k" using same_cluster_diff [OF d] .
      ultimately show ?thesis
        using same_cluster_range [OF n, of b] d True u by (auto simp: byte disk_put_def vdisk_def)
    next
      case False
      then have "b div 2 ^ k \<noteq> a div 2 ^ k" using data_owner_eq [OF L, of b a] by simp
      then have "disk_put a bs (vdisk k q) b = vdisk k q b"
        using same_cluster_range [OF n, of b] by (auto simp: disk_put_def)
      moreover have "vdisk k q' b = vdisk k q b"
        using other [OF False in_cluster_mod] by (simp add: vdisk_def used) (simp add: q'_def)
      ultimately show ?thesis by simp
    qed
  qed
qed

abbreviation with_file :: "qcow_file \<Rightarrow> host_file \<Rightarrow> qcow_file" where
  "with_file q f \<equiv> q\<lparr>raw_file := (raw_file q)\<lparr>rf_file := f\<rparr>\<rparr>"

lemma slice_disk: "pos + n \<le> length xs \<Longrightarrow> slice pos n xs = map (\<lambda>x. fbyte xs (pos + x)) [0..<n]"
  by (auto simp: slice_def fbyte_def intro!: nth_equalityI)

lemma wp_host_read:
  "wp (io_bind (on_host (file_seek off)) (\<lambda>_. on_host (file_read_exact n)))
    (\<lambda>bs q'. (\<exists>f. contents f = contents (rf_file (raw_file q)) \<and> q' = with_file q f) \<and>
      bs = map (\<lambda>x. rbyte (raw_file q) (unat off + x)) [0..<n]) (\<lambda>_ _. True) q"
proof -
  have "wp (file_seek off) (\<lambda>_. wp (file_read_exact n)
      (\<lambda>bs f. contents f = contents (rf_file (raw_file q)) \<and> bs = map (\<lambda>x. rbyte (raw_file q) (unat off + x)) [0..<n]) (\<lambda>_ _. True))
      (\<lambda>_ _. True) (rf_file (raw_file q))"
    by (rule wp_file_seek, rule wp_file_read_exact) (simp_all add: slice_disk)
  then show ?thesis by (auto simp: wp_simps elim!: wp_mono)
qed

lemma wp_host_write:
  "wp (io_bind (on_host (file_seek off)) (\<lambda>_. on_host (file_write bs)))
    (\<lambda>_ q'. \<exists>f. contents f = file_put (unat off) bs (contents (rf_file (raw_file q))) \<and> q' = with_file q f) (\<lambda>_ _. True) q"
proof -
  have "wp (file_seek off) (\<lambda>_. wp (file_write bs)
      (\<lambda>_ f. contents f = file_put (unat off) bs (contents (rf_file (raw_file q)))) (\<lambda>_ _. True)) (\<lambda>_ _. True) (rf_file (raw_file q))"
    by (rule wp_file_seek, rule wp_file_write) simp_all
  then show ?thesis by (auto simp: wp_simps elim!: wp_mono)
qed

lemma wp_host_zero:
  "wp (io_bind (on_host (file_seek off)) (\<lambda>_. on_host (write_zeroes n)))
    (\<lambda>_ q'. \<exists>f. contents f = file_put (unat off) (replicate (unat n) 0) (contents (rf_file (raw_file q))) \<and> q' = with_file q f)
    (\<lambda>_ _. True) q"
proof -
  have "wp (file_seek off) (\<lambda>_. wp (write_zeroes n)
      (\<lambda>_ f. contents f = file_put (unat off) (replicate (unat n) 0) (contents (rf_file (raw_file q)))) (\<lambda>_ _. True))
      (\<lambda>_ _. True) (rf_file (raw_file q))"
    by (rule wp_file_seek, rule wp_mono [OF wp_write_zeroes]) auto
  then show ?thesis by (auto simp: wp_simps elim!: wp_mono)
qed

section \<open>Reading\<close>

lemma unat_limit_range_cluster:
  assumes "q_ok k M H q"
  shows "unat (limit_range_cluster q a n) = min (unat n) (2 ^ k - unat a mod 2 ^ k)"
proof -
  have rf: "rf_ok k (raw_file q)" using q_ok_bounds [OF assms] by simp
  note sz = rf_ok_sizes [OF rf]
  have "cluster_offset (raw_file q) a \<le> rf_cluster_size (raw_file q)"
    by (simp add: word_le_nat_alt sz less_imp_le)
  then have "unat (rf_cluster_size (raw_file q) - cluster_offset (raw_file q) a) = 2 ^ k - unat a mod 2 ^ k"
    by (simp add: unat_sub sz)
  then show ?thesis
    by (simp add: limit_range_cluster_def Let_def min_def word_le_nat_alt)
qed

lemma looked_up_bytes:
  assumes "looked_up k M H a q res q'" "n \<le> 2 ^ k - unat a mod 2 ^ k"
  shows "disk_get (unat a) n (vdisk k q) =
    (case res of None \<Rightarrow> replicate n 0 | Some off \<Rightarrow> map (\<lambda>x. rbyte (raw_file q') (unat off + x)) [0..<n])"
proof -
  have v: "vdisk k q = vdisk k q'" and L: "0 < l2_len k" using assms(1) l2_len_pos by (auto simp: looked_up_def keeps_disk_def)
  have "vdisk k q' (unat a + x) = (case res of None \<Rightarrow> 0 | Some off \<Rightarrow> rbyte (raw_file q') (unat off + x))" if "x < n" for x
  proof -
    have s: "(unat a + x) div 2 ^ k = unat a div 2 ^ k" "(unat a + x) - unat a = (unat a + x) mod 2 ^ k - unat a mod 2 ^ k"
      "unat a mod 2 ^ k \<le> (unat a + x) mod 2 ^ k"
      using same_cluster_range [OF assms(2), of "unat a + x"] same_cluster_diff [of "unat a + x" k "unat a"] that by simp_all
    have "(unat a + x) mod 2 ^ k = unat a mod 2 ^ k + x" using s(2, 3) by simp
    moreover have "data_owner k (unat a + x) = data_owner k (unat a)" using data_owner_eq [OF L] s(1) by blast
    ultimately show ?thesis using assms(1) by (auto simp: vdisk_def looked_up_def add.assoc split: option.splits)
  qed
  then show ?thesis
    by (auto simp: v disk_get_def intro!: nth_equalityI split: option.splits)
qed

text \<open>One round of a loop over the clusters of a range.\<close>

lemma round_count:
  assumes "q_ok k M H q" "unat (address :: u64) + unat (count :: u64) < 2 ^ 64" "unat pos < unat count"
  defines "c \<equiv> limit_range_cluster q (address + pos) (count - pos)"
  shows "unat (address + pos) = unat address + unat pos" "unat (pos + c) = unat pos + unat c" "0 < unat c"
    "unat pos + unat c \<le> unat count" "unat c \<le> 2 ^ k - unat (address + pos) mod 2 ^ k"
proof -
  show a: "unat (address + pos) = unat address + unat pos"
    using assms(2, 3) by (simp add: unat_word_ariths)
  have d: "unat (count - pos) = unat count - unat pos" using assms(3) by (intro unat_sub) (simp add: word_le_nat_alt)
  have c: "unat c = min (unat count - unat pos) (2 ^ k - unat (address + pos) mod 2 ^ k)"
    using unat_limit_range_cluster [OF assms(1)] by (simp add: c_def d)
  have m: "unat (address + pos) mod 2 ^ k < 2 ^ k" by simp
  show "0 < unat c" using m assms(3) by (simp only: c min_less_iff_conj zero_less_diff)
  show "unat pos + unat c \<le> unat count" "unat c \<le> 2 ^ k - unat (address + pos) mod 2 ^ k" using c assms(3) by auto
  then show "unat (pos + c) = unat pos + unat c" using assms(2) by (simp add: unat_word_ariths)
qed

lemma wp_read_loop:
  assumes "is_order order" "q_ok k M H q" "unat address + unat count < 2 ^ 64" "unat pos \<le> unat count" "unat count - unat pos \<le> n"
  shows "wp (read_loop n order address count pos)
    (\<lambda>bs q'. q_ok k M H q' \<and> keeps_disk k q q' \<and> bs = disk_get (unat address + unat pos) (unat count - unat pos) (vdisk k q))
    (\<lambda>_ _. True) q"
  using assms(2, 4, 5)
proof (induction n arbitrary: q pos)
  case 0
  then show ?case by (simp add: wp_simps word_less_nat_alt keeps_disk_refl disk_get_def)
next
  case (Suc n)
  show ?case
  proof (cases "pos < count")
    case False
    then show ?thesis using Suc.prems by (simp add: wp_simps word_less_nat_alt keeps_disk_refl disk_get_def)
  next
    case True
    let ?a = "address + pos" and ?post = "\<lambda>bs q'. q_ok k M H q' \<and> keeps_disk k q q' \<and>
      bs = disk_get (unat address + unat pos) (unat count - unat pos) (vdisk k q)"
    have rest: "wp (read_loop n order address count (pos + c)) (\<lambda>rest. ?post (bs @ rest)) (\<lambda>_ _. True) q2"
      if c: "c = limit_range_cluster q1 ?a (count - pos)" and q1: "looked_up k M H ?a q res q1" and q2: "q_ok k M H q2" "keeps_disk k q1 q2"
        and bs: "bs = disk_get (unat ?a) (unat c) (vdisk k q)" for c bs res q1 q2
    proof -
      have kd: "keeps_disk k q q2" using q1 q2(2) by (auto simp: looked_up_def intro: keeps_disk_trans)
      have lt: "unat pos < unat count" using True by (simp add: word_less_nat_alt)
      have "q_ok k M H q1" using q1 by (simp add: looked_up_def)
      note r = round_count [OF this assms(3) lt, folded c]
      have v: "vdisk k q2 = vdisk k q" using kd by (simp add: keeps_disk_def)
      have "bs @ disk_get (unat address + unat (pos + c)) (unat count - unat (pos + c)) (vdisk k q2) =
          disk_get (unat address + unat pos) (unat count - unat pos) (vdisk k q)"
        using disk_get_append [of "unat ?a" "unat c" "vdisk k q" "unat count - unat (pos + c)"] r
        by (simp add: bs v add.assoc)
      then show ?thesis
        using r Suc.prems(3)
        by (intro wp_mono [OF Suc.IH [OF q2(1), of "pos + c"]]) (auto intro: keeps_disk_trans [OF kd])
    qed
    have "wp (io_get (\<lambda>q. limit_range_cluster q ?a (count - pos))) (\<lambda>c.
        wp (case res of Some off \<Rightarrow> io_bind (on_host (file_seek off)) (\<lambda>_. on_host (file_read_exact (unat c)))
            | None \<Rightarrow> io_return (replicate (unat c) 0)) (\<lambda>bs.
        wp (read_loop n order address count (pos + c)) (\<lambda>rest. ?post (bs @ rest)) (\<lambda>_ _. True)) (\<lambda>_ _. True)) (\<lambda>_ _. True) q1"
      if q1: "looked_up k M H ?a q res q1" for res q1
    proof -
      let ?c = "limit_range_cluster q1 ?a (count - pos)"
      have ok1: "q_ok k M H q1" using q1 by (simp add: looked_up_def)
      have lt: "unat pos < unat count" using True by (simp add: word_less_nat_alt)
      note get = looked_up_bytes [OF q1 round_count(5) [OF ok1 assms(3) lt]]
      show ?thesis
      proof (cases res)
        case None
        then show ?thesis using rest [OF refl q1 ok1 keeps_disk_refl] get by (simp add: wp_simps)
      next
        case (Some off)
        have "wp (read_loop n order address count (pos + ?c)) (\<lambda>rest. ?post (bs @ rest)) (\<lambda>_ _. True) (with_file q1 f)"
          if "contents f = contents (rf_file (raw_file q1))" "bs = map (\<lambda>x. rbyte (raw_file q1) (unat off + x)) [0..<unat ?c]" for f bs
          using q_ok_cursor [OF ok1 that(1)] get Some that(2) by (intro rest [OF refl q1]) simp_all
        then show ?thesis using Some by (auto simp: wp_get intro!: wp_mono [OF wp_host_read])
      qed
    qed
    then show ?thesis
      using True by (auto simp: wp_simps Let_def intro!: wp_mono [OF wp_file_offset_read [OF Suc.prems(1) assms(1)]])
  qed
qed

section \<open>Writing\<close>

definition disk_is :: "nat \<Rightarrow> (nat \<Rightarrow> u8) \<Rightarrow> qcow_file \<Rightarrow> qcow_file \<Rightarrow> bool" where
  "disk_is k d q q' \<longleftrightarrow> vdisk k q' = d \<and> header q' = header q \<and> l2_entries q' = l2_entries q \<and>
     current_offset q' = current_offset q \<and> length (l1_table q') = length (l1_table q)"

lemma keeps_disk_is: "keeps_disk k q q' \<longleftrightarrow> disk_is k (vdisk k q) q q'"
  by (simp add: keeps_disk_def disk_is_def)

lemma disk_is_trans: "disk_is k d q q' \<Longrightarrow> disk_is k d' q' q'' \<Longrightarrow> disk_is k d' q q''"
  by (simp add: disk_is_def)

lemma slice_append: "m \<le> n \<Longrightarrow> slice pos m xs @ slice (pos + m) (n - m) xs = slice pos n xs"
  by (metis slice_def drop_drop add.commute le_add_diff_inverse take_add)

lemma length_slice_in: "pos + n \<le> length xs \<Longrightarrow> length (slice pos n xs) = n"
  by (simp add: slice_def)

text \<open>The rest of a loop that has changed the bytes of one cluster.\<close>

lemma disk_put_round:
  assumes "length bs = m" "disk_is k (disk_put a bs (vdisk k q)) q q2"
    "disk_is k (disk_put (a + m) cs (vdisk k q2)) q2 q'"
  shows "disk_is k (disk_put a (bs @ cs) (vdisk k q)) q q'"
  using assms disk_put_append [of a bs cs "vdisk k q"] by (simp add: disk_is_def)

lemma wp_write_loop:
  assumes "is_order order" "q_ok k M H q" "unat address + unat count < 2 ^ 64" "unat count \<le> length buf"
    "unat pos \<le> unat count" "unat count - unat pos \<le> n"
  shows "wp (write_loop n order address buf count pos)
    (\<lambda>_ q'. q_ok k M H q' \<and>
      disk_is k (disk_put (unat address + unat pos) (slice (unat pos) (unat count - unat pos) buf) (vdisk k q)) q q')
    (\<lambda>_ _. True) q"
  using assms(2, 5, 6)
proof (induction n arbitrary: q pos)
  case 0
  then show ?case by (simp add: wp_simps word_less_nat_alt slice_def disk_is_def)
next
  case (Suc n)
  show ?case
  proof (cases "pos < count")
    case False
    then show ?thesis using Suc.prems by (simp add: wp_simps word_less_nat_alt slice_def disk_is_def)
  next
    case True
    let ?a = "address + pos" and ?post = "\<lambda>_ q'. q_ok k M H q' \<and>
      disk_is k (disk_put (unat address + unat pos) (slice (unat pos) (unat count - unat pos) buf) (vdisk k q)) q q'"
    have lt: "unat pos < unat count" using True by (simp add: word_less_nat_alt)
    have rest: "wp (write_loop n order address buf count (pos + c)) ?post (\<lambda>_ _. True) (with_file q1 f)"
      if c: "c = limit_range_cluster q1 ?a (count - pos)" and q1: "write_ready k M H ?a q off q1"
        and f: "contents f = file_put (unat off) (slice (unat pos) (unat c) buf) (contents (rf_file (raw_file q1)))" for c off q1 f
    proof -
      let ?bs = "slice (unat pos) (unat c) buf" and ?q2 = "with_file q1 f"
      have ok1: "q_ok k M H q1" and kd: "keeps_disk k q q1" and u: "used k q1 (data_owner k (unat ?a)) \<noteq> 0"
        and off: "unat off = used k q1 (data_owner k (unat ?a)) + unat ?a mod 2 ^ k"
        using q1 by (simp_all add: write_ready_def)
      note r = round_count [OF ok1 assms(3) lt, folded c]
      have len: "length ?bs = unat c" using r(4) assms(4) by (intro length_slice_in) simp
      note w = vdisk_data_write [OF ok1 u _ f [unfolded off]]
      have ok2: "q_ok k M H ?q2" and d2: "disk_is k (disk_put (unat ?a) ?bs (vdisk k q)) q ?q2"
        using w len r(5) kd by (simp_all add: disk_is_def keeps_disk_def)
      have sl: "?bs @ slice (unat (pos + c)) (unat count - unat (pos + c)) buf = slice (unat pos) (unat count - unat pos) buf"
        using slice_append [of "unat c" "unat count - unat pos" "unat pos" buf] r(2, 4) by simp
      have "disk_is k (disk_put (unat address + unat pos) (slice (unat pos) (unat count - unat pos) buf) (vdisk k q)) q q'"
        if "disk_is k (disk_put (unat address + unat (pos + c)) (slice (unat (pos + c)) (unat count - unat (pos + c)) buf) (vdisk k ?q2)) ?q2 q'" for q'
        using disk_put_round [OF len d2, of _ q'] that r(1, 2) by (simp add: sl [symmetric] add.assoc)
      then show ?thesis
        using r Suc.prems(3) by (intro wp_mono [OF Suc.IH [OF ok2, of "pos + c"]]) auto
    qed
    have "wp (io_bind (on_host (file_seek off)) (\<lambda>_. on_host (file_write (slice (unat pos) (unat c) buf))))
        (\<lambda>_. wp (write_loop n order address buf count (pos + c)) ?post (\<lambda>_ _. True)) (\<lambda>_ _. True) q1"
      if "write_ready k M H ?a q off q1" "c = limit_range_cluster q1 ?a (count - pos)" for off q1 c
      using rest [OF that(2, 1)] by (intro wp_mono [OF wp_host_write]) auto
    then show ?thesis
      using True by (auto simp: wp_simps Let_def intro!: wp_mono [OF wp_file_offset_write [OF Suc.prems(1) assms(1)]])
  qed
qed

section \<open>Discarding clusters\<close>

lemma wp_fallocate_punch:
  assumes "\<And>as. Q () (f\<lparr>answers := as,
      contents := file_put (unat off) (replicate (min (unat len) (length (contents f) - unat off)) 0) (contents f)\<rparr>)"
    "\<And>e as. E e (f\<lparr>answers := as\<rparr>)"
  shows "wp (fallocate PunchHole True off len) Q E f"
proof -
  have "E e f" for e using assms(2) [of e "answers f"] by simp
  then show ?thesis
    unfolding fallocate_def using assms by (auto simp: wp_simps Let_def not_less intro!: wp_syscall)
qed

lemma q_ok_unmap:
  assumes ok: "q_ok k M H q" and v: "cache_get (l2_cache q) i = Some v" and j: "j < l2_len k" and c: "used k q (Own_Data i j) \<noteq> 0"
  defines "q' \<equiv> l2_put i j 0 (l1_table q ! i) v q"
  shows "q_ok k M (used k q (Own_Data i j) # H) q'" "used k q' = (used k q)(Own_Data i j := 0)"
proof -
  let ?c = "used k q (Own_Data i j)"
  have n: "i < length (l1_table q)" "l1_table q ! i \<noteq> 0" using q_ok_caches [OF ok] v by (auto simp: caches_ok_def)
  note put = l2_put_used [OF q_ok_caches [OF ok] v j n(2), of 0]
  have "(used k q)(Own_L2 i := unat (l1_table q ! i)) = used k q" using n(1) by (auto simp: used_L2)
  then show used: "used k q' = (used k q)(Own_Data i j := 0)" using put(2) by (simp add: q'_def)
  have frame: "raw_file q' = raw_file q" "l2_entries q' = l2_entries q" "same_tables q q'" "free q' = free q"
    by (simp_all add: q'_def)
  have caches: "caches_ok k q'" using put(1) by (simp add: q'_def)
  have f: "used k q o1 \<noteq> d \<and> d \<noteq> 0" if "d \<in> set (H @ free q)" for o1 d
    using q_ok_free [OF ok, of d] that by (auto simp: placed_def)
  have fc: "?c \<notin> set (H @ free q)" using f by blast
  have dist: "distinct (H @ free q)" using ok by (simp add: q_ok_def)
  show "q_ok k M (?c # H) q'"
  proof (rule q_ok_used [OF ok caches frame(1-3)])
    show "o1 = o2" if "used k q' o1 \<in> set H" "used k q' o1 = used k q' o2" for o1 o2
      using that f [of "used k q' o1" o1] by (auto simp: used split: if_splits)
    show "used k q' o1 \<noteq> d" if "d \<in> set ((?c # H) @ free q')" for d o1
    proof -
      have "d = ?c \<or> d \<in> set (H @ free q)" using that frame(4) by auto
      then show ?thesis using f [of d o1] c q_ok_inj [OF ok c, of o1] by (auto simp: used)
    qed
    show "d \<in> set (H @ free q) \<or> d \<noteq> 0 \<and> (\<exists>o1. d = used k q o1)" if "d \<in> set ((?c # H) @ free q')" for d
      using that c by (auto simp: frame(4))
    show "distinct ((?c # H) @ free q')" using dist fc by (simp add: frame(4))
  qed (simp add: used)
qed

definition zero_cluster :: "nat \<Rightarrow> nat \<Rightarrow> (nat \<Rightarrow> u8) \<Rightarrow> nat \<Rightarrow> u8" where
  "zero_cluster k a d = (\<lambda>b. if b div 2 ^ k = a div 2 ^ k then 0 else d b)"

lemma vdisk_unmap:
  assumes "0 < l2_len k" "used k q' = (used k q)(data_owner k a := 0)" "raw_file q' = raw_file q"
  shows "vdisk k q' = zero_cluster k a (vdisk k q)"
  using assms data_owner_eq [OF assms(1)] by (auto simp: vdisk_def zero_cluster_def fun_eq_iff)

lemma zero_cluster_unused:
  assumes "0 < l2_len k" "used k q (data_owner k a) = 0"
  shows "zero_cluster k a (vdisk k q) = vdisk k q"
proof
  fix b show "zero_cluster k a (vdisk k q) b = vdisk k q b"
    using assms(2) data_owner_eq [OF assms(1), of b a] by (auto simp: vdisk_def zero_cluster_def)
qed

text \<open>Punching a hole into a cluster that is out of use, which the host may refuse.\<close>

lemma wp_punch:
  assumes ok: "q_ok k M (unat c # H) q"
  shows "wp (on_host (fallocate PunchHole True c (rf_cluster_size (raw_file q))))
    (\<lambda>_ q'. q_ok k M H q' \<and> keeps_disk k q q') (\<lambda>_ q'. q_ok k M H q' \<and> keeps_disk k q q') q"
proof -
  note k = q_ok_bounds [OF ok]
  have c: "placed k M (rlen (raw_file q)) (unat c)" "\<And>o1. used k q o1 \<noteq> unat c" using q_ok_free [OF ok, of "unat c"] by auto
  have drop: "q_ok k M H q'" if "q_ok k M (unat c # H) q'" for q' using q_ok_drop [of k M "[unat c]" H] that by simp
  have sz: "unat (rf_cluster_size (raw_file q)) = 2 ^ k" using rf_ok_sizes k by blast
  have punched: "q_ok k M H (with_file q f) \<and> keeps_disk k q (with_file q f)"
    if f: "contents f = file_put (unat c) (replicate (2 ^ k) 0) (contents (rf_file (raw_file q)))" for f
  proof -
    have len: "length (contents f) = rlen (raw_file q)" using f c(1) by (simp add: length_file_put_in placed_def)
    have rf: "rf_ok k ((raw_file q)\<lparr>rf_file := f\<rparr>)" using k len by (simp add: rf_ok_def)
    have "fbyte (contents f) x = rbyte (raw_file q) x" if x: "in_cluster k (used k q o1) x" for o1 x
    proof -
      have nz: "used k q o1 \<noteq> 0" using x by (simp add: in_cluster_def)
      have "\<not> in_cluster k (unat c) x"
        using in_cluster_unique [OF x] q_ok_placed [OF ok nz] c by (auto simp: placed_def)
      then show ?thesis using c(1) by (auto simp: f fbyte_file_put in_cluster_def placed_def)
    qed
    moreover have "fbyte (contents f) x = rbyte (raw_file q) x" if "x < 104" for x
      using stored_outside [OF q_ok_stored [OF ok] c(1) that] c(1) by (auto simp: f fbyte_file_put in_cluster_def placed_def)
    ultimately have "q_ok k M (unat c # H) (with_file q f)" "same_disk k q (with_file q f)"
      using q_ok_bytes [OF ok rf] len by simp_all
    then show ?thesis using drop same_disk_keeps k by simp
  qed
  have same: "q_ok k M H (with_file q f) \<and> keeps_disk k q (with_file q f)" if "contents f = contents (rf_file (raw_file q))" for f
    using q_ok_cursor [OF ok that] drop by simp
  have "min (2 ^ k) (rlen (raw_file q) - unat c) = 2 ^ k" using c(1) by (auto simp: placed_def)
  then show ?thesis
    using punched same sz by (auto simp: wp_simps intro!: wp_fallocate_punch)
qed

text \<open>The end of \<^verbatim>\<open>deallocate_cluster\<close>, after the reference count was lowered.\<close>

definition discard_entry :: "nat \<Rightarrow> nat \<Rightarrow> u64 \<Rightarrow> u16 \<Rightarrow> unit q_io" where
  "discard_entry i j c r =
     io_bind (l2_set i j 0) (\<lambda>_.
     if r = 0 then
       io_bind (io_get (\<lambda>q. rf_cluster_size (raw_file q))) (\<lambda>cluster_size.
       io_bind (io_try (on_host (fallocate PunchHole True c cluster_size))) (\<lambda>_. io_return ()))
     else io_return ())"

lemma wp_discard_entry:
  assumes ok: "q_ok k M H q" and i: "cache_contains (l2_cache q) i" and j: "j < l2_len k" and owner: "data_owner k a = Own_Data i j"
    and c: "unat c = used k q (Own_Data i j)" "c \<noteq> 0"
  shows "wp (discard_entry i j c r) (\<lambda>_ q'. q_ok k M H q' \<and> disk_is k (zero_cluster k a (vdisk k q)) q q') (\<lambda>_ _. True) q"
proof -
  obtain v where v: "cache_get (l2_cache q) i = Some v" using i by (auto simp: cache_contains_def)
  then have len: "j < length (vc_vec v)" using q_ok_caches [OF ok] j by (auto simp: caches_ok_def l2_shape_def)
  let ?q = "l2_put i j 0 (l1_table q ! i) v q"
  have nz: "used k q (Own_Data i j) \<noteq> 0" using c by (metis unat_eq_zero)
  note un = q_ok_unmap [OF ok v j nz]
  have held: "q_ok k M (unat c # H) ?q" using un(1) c(1) by simp
  have d: "disk_is k (zero_cluster k a (vdisk k q)) q ?q"
    using vdisk_unmap [OF l2_len_pos [OF ok], of ?q q a] un(2) owner by (simp add: disk_is_def)
  have keep: "disk_is k (zero_cluster k a (vdisk k q)) q q'" if "keeps_disk k ?q q'" for q'
    using that d by (auto simp: keeps_disk_def disk_is_def)
  have "q_ok k M H ?q" using q_ok_drop [of k M "[unat c]" H] held by simp
  then show ?thesis
    using d keep wp_punch [OF held]
    by (auto simp: discard_entry_def wp_bind wp_if l2_set_eq [OF v len] wp_return wp_get wp_try elim!: wp_mono)
qed

definition discard_cluster :: "(nat list \<Rightarrow> nat list) \<Rightarrow> nat \<Rightarrow> nat \<Rightarrow> u64 \<Rightarrow> unit q_io" where
  "discard_cluster order i j c =
     io_bind (on_rc (get_cluster_refcount order c)) (\<lambda>r.
     case r of
       Inl _ \<Rightarrow> io_fail Einval
     | Inr refcount \<Rightarrow>
         if refcount = 0 then io_fail Einval
         else
           io_bind (set_cluster_refcount order c (refcount - 1)) (\<lambda>newly_unref.
           io_bind (append_unref newly_unref) (\<lambda>_. discard_entry i j c (refcount - 1))))"

lemma deallocate_cluster_eq:
  "deallocate_cluster order a =
     io_bind (io_get id) (\<lambda>q.
     if a \<ge> virtual_size q then io_fail Einval
     else
       io_bind (io_opt Einval (nth_opt (l1_table q) (unat (l1_table_index q a)))) (\<lambda>addr.
       if addr = 0 then io_return ()
       else
         io_bind (l2_load order (unat (l1_table_index q a)) addr) (\<lambda>_.
         io_bind (l2_get (unat (l1_table_index q a)) (unat (l2_table_index q a))) (\<lambda>c.
         if c = 0 then io_return ()
         else discard_cluster order (unat (l1_table_index q a)) (unat (l2_table_index q a)) c))))"
  unfolding deallocate_cluster_def discard_cluster_def discard_entry_def Let_def ..

lemma wp_deallocate_cluster:
  assumes ok: "q_ok k M H q" and order: "is_order order"
  shows "wp (deallocate_cluster order a)
    (\<lambda>_ q'. q_ok k M H q' \<and> disk_is k (zero_cluster k (unat a) (vdisk k q)) q q') (\<lambda>_ _. True) q"
proof -
  let ?i = "unat a div 2 ^ k div l2_len k" and ?j = "unat a div 2 ^ k mod l2_len k"
  let ?post = "\<lambda>_ q'. q_ok k M H q' \<and> disk_is k (zero_cluster k (unat a) (vdisk k q)) q q'"
  note k = q_ok_bounds [OF ok] and ind = table_indices [OF ok, of a] and L = l2_len_pos [OF ok]
  have j: "?j < l2_len k" using L by simp
  have owner: "data_owner k (unat a) = Own_Data ?i ?j" by (simp add: data_owner_def)
  have unused: "?post () q1" if "q_ok k M H q1" "keeps_disk k q q1" "used k q1 (data_owner k (unat a)) = 0" for q1
    using that zero_cluster_unused [OF L that(3)] by (simp add: keeps_disk_def disk_is_def)
  have count: "wp (discard_cluster order ?i ?j c) ?post (\<lambda>_ _. True) q1"
    if r: "l2_ready k M H ?i q q1" and c: "unat c = used k q1 (Own_Data ?i ?j)" "c \<noteq> 0" for c q1
  proof -
    have ok1: "q_ok k M H q1" and kd: "keeps_disk k q q1" and cc: "cache_contains (l2_cache q1) ?i"
      using r by (simp_all add: l2_ready_def)
    have last: "wp (discard_entry ?i ?j c n) ?post (\<lambda>_ _. True) (q3\<lparr>unref_clusters := unref_clusters q3 @ us\<rparr>)"
      if q2: "same_disk k q1 q2" and q3: "refcount_post k M H q2 c n us q3" for q2 q3 us n
    proof -
      let ?q = "q3\<lparr>unref_clusters := unref_clusters q3 @ us\<rparr>"
      have ok3: "q_ok k M H ?q" by (rule q_ok_unref) (use q3 in \<open>simp add: refcount_post_def\<close>)
      have "same_disk k q1 q3" using same_disk_trans [OF q2, of q3] q3 k by (simp add: refcount_post_def)
      then have sd: "same_disk k q1 ?q" by (simp add: same_disk_def)
      then have kd3: "keeps_disk k q ?q" using keeps_disk_trans [OF kd same_disk_keeps] k by simp
      have "cache_contains (l2_cache ?q) ?i" "unat c = used k ?q (Own_Data ?i ?j)"
        using sd cc c(1) same_disk_view(2) [OF sd] k by (simp_all only: same_disk_def disk_owner.simps simp_thms) simp_all
      from wp_discard_entry [OF ok3 this(1) j owner this(2) c(2)] show ?thesis
        using kd3 by (auto simp: keeps_disk_def disk_is_def elim!: wp_mono)
    qed
    have set: "wp (set_cluster_refcount order c n) (\<lambda>us q. wp (discard_entry ?i ?j c n) ?post (\<lambda>_ _. True)
        (q\<lparr>unref_clusters := unref_clusters q @ us\<rparr>)) (\<lambda>_ _. True) (q1\<lparr>refcounts := (refcounts q1)\<lparr>refblock_cache := cc\<rparr>, raw_file := rf'\<rparr>)"
      if "rc_ok k ((refcounts q1)\<lparr>refblock_cache := cc\<rparr>) rf'" "tab_frame k (ref_table (refcounts q1)) (raw_file q1) rf'" for cc rf' n
    proof -
      have "q_ok k M H (q1\<lparr>refcounts := (refcounts q1)\<lparr>refblock_cache := cc\<rparr>, raw_file := rf'\<rparr>)"
        "same_disk k q1 (q1\<lparr>refcounts := (refcounts q1)\<lparr>refblock_cache := cc\<rparr>, raw_file := rf'\<rparr>)"
        using q_ok_blocks [OF ok1 that(1)] that(2) by auto
      then show ?thesis
        using last by (intro wp_mono [OF wp_set_cluster_refcount [OF _ order]]) auto
    qed
    show ?thesis
      by (auto simp: discard_cluster_def wp_on_rc wp_bind wp_modify wp_fail wp_if append_unref_def Let_def split: sum.splits
          intro!: set wp_mono [OF wp_get_cluster_refcount [OF q_ok_rc_ok [OF ok1] order]])
  qed
  show ?thesis
  proof (cases "a < virtual_size q \<and> ?i < length (l1_table q)")
    case False
    then show ?thesis
      by (auto simp: deallocate_cluster_eq wp_simps Let_def ind nth_opt_def not_less)
  next
    case True
    show ?thesis
    proof (cases "l1_table q ! ?i = 0")
      case z: True
      then have "used k q (data_owner k (unat a)) = 0" using unused_table [OF ok _ j] by (simp add: owner)
      then show ?thesis
        using True z unused [OF ok keeps_disk_refl]
        by (simp add: deallocate_cluster_eq wp_simps Let_def ind nth_opt_def)
    next
      case nz: False
      have "wp (l2_get ?i ?j) (\<lambda>c. wp (if c = 0 then io_return () else discard_cluster order ?i ?j c) ?post (\<lambda>_ _. True)) (\<lambda>_ _. True) q1"
        if r: "l2_ready k M H ?i q q1" for q1
      proof (rule wp_l2_get [OF _ _ j, of M H q1 ?i])
        show "q_ok k M H q1" "?i < length (l1_table q1)" "cache_contains (l2_cache q1) ?i"
          using r True by (simp_all add: l2_ready_def)
        fix c :: u64 assume c: "unat c = used k q1 (Own_Data ?i ?j)" "unat c < 2 ^ 56"
        have "c = 0 \<Longrightarrow> used k q1 (data_owner k (unat a)) = 0" using c(1) by (simp add: owner)
        then show "wp (if c = 0 then io_return () else discard_cluster order ?i ?j c) ?post (\<lambda>_ _. True) q1"
          using count [OF r c(1)] unused [of q1] r by (simp add: wp_bind wp_return wp_if l2_ready_def)
      qed
      then show ?thesis
        using True nz
        by (auto simp: deallocate_cluster_eq wp_bind wp_get wp_if wp_opt Let_def ind nth_opt_def cong: if_cong
            intro!: wp_mono [OF wp_l2_load [OF ok order _ nz]])
    qed
  qed
qed

lemma zero_cluster_put:
  assumes "a mod 2 ^ k = 0"
  shows "zero_cluster k a d = disk_put a (replicate (2 ^ k) 0) d"
proof
  fix b :: nat
  have "b mod 2 ^ k < 2 ^ k" by simp
  then show "zero_cluster k a d b = disk_put a (replicate (2 ^ k) 0) d b"
    using same_cluster_range [of "2 ^ k" k a b] assms by (auto simp: zero_cluster_def disk_put_def)
qed

lemma disk_put_same: "disk_get a n d = bs \<Longrightarrow> disk_put a bs d = d"
  by (auto simp: disk_get_def disk_put_def fun_eq_iff)

text \<open>One round of the loop of \<^verbatim>\<open>write_zeroes\<close>.\<close>

definition zero_round :: "(nat list \<Rightarrow> nat list) \<Rightarrow> u64 \<Rightarrow> u64 \<Rightarrow> bool \<Rightarrow> unit q_io" where
  "zero_round order a c whole =
     (if whole then deallocate_cluster order a
      else
        io_bind (file_offset_read order a) (\<lambda>file_offset.
        case file_offset of
          None \<Rightarrow> io_return ()
        | Some off \<Rightarrow> io_bind (on_host (file_seek off)) (\<lambda>_. io_bind (on_host (write_zeroes c)) (\<lambda>_. io_return ()))))"

lemma wp_zero_round:
  assumes ok: "q_ok k M H q" and order: "is_order order" and c: "unat c \<le> 2 ^ k - unat a mod 2 ^ k"
    and whole: "whole \<longleftrightarrow> unat c = 2 ^ k"
  shows "wp (zero_round order a c whole)
    (\<lambda>_ q'. q_ok k M H q' \<and> disk_is k (disk_put (unat a) (replicate (unat c) 0) (vdisk k q)) q q') (\<lambda>_ _. True) q"
proof (cases whole)
  case True
  then have "unat c = 2 ^ k" using whole by simp
  moreover from this have "unat a mod 2 ^ k = 0" using c zero_less_power [of "2 :: nat" k] by linarith
  ultimately show ?thesis
    using wp_deallocate_cluster [OF ok order, of a] True zero_cluster_put [of "unat a" k] by (simp add: zero_round_def)
next
  case False
  have "wp (case res of None \<Rightarrow> io_return ()
      | Some off \<Rightarrow> io_bind (on_host (file_seek off)) (\<lambda>_. io_bind (on_host (write_zeroes c)) (\<lambda>_. io_return ())))
    (\<lambda>_ q'. q_ok k M H q' \<and> disk_is k (disk_put (unat a) (replicate (unat c) 0) (vdisk k q)) q q') (\<lambda>_ _. True) q1"
    if l: "looked_up k M H a q res q1" for res q1
  proof (cases res)
    case None
    then have "disk_put (unat a) (replicate (unat c) 0) (vdisk k q) = vdisk k q"
      using looked_up_bytes [OF l c] by (intro disk_put_same) simp
    then show ?thesis using None l by (simp add: wp_simps looked_up_def keeps_disk_is)
  next
    case (Some off)
    have ok1: "q_ok k M H q1" and kd: "keeps_disk k q q1" and u: "used k q1 (data_owner k (unat a)) \<noteq> 0"
      and off: "unat off = used k q1 (data_owner k (unat a)) + unat a mod 2 ^ k"
      using l Some by (simp_all add: looked_up_def)
    have "q_ok k M H (with_file q1 f) \<and> disk_is k (disk_put (unat a) (replicate (unat c) 0) (vdisk k q)) q (with_file q1 f)"
      if "contents f = file_put (unat off) (replicate (unat c) 0) (contents (rf_file (raw_file q1)))" for f
      using vdisk_data_write [OF ok1 u _ that [unfolded off]] c kd by (simp add: disk_is_def keeps_disk_def)
    then have "wp (io_bind (on_host (file_seek off)) (\<lambda>_. on_host (write_zeroes c)))
      (\<lambda>_ q'. q_ok k M H q' \<and> disk_is k (disk_put (unat a) (replicate (unat c) 0) (vdisk k q)) q q') (\<lambda>_ _. True) q1"
      by (intro wp_mono [OF wp_host_zero]) auto
    then show ?thesis using Some by (simp add: wp_bind wp_return)
  qed
  then show ?thesis
    using False by (auto simp: zero_round_def wp_bind intro!: wp_mono [OF wp_file_offset_read [OF ok order]])
qed

lemma zero_loop_step:
  "zero_loop (Suc n) order address count pos =
     (if pos < count then
        io_bind (io_get id) (\<lambda>q.
        io_bind (zero_round order (address + pos) (limit_range_cluster q (address + pos) (count - pos))
            (limit_range_cluster q (address + pos) (count - pos) = rf_cluster_size (raw_file q))) (\<lambda>_.
        zero_loop n order address count (pos + limit_range_cluster q (address + pos) (count - pos))))
      else io_return ())"
  unfolding zero_loop.simps zero_round_def Let_def ..

lemma wp_zero_loop:
  assumes "is_order order" "q_ok k M H q" "unat address + unat count < 2 ^ 64"
    "unat pos \<le> unat count" "unat count - unat pos \<le> n"
  shows "wp (zero_loop n order address count pos)
    (\<lambda>_ q'. q_ok k M H q' \<and>
      disk_is k (disk_put (unat address + unat pos) (replicate (unat count - unat pos) 0) (vdisk k q)) q q')
    (\<lambda>_ _. True) q"
  using assms(2, 4, 5)
proof (induction n arbitrary: q pos)
  case 0
  then show ?case by (simp add: wp_simps word_less_nat_alt disk_is_def)
next
  case (Suc n)
  show ?case
  proof (cases "pos < count")
    case False
    then show ?thesis using Suc.prems by (simp add: wp_simps word_less_nat_alt disk_is_def)
  next
    case True
    let ?a = "address + pos" and ?c = "limit_range_cluster q (address + pos) (count - pos)"
    let ?post = "\<lambda>_ q'. q_ok k M H q' \<and>
      disk_is k (disk_put (unat address + unat pos) (replicate (unat count - unat pos) 0) (vdisk k q)) q q'"
    have lt: "unat pos < unat count" using True by (simp add: word_less_nat_alt)
    note r = round_count [OF Suc.prems(1) assms(3) lt]
    have sz: "?c = rf_cluster_size (raw_file q) \<longleftrightarrow> unat ?c = 2 ^ k"
      using rf_ok_sizes(1) [of k "raw_file q"] q_ok_bounds [OF Suc.prems(1)] by (simp add: word_unat_eq_iff)
    have "wp (zero_loop n order address count (pos + ?c)) ?post (\<lambda>_ _. True) q1"
      if q1: "q_ok k M H q1" "disk_is k (disk_put (unat ?a) (replicate (unat ?c) 0) (vdisk k q)) q q1" for q1
    proof -
      have rep: "replicate (unat ?c) 0 @ replicate (unat count - unat (pos + ?c)) 0 = (replicate (unat count - unat pos) 0 :: u8 list)"
        using r(2, 4) by (simp add: replicate_add [symmetric])
      have "disk_is k (disk_put (unat address + unat pos) (replicate (unat count - unat pos) 0) (vdisk k q)) q q'"
        if "disk_is k (disk_put (unat address + unat (pos + ?c)) (replicate (unat count - unat (pos + ?c)) 0) (vdisk k q1)) q1 q'" for q'
        using disk_put_round [OF _ q1(2), of "unat ?c" _ q'] that r(1, 2) by (simp add: rep [symmetric] add.assoc)
      then show ?thesis
        using r Suc.prems(3) by (intro wp_mono [OF Suc.IH [OF q1(1), of "pos + ?c"]]) auto
    qed
    then show ?thesis
      using True by (auto simp: zero_loop_step wp_bind wp_get simp del: zero_loop.simps
          intro!: wp_mono [OF wp_zero_round [OF Suc.prems(1) assms(1) r(5) sz]])
  qed
qed

end
