(* ===== verification/Qcow_Sync.thy ===== *)
theory Qcow_Sync
  imports Qcow_Access
begin

text \<open>
  Writing back the caches (\<^verbatim>\<open>sync_caches\<close> of \<^verbatim>\<open>qcow.rs\<close>): the disk is the same, the
  caches are clean, and the tables in the file are those in memory.
\<close>

section \<open>Writing back the caches\<close>

lemma swap_updates: "q\<lparr>raw_file := rf, l2_cache := c\<rparr> = q\<lparr>l2_cache := c, raw_file := rf\<rparr>"
  by (cases q) simp

definition l2_clean :: "qcow_file \<Rightarrow> nat \<Rightarrow> bool" where
  "l2_clean q i \<longleftrightarrow> (\<forall>v. cache_get (l2_cache q) i = Some v \<longrightarrow> \<not> vc_dirty v)"

definition l2_synced :: "nat \<Rightarrow> nat set \<Rightarrow> nat list \<Rightarrow> qcow_file \<Rightarrow> qcow_file \<Rightarrow> bool" where
  "l2_synced k M H q q' \<longleftrightarrow> q_ok k M H q' \<and> keeps_disk k q q' \<and> l1_table q' = l1_table q \<and> refcounts q' = refcounts q \<and>
     avail_clusters q' = avail_clusters q \<and> unref_clusters q' = unref_clusters q \<and> q_counts k q' = q_counts k q \<and>
     used k q' = used k q \<and> cache_keys (l2_cache q') = cache_keys (l2_cache q) \<and> tab_frame k (l1_table q) (raw_file q) (raw_file q')"

lemma l2_synced_refl: "q_ok k M H q \<Longrightarrow> l2_synced k M H q q"
  using q_ok_bounds [of k M H q] by (simp add: l2_synced_def keeps_disk_refl tab_frame_refl)

lemma l2_synced_trans: "l2_synced k M H q q' \<Longrightarrow> l2_synced k M H q' q'' \<Longrightarrow> l2_synced k M H q q''"
  by (auto simp: l2_synced_def intro: keeps_disk_trans tab_frame_trans)

lemma cache_keys_set: "cache_contains c i \<Longrightarrow> cache_keys (cache_set i v c) = cache_keys c"
  by (auto simp: cache_keys_def cache_set_def)

lemma wp_write_table_i:
  assumes ok: "q_ok k M H q" and v: "cache_get (l2_cache q) i = Some v"
  shows "wp (on_qraw (write_pointer_table (l1_table q ! i) (vc_get_values v) (push_bit 63 1)))
    (\<lambda>_ q'. \<exists>rf'. q' = q\<lparr>raw_file := rf'\<rparr> \<and>
      l2_synced k M H q (q\<lparr>raw_file := rf', l2_cache := cache_set i (vc_mark_clean v) (l2_cache q)\<rparr>)) (\<lambda>_ _. True) q"
proof -
  let ?l1 = "l1_table q" and ?c = "cache_set i (vc_mark_clean v) (l2_cache q)"
  have i: "i < length ?l1" "?l1 ! i \<noteq> 0" "l2_shape k (vc_vec v)" using q_ok_caches [OF ok] v by (auto simp: caches_ok_def)
  have rf: "rf_ok k (raw_file q)" using q_ok_bounds [OF ok] by simp
  have "l2_synced k M H q (q\<lparr>raw_file := rf', l2_cache := ?c\<rparr>)"
    if rf': "tab_frame k ?l1 (raw_file q) rf'" "l2_disk k ?l1 rf' = (l2_disk k ?l1 (raw_file q))(i := vc_vec v)" for rf'
  proof -
    have coh: "coherent (l2_disk k ?l1) ?c rf'"
      using q_ok_caches [OF ok] rf'(2) by (auto simp: caches_ok_def coherent_def vc_mark_clean_def split: if_splits)
    have view: "cached_view (l2_disk k ?l1) ?c rf' = l2_view k q"
    proof
      fix u show "cached_view (l2_disk k ?l1) ?c rf' u = l2_view k q u"
        using v rf'(2) by (auto simp: l2_view_def cached_view_def vc_mark_clean_def split: option.splits)
    qed
    have shape: "u < length ?l1 \<and> ?l1 ! u \<noteq> 0 \<and> l2_shape k (vc_vec w)" if "cache_get ?c u = Some w" for u w
      using that q_ok_caches [OF ok] i by (auto simp: caches_ok_def vc_mark_clean_def split: if_splits)
    note b = q_ok_l2_blocks [OF ok rf'(1) coh view shape]
    have "cache_keys ?c = cache_keys (l2_cache q)" using v by (intro cache_keys_set) (simp add: cache_contains_def)
    then show ?thesis
      unfolding swap_updates using b rf'(1) by (simp add: l2_synced_def q_counts_def)
  qed
  then show ?thesis
    using wp_write_l2 [OF rf i(1, 2) l1_tab_placed [OF ok] i(3)] by (auto simp: wp_on_qraw vc_get_values_def elim!: wp_mono)
qed

lemma wp_sync_l2_from:
  assumes "q_ok k M H q"
  shows "wp (sync_l2_from is)
    (\<lambda>_ q'. l2_synced k M H q q' \<and> (\<forall>i. i \<in> set is \<or> l2_clean q i \<longrightarrow> l2_clean q' i)) (\<lambda>_ _. True) q"
  using assms
proof (induction "is" arbitrary: q)
  case Nil
  then show ?case by (simp add: wp_simps l2_synced_refl)
next
  case (Cons i "is")
  have skip: "wp (sync_l2_from is) (\<lambda>_ q'. l2_synced k M H q q' \<and> (\<forall>j. j \<in> set (i # is) \<or> l2_clean q j \<longrightarrow> l2_clean q' j)) (\<lambda>_ _. True) q1"
    if "l2_synced k M H q q1" "\<And>j. j = i \<or> l2_clean q j \<Longrightarrow> l2_clean q1 j" for q1
  proof -
    have "q_ok k M H q1" using that(1) by (simp add: l2_synced_def)
    then show ?thesis using that by (intro wp_mono [OF Cons.IH]) (auto intro: l2_synced_trans)
  qed
  show ?case
  proof (cases "\<exists>v. cache_get (l2_cache q) i = Some v \<and> vc_dirty v")
    case False
    then have "l2_clean q i" by (auto simp: l2_clean_def)
    then show ?thesis
      using skip [OF l2_synced_refl [OF Cons.prems]] False by (auto simp: wp_simps split: option.splits)
  next
    case True
    then obtain v where v: "cache_get (l2_cache q) i = Some v" "vc_dirty v" by auto
    have i: "i < length (l1_table q)" "l1_table q ! i \<noteq> 0" using q_ok_caches [OF Cons.prems] v by (auto simp: caches_ok_def)
    have cl: "l2_clean (q\<lparr>raw_file := rf', l2_cache := cache_set i (vc_mark_clean v) (l2_cache q)\<rparr>) j" if "j = i \<or> l2_clean q j" for j rf'
      using that by (auto simp: l2_clean_def vc_mark_clean_def)
    have "wp (on_qraw (write_pointer_table (l1_table q ! i) (vc_get_values v) (push_bit 63 1)))
      (\<lambda>_ q1. wp (sync_l2_from is) (\<lambda>_ q'. l2_synced k M H q q' \<and> (\<forall>j. j \<in> set (i # is) \<or> l2_clean q j \<longrightarrow> l2_clean q' j)) (\<lambda>_ _. True)
        (q1\<lparr>l2_cache := cache_set i (vc_mark_clean v) (l2_cache q1)\<rparr>)) (\<lambda>_ _. True) q"
      by (rule wp_mono [OF wp_write_table_i [OF Cons.prems v(1)]]) (use skip cl in auto)
    then show ?thesis using v i by (simp add: wp_bind wp_get wp_unwrap wp_modify nth_opt_def)
  qed
qed

text \<open>The same for the blocks of reference counts.\<close>

definition rb_clean :: "refcount \<Rightarrow> nat \<Rightarrow> bool" where
  "rb_clean rc i \<longleftrightarrow> (\<forall>v. cache_get (refblock_cache rc) i = Some v \<longrightarrow> \<not> vc_dirty v)"

definition rb_synced :: "nat \<Rightarrow> refcount \<times> qcow_raw_file \<Rightarrow> refcount \<times> qcow_raw_file \<Rightarrow> bool" where
  "rb_synced k s s' \<longleftrightarrow> rc_ok k (fst s') (snd s') \<and> tab_frame k (ref_table (fst s)) (snd s) (snd s') \<and>
     rc_view k (fst s') (snd s') = rc_view k (fst s) (snd s) \<and> (\<exists>c. fst s' = (fst s)\<lparr>refblock_cache := c\<rparr>) \<and>
     cache_keys (refblock_cache (fst s')) = cache_keys (refblock_cache (fst s))"

lemma rb_synced_refl: "rc_ok k rc rf \<Longrightarrow> rb_synced k (rc, rf) (rc, rf)"
  by (auto simp: rb_synced_def rc_ok_def tab_frame_refl intro: exI [of _ "refblock_cache rc"])

lemma rb_synced_trans: "rb_synced k s s' \<Longrightarrow> rb_synced k s' s'' \<Longrightarrow> rb_synced k s s''"
  by (auto simp: rb_synced_def intro: tab_frame_trans)

lemma rb_synced_write:
  assumes ok: "rc_ok k rc rf" and v: "cache_get (refblock_cache rc) i = Some v"
    and rf': "tab_frame k (ref_table rc) rf rf'" "rb_disk k (ref_table rc) rf' = (rb_disk k (ref_table rc) rf)(i := vc_vec v)"
  shows "rb_synced k (rc, rf) (rc\<lparr>refblock_cache := cache_set i (vc_mark_clean v) (refblock_cache rc)\<rparr>, rf')"
proof -
  let ?c = "cache_set i (vc_mark_clean v) (refblock_cache rc)"
  have coh: "coherent (rb_disk k (ref_table rc)) ?c rf'"
    using ok rf'(2) by (auto simp: rc_ok_def coherent_def vc_mark_clean_def split: if_splits)
  have view: "cached_view (rb_disk k (ref_table rc)) ?c rf' = rc_view k rc rf"
  proof
    fix u show "cached_view (rb_disk k (ref_table rc)) ?c rf' u = rc_view k rc rf u"
      using v rf'(2) by (auto simp: rc_view_def cached_view_def vc_mark_clean_def split: option.splits)
  qed
  have "rc_inv k (rc\<lparr>refblock_cache := ?c\<rparr>)"
    using ok v by (auto simp: rc_ok_def rc_inv_def vc_mark_clean_def split: if_splits)
  then have "rc_ok k (rc\<lparr>refblock_cache := ?c\<rparr>) rf'"
    using ok coh rf'(1) by (simp add: rc_ok_def tab_frame_def)
  moreover have "cache_keys ?c = cache_keys (refblock_cache rc)" using v by (intro cache_keys_set) (simp add: cache_contains_def)
  ultimately show ?thesis using view rf'(1) by (auto simp: rb_synced_def rc_view_def)
qed

lemma wp_flush_blocks_from:
  assumes "rc_ok k rc rf"
  shows "wp (flush_blocks_from is)
    (\<lambda>_ s'. rb_synced k (rc, rf) s' \<and> (\<forall>i. i \<in> set is \<or> rb_clean rc i \<longrightarrow> rb_clean (fst s') i)) (\<lambda>_ _. True) (rc, rf)"
  using assms
proof (induction "is" arbitrary: rc rf)
  case Nil
  then show ?case by (simp add: wp_simps rb_synced_refl)
next
  case (Cons i "is")
  let ?post = "\<lambda>_ s'. rb_synced k (rc, rf) s' \<and> (\<forall>j. j \<in> set (i # is) \<or> rb_clean rc j \<longrightarrow> rb_clean (fst s') j)"
  have skip: "wp (flush_blocks_from is) ?post (\<lambda>_ _. True) (rc1, rf1)"
    if "rb_synced k (rc, rf) (rc1, rf1)" "\<And>j. j = i \<or> rb_clean rc j \<Longrightarrow> rb_clean rc1 j" for rc1 rf1
  proof -
    have "rc_ok k rc1 rf1" using that(1) by (simp add: rb_synced_def)
    then show ?thesis using that by (intro wp_mono [OF Cons.IH]) (auto intro: rb_synced_trans)
  qed
  show ?case
  proof (cases "\<exists>v. cache_get (refblock_cache rc) i = Some v \<and> vc_dirty v")
    case False
    then have "rb_clean rc i" by (auto simp: rb_clean_def)
    then show ?thesis
      using skip [OF rb_synced_refl [OF Cons.prems]] False by (auto simp: wp_simps split: option.splits)
  next
    case True
    then obtain v where v: "cache_get (refblock_cache rc) i = Some v" "vc_dirty v" by auto
    have i: "i < length (ref_table rc)" "ref_table rc ! i \<noteq> 0" "length (vc_vec v) = rb_len k"
      "rf_ok k rf" "tab_placed k (ref_table rc) (rlen rf)"
      using Cons.prems v by (auto simp: rc_ok_def rc_inv_def)
    have cl: "rb_clean (rc\<lparr>refblock_cache := cache_set i (vc_mark_clean v) (refblock_cache rc)\<rparr>) j" if "j = i \<or> rb_clean rc j" for j
      using that by (auto simp: rb_clean_def vc_mark_clean_def)
    have "wp (write_refcount_block (ref_table rc ! i) (vc_get_values v))
      (\<lambda>_ rf'. wp (flush_blocks_from is) ?post (\<lambda>_ _. True)
        (rc\<lparr>refblock_cache := cache_set i (vc_mark_clean v) (refblock_cache rc)\<rparr>, rf')) (\<lambda>_ _. True) rf"
      unfolding vc_get_values_def
      by (rule wp_mono [OF wp_write_refcount_block [OF i(4, 1, 2, 5, 3)]])
        (use skip [OF rb_synced_write [OF Cons.prems v(1)]] cl in auto)
    then show ?thesis
      using v i by (simp add: wp_bind wp_get wp_unwrap wp_modify nth_opt_def on_raw_def set_refblock_def wp_on)
  qed
qed

lemma q_ok_rb_synced:
  assumes ok: "q_ok k M H q" and s: "rb_synced k (refcounts q, raw_file q) (rc', rf')"
  shows "q_ok k M H (q\<lparr>refcounts := rc', raw_file := rf'\<rparr>)" "same_disk k q (q\<lparr>refcounts := rc', raw_file := rf'\<rparr>)"
    "q_counts k (q\<lparr>refcounts := rc', raw_file := rf'\<rparr>) = q_counts k q"
  using q_ok_blocks [OF ok, of rc' rf'] s by (auto simp: rb_synced_def q_counts_def)

text \<open>Writing to the places of the tables.\<close>

lemma wp_write_metadata:
  assumes ok: "q_ok k M H q" and m: "{unat off..<unat off + 8 * length ws} \<subseteq> metadata q"
  shows "wp (on_qraw (write_pointer_table off ws 0))
    (\<lambda>_ q'. \<exists>f. q' = with_file q f \<and> q_ok k M H q' \<and> same_disk k q q' \<and> q_counts k q' = q_counts k q \<and>
      contents f = file_put (unat off) (be_bytes ws) (contents (rf_file (raw_file q)))) (\<lambda>_ _. True) q"
proof -
  have rf: "rf_ok k (raw_file q)" using q_ok_bounds [OF ok] by simp
  have map: "map (\<lambda>addr. if addr = 0 then 0 else addr OR 0) ws = ws" by (auto intro: map_idI)
  have "q_ok k M H (with_file q f) \<and> same_disk k q (with_file q f) \<and> q_counts k (with_file q f) = q_counts k q"
    if f: "contents f = file_put (unat off) (be_bytes ws) (contents (rf_file (raw_file q)))" "rf_ok k ((raw_file q)\<lparr>rf_file := f\<rparr>)" for f
  proof -
    have len: "rlen (raw_file q) \<le> length (contents f)" by (simp add: f(1) file_put_def)
    have "fbyte (contents f) x = rbyte (raw_file q) x" if x: "in_cluster k (used k q o1) x" for o1 x
    proof -
      have nz: "used k q o1 \<noteq> 0" using x by (simp add: in_cluster_def)
      have "x \<notin> M" using q_ok_placed [OF ok nz] x by (simp add: placed_def)
      then have "\<not> (unat off \<le> x \<and> x < unat off + 8 * length ws)" using m ok by (auto simp: q_ok_def)
      then show ?thesis by (auto simp: f(1) fbyte_file_put)
    qed
    moreover have "fbyte (contents f) x = rbyte (raw_file q) x" if "x < 104" for x
    proof -
      have "x \<notin> metadata q" using that q_ok_stored [OF ok] by (auto simp: stored_def)
      then have "\<not> (unat off \<le> x \<and> x < unat off + 8 * length ws)" using m by auto
      then show ?thesis by (auto simp: f(1) fbyte_file_put)
    qed
    ultimately show ?thesis
      using q_ok_bytes [OF ok f(2)] len by (simp add: q_counts_def)
  qed
  then show ?thesis
    using wp_write_table [OF rf, of off ws]
    by (auto simp: wp_on_qraw write_pointer_table_def map elim!: wp_mono)
qed

text \<open>What the steps of \<^verbatim>\<open>sync_caches\<close> keep.\<close>

definition sync_step :: "nat \<Rightarrow> nat set \<Rightarrow> nat list \<Rightarrow> qcow_file \<Rightarrow> qcow_file \<Rightarrow> bool" where
  "sync_step k M H q q' \<longleftrightarrow> q_ok k M H q' \<and> keeps_disk k q q' \<and> l1_table q' = l1_table q \<and>
     ref_table (refcounts q') = ref_table (refcounts q) \<and> refcount_table_offset (refcounts q') = refcount_table_offset (refcounts q) \<and>
     avail_clusters q' = avail_clusters q \<and> unref_clusters q' = unref_clusters q \<and> q_counts k q' = q_counts k q \<and>
     (\<forall>i. l2_clean q i \<longrightarrow> l2_clean q' i) \<and> (\<forall>i. rb_clean (refcounts q) i \<longrightarrow> rb_clean (refcounts q') i) \<and>
     (\<forall>x \<in> M - metadata q. rbyte (raw_file q') x = rbyte (raw_file q) x)"

lemma sync_step_trans:
  assumes "sync_step k M H q q'" "sync_step k M H q' q''"
  shows "sync_step k M H q q''"
proof -
  have "metadata q' = metadata q" using assms(1) by (simp add: sync_step_def keeps_disk_def metadata_def)
  then show ?thesis using assms by (auto simp: sync_step_def intro: keeps_disk_trans)
qed

lemma frame_outside:
  assumes "tab_frame k tab rf rf'" "\<And>c. c \<in> set tab \<Longrightarrow> c \<noteq> 0 \<Longrightarrow> placed k M n (unat c)" "x \<in> M"
  shows "rbyte rf' x = rbyte rf x"
proof -
  have "\<not> in_cluster k (unat c) x" if "c \<in> set tab" for c
    using assms(2) [OF that] assms(3) by (auto simp: placed_def in_cluster_def unat_eq_zero)
  then show ?thesis using assms(1) by (simp add: tab_frame_def)
qed

lemma sync_step_l2:
  assumes ok: "q_ok k M H q" and s: "l2_synced k M H q q'" "\<And>i. l2_clean q i \<Longrightarrow> l2_clean q' i"
  shows "sync_step k M H q q'"
proof -
  have "placed k M (rlen (raw_file q)) (unat c)" if "c \<in> set (l1_table q)" "c \<noteq> 0" for c
  proof -
    obtain i where "i < length (l1_table q)" "l1_table q ! i = c" using \<open>c \<in> set (l1_table q)\<close> by (auto simp: in_set_conv_nth)
    then show ?thesis using q_ok_placed [OF ok, of "Own_L2 i"] that(2) by (simp add: used_L2 unat_eq_zero)
  qed
  then show ?thesis
    using s frame_outside [of k "l1_table q" "raw_file q" "raw_file q'" M "rlen (raw_file q)"] by (auto simp: sync_step_def l2_synced_def)
qed

lemma sync_step_rb:
  assumes ok: "q_ok k M H q" and s: "rb_synced k (refcounts q, raw_file q) (rc', rf')" "\<And>i. rb_clean (refcounts q) i \<Longrightarrow> rb_clean rc' i"
  shows "sync_step k M H q (q\<lparr>refcounts := rc', raw_file := rf'\<rparr>)"
proof -
  have pl: "placed k M (rlen (raw_file q)) (unat c)" if "c \<in> set (ref_table (refcounts q))" "c \<noteq> 0" for c
  proof -
    obtain i where "i < length (ref_table (refcounts q))" "ref_table (refcounts q) ! i = c"
      using \<open>c \<in> set (ref_table (refcounts q))\<close> by (auto simp: in_set_conv_nth)
    then show ?thesis using q_ok_placed [OF ok, of "Own_RB i"] that(2) by (simp add: used.simps unat_eq_zero)
  qed
  have "tab_frame k (ref_table (refcounts q)) (raw_file q) rf'" using s(1) by (simp add: rb_synced_def)
  note out = frame_outside [OF this pl]
  have k: "3 \<le> k" using q_ok_bounds [OF ok] by simp
  show ?thesis
    using q_ok_rb_synced [OF ok s(1)] same_disk_keeps [OF _ k, of q] s out
    by (auto simp: sync_step_def rb_synced_def l2_clean_def)
qed

lemma sync_step_file:
  assumes ok: "q_ok k M H (with_file q f)" "same_disk k q (with_file q f)" "q_counts k (with_file q f) = q_counts k q"
    "\<And>x. x \<in> M - metadata q \<Longrightarrow> fbyte (contents f) x = rbyte (raw_file q) x"
  shows "sync_step k M H q (with_file q f)"
proof -
  have "3 \<le> k" using q_ok_bounds [OF ok(1)] by simp
  then show ?thesis using assms same_disk_keeps [OF ok(2)] by (simp add: sync_step_def l2_clean_def)
qed

lemma wp_host_sync:
  assumes ok: "q_ok k M H q"
  shows "wp (on_host file_sync)
    (\<lambda>_ q'. sync_step k M H q q' \<and> contents (rf_file (raw_file q')) = contents (rf_file (raw_file q))) (\<lambda>_ _. True) q"
proof -
  have k: "3 \<le> k" using q_ok_bounds [OF ok] by simp
  have "sync_step k M H q (with_file q f)" if f: "contents f = contents (rf_file (raw_file q))" for f
  proof (rule sync_step_file)
    have rf: "rf_ok k ((raw_file q)\<lparr>rf_file := f\<rparr>)" using q_ok_bounds [OF ok] f by (simp add: rf_ok_def)
    show "same_disk k q (with_file q f)" using q_ok_bytes(2) [OF ok rf] f by simp
  qed (use q_ok_cursor [OF ok f] f in simp_all)
  then show ?thesis by (auto simp: wp_simps file_sync_def intro!: wp_syscall)
qed

lemma order_keys: "is_order order \<Longrightarrow> cache_wf c \<Longrightarrow> i \<in> set (order (cache_keys c)) \<longleftrightarrow> cache_get c i \<noteq> None"
  using cache_keys_contains [of i c] by (auto simp: is_order_def cache_wf_def cache_contains_def)

lemma wp_sync_l2:
  assumes ok: "q_ok k M H q" and order: "is_order order"
  shows "wp (sync_l2_from (order (cache_keys (l2_cache q)))) (\<lambda>_ q'. sync_step k M H q q' \<and> (\<forall>i. l2_clean q' i)) (\<lambda>_ _. True) q"
proof -
  have wf: "cache_wf (l2_cache q)" using q_ok_caches [OF ok] by (simp add: caches_ok_def coherent_def)
  have "i \<in> set (order (cache_keys (l2_cache q))) \<or> l2_clean q i" for i
    using order_keys [OF order wf] by (auto simp: l2_clean_def)
  then show ?thesis
    by (intro wp_mono [OF wp_sync_l2_from [OF ok]]) (auto intro: sync_step_l2 [OF ok])
qed

lemma wp_sync_rb:
  assumes ok: "q_ok k M H q" and order: "is_order order"
  shows "wp (on_rc (flush_blocks order)) (\<lambda>_ q'. sync_step k M H q q' \<and> (\<forall>i. rb_clean (refcounts q') i)) (\<lambda>_ _. True) q"
proof -
  let ?keys = "order (cache_keys (refblock_cache (refcounts q)))"
  have wf: "cache_wf (refblock_cache (refcounts q))" using q_ok_rc_ok [OF ok] by (simp add: rc_ok_def coherent_def)
  have "i \<in> set ?keys \<or> rb_clean (refcounts q) i" for i
    using order_keys [OF order wf] by (auto simp: rb_clean_def)
  then have "wp (flush_blocks_from ?keys) (\<lambda>_ (rc', rf'). sync_step k M H q (q\<lparr>refcounts := rc', raw_file := rf'\<rparr>) \<and> (\<forall>i. rb_clean rc' i))
      (\<lambda>_ _. True) (refcounts q, raw_file q)"
    by (intro wp_mono [OF wp_flush_blocks_from [OF q_ok_rc_ok [OF ok]]]) (auto intro: sync_step_rb [OF ok])
  then show ?thesis
    by (auto simp: wp_on_rc flush_blocks_def wp_bind wp_get elim!: wp_mono)
qed

lemma wp_sync_table:
  assumes ok: "q_ok k M H q" and m: "{unat off..<unat off + 8 * length ws} \<subseteq> metadata q"
  shows "wp (on_qraw (write_pointer_table off ws 0)) (\<lambda>_ q'. sync_step k M H q q' \<and>
    contents (rf_file (raw_file q')) = file_put (unat off) (be_bytes ws) (contents (rf_file (raw_file q)))) (\<lambda>_ _. True) q"
proof -
  have "fbyte (file_put (unat off) (be_bytes ws) xs) x = fbyte xs x" if "x \<notin> metadata q" for x xs
    using m that by (auto simp: fbyte_file_put)
  then show ?thesis
    by (intro wp_mono [OF wp_write_metadata [OF ok m]]) (auto intro!: sync_step_file)
qed

lemma wp_flush_table:
  assumes ok: "q_ok k M H q"
  shows "wp (on_rc flush_table) (\<lambda>_ q'. sync_step k M H q q' \<and>
    contents (rf_file (raw_file q')) =
      file_put (unat (refcount_table_offset (refcounts q))) (be_bytes (ref_table (refcounts q))) (contents (rf_file (raw_file q))))
    (\<lambda>_ _. True) q"
proof -
  have "{unat (refcount_table_offset (refcounts q))..<unat (refcount_table_offset (refcounts q)) + 8 * length (ref_table (refcounts q))} \<subseteq> metadata q"
    by (simp add: metadata_def)
  from wp_sync_table [OF ok this] show ?thesis
    by (auto simp: wp_on_rc flush_table_def on_raw_def wp_bind wp_get wp_on wp_on_qraw elim!: wp_mono)
qed

definition synced :: "nat \<Rightarrow> nat set \<Rightarrow> nat list \<Rightarrow> qcow_file \<Rightarrow> qcow_file \<Rightarrow> bool" where
  "synced k M H q q' \<longleftrightarrow> sync_step k M H q q' \<and> (\<forall>i. l2_clean q' i) \<and> (\<forall>i. rb_clean (refcounts q') i) \<and>
     (\<exists>xs. contents (rf_file (raw_file q')) =
       file_put (unat (refcount_table_offset (refcounts q))) (be_bytes (ref_table (refcounts q)))
         (file_put (unat (l1_table_offset (header q))) (be_bytes (l1_table q)) xs))"

lemma sync_step_facts:
  assumes "sync_step k M H q q'"
  shows "q_ok k M H q'" "\<forall>i. l2_clean q i \<Longrightarrow> \<forall>i. l2_clean q' i" "\<forall>i. rb_clean (refcounts q) i \<Longrightarrow> \<forall>i. rb_clean (refcounts q') i"
    "header q' = header q" "l1_table q' = l1_table q" "ref_table (refcounts q') = ref_table (refcounts q)"
    "refcount_table_offset (refcounts q') = refcount_table_offset (refcounts q)"
  using assms by (simp_all add: sync_step_def keeps_disk_def)

text \<open>The tables are written after everything they point to.\<close>

lemma wp_sync_tables:
  assumes q1: "sync_step k M H q q1" "\<forall>i. l2_clean q1 i" "\<forall>i. rb_clean (refcounts q1) i"
  shows "wp (io_bind (on_qraw (write_pointer_table (l1_table_offset (header q1)) (l1_table q1) 0)) (\<lambda>_.
      io_bind (on_rc flush_table) (\<lambda>_. on_host file_sync))) (\<lambda>_ q'. synced k M H q q') (\<lambda>_ _. True) q1"
proof -
  note ok1 = sync_step_facts(1) [OF q1(1)]
  have m: "{unat (l1_table_offset (header q1))..<unat (l1_table_offset (header q1)) + 8 * length (l1_table q1)} \<subseteq> metadata q1"
    by (simp add: metadata_def)
  have fin: "synced k M H q q4"
    if q2: "sync_step k M H q1 q2" "contents (rf_file (raw_file q2)) =
        file_put (unat (l1_table_offset (header q1))) (be_bytes (l1_table q1)) (contents (rf_file (raw_file q1)))"
      and q3: "sync_step k M H q2 q3" "contents (rf_file (raw_file q3)) =
        file_put (unat (refcount_table_offset (refcounts q2))) (be_bytes (ref_table (refcounts q2))) (contents (rf_file (raw_file q2)))"
      and q4: "sync_step k M H q3 q4" "contents (rf_file (raw_file q4)) = contents (rf_file (raw_file q3))" for q2 q3 q4
  proof -
    note t = sync_step_trans [OF sync_step_trans [OF q2(1) q3(1)] q4(1)]
    have "contents (rf_file (raw_file q4)) =
        file_put (unat (refcount_table_offset (refcounts q))) (be_bytes (ref_table (refcounts q)))
          (file_put (unat (l1_table_offset (header q))) (be_bytes (l1_table q)) (contents (rf_file (raw_file q1))))"
      using q4(2) q3(2) q2(2) sync_step_facts(4-7) [OF q1(1)] sync_step_facts(6, 7) [OF q2(1)] by simp
    then show ?thesis
      unfolding synced_def using sync_step_trans [OF q1(1) t] sync_step_facts(2, 3) [OF t] q1(2, 3) by blast
  qed
  have "wp (on_host file_sync) (\<lambda>_ q'. synced k M H q q') (\<lambda>_ _. True) q3"
    if q2: "sync_step k M H q1 q2" "contents (rf_file (raw_file q2)) =
        file_put (unat (l1_table_offset (header q1))) (be_bytes (l1_table q1)) (contents (rf_file (raw_file q1)))"
      and q3: "sync_step k M H q2 q3" "contents (rf_file (raw_file q3)) =
        file_put (unat (refcount_table_offset (refcounts q2))) (be_bytes (ref_table (refcounts q2))) (contents (rf_file (raw_file q2)))" for q2 q3
    using fin [OF q2 q3] by (intro wp_mono [OF wp_host_sync [OF sync_step_facts(1) [OF q3(1)]]]) auto
  then have "wp (on_rc flush_table) (\<lambda>_. wp (on_host file_sync) (\<lambda>_ q'. synced k M H q q') (\<lambda>_ _. True)) (\<lambda>_ _. True) q2"
    if q2: "sync_step k M H q1 q2" "contents (rf_file (raw_file q2)) =
        file_put (unat (l1_table_offset (header q1))) (be_bytes (l1_table q1)) (contents (rf_file (raw_file q1)))" for q2
    using q2 by (intro wp_mono [OF wp_flush_table [OF sync_step_facts(1) [OF q2(1)]]]) auto
  then show ?thesis
    unfolding wp_bind by (intro wp_mono [OF wp_sync_table [OF ok1 m]]) auto
qed

lemma wp_sync_caches:
  assumes ok: "q_ok k M H q" and order: "is_order order"
  shows "wp (sync_caches order) (\<lambda>_ q'. synced k M H q q') (\<lambda>_ _. True) q"
proof -
  let ?tables = "\<lambda>q. wp (io_bind (on_qraw (write_pointer_table (l1_table_offset (header q)) (l1_table q) 0)) (\<lambda>_.
      io_bind (on_rc flush_table) (\<lambda>_. on_host file_sync)))"
  have "wp (on_host file_sync) (\<lambda>_ q3. ?tables q3 (\<lambda>_ q'. synced k M H q q') (\<lambda>_ _. True) q3) (\<lambda>_ _. True) q2"
    if q2: "sync_step k M H q q2" "\<forall>i. l2_clean q2 i" "\<forall>i. rb_clean (refcounts q2) i" for q2
    by (rule wp_mono [OF wp_host_sync [OF sync_step_facts(1) [OF q2(1)]]])
      (use wp_sync_tables sync_step_trans [OF q2(1)] sync_step_facts(2, 3) q2(2, 3) in \<open>blast, simp\<close>)
  note host = this
  have "wp (on_rc (flush_blocks order)) (\<lambda>_. wp (on_host file_sync)
      (\<lambda>_ q3. ?tables q3 (\<lambda>_ q'. synced k M H q q') (\<lambda>_ _. True) q3) (\<lambda>_ _. True)) (\<lambda>_ _. True) q1"
    if q1: "sync_step k M H q q1" "\<forall>i. l2_clean q1 i" for q1
  proof (rule wp_mono [OF wp_sync_rb [OF sync_step_facts(1) [OF q1(1)] order]])
    fix q2 assume q2: "sync_step k M H q1 q2 \<and> (\<forall>i. rb_clean (refcounts q2) i)"
    show "wp (on_host file_sync) (\<lambda>_ q3. ?tables q3 (\<lambda>_ q'. synced k M H q q') (\<lambda>_ _. True) q3) (\<lambda>_ _. True) q2"
      using q2 sync_step_trans [OF q1(1), of q2] sync_step_facts(2) [of k M H q1 q2] q1(2) by (intro host) simp_all
  qed
  then show ?thesis
    by (auto simp: sync_caches_def wp_bind wp_get intro!: wp_mono [OF wp_sync_l2 [OF ok order]])
qed

end
