(* ===== verification/Qcow_Refinement.thy ===== *)
theory Qcow_Refinement
  imports Qcow_Sync
begin

text \<open>
  A qcow image behaves as a flat disk: an array of bytes with a position. Reading, writing,
  zeroing, seeking and flushing the image do to its disk what they do to a flat disk.
\<close>

section \<open>Flat disks\<close>

record flat_disk =
  fd_size :: u64
  fd_pos :: u64
  fd_bytes :: "nat \<Rightarrow> u8"

text \<open>The bytes from the position on that a request of \<open>n\<close> bytes reaches.\<close>

definition fd_count :: "flat_disk \<Rightarrow> u64 \<Rightarrow> u64" where
  "fd_count d n =
     (if unat (fd_pos d) + unat n < 2 ^ 64 \<and> fd_pos d \<le> fd_size d then min n (fd_size d - fd_pos d) else 0)"

datatype disk_op = Disk_read usize | Disk_write "u8 list" | Disk_zero usize | Disk_seek seek_from | Disk_flush

datatype disk_answer = Bytes "u8 list" | Count u64 | Flushed

fun flat_step :: "disk_op \<Rightarrow> flat_disk \<Rightarrow> (disk_answer \<times> flat_disk) option" where
  "flat_step (Disk_read n) d =
     (let c = fd_count d n in
      Some (Bytes (disk_get (unat (fd_pos d)) (unat c) (fd_bytes d)), d\<lparr>fd_pos := fd_pos d + c\<rparr>))"
| "flat_step (Disk_write bs) d =
     (let c = fd_count d (of_nat (length bs)) in
      Some (Count c, d\<lparr>fd_pos := fd_pos d + c, fd_bytes := disk_put (unat (fd_pos d)) (take (unat c) bs) (fd_bytes d)\<rparr>))"
| "flat_step (Disk_zero n) d =
     (let c = fd_count d n in
      Some (Count n, d\<lparr>fd_pos := fd_pos d + n, fd_bytes := disk_put (unat (fd_pos d)) (replicate (unat c) 0) (fd_bytes d)\<rparr>))"
| "flat_step (Disk_seek pos) d =
     (let target = (case pos of
          Seek_start off \<Rightarrow> int (unat off)
        | Seek_end off \<Rightarrow> int (unat (fd_size d)) + off
        | Seek_current off \<Rightarrow> int (unat (fd_pos d)) + off)
      in if 0 \<le> target \<and> target \<le> int (unat (fd_size d))
         then Some (Count (of_int target), d\<lparr>fd_pos := of_int target\<rparr>) else None)"
| "flat_step Disk_flush d = Some (Flushed, d)"

fun flat_run :: "disk_op list \<Rightarrow> flat_disk \<Rightarrow> (disk_answer list \<times> flat_disk) option" where
  "flat_run [] d = Some ([], d)"
| "flat_run (op # ops) d =
     (case flat_step op d of None \<Rightarrow> None
      | Some (x, d') \<Rightarrow> (case flat_run ops d' of None \<Rightarrow> None | Some (xs, d'') \<Rightarrow> Some (x # xs, d'')))"

section \<open>Images\<close>

definition io_map :: "('a \<Rightarrow> 'b) \<Rightarrow> ('s, 'a) io \<Rightarrow> ('s, 'b) io" where
  "io_map f m = io_bind m (\<lambda>x. io_return (f x))"

lemma wp_map [wp_simps]: "wp (io_map f m) Q E = wp m (\<lambda>x. Q (f x)) E"
  by (simp add: io_map_def wp_simps)

fun qcow_step :: "(nat list \<Rightarrow> nat list) \<Rightarrow> disk_op \<Rightarrow> disk_answer q_io" where
  "qcow_step order (Disk_read n) = io_map Bytes (qcow_read order n)"
| "qcow_step order (Disk_write bs) = io_map Count (qcow_write order bs)"
| "qcow_step order (Disk_zero n) = io_map Count (qcow_write_zeroes order n)"
| "qcow_step order (Disk_seek pos) = io_map Count (qcow_seek pos)"
| "qcow_step order Disk_flush = io_map (\<lambda>_. Flushed) (qcow_flush order)"

fun qcow_run :: "(nat list \<Rightarrow> nat list) \<Rightarrow> disk_op list \<Rightarrow> disk_answer list q_io" where
  "qcow_run order [] = io_return []"
| "qcow_run order (op # ops) = io_bind (qcow_step order op) (\<lambda>x. io_map (\<lambda>xs. x # xs) (qcow_run order ops))"

text \<open>The flat disk of an image.\<close>

definition flat :: "nat \<Rightarrow> qcow_file \<Rightarrow> flat_disk" where
  "flat k q = \<lparr>fd_size = virtual_size q, fd_pos = current_offset q, fd_bytes = vdisk k q\<rparr>"

lemma flat_simps [simp]: "fd_size (flat k q) = virtual_size q" "fd_pos (flat k q) = current_offset q" "fd_bytes (flat k q) = vdisk k q"
  by (simp_all add: flat_def)

lemma flat_eq: "flat k q' = d \<longleftrightarrow> virtual_size q' = fd_size d \<and> current_offset q' = fd_pos d \<and> vdisk k q' = fd_bytes d"
  by (cases d) (auto simp: flat_def)

lemma fd_count_flat: "fd_count (flat k q) n = limit_range_file q (current_offset q) n"
  by (auto simp: fd_count_def limit_range_file_def checked_add_def not_le)

lemma limit_range_file_fits:
  shows "unat (current_offset q) + unat (limit_range_file q (current_offset q) n) < 2 ^ 64"
    "unat (limit_range_file q (current_offset q) n) \<le> unat n"
proof -
  let ?p = "current_offset q" and ?c = "limit_range_file q (current_offset q) n"
  show le: "unat ?c \<le> unat n"
    by (auto simp: limit_range_file_def min_def word_le_nat_alt)
  have "unat ?p < 2 ^ LENGTH(64)" by (rule unsigned_less)
  then show "unat ?p + unat ?c < 2 ^ 64"
    using le by (cases "checked_add ?p n") (auto simp: limit_range_file_def checked_add_def split: if_splits)
qed

text \<open>The position is not part of the invariant.\<close>

lemma q_ok_offset: "q_ok k M H (q\<lparr>current_offset := off\<rparr>) = q_ok k M H q"
  by (simp add: q_ok_def stored_def metadata_def free_def)

lemma vdisk_offset [simp]: "vdisk k (q\<lparr>current_offset := off\<rparr>) = vdisk k q"
  by (simp add: vdisk_def fun_eq_iff)

text \<open>The offsets of seeks are 64-bit signed integers.\<close>

fun seek_in_range :: "seek_from \<Rightarrow> bool" where
  "seek_in_range (Seek_start off) \<longleftrightarrow> True"
| "seek_in_range (Seek_end off) \<longleftrightarrow> - (2 ^ 63) \<le> off \<and> off < 2 ^ 63"
| "seek_in_range (Seek_current off) \<longleftrightarrow> - (2 ^ 63) \<le> off \<and> off < 2 ^ 63"

fun op_in_range :: "disk_op \<Rightarrow> bool" where
  "op_in_range (Disk_seek pos) = seek_in_range pos"
| "op_in_range _ = True"

lemma unat_of_int_in: "0 \<le> x \<Longrightarrow> x < 2 ^ 64 \<Longrightarrow> unat (of_int x :: u64) = nat x"
  by (simp add: unsigned_of_int take_bit_int_eq_self)

lemma seek_relative_Some:
  assumes "seek_relative base off = Some x" "- (2 ^ 63) \<le> off" "off < 2 ^ 63"
  shows "int (unat x) = int (unat base) + off"
proof (cases "off < 0")
  case True
  define y where "y = (of_int (- off) :: u64)"
  have y: "unat y = nat (- off)" unfolding y_def by (rule unat_of_int_in) (use assms(2) True in simp_all)
  have "checked_sub base y = Some x" using assms(1) True by (simp add: seek_relative_def y_def split: if_splits)
  then have "y \<le> base" "x = base - y" by (auto simp: checked_sub_def split: if_splits)
  then have "unat x = unat base - nat (- off)" "nat (- off) \<le> unat base" by (simp_all add: unat_sub y word_le_nat_alt)
  then show ?thesis using True by simp
next
  case False
  have "unat (of_int off :: u64) = nat off" by (rule unat_of_int_in) (use assms(3) False in simp_all)
  then show ?thesis
    using False assms(1) by (auto simp: seek_relative_def checked_simps unat_add_no_wrap split: if_splits)
qed

lemma wp_qcow_seek:
  assumes "q_ok k M H q" "seek_in_range pos"
  shows "wp (qcow_seek pos) (\<lambda>x q'. flat_step (Disk_seek pos) (flat k q) = Some (Count x, flat k q') \<and> q_ok k M H q') (\<lambda>_ _. True) q"
proof -
  have target: "flat_step (Disk_seek pos) (flat k q) = Some (Count x, flat k (q\<lparr>current_offset := x\<rparr>))"
    if "x \<le> virtual_size q" and x: "int (unat x) = (case pos of
          Seek_start off \<Rightarrow> int (unat off)
        | Seek_end off \<Rightarrow> int (unat (virtual_size q)) + off
        | Seek_current off \<Rightarrow> int (unat (current_offset q)) + off)" for x
  proof -
    have "of_int (int (unat x)) = x" by simp
    then show ?thesis
      unfolding flat_step.simps flat_simps Let_def x [symmetric]
      using that(1) by (simp add: word_le_def flat_def virtual_size_def)
  qed
  have "int (unat x) = (case pos of
          Seek_start off \<Rightarrow> int (unat off)
        | Seek_end off \<Rightarrow> int (unat (virtual_size q)) + off
        | Seek_current off \<Rightarrow> int (unat (current_offset q)) + off)"
    if "(case pos of
          Seek_start off \<Rightarrow> Some off
        | Seek_end off \<Rightarrow> seek_relative (virtual_size q) off
        | Seek_current off \<Rightarrow> seek_relative (current_offset q) off) = Some x" for x
    using that assms(2) by (cases pos) (simp_all add: seek_relative_Some del: of_nat_unat)
  then show ?thesis
    unfolding qcow_seek_def wp_simps Let_def id_apply using assms(1) target
    by (auto simp: wp_simps q_ok_offset simp del: flat_step.simps of_nat_unat split: option.split)
qed

lemma wp_qcow_read:
  assumes "q_ok k M H q" "is_order order"
  shows "wp (qcow_read order n) (\<lambda>x q'. flat_step (Disk_read n) (flat k q) = Some (Bytes x, flat k q') \<and> q_ok k M H q') (\<lambda>_ _. True) q"
proof -
  let ?c = "limit_range_file q (current_offset q) n"
  note loop = wp_read_loop [OF assms(2, 1) limit_range_file_fits(1) [of q n], of 0 "unat ?c"]
  show ?thesis
    unfolding qcow_read_def wp_simps Let_def id_apply
    by (rule wp_mono [OF loop])
      (auto simp: fd_count_flat q_ok_offset flat_eq Let_def keeps_disk_def virtual_size_def)
qed

lemma wp_qcow_write:
  assumes "q_ok k M H q" "is_order order"
  shows "wp (qcow_write order bs) (\<lambda>x q'. flat_step (Disk_write bs) (flat k q) = Some (Count x, flat k q') \<and> q_ok k M H q') (\<lambda>_ _. True) q"
proof -
  let ?c = "limit_range_file q (current_offset q) (of_nat (length bs))"
  have "unat (of_nat (length bs) :: u64) \<le> length bs" by (simp add: unsigned_of_nat take_bit_nat_less_eq_self)
  then have le: "unat ?c \<le> length bs" using limit_range_file_fits(2) [of q "of_nat (length bs)"] by linarith
  note loop = wp_write_loop [OF assms(2, 1) limit_range_file_fits(1) le, of 0 "unat ?c"]
  show ?thesis
    unfolding qcow_write_def wp_simps Let_def id_apply
    by (rule wp_mono [OF loop])
      (auto simp: fd_count_flat q_ok_offset flat_eq Let_def disk_is_def virtual_size_def slice_def)
qed

lemma wp_qcow_write_zeroes:
  assumes "q_ok k M H q" "is_order order"
  shows "wp (qcow_write_zeroes order n) (\<lambda>x q'. flat_step (Disk_zero n) (flat k q) = Some (Count x, flat k q') \<and> q_ok k M H q') (\<lambda>_ _. True) q"
proof -
  let ?c = "limit_range_file q (current_offset q) n"
  note loop = wp_zero_loop [OF assms(2, 1) limit_range_file_fits(1) [of q n], of 0 "unat ?c"]
  show ?thesis
    unfolding qcow_write_zeroes_def wp_simps Let_def id_apply
    by (rule wp_mono [OF loop])
      (auto simp: fd_count_flat q_ok_offset flat_eq Let_def disk_is_def virtual_size_def)
qed

lemma q_ok_release:
  assumes "q_ok k M H q" "avail_clusters q = as" "unref_clusters q = us"
  shows "q_ok k M H (q\<lparr>avail_clusters := as @ us, unref_clusters := []\<rparr>)"
proof -
  have "stored k M (q\<lparr>avail_clusters := as @ us, unref_clusters := []\<rparr>)"
    by (rule stored_frame [OF q_ok_stored [OF assms(1)]]) (simp_all add: same_tables_def)
  then show ?thesis using assms by (simp add: q_ok_def free_def metadata_def)
qed

lemma wp_qcow_flush:
  assumes "q_ok k M H q" "is_order order"
  shows "wp (qcow_flush order) (\<lambda>_ q'. flat_step Disk_flush (flat k q) = Some (Flushed, flat k q') \<and> q_ok k M H q') (\<lambda>_ _. True) q"
proof -
  have "vdisk k (q\<lparr>avail_clusters := as, unref_clusters := us\<rparr>) = vdisk k q" for q as us
    by (simp add: vdisk_def fun_eq_iff)
  then show ?thesis
    unfolding qcow_flush_def wp_simps
    by (intro wp_mono [OF wp_sync_caches [OF assms]])
      (auto simp: synced_def sync_step_def keeps_disk_def flat_def virtual_size_def q_ok_release)
qed

lemma wp_qcow_step:
  assumes "q_ok k M H q" "is_order order" "op_in_range op"
  shows "wp (qcow_step order op) (\<lambda>x q'. flat_step op (flat k q) = Some (x, flat k q') \<and> q_ok k M H q') (\<lambda>_ _. True) q"
  using assms wp_qcow_read [OF assms(1, 2)] wp_qcow_write [OF assms(1, 2)] wp_qcow_write_zeroes [OF assms(1, 2)]
    wp_qcow_seek [OF assms(1)] wp_qcow_flush [OF assms(1, 2)]
  by (cases op) (simp_all add: wp_map)

section \<open>The refinement\<close>


text \<open>An image whose tables are empty holds zeros.\<close>

definition blank :: "nat \<Rightarrow> qcow_file \<Rightarrow> bool" where
  "blank k q \<longleftrightarrow> 9 \<le> k \<and> rf_ok k (raw_file q) \<and> contents (rf_file (raw_file q)) \<noteq> [] \<and> unat (l2_entries q) = l2_len k \<and>
     (\<forall>c \<in> set (l1_table q). c = 0) \<and> (\<forall>c \<in> set (ref_table (refcounts q)). c = 0) \<and>
     (\<exists>cap. l2_cache q = cache_new cap \<and> 0 < cap) \<and> (\<exists>cap. refblock_cache (refcounts q) = cache_new cap \<and> 0 < cap) \<and>
     unat (refcount_block_entries (refcounts q)) = rb_len k \<and> rc_cluster_size (refcounts q) = 2 ^ k \<and>
     length (ref_table (refcounts q)) * rb_len k * 2 ^ k \<le> 2 ^ 56 \<and> avail_clusters q = [] \<and> unref_clusters q = []"

lemma q_ok_blank:
  assumes q: "blank k q" and M: "stored k M q" "metadata q \<subseteq> M" "\<And>x. x \<in> M \<Longrightarrow> x div 2 ^ k * 2 ^ k < rlen (raw_file q)"
  shows "q_ok k M [] q" "vdisk k q = (\<lambda>_. 0)"
proof -
  have l1: "l1_table q ! i = 0" if "i < length (l1_table q)" for i using q that by (simp add: blank_def)
  have rt: "ref_table (refcounts q) ! i = 0" if "i < length (ref_table (refcounts q))" for i using q that by (simp add: blank_def)
  have c: "cache_get (l2_cache q) i = None" "cache_get (refblock_cache (refcounts q)) i = None" for i
    using q by (auto simp: blank_def)
  have used: "used k q o1 = 0" for o1
    using l1 rt c by (cases o1) (simp_all add: used.simps l2_view_def cached_view_def l2_disk_def)
  then show "vdisk k q = (\<lambda>_. 0)" by (simp add: vdisk_def fun_eq_iff)
  have wf: "cache_wf (l2_cache q)" "0 < capacity (l2_cache q)" "cache_wf (refblock_cache (refcounts q))" "0 < capacity (refblock_cache (refcounts q))"
    using q by (auto simp: blank_def cache_new_def cache_wf_def cache_keys_def)
  have "tab_placed k (ref_table (refcounts q)) (rlen (raw_file q))"
    using q rt by (auto simp: tab_placed_def blank_def)
  then have "caches_ok k q"
    using q c wf by (simp add: caches_ok_def rc_ok_def rc_inv_def coherent_def blank_def)
  then show "q_ok k M [] q"
    using q M used by (auto simp: q_ok_def blank_def free_def)
qed

text \<open>An image of three clusters of 512 bytes: the header, the L1 table and the reference count table.\<close>

definition small_header :: qcow_header where
  "small_header = \<lparr>magic = 0x514649fb, version = 3, backing_file_offset = 0, backing_file_size = 0,
     cluster_bits = 9, disk_size = 4096, crypt_method = 0, l1_size = 1, l1_table_offset = 512,
     h_refcount_table_offset = 1024, refcount_table_clusters = 1, nb_snapshots = 0, snapshots_offset = 0,
     incompatible_features = 0, compatible_features = 0, autoclear_features = 0, refcount_order = 4, header_size = 104\<rparr>"

definition small_image :: qcow_file where
  "small_image = \<lparr>
     raw_file = \<lparr>rf_file = \<lparr>contents = header_bytes small_header @ replicate 1432 0, cursor = 0, answers = []\<rparr>, rf_cluster_size = 512, rf_cluster_mask = 511\<rparr>,
     header = small_header, l1_table = [0], l2_entries = 64, l2_cache = cache_new 100,
     refcounts = \<lparr>ref_table = [0, 0], refcount_table_offset = 1024, refblock_cache = cache_new 50,
       refcount_block_entries = 256, rc_cluster_size = 512\<rparr>,
     current_offset = 0, unref_clusters = [], avail_clusters = []\<rparr>"

lemma small_image_blank: "blank 9 small_image"
  by (simp add: blank_def small_image_def rf_ok_def length_header_bytes) (intro conjI exI, rule refl, simp, rule refl, simp)

lemma small_image_ok: "q_ok 9 {0..<1536} [] small_image" "vdisk 9 small_image = (\<lambda>_. 0)"
proof -
  have M: "metadata small_image \<subseteq> {0..<1536}" by (auto simp: metadata_def small_image_def small_header_def)
  have "geometry 9 small_header (Suc 0) (Suc (Suc 0))"
    by (simp add: geometry_def small_header_def check_header_def offset_is_cluster_boundary_def div_round_up_def
        max_refcount_clusters_def checked_add_def)
  then have st: "stored 9 {0..<1536} small_image"
    by (auto simp: stored_def metadata_def small_image_def small_header_def fbyte_def nth_append length_header_bytes)
  have "x div 2 ^ 9 * 2 ^ 9 < rlen (raw_file small_image)" if "x \<in> {0..<1536}" for x :: nat
    using that div_times_less_eq_dividend [of x "2 ^ 9"] by (simp add: small_image_def length_header_bytes)
  note blank = q_ok_blank [OF small_image_blank st M this]
  show "q_ok 9 {0..<1536} [] small_image" by (rule blank(1))
  show "vdisk 9 small_image = (\<lambda>_. 0)" by (rule blank(2))
qed

lemma small_image_flat: "flat 9 small_image = \<lparr>fd_size = 4096, fd_pos = 0, fd_bytes = \<lambda>_. 0\<rparr>"
  by (simp add: flat_def small_image_ok(2)) (simp add: small_image_def small_header_def virtual_size_def)


end
