(* ===== verification/Qcow_Open.thy ===== *)
theory Qcow_Open
  imports Qcow_Refinement
begin

text \<open>
  Opening an image: what a flush left in the file is opened as the same disk, and a new image
  is a disk of zeros.
\<close>

section \<open>Reading the tables\<close>

lemma wp_read_words_works:
  assumes "answers f = []" "unat (cursor f) + LENGTH('a) div 8 * n \<le> length (contents f)" "length (contents f) < off_limit"
  shows "wp (read_words n) (\<lambda>(ws :: 'a::len word list) f'. answers f' = []) (\<lambda>_ _. False) f"
  using assms
proof (induction n arbitrary: f)
  case 0
  then show ?case by (simp add: wp_simps)
next
  case (Suc n)
  let ?n = "LENGTH('a) div 8"
  have le: "unat (cursor f) + ?n \<le> length (contents f)" using Suc.prems(2) by simp
  then have "unat (cursor f + of_nat ?n) = unat (cursor f) + ?n" using Suc.prems(3) by (intro unat_forward) simp
  then have "wp (read_words n) (\<lambda>(ws :: 'a word list) f'. answers f' = []) (\<lambda>_ _. False) (f\<lparr>cursor := cursor f + of_nat ?n\<rparr>)"
    using Suc.prems by (intro Suc.IH) simp_all
  then show ?case
    using Suc.prems(1) le by (simp add: read_be_def file_read_exact_def wp_simps wp_syscall_works)
qed

definition table_read :: "bool \<Rightarrow> qcow_raw_file \<Rightarrow> u64 \<Rightarrow> nat \<Rightarrow> bool" where
  "table_read sure rf off n \<longleftrightarrow> (sure \<longrightarrow> answers (rf_file rf) = [] \<and> unat off + 8 * n \<le> rlen rf)"

lemma wp_read_table:
  assumes rf: "rf_ok k rf" and n: "unat count * 8 < 2 ^ 63" and sure: "table_read sure rf off (unat count)"
  shows "wp (read_pointer_table off count msk)
    (\<lambda>ws rf'. (\<exists>f. rf' = rf\<lparr>rf_file := f\<rparr> \<and> contents f = contents (rf_file rf) \<and> (sure \<longrightarrow> answers f = [])) \<and>
      ws = map (\<lambda>w. w AND (case msk of None \<Rightarrow> 0xffffffffffffffff | Some m \<Rightarrow> m)) (be_table (unat off) (unat count) (rbyte rf)))
    (\<lambda>_ _. \<not> sure) rf"
proof (cases sure)
  case True
  have in_file: "answers (rf_file rf) = []" "unat off + 8 * unat count \<le> rlen rf" "rlen rf < off_limit"
    using sure True rf by (simp_all add: table_read_def rf_ok_def)
  then have "wp (read_words (unat count)) (\<lambda>(ws :: u64 list) f'. answers f' = []) (\<lambda>_ _. False) ((rf_file rf)\<lparr>cursor := off\<rparr>)"
    by (intro wp_read_words_works) simp_all
  then have "wp (read_pointer_table off count msk) (\<lambda>ws rf'. answers (rf_file rf') = []) (\<lambda>_ _. False) rf"
    using n in_file by (simp add: read_pointer_table_def wp_simps Let_def file_seek_def wp_syscall_works)
  note both = wp_conj [OF this wp_read_pointer_table [OF rf n, of off msk]]
  show ?thesis using True by (intro wp_mono [OF both]) auto
next
  case False
  then show ?thesis by (intro wp_mono [OF wp_read_pointer_table [OF rf n, of off msk]]) auto
qed

section \<open>Opening a stored image\<close>

text \<open>The image that a header and a file stand for.\<close>

definition table_at :: "u64 \<Rightarrow> nat \<Rightarrow> u8 list \<Rightarrow> u64 list" where
  "table_at off n xs = be_table (unat off) n (fbyte xs)"

definition image_of :: "nat \<Rightarrow> qcow_header \<Rightarrow> nat \<Rightarrow> nat \<Rightarrow> host_file \<Rightarrow> qcow_file" where
  "image_of k h l1_len rt_len f = \<lparr>
     raw_file = \<lparr>rf_file = f, rf_cluster_size = 2 ^ k, rf_cluster_mask = 2 ^ k - 1\<rparr>, header = h,
     l1_table = map (\<lambda>w. w AND entry_mask) (table_at (l1_table_offset h) l1_len (contents f)),
     l2_entries = 2 ^ k div 8, l2_cache = cache_new 100,
     refcounts = \<lparr>ref_table = table_at (h_refcount_table_offset h) rt_len (contents f),
       refcount_table_offset = h_refcount_table_offset h, refblock_cache = cache_new 50,
       refcount_block_entries = 2 ^ k * 8 div 16, rc_cluster_size = 2 ^ k\<rparr>,
     current_offset = 0, unref_clusters = [], avail_clusters = []\<rparr>"

lemma div_round_up_le: "unat (div_round_up a b) * unat b < 2 ^ LENGTH('a)" for a b :: "'a::len word"
proof -
  have "unat (div_round_up a b) * unat b \<le> unat (a + b - 1)" by (simp add: div_round_up_def unat_div)
  also have "\<dots> < 2 ^ LENGTH('a)" by (rule unsigned_less)
  finally show ?thesis .
qed

lemma geometry_counts:
  assumes g: "geometry k h l1_len rt_len" and k: "9 \<le> k" "k \<le> 30"
  shows "l1_len * 8 < 2 ^ 63" "rt_len * 8 < 2 ^ 63"
proof -
  have "(2 :: nat) ^ 9 \<le> 2 ^ k" using k(1) by (rule power_increasing) simp
  then have p: "64 \<le> unat (2 ^ k div 8 :: u64)" using k by (simp add: unat_div unat_pow2)
  have "l1_len * unat (2 ^ k div 8 :: u64) < 2 ^ 64"
    using g div_round_up_le [of "div_round_up (disk_size h) (2 ^ k)" "2 ^ k div 8"] by (simp add: geometry_def)
  moreover have "l1_len * 64 \<le> l1_len * unat (2 ^ k div 8 :: u64)" using p by (rule mult_le_mono2)
  ultimately have "l1_len * 64 < 2 ^ 64" by (rule le_less_trans [rotated])
  then show "l1_len * 8 < 2 ^ 63" by simp
  have "unat (ucast a + ucast b :: usize) < 2 ^ 33" for a b :: u32
  proof -
    have "unat a < 2 ^ LENGTH(32)" "unat b < 2 ^ LENGTH(32)" by (rule unsigned_less)+
    then show ?thesis by (simp add: unat_word_ariths unsigned_ucast_eq take_bit_nat_eq_self)
  qed
  then have "rt_len < 2 ^ 33" using g by (simp add: geometry_def max_refcount_clusters_def Let_def)
  then show "rt_len * 8 < 2 ^ 63" by simp
qed

text \<open>What opening the tables of a file gives: the tables of the image, or an error if a call may fail.\<close>

lemma and_all_ones: "map (\<lambda>w. w AND 0xffffffffffffffff) ws = (ws :: u64 list)"
proof -
  have "(0xffffffffffffffff :: u64) = - 1" by simp
  then have "w AND 0xffffffffffffffff = w" for w :: u64 by (simp only: and.right_neutral)
  then show ?thesis by simp
qed

lemma wp_open_tables:
  assumes g: "geometry k h l1_len rt_len" and k: "9 \<le> k" and rf: "rf_ok k rf"
    and sure: "table_read sure rf (l1_table_offset h) l1_len" "table_read sure rf (h_refcount_table_offset h) rt_len"
  defines "q \<equiv> image_of k h l1_len rt_len (rf_file rf)"
  shows "wp (open_tables h (2 ^ k))
    (\<lambda>r rf'. case r of Inl _ \<Rightarrow> \<not> sure
       | Inr (l1, rc) \<Rightarrow> l1 = l1_table q \<and> rc = refcounts q \<and> (\<exists>f. rf' = rf\<lparr>rf_file := f\<rparr> \<and> contents f = contents (rf_file rf)))
    (\<lambda>_ _. False) rf"
    (is "wp _ ?Q _ _")
proof -
  have k30: "k \<le> 30" using rf by (simp add: rf_ok_def)
  let ?n1 = "div_round_up (div_round_up (disk_size h) (2 ^ k)) (2 ^ k div 8)"
  let ?n2 = "max_refcount_clusters (refcount_order h) (ucast (2 ^ k :: u64)) (ucast (div_round_up (disk_size h) (2 ^ k)))"
  have n: "unat ?n1 = l1_len" "unat ?n2 = rt_len" using g by (simp_all add: geometry_def)
  note counts = geometry_counts [OF g k k30]
  have rc: "wp (rc_new (h_refcount_table_offset h) ?n2 (2 ^ k * 8 div 16) (2 ^ k)) (\<lambda>rc. ?Q (Inr (l1_table q, rc))) (\<lambda>_ _. \<not> sure) (rf\<lparr>rf_file := f\<rparr>)"
    if f: "contents f = contents (rf_file rf)" "sure \<longrightarrow> answers f = []" for f
  proof -
    have "rf_ok k (rf\<lparr>rf_file := f\<rparr>)" "table_read sure (rf\<lparr>rf_file := f\<rparr>) (h_refcount_table_offset h) (unat ?n2)"
      using rf sure(2) f n(2) by (auto simp: rf_ok_def table_read_def)
    note table = wp_read_table [OF this(1) _ this(2), of None]
    show ?thesis
      unfolding rc_new_def wp_simps
      by (rule wp_mono [OF table]) (use n counts f in \<open>auto simp: q_def image_of_def table_at_def and_all_ones\<close>)
  qed
  have l1: "wp (read_pointer_table (l1_table_offset h) ?n1 (Some entry_mask))
      (\<lambda>l1 rf'. l1 = l1_table q \<and> (\<exists>f. rf' = rf\<lparr>rf_file := f\<rparr> \<and> contents f = contents (rf_file rf) \<and> (sure \<longrightarrow> answers f = [])))
      (\<lambda>_ _. \<not> sure) rf"
    by (rule wp_mono [OF wp_read_table [OF rf _ sure(1) [folded n(1)]]]) (use n counts in \<open>auto simp: q_def image_of_def table_at_def\<close>)
  show ?thesis
    unfolding open_tables_def Let_def wp_res_bind wp_err_map
    by (rule wp_mono [OF l1]) (auto simp: wp_simps elim!: wp_mono [OF rc])
qed

text \<open>Opening a file that starts with a header: the image that the header and the file stand for.\<close>

lemma count_ones_power: "k < LENGTH('a) \<Longrightarrow> count_ones (2 ^ k :: 'a::len word) = 1"
proof -
  assume k: "k < LENGTH('a)"
  then have "{i. i < LENGTH('a) \<and> bit (2 ^ k :: 'a word) ([0..<LENGTH('a)] ! i)} = {k}"
    by (auto simp: bit_exp_iff)
  then show ?thesis by (simp add: count_ones_def length_filter_conv_card)
qed

lemma qcow_from_stored:
  assumes h: "take 104 (contents f) = header_bytes h" and g: "geometry k h l1_len rt_len" and k: "9 \<le> k" "k \<le> 30"
    and len: "length (contents f) < off_limit"
    and sure: "sure \<Longrightarrow> answers f = [] \<and> unat (l1_table_offset h) + 8 * l1_len \<le> length (contents f) \<and>
      unat (h_refcount_table_offset h) + 8 * rt_len \<le> length (contents f)"
  shows "case qcow_from f of Panic \<Rightarrow> False | Return (Inl e) \<Rightarrow> \<not> sure
    | Return (Inr q) \<Rightarrow> \<exists>f'. contents f' = contents f \<and> q = image_of k h l1_len rt_len f'"
proof -
  have m: "magic h = 0x514649fb" and chk: "check_header h = Inr (2 ^ k)" using g by (simp_all add: geometry_def)
  have "wp header_new (\<lambda>r f'. (r = Inr h \<and> (sure \<longrightarrow> answers f' = []) \<or> \<not> sure \<and> isl r) \<and> contents f' = contents f) (\<lambda>_ _. False) f"
    by (rule wp_header_new [OF m _ len h]) (use sure in simp)
  then obtain r f1 where hdr: "header_new f = Return (Inr r, f1)"
    and r: "r = Inr h \<and> (sure \<longrightarrow> answers f1 = []) \<or> \<not> sure \<and> isl r" and f1: "contents f1 = contents f"
    by (auto simp: wp_Return)
  show ?thesis
  proof (cases r)
    case (Inl e)
    then show ?thesis using hdr r by (simp add: qcow_from_def)
  next
    case (Inr h')
    then have r: "r = Inr h" "sure \<longrightarrow> answers f1 = []" using r by auto
    let ?rf = "\<lparr>rf_file = f1, rf_cluster_size = 2 ^ k, rf_cluster_mask = 2 ^ k - 1\<rparr>"
    have rf: "rf_from f1 (2 ^ k) = Some ?rf" using k by (simp add: rf_from_def count_ones_power)
    have ok: "rf_ok k ?rf" using k len f1 by (simp add: rf_ok_def)
    have "table_read sure ?rf (l1_table_offset h) l1_len" "table_read sure ?rf (h_refcount_table_offset h) rt_len"
      using r(2) sure f1 by (simp_all add: table_read_def)
    note tables = wp_open_tables [OF g k(1) ok this]
    have same: "l1_table (image_of k h l1_len rt_len f1) = l1_table (image_of k h l1_len rt_len f)"
      "refcounts (image_of k h l1_len rt_len f1) = refcounts (image_of k h l1_len rt_len f)"
      using f1 by (simp_all add: image_of_def)
    have "wp (open_tables h (2 ^ k)) (\<lambda>r rf'. case r of Inl _ \<Rightarrow> \<not> sure
       | Inr (l1, rc) \<Rightarrow> l1 = l1_table (image_of k h l1_len rt_len f) \<and> rc = refcounts (image_of k h l1_len rt_len f) \<and>
          (\<exists>f'. rf' = ?rf\<lparr>rf_file := f'\<rparr> \<and> contents f' = contents f)) (\<lambda>_ _. False) ?rf"
      by (rule wp_mono [OF tables]) (use f1 same in \<open>auto split: sum.splits\<close>)
    then obtain t rf' where t: "open_tables h (2 ^ k) ?rf = Return (Inr t, rf')"
      "case t of Inl _ \<Rightarrow> \<not> sure
       | Inr (l1, rc) \<Rightarrow> l1 = l1_table (image_of k h l1_len rt_len f) \<and> rc = refcounts (image_of k h l1_len rt_len f) \<and>
          (\<exists>f'. rf' = ?rf\<lparr>rf_file := f'\<rparr> \<and> contents f' = contents f)"
      by (auto simp: wp_Return)
    show ?thesis
    proof (cases t)
      case (Inl e)
      then show ?thesis using hdr r chk rf t by (simp add: qcow_from_def)
    next
      case (Inr x)
      then obtain f' where f': "x = (l1_table (image_of k h l1_len rt_len f), refcounts (image_of k h l1_len rt_len f))"
        "rf' = ?rf\<lparr>rf_file := f'\<rparr>" "contents f' = contents f" using t(2) by (auto split: prod.splits)
      have c: "checked_add (l1_table_offset h) (disk_size h div 2 ^ k div (2 ^ k div 8) * 8) \<noteq> None"
        "checked_add (h_refcount_table_offset h) (ucast (refcount_table_clusters h) * 2 ^ k) \<noteq> None"
        using g by (simp_all add: geometry_def)
      have "qcow_from f = Return (Inr (image_of k h l1_len rt_len f'))"
        using hdr r chk rf t(1) Inr f' c
        by (simp add: qcow_from_def Let_def l1_address_offset_def l1_table_index_def virtual_size_def image_of_def)
      then show ?thesis using f'(3) by auto
    qed
  qed
qed

section \<open>Opening an image after a flush\<close>

text \<open>Everything is on disk: no cache is dirty, and the tables are where the header says.\<close>

definition on_disk :: "qcow_file \<Rightarrow> bool" where
  "on_disk q \<longleftrightarrow> (\<forall>i. l2_clean q i) \<and> (\<forall>t. rb_clean (refcounts q) t) \<and>
     table_at (l1_table_offset (header q)) (length (l1_table q)) (contents (rf_file (raw_file q))) = l1_table q \<and>
     table_at (h_refcount_table_offset (header q)) (length (ref_table (refcounts q))) (contents (rf_file (raw_file q))) =
       ref_table (refcounts q)"

abbreviation reopened :: "nat \<Rightarrow> host_file \<Rightarrow> qcow_file \<Rightarrow> qcow_file" where
  "reopened k f q \<equiv> image_of k (header q) (length (l1_table q)) (length (ref_table (refcounts q))) f"

lemma clean_view:
  assumes "coherent load c f" "\<And>i v. cache_get c i = Some v \<Longrightarrow> \<not> vc_dirty v"
  shows "cached_view load c f = load f"
  using assms by (auto simp: coherent_def cached_view_def fun_eq_iff split: option.splits)

lemma capacity_new [simp]: "capacity (cache_new cap) = cap"
  by (simp add: cache_new_def)

lemma cache_new_eq [simp]: "cache_new a = cache_new b \<longleftrightarrow> a = b"
  by (simp add: cache_new_def)

lemma empty_view: "cached_view load (cache_new cap) f = load f"
  by (simp add: cached_view_def fun_eq_iff)

lemma reopened_tables:
  assumes ok: "q_ok k M H q" and d: "on_disk q" and f: "contents f = contents (rf_file (raw_file q))"
    and len: "rlen (raw_file q) < 2 ^ 56"
  shows "l1_table (reopened k f q) = l1_table q" "ref_table (refcounts (reopened k f q)) = ref_table (refcounts q)"
    "used k (reopened k f q) = used k q" "q_counts k (reopened k f q) = q_counts k q"
proof -
  have k: "9 \<le> k" using q_ok_bounds [OF ok] by simp
  have "c AND entry_mask = c" if "c \<in> set (l1_table q)" for c
  proof (cases "c = 0")
    case False
    then have "2 ^ k dvd unat c" "unat c < 2 ^ 56"
      using l1_tab_placed [OF ok] that len by (auto simp: tab_placed_def intro: less_le_trans)
    then show ?thesis using entry_of_cluster [OF k] by blast
  qed simp
  then show l1: "l1_table (reopened k f q) = l1_table q"
    using d f by (simp add: on_disk_def image_of_def map_idI)
  show rt: "ref_table (refcounts (reopened k f q)) = ref_table (refcounts q)"
    using d f by (simp add: on_disk_def image_of_def)
  have "l2_view k (reopened k f q) = l2_disk k (l1_table q) (raw_file (reopened k f q))"
    unfolding l2_view_def l1 by (simp add: image_of_def empty_view)
  also have "\<dots> = l2_disk k (l1_table q) (raw_file q)" using f by (simp add: fun_eq_iff l2_disk_def image_of_def)
  also have "\<dots> = l2_view k q"
    unfolding l2_view_def
    by (rule clean_view [symmetric]) (use q_ok_caches [OF ok] d in \<open>auto simp: caches_ok_def on_disk_def l2_clean_def\<close>)
  finally have "l2_view k (reopened k f q) = l2_view k q" .
  then show "used k (reopened k f q) = used k q"
    using l1 rt by (intro ext, case_tac x) (simp_all add: used.simps)
  have "q_counts k (reopened k f q) = rb_disk k (ref_table (refcounts q)) (raw_file (reopened k f q))"
    unfolding q_counts_def rc_view_def rt by (simp add: image_of_def empty_view)
  also have "\<dots> = rb_disk k (ref_table (refcounts q)) (raw_file q)" using f by (simp add: fun_eq_iff rb_disk_def image_of_def)
  also have "\<dots> = q_counts k q"
    unfolding q_counts_def rc_view_def
    by (rule clean_view [symmetric]) (use q_ok_rc_ok [OF ok] d in \<open>auto simp: rc_ok_def on_disk_def rb_clean_def\<close>)
  finally show "q_counts k (reopened k f q) = q_counts k q" .
qed

lemma reopened_ok:
  assumes ok: "q_ok k M H q" and d: "on_disk q" and f: "contents f = contents (rf_file (raw_file q))"
    and len: "rlen (raw_file q) < 2 ^ 56"
  shows "q_ok k M [] (reopened k f q)" "flat k (reopened k f q) = (flat k q)\<lparr>fd_pos := 0\<rparr>"
proof -
  let ?q = "reopened k f q"
  note tables = reopened_tables [OF assms]
  note k = q_ok_bounds [OF ok]
  have sizes: "unat (2 ^ k div 8 :: u64) = l2_len k" "unat (2 ^ k * 8 div 16 :: u64) = rb_len k"
    using k power_increasing [of k 30 "2 :: nat"] by (auto simp: unat_div unat_pow2 unat_word_ariths)
  have "vdisk k ?q = vdisk k q" using tables(3) f by (simp add: vdisk_def fun_eq_iff image_of_def)
  then show "flat k ?q = (flat k q)\<lparr>fd_pos := 0\<rparr>" by (simp add: flat_eq virtual_size_def image_of_def)
  have rf: "rf_ok k (raw_file ?q)" "rlen (raw_file ?q) = rlen (raw_file q)" "rbyte (raw_file ?q) = rbyte (raw_file q)"
    using k f by (simp_all add: rf_ok_def image_of_def)
  have st: "stored k M ?q"
    by (rule stored_frame [OF q_ok_stored [OF ok]])
      (use tables(1, 2) rf q_ok_stored [OF ok] in \<open>simp_all add: same_tables_def stored_def image_of_def\<close>)
  have "rc_ok k (refcounts ?q) (raw_file ?q)"
    unfolding rc_ok_def rc_inv_def tables(2)
    using q_ok_rc_ok [OF ok] rf sizes(2) by (simp add: image_of_def coherent_def rc_ok_def rc_inv_def)
  then have "caches_ok k ?q" by (simp add: caches_ok_def image_of_def coherent_def)
  moreover have "metadata ?q = metadata q"
    using tables(1, 2) q_ok_stored [OF ok] by (simp add: metadata_def image_of_def stored_def)
  ultimately show "q_ok k M [] ?q"
    using ok st rf sizes(1) tables(3) by (simp add: q_ok_def free_def) (simp add: image_of_def)
qed

lemma table_at_put: "table_at off (length ws) (file_put (unat off) (be_bytes ws) xs) = ws"
  unfolding table_at_def by (rule be_table_put) simp

lemma table_at_cong:
  assumes "\<And>i. unat off \<le> i \<Longrightarrow> i < unat off + 8 * n \<Longrightarrow> fbyte xs i = fbyte ys i"
  shows "table_at off n xs = table_at off n ys"
  unfolding table_at_def by (rule be_table_cong) (use assms in simp)

lemma synced_on_disk:
  assumes ok: "q_ok k M H q" and s: "synced k M H q q'"
  shows "on_disk q'"
    "unat (l1_table_offset (header q')) + 8 * length (l1_table q') \<le> rlen (raw_file q')"
    "unat (h_refcount_table_offset (header q')) + 8 * length (ref_table (refcounts q')) \<le> rlen (raw_file q')"
proof -
  let ?l1 = "l1_table q" and ?rt = "ref_table (refcounts q)"
  have st: "sync_step k M H q q'" and clean: "\<forall>i. l2_clean q' i" "\<forall>i. rb_clean (refcounts q') i"
    using s by (simp_all add: synced_def)
  note same = sync_step_facts(4-7) [OF st]
  have off: "refcount_table_offset (refcounts q) = h_refcount_table_offset (header q)"
    and g: "geometry k (header q) (length ?l1) (length ?rt)" using q_ok_stored [OF ok] by (simp_all add: stored_def)
  obtain xs where xs: "contents (rf_file (raw_file q')) =
      file_put (unat (h_refcount_table_offset (header q))) (be_bytes ?rt) (file_put (unat (l1_table_offset (header q))) (be_bytes ?l1) xs)"
    (is "_ = file_put ?ro _ ?ys") using s off by (auto simp: synced_def)
  have "table_at (h_refcount_table_offset (header q)) (length ?rt) (contents (rf_file (raw_file q'))) = ?rt"
    unfolding xs by (rule table_at_put)
  moreover have "table_at (l1_table_offset (header q)) (length ?l1) (contents (rf_file (raw_file q'))) =
      table_at (l1_table_offset (header q)) (length ?l1) ?ys"
  proof (rule table_at_cong)
    fix i assume "unat (l1_table_offset (header q)) \<le> i" "i < unat (l1_table_offset (header q)) + 8 * length ?l1"
    then have "\<not> (?ro \<le> i \<and> i < ?ro + 8 * length ?rt)" using g by (auto simp: geometry_def)
    then show "fbyte (contents (rf_file (raw_file q'))) i = fbyte ?ys i" unfolding xs by (auto simp: fbyte_file_put)
  qed
  ultimately show "on_disk q'" using clean same table_at_put by (simp add: on_disk_def)
  have ne: "be_bytes ?l1 \<noteq> []" "be_bytes ?rt \<noteq> []" using g length_be_bytes [of ?l1] length_be_bytes [of ?rt] by (auto simp: geometry_def simp del: length_be_bytes)
  show "unat (l1_table_offset (header q')) + 8 * length (l1_table q') \<le> rlen (raw_file q')"
    "unat (h_refcount_table_offset (header q')) + 8 * length (ref_table (refcounts q')) \<le> rlen (raw_file q')"
    using same ne by (simp_all add: xs length_file_put)
qed

text \<open>
  C2. A flush makes the disk durable. When a flush of a consistent image succeeds, the file
  can be opened as an image again: opening it succeeds on a host without errors, gives a
  consistent image, and its disk has the size and the contents the image had, provided the
  file is shorter than \<open>2 ^ 56\<close> bytes, the limit of the entries of the tables.
\<close>

theorem flushed_image_reopens:
  assumes "q_ok k M [] q" "is_order order"
  shows "wp (qcow_flush order)
    (\<lambda>_ q'. \<forall>f. contents f = contents (rf_file (raw_file q')) \<longrightarrow> answers f = [] \<longrightarrow> length (contents f) < 2 ^ 56 \<longrightarrow>
      (\<exists>q''. qcow_from f = Return (Inr q'') \<and> q_ok k M [] q'' \<and> flat k q'' = (flat k q)\<lparr>fd_pos := 0\<rparr>))
    (\<lambda>_ _. True) q"
proof -
  have "\<exists>q''. qcow_from f = Return (Inr q'') \<and> q_ok k M [] q'' \<and> flat k q'' = (flat k q)\<lparr>fd_pos := 0\<rparr>"
    if s: "synced k M [] q q'" and f: "contents f = contents (rf_file (raw_file q'))" "answers f = []" "length (contents f) < 2 ^ 56" for q' f
  proof -
    have st: "sync_step k M [] q q'" using s by (simp add: synced_def)
    note ok' = sync_step_facts(1) [OF st] and disk = synced_on_disk [OF assms(1) s]
    have "stored k M q'" by (rule q_ok_stored [OF ok'])
    then have h: "take 104 (contents f) = header_bytes (header q')" and g: "geometry k (header q') (length (l1_table q')) (length (ref_table (refcounts q')))"
      using f(1) by (auto simp: stored_def fbyte_def length_header_bytes intro!: nth_equalityI)
    have k: "9 \<le> k" "k \<le> 30" using q_ok_bounds [OF ok'] by simp_all
    have "length (contents f) < off_limit" using f(3) by simp
    from qcow_from_stored [OF h g k this, of True] obtain f' where
      q'': "qcow_from f = Return (Inr (reopened k f' q'))" "contents f' = contents f"
      using f(1, 2) disk(2, 3) by (auto split: outcome.splits sum.splits)
    have "flat k q' = flat k q" using st by (simp add: sync_step_def keeps_disk_def flat_def virtual_size_def)
    then show ?thesis using q'' reopened_ok [OF ok' disk(1), of f'] f(1, 3) by auto
  qed
  then show ?thesis
    unfolding qcow_flush_def wp_simps by (intro wp_mono [OF wp_sync_caches [OF assms]]) auto
qed

theorem flushed_image_reopens_witness:
  "wp (qcow_flush id)
    (\<lambda>_ q'. \<forall>f. contents f = contents (rf_file (raw_file q')) \<longrightarrow> answers f = [] \<longrightarrow> length (contents f) < 2 ^ 56 \<longrightarrow>
      (\<exists>q''. qcow_from f = Return (Inr q'') \<and> flat 9 q'' = \<lparr>fd_size = 4096, fd_pos = 0, fd_bytes = \<lambda>_. 0\<rparr>))
    (\<lambda>_ _. True) small_image"
proof -
  have "is_order id" by (simp add: is_order_def)
  note reopens = flushed_image_reopens [OF small_image_ok(1) this]
  show ?thesis by (rule wp_mono [OF reopens]) (auto simp: small_image_flat)
qed

section \<open>New images\<close>

lemma wp_refcount_metadata:
  assumes "q_ok k M H q" "is_order order" "unat e \<le> unat a + n * unat cs" "unat e + unat cs < 2 ^ 64"
  shows "wp (refcount_metadata n order cs a e) (\<lambda>_ q'. q_ok k M H q' \<and> same_disk k q q') (\<lambda>_ _. True) q"
  using assms(1, 3)
proof (induction n arbitrary: q a)
  case 0
  then show ?case by (simp add: wp_simps same_disk_refl word_less_nat_alt)
next
  case (Suc n)
  note k = q_ok_bounds [OF Suc.prems(1)]
  have "wp (refcount_metadata n order cs (a + cs) e) (\<lambda>_ q'. q_ok k M H q' \<and> same_disk k q q') (\<lambda>_ _. True)
      (q1\<lparr>unref_clusters := unref_clusters q1 @ unref\<rparr>)"
    if post: "refcount_post k M H q a 1 unref q1" and a: "a < e" for unref q1
  proof -
    let ?q = "q1\<lparr>unref_clusters := unref_clusters q1 @ unref\<rparr>"
    have "q_ok k M H ?q" by (rule q_ok_unref) (use post in \<open>simp add: refcount_post_def\<close>)
    moreover have sd: "same_disk k q ?q" using post by (simp add: refcount_post_def same_disk_def)
    moreover have "unat (a + cs) = unat a + unat cs" using a assms(4) by (simp add: unat_add_no_wrap word_less_nat_alt)
    ultimately show ?thesis
      using same_disk_trans [OF sd] k Suc.prems(2) by (intro wp_mono [OF Suc.IH]) auto
  qed
  then show ?case
    using Suc.prems(1)
    by (auto simp: append_unref_def wp_simps same_disk_refl intro!: wp_mono [OF wp_set_cluster_refcount [OF Suc.prems(1) assms(2)]])
qed

text \<open>The file of a new image: the header, and zeros up to the end of the tables.\<close>

definition new_file :: "u64 \<Rightarrow> u8 list" where
  "new_file sz = file_put 0x2fffe [0] (file_put 0 (header_bytes (create_for_size sz)) [])"

lemma new_file_bytes:
  "length (new_file sz) = 0x2ffff" "take 104 (new_file sz) = header_bytes (create_for_size sz)"
  "104 \<le> x \<Longrightarrow> fbyte (new_file sz) x = 0"
proof -
  let ?h = "header_bytes (create_for_size sz)"
  have h: "file_put 0 ?h [] = ?h"
    by (rule fbyte_eqI) (use length_header_bytes [of "create_for_size sz"] in \<open>auto simp: file_put_def fbyte_def splice_def\<close>)
  show len: "length (new_file sz) = 0x2ffff" unfolding new_file_def h by (simp add: length_file_put length_header_bytes)
  have b: "fbyte (new_file sz) i = (if i < 104 then ?h ! i else 0)" for i
  proof -
    have "fbyte ?h i = (if i < 104 then ?h ! i else 0)" by (simp add: fbyte_def length_header_bytes)
    then show ?thesis unfolding new_file_def h by (simp add: fbyte_file_put)
  qed
  then show "104 \<le> x \<Longrightarrow> fbyte (new_file sz) x = 0" by simp
  show "take 104 (new_file sz) = ?h"
  proof (rule nth_equalityI)
    fix i assume "i < length (take 104 (new_file sz))"
    then show "take 104 (new_file sz) ! i = ?h ! i" using b [of i] len by (simp add: fbyte_def)
  qed (simp add: len length_header_bytes)
qed

lemma wp_write_new_header:
  assumes sz: "0 < unat sz" "unat sz \<le> 2 ^ 42" and f: "contents f = []"
  shows "wp (res_bind (err_map SeekingFile (file_seek 0)) (\<lambda>_. write_to (create_for_size sz)))
    (\<lambda>r f'. r = Inr () \<longrightarrow> contents f' = new_file sz) (\<lambda>_ _. False) f"
proof -
  let ?h = "create_for_size sz"
  have pos: "h_refcount_table_offset ?h + ucast (refcount_table_clusters ?h) * push_bit (unat (cluster_bits ?h) mod 64) 1 - 2 = 0x2fffe"
    using create_sizes(2, 3) [OF sz] by (simp add: create_for_size_def Let_def)
  have "wp (header_bytes_writes ?h) (\<lambda>_. wp (io_bind (file_seek 0x2fffe) (\<lambda>_. file_write [0]))
      (\<lambda>_ f'. contents f' = new_file sz) (\<lambda>_ _. True)) (\<lambda>_ _. True) (f\<lparr>answers := as, cursor := 0\<rparr>)" for as
  proof (rule wp_header_bytes_writes [of False])
    fix f' assume "written False (contents (f\<lparr>answers := as, cursor := 0\<rparr>)) (header_bytes ?h) f'"
    then have "contents f' = file_put 0 (header_bytes ?h) []" using f by (simp add: written_def)
    then show "wp (io_bind (file_seek 0x2fffe) (\<lambda>_. file_write [0])) (\<lambda>_ f'. contents f' = new_file sz) (\<lambda>_ _. True) f'"
      by (auto simp: wp_simps new_file_def intro!: wp_file_seek wp_file_write)
  qed simp_all
  then show ?thesis
    unfolding wp_res_bind wp_err_map write_to_def Let_def pos
    by (intro wp_file_seek) (auto simp: wp_simps elim!: wp_mono)
qed

text \<open>The tables of a new image have this many entries.\<close>

definition new_l1_len :: "u64 \<Rightarrow> nat" where
  "new_l1_len sz = ((unat sz + 65535) div 65536 + 8191) div 8192"

definition new_rt_len :: "u64 \<Rightarrow> nat" where
  "new_rt_len sz = (2 * ((unat sz + 65535) div 65536) + 65535) div 65536 + 1"

lemma new_lens:
  assumes "0 < unat sz" "unat sz \<le> 2 ^ 42"
  shows "0 < new_l1_len sz" "new_l1_len sz \<le> 8192" "0 < new_rt_len sz" "new_rt_len sz \<le> 2049"
proof -
  define n where "n = (unat sz + 65535) div 65536"
  have "0 < n" "n \<le> 2 ^ 26" using assms by (auto simp: n_def)
  then show "0 < new_l1_len sz" "new_l1_len sz \<le> 8192" "0 < new_rt_len sz" "new_rt_len sz \<le> 2049"
    by (simp_all add: new_l1_len_def new_rt_len_def n_def [symmetric])
qed

lemma new_geometry:
  assumes sz: "0 < unat sz" "unat sz \<le> 2 ^ 42"
  shows "geometry 16 (create_for_size sz) (new_l1_len sz) (new_rt_len sz)"
proof -
  let ?h = "create_for_size sz"
  note sizes = create_sizes [OF sz] and lens = new_lens [OF sz]
  have h: "magic ?h = 0x514649fb" "l1_table_offset ?h = 0x10000" "disk_size ?h = sz" "refcount_order ?h = 4" "cluster_bits ?h = 16"
    "version ?h = 3" "backing_file_offset ?h = 0" "snapshots_offset ?h = 0"
    by (simp_all add: create_for_size_def Let_def)
  have chk: "check_header ?h = Inr 0x10000"
    using h sizes(2, 3) by (simp add: check_header_def offset_is_cluster_boundary_def Let_def)
  have n: "unat (div_round_up sz 0x10000) = (unat sz + 65535) div 65536"
    using sz by (subst div_round_up_unat) simp_all
  have l1: "unat (div_round_up (div_round_up sz 0x10000) 8192) = new_l1_len sz"
    using n sz by (subst div_round_up_unat) (simp_all add: new_l1_len_def)
  have "unat (sz div 65536 div 8192 * 8) < 2 ^ 63"
  proof -
    have "unat (sz div 65536 div 8192) < 2 ^ 42" using sz by (simp add: unat_div div_mult2_eq [symmetric])
    then show ?thesis by (simp add: unat_word_ariths)
  qed
  then have c: "checked_add 0x10000 (sz div 65536 div 8192 * 8) \<noteq> None" by (simp add: checked_add_def)
  show ?thesis
    using h chk lens l1 sizes(2, 3, 4) c by (auto simp: geometry_def new_rt_len_def checked_add_def)
qed

lemma new_image_blank:
  assumes sz: "0 < unat sz" "unat sz \<le> 2 ^ 42" and f: "contents f = new_file sz"
  defines "q \<equiv> image_of 16 (create_for_size sz) (new_l1_len sz) (new_rt_len sz) f"
  shows "q_ok 16 {0..<0x30000} [] q" "flat 16 q = \<lparr>fd_size = sz, fd_pos = 0, fd_bytes = \<lambda>_. 0\<rparr>"
proof -
  note sizes = create_sizes [OF sz] and lens = new_lens [OF sz] and bytes = new_file_bytes [where sz = sz]
  have off: "l1_table_offset (create_for_size sz) = 0x10000" "h_refcount_table_offset (create_for_size sz) = 0x20000"
    using sizes(2) by (simp_all add: create_for_size_def Let_def)
  have z: "table_at o1 n (new_file sz) = replicate n 0" if "104 \<le> unat o1" for o1 n
    unfolding table_at_def by (rule be_table_zero) (use bytes(3) that in auto)
  have tabs: "l1_table q = replicate (new_l1_len sz) 0" "ref_table (refcounts q) = replicate (new_rt_len sz) 0"
    using off by (simp_all add: q_def image_of_def f z)
  have blank: "blank 16 q"
    unfolding blank_def tabs using lens bytes(1) f
    by (auto simp: q_def image_of_def rf_ok_def)
  have meta: "metadata q = {0x10000..<0x10000 + 8 * new_l1_len sz} \<union> {0x20000..<0x20000 + 8 * new_rt_len sz}"
    unfolding metadata_def tabs using off by (simp add: q_def image_of_def)
  then have M: "metadata q \<subseteq> {0..<0x30000}" using lens by auto
  have st: "stored 16 {0..<0x30000} q"
    unfolding stored_def meta tabs
    using new_geometry [OF sz] bytes(1) lens f
    by (auto simp: q_def image_of_def bytes(2) [symmetric] fbyte_def)
  have "x div 2 ^ 16 * 2 ^ 16 < rlen (raw_file q)" if "x \<in> {0..<0x30000}" for x
  proof -
    have "x div 65536 < 3" using that by (simp add: div_less_iff_less_mult)
    then show ?thesis using bytes(1) f by (simp add: q_def image_of_def)
  qed
  note ok = q_ok_blank [OF blank st M this]
  show "q_ok 16 {0..<0x30000} [] q" by (rule ok(1))
  show "flat 16 q = \<lparr>fd_size = sz, fd_pos = 0, fd_bytes = \<lambda>_. 0\<rparr>"
  proof -
    have "virtual_size q = sz" "current_offset q = 0"
      by (simp_all add: virtual_size_def q_def image_of_def create_for_size_def Let_def)
    then show ?thesis unfolding flat_eq using ok(2) by simp
  qed
qed

text \<open>
  C3. Creating an image. On an empty file, for every size up to 4 TiB and whatever system
  calls fail, creating an image does not panic, and if it succeeds, the image is consistent
  and its disk has the size asked for and holds zeros; with the refinement theorem it then
  serves all requests as a flat disk.
\<close>

theorem new_image_zero_disk:
  assumes "contents f = []" "0 < unat sz" "unat sz \<le> 2 ^ 42" "is_order order"
  shows "case qcow_new order f sz of Panic \<Rightarrow> False | Return (Inl e) \<Rightarrow> True
    | Return (Inr q) \<Rightarrow> q_ok 16 {0..<0x30000} [] q \<and> flat 16 q = \<lparr>fd_size = sz, fd_pos = 0, fd_bytes = \<lambda>_. 0\<rparr>"
proof -
  let ?h = "create_for_size sz" and ?d = "\<lparr>fd_size = sz, fd_pos = 0, fd_bytes = \<lambda>_. 0\<rparr>"
  note sz = assms(2, 3) and bytes = new_file_bytes [where sz = sz]
  obtain r f1 where f1: "res_bind (err_map SeekingFile (file_seek 0)) (\<lambda>_. write_to ?h) f = Return (Inr r, f1)"
    "r = Inr () \<Longrightarrow> contents f1 = new_file sz"
    using wp_write_new_header [OF sz assms(1)] by (auto simp: wp_Return)
  show ?thesis
  proof (cases r)
    case (Inl e)
    then show ?thesis using f1(1) by (simp add: qcow_new_def Let_def)
  next
    case (Inr u)
    then have c: "contents f1 = new_file sz" using f1(2) by simp
    note opens = qcow_from_stored [of f1 ?h 16 "new_l1_len sz" "new_rt_len sz" False, OF _ new_geometry [OF sz]]
    have "qcow_from f1 \<noteq> Panic" using opens bytes c by auto
    then obtain r2 where r2: "qcow_from f1 = Return r2" by (cases "qcow_from f1") auto
    show ?thesis
    proof (cases r2)
      case Inl2: (Inl e)
      then show ?thesis using f1(1) Inr r2 by (simp add: qcow_new_def Let_def)
    next
      case Inr2: (Inr q)
      then obtain f' where f': "contents f' = new_file sz" "q = image_of 16 ?h (new_l1_len sz) (new_rt_len sz) f'"
        using opens bytes c r2 by auto
      note blank = new_image_blank [OF sz f'(1), folded f'(2)]
      have e: "cluster_bits (header q) = 16" "h_refcount_table_offset (header q) = 0x20000" "refcount_table_clusters (header q) = 1"
        using create_sizes(2, 3) [OF sz] by (simp_all add: f'(2) image_of_def) (simp add: create_for_size_def Let_def)
      have "wp (err_map SettingRefcountRefcount (refcount_metadata 4 order 0x10000 0 0x30000))
          (\<lambda>r q'. r = Inr () \<longrightarrow> q_ok 16 {0..<0x30000} [] q' \<and> same_disk 16 q q') (\<lambda>_ _. False) q"
        unfolding wp_err_map
        by (rule wp_mono [OF wp_refcount_metadata [OF blank(1) assms(4)]]) simp_all
      then obtain r3 q3 where r3: "err_map SettingRefcountRefcount (refcount_metadata 4 order 0x10000 0 0x30000) q = Return (Inr r3, q3)"
        "r3 = Inr () \<Longrightarrow> q_ok 16 {0..<0x30000} [] q3 \<and> same_disk 16 q q3"
        by (auto simp: wp_Return)
      have "flat 16 q3 = ?d" if "same_disk 16 q q3"
        using same_disk_keeps [OF that] blank(2) by (simp add: keeps_disk_def flat_def virtual_size_def)
      then show ?thesis using f1(1) Inr r2 Inr2 e r3 by (cases r3) (auto simp: qcow_new_def Let_def simp del: refcount_metadata.simps)
    qed
  qed
qed

theorem new_image_zero_disk_witness:
  "case qcow_new id \<lparr>contents = [], cursor = 0, answers = []\<rparr> 0x100000 of Panic \<Rightarrow> False | Return (Inl e) \<Rightarrow> True
    | Return (Inr q) \<Rightarrow> q_ok 16 {0..<0x30000} [] q \<and> flat 16 q = \<lparr>fd_size = 0x100000, fd_pos = 0, fd_bytes = \<lambda>_. 0\<rparr>"
  by (rule new_image_zero_disk) (simp_all add: is_order_def)

end
