(* ===== verification/Virtio_Block_Qcow.thy ===== *)
theory Virtio_Block_Qcow
  imports Virtio_Block Qcow_Open
begin

text \<open>
  The block device on a qcow image: a request has the effect it has on a flat disk with the
  contents of the image.
\<close>

section \<open>Disks of both kinds\<close>

fun answer_count :: "disk_answer \<Rightarrow> u64" where
  "answer_count (Count n) = n"
| "answer_count _ = 0"

fun answer_bytes :: "disk_answer \<Rightarrow> u8 list" where
  "answer_bytes (Bytes bs) = bs"
| "answer_bytes _ = []"

definition flat_io :: "(disk_answer \<Rightarrow> 'a) \<Rightarrow> disk_op \<Rightarrow> (flat_disk, 'a) io" where
  "flat_io f op d = Return (case flat_step op d of None \<Rightarrow> (Inl Einval, d) | Some (x, d') \<Rightarrow> (Inr (f x), d'))"

definition flat_file :: "flat_disk disk_file" where
  "flat_file = \<lparr>df_seek = (\<lambda>off. flat_io answer_count (Disk_seek (Seek_start off))),
     df_size = flat_io answer_count (Disk_seek (Seek_end 0)),
     df_read = (\<lambda>n d. case flat_io answer_bytes (Disk_read (of_nat n)) d of
       Panic \<Rightarrow> Panic | Return (r, d) \<Rightarrow> Return (map_sum (\<lambda>_. []) id r, d)),
     df_write = (\<lambda>bs. flat_io (\<lambda>x. unat (answer_count x)) (Disk_write bs)),
     df_write_zeroes = (\<lambda>n. flat_io answer_count (Disk_zero n)),
     df_flush = flat_io (\<lambda>_. ()) Disk_flush\<rparr>"

text \<open>\<open>left n q\<close> are the bytes a read of \<open>n\<close> bytes has left in the buffer when it fails.\<close>

definition qcow_disk :: "(nat list \<Rightarrow> nat list) \<Rightarrow> (nat \<Rightarrow> qcow_file \<Rightarrow> u8 list) \<Rightarrow> qcow_file disk_file" where
  "qcow_disk order left = \<lparr>df_seek = (\<lambda>off. qcow_seek (Seek_start off)), df_size = qcow_seek (Seek_end 0),
     df_read = (\<lambda>n q. case qcow_read order (of_nat n) q of
       Panic \<Rightarrow> Panic | Return (r, q') \<Rightarrow> Return (map_sum (\<lambda>_. left n q) id r, q')),
     df_write = (\<lambda>bs. io_map unat (qcow_write order bs)),
     df_write_zeroes = qcow_write_zeroes order, df_flush = qcow_flush order\<rparr>"

lemma disk_simps:
  "df_seek (qcow_disk order left) off = qcow_seek (Seek_start off)" "df_seek flat_file off = flat_io answer_count (Disk_seek (Seek_start off))"
  "df_read (qcow_disk order left) n q = (case qcow_read order (of_nat n) q of
     Panic \<Rightarrow> Panic | Return (r, q') \<Rightarrow> Return (map_sum (\<lambda>_. left n q) id r, q'))"
  "df_read flat_file n d = (case flat_io answer_bytes (Disk_read (of_nat n)) d of
     Panic \<Rightarrow> Panic | Return (r, d) \<Rightarrow> Return (map_sum (\<lambda>_. []) id r, d))"
  "df_write (qcow_disk order left) bs = io_map unat (qcow_write order bs)"
  "df_write flat_file bs = flat_io (\<lambda>x. unat (answer_count x)) (Disk_write bs)"
  "df_write_zeroes (qcow_disk order left) len = qcow_write_zeroes order len"
  "df_write_zeroes flat_file len = flat_io answer_count (Disk_zero len)"
  "df_flush (qcow_disk order left) = qcow_flush order" "df_flush flat_file = flat_io (\<lambda>_. ()) Disk_flush"
  by (simp_all add: qcow_disk_def flat_file_def)

section \<open>Transfers between a disk and memory\<close>

text \<open>Whether a transfer of \<open>count\<close> bytes at an address is possible, and what it does to memory.\<close>

fun transfer_in :: "guest_address \<Rightarrow> usize \<Rightarrow> guest_memory \<Rightarrow> gm_error + (u8 list \<Rightarrow> guest_memory)" where
  "transfer_in a count [] = Inl (InvalidGuestAddress a)"
| "transfer_in a count (r # rs) =
     (if a \<ge> guest_base r \<and> a < region_end r
      then let off = offset_from a (guest_base r) in
        case range_end (mapping r) off count of
          Inl _ \<Rightarrow> Inl (MemoryAccess a (InvalidRange off count))
        | Inr _ \<Rightarrow> Inr (\<lambda>bs. r\<lparr>mapping := splice (unat off) bs (mapping r)\<rparr> # rs)
      else map_sum id (\<lambda>f bs. r # f bs) (transfer_in a count rs))"

fun transfer_out :: "guest_address \<Rightarrow> usize \<Rightarrow> guest_memory \<Rightarrow> gm_error + u8 list" where
  "transfer_out a count [] = Inl (InvalidGuestAddress a)"
| "transfer_out a count (r # rs) =
     (if a \<ge> guest_base r \<and> a < region_end r
      then let off = offset_from a (guest_base r) in
        case range_end (mapping r) off count of
          Inl _ \<Rightarrow> Inl (MemoryAccess a (InvalidRange off count))
        | Inr _ \<Rightarrow> Inr (slice (unat off) (unat count) (mapping r))
      else transfer_out a count rs)"

lemma range_end_diff: "range_end m off count = Inr e \<Longrightarrow> e - off = count"
  by (auto simp: range_end_def checked_add_def split: if_splits)

lemma read_to_memory_eq:
  "read_to_memory A a s count mem =
    (case transfer_in a count mem of
       Inl e \<Rightarrow> (Inl e, s, mem)
     | Inr f \<Rightarrow> let (ok, bs, s') = A (unat count) s in (if ok then Inr () else Inl (MemoryAccess a ReadFromSource), s', f bs))"
  unfolding read_to_memory_def
proof (induction mem)
  case (Cons r rs)
  show ?case
  proof (cases "a \<ge> guest_base r \<and> a < region_end r")
    case True
    then show ?thesis
      by (auto simp: with_file_def read_to_mapping_def Let_def case_prod_unfold range_end_diff split: sum.splits)
  next
    case False
    then show ?thesis
      using Cons by (cases "transfer_in a count rs") (auto simp: with_file_def Let_def case_prod_unfold split: sum.splits prod.splits)
  qed
qed (simp add: with_file_def)

lemma write_from_memory_eq:
  "write_from_memory A a s count mem =
    (case transfer_out a count mem of
       Inl e \<Rightarrow> (Inl e, s, mem)
     | Inr bs \<Rightarrow> let (ok, s') = A bs s in (if ok then Inr () else Inl (MemoryAccess a ReadFromSource), s', mem))"
  unfolding write_from_memory_def
proof (induction mem)
  case (Cons r rs)
  show ?case
  proof (cases "a \<ge> guest_base r \<and> a < region_end r")
    case True
    then show ?thesis
      by (auto simp: with_file_def write_from_mapping_def Let_def case_prod_unfold range_end_diff split: sum.splits)
  next
    case False
    then show ?thesis
      using Cons by (cases "transfer_out a count rs") (auto simp: with_file_def Let_def case_prod_unfold split: sum.splits prod.splits)
  qed
qed (simp add: with_file_def)

section \<open>Reading and writing whole buffers\<close>

lemma qcow_read_le:
  assumes "flat_step (Disk_read (of_nat n)) d = Some (Bytes bs, d')"
  shows "length bs \<le> n"
proof -
  have "unat (fd_count d (of_nat n)) \<le> unat (of_nat n :: u64)"
    by (auto simp: fd_count_def min_def word_le_nat_alt)
  also have "\<dots> \<le> n" by (simp add: unsigned_of_nat take_bit_nat_less_eq_self)
  finally show ?thesis using assms by (auto simp: Let_def disk_get_def)
qed

lemma qcow_write_le:
  assumes "flat_step (Disk_write bs) d = Some (Count x, d')"
  shows "unat x \<le> length bs"
proof -
  have "unat (fd_count d (of_nat (length bs))) \<le> unat (of_nat (length bs) :: u64)"
    by (auto simp: fd_count_def min_def word_le_nat_alt)
  also have "\<dots> \<le> length bs" by (simp add: unsigned_of_nat take_bit_nat_less_eq_self)
  finally show ?thesis using assms by (auto simp: Let_def)
qed

lemma read_exact_simulates:
  assumes "q_ok k M H q" "is_order order"
  shows "\<exists>ok bs q'. read_exact (qcow_disk order left) n q = Return (ok, bs, q')
    \<and> (ok \<longrightarrow> q_ok k M H q' \<and> read_exact flat_file n (flat k q) = Return (True, bs, flat k q'))"
  using assms(1)
proof (induction n arbitrary: q rule: less_induct)
  case (less n)
  show ?case
  proof (cases "n = 0")
    case True
    then show ?thesis using less.prems by (auto simp: read_exact.simps)
  next
    case False
    from wp_qcow_read [OF less.prems assms(2), of "of_nat n", unfolded wp_Return]
    consider (read) bs q' where "qcow_read order (of_nat n) q = Return (Inr bs, q')"
        "flat_step (Disk_read (of_nat n)) (flat k q) = Some (Bytes bs, flat k q')" "q_ok k M H q'"
      | (error) e q' where "qcow_read order (of_nat n) q = Return (Inl e, q')" by auto
    then show ?thesis
    proof cases
      case read
      note le = qcow_read_le [OF read(2)]
      show ?thesis
      proof (cases "bs = []")
        case True
        then show ?thesis using False read(1) by (auto simp: read_exact.simps [of "qcow_disk order left" n] disk_simps)
      next
        case ne: False
        then have "n - length bs < n" using False by simp
        from less.IH [OF this read(3)] obtain ok cs q'' where rest:
          "read_exact (qcow_disk order left) (n - length bs) q' = Return (ok, cs, q'')"
          "ok \<longrightarrow> q_ok k M H q'' \<and> read_exact flat_file (n - length bs) (flat k q') = Return (True, cs, flat k q'')"
          by blast
        have 1: "read_exact (qcow_disk order left) n q = Return (ok, bs @ cs, q'')"
          using False ne le read(1) rest(1) by (subst read_exact.simps) (simp add: disk_simps)
        have 2: "read_exact flat_file n (flat k q) = Return (True, bs @ cs, flat k q'')" if ok
          using False ne le read(2) rest(2) that
          by (subst read_exact.simps) (simp add: disk_simps flat_io_def del: flat_step.simps)
        show ?thesis using 1 2 rest(2) by blast
      qed
    next
      case error
      then show ?thesis using False by (auto simp: read_exact.simps [of "qcow_disk order left" n] disk_simps)
    qed
  qed
qed

lemma write_all_simulates:
  assumes "q_ok k M H q" "is_order order"
  shows "\<exists>ok q'. write_all (qcow_disk order left) bs q = Return (ok, q')
    \<and> (ok \<longrightarrow> q_ok k M H q' \<and> write_all flat_file bs (flat k q) = Return (True, flat k q'))"
  using assms(1)
proof (induction "length bs" arbitrary: bs q rule: less_induct)
  case less
  show ?case
  proof (cases "bs = []")
    case True
    then show ?thesis using less.prems by (auto simp: write_all.simps)
  next
    case False
    from wp_qcow_write [OF less.prems assms(2), of bs, unfolded wp_Return]
    consider (wrote) x q' where "qcow_write order bs q = Return (Inr x, q')"
        "flat_step (Disk_write bs) (flat k q) = Some (Count x, flat k q')" "q_ok k M H q'"
      | (error) e q' where "qcow_write order bs q = Return (Inl e, q')" by auto
    then show ?thesis
    proof cases
      case wrote
      note le = qcow_write_le [OF wrote(2)]
      have w: "df_write (qcow_disk order left) bs q = Return (Inr (unat x), q')"
        using wrote(1) by (simp add: disk_simps io_map_def io_bind_def io_return_def)
      show ?thesis
      proof (cases "unat x = 0")
        case True
        then show ?thesis using False w by (auto simp: write_all.simps [of "qcow_disk order left" bs])
      next
        case ne: False
        then have "length (drop (unat x) bs) < length bs" using False by simp
        from less.hyps [OF this wrote(3)] obtain ok q'' where rest:
          "write_all (qcow_disk order left) (drop (unat x) bs) q' = Return (ok, q'')"
          "ok \<longrightarrow> q_ok k M H q'' \<and> write_all flat_file (drop (unat x) bs) (flat k q') = Return (True, flat k q'')"
          by blast
        have 1: "write_all (qcow_disk order left) bs q = Return (ok, q'')"
          using False ne le w rest(1) by (subst write_all.simps) simp
        have 2: "write_all flat_file bs (flat k q) = Return (True, flat k q'')" if ok
          using False ne le wrote(2) rest(2) that
          by (subst write_all.simps) (simp add: disk_simps flat_io_def del: flat_step.simps)
        show ?thesis using 1 2 rest(2) by blast
      qed
    next
      case error
      then have "df_write (qcow_disk order left) bs q = Return (Inl e, q')"
        by (simp add: disk_simps io_map_def io_bind_def)
      then show ?thesis using False by (auto simp: write_all.simps [of "qcow_disk order left" bs])
    qed
  qed
qed

section \<open>Executing requests\<close>

text \<open>The state of the worker with the flat disk in the place of the image.\<close>

definition on_flat :: "nat \<Rightarrow> qcow_file blk_state \<Rightarrow> flat_disk blk_state" where
  "on_flat k s = \<lparr>bs_disk = flat k (bs_disk s), bs_timer = bs_timer s, bs_mem = bs_mem s\<rparr>"

lemma on_flat_simps [simp]:
  "bs_disk (on_flat k s) = flat k (bs_disk s)" "bs_timer (on_flat k s) = bs_timer s" "bs_mem (on_flat k s) = bs_mem s"
  "on_flat k (s\<lparr>bs_disk := q\<rparr>) = (on_flat k s)\<lparr>bs_disk := flat k q\<rparr>"
  "on_flat k (s\<lparr>bs_timer := t\<rparr>) = (on_flat k s)\<lparr>bs_timer := t\<rparr>"
  "on_flat k (s\<lparr>bs_mem := m\<rparr>) = (on_flat k s)\<lparr>bs_mem := m\<rparr>"
  by (simp_all add: on_flat_def)

text \<open>A step on the image returns, and where it succeeds the step on the flat disk does the same.\<close>

definition exec_simulates :: "nat \<Rightarrow> nat set \<Rightarrow> (qcow_file, 'a) exec \<Rightarrow> (flat_disk, 'a) exec \<Rightarrow> bool" where
  "exec_simulates k M m m' \<longleftrightarrow>
     (\<forall>s. q_ok k M [] (bs_disk s) \<longrightarrow>
        (\<exists>x s'. m s = Return (x, s')
           \<and> (\<forall>y. x = Inr y \<longrightarrow> q_ok k M [] (bs_disk s') \<and> m' (on_flat k s) = Return (Inr y, on_flat k s'))))"

lemma exec_simulatesE:
  assumes "exec_simulates k M m m'" "q_ok k M [] (bs_disk s)"
  obtains (success) y s' where "m s = Return (Inr y, s')" "q_ok k M [] (bs_disk s')" "m' (on_flat k s) = Return (Inr y, on_flat k s')"
    | (error) e s' where "m s = Return (Inl e, s')"
proof -
  from assms obtain x s' where x: "m s = Return (x, s')"
    "\<forall>y. x = Inr y \<longrightarrow> q_ok k M [] (bs_disk s') \<and> m' (on_flat k s) = Return (Inr y, on_flat k s')"
    unfolding exec_simulates_def by blast
  show ?thesis using that x by (cases x) auto
qed

lemma exec_simulates_return: "exec_simulates k M (exec_return x) (exec_return x)"
  by (simp add: exec_simulates_def exec_return_def)

lemma exec_simulates_fail: "exec_simulates k M (exec_fail e) (exec_fail e)"
  by (simp add: exec_simulates_def exec_fail_def)

lemma exec_simulates_bind:
  assumes m: "exec_simulates k M m m'" and f: "\<And>x. exec_simulates k M (f x) (f' x)"
  shows "exec_simulates k M (exec_bind m f) (exec_bind m' f')"
  unfolding exec_simulates_def
proof (intro allI impI)
  fix s :: "qcow_file blk_state" assume ok: "q_ok k M [] (bs_disk s)"
  show "\<exists>x s'. exec_bind m f s = Return (x, s') \<and> (\<forall>y. x = Inr y \<longrightarrow>
    q_ok k M [] (bs_disk s') \<and> exec_bind m' f' (on_flat k s) = Return (Inr y, on_flat k s'))"
    using m ok
  proof (cases rule: exec_simulatesE)
    case (success y s')
    from f [of y] success(2) show ?thesis
      unfolding exec_simulates_def using success(1, 3) by (auto simp: exec_bind_def)
  next
    case error
    then show ?thesis by (auto simp: exec_bind_def)
  qed
qed

lemma exec_simulates_timer: 
  assumes "\<And>t. m t \<noteq> Panic"
  shows "exec_simulates k M (exec_timer err m) (exec_timer err m)"
  unfolding exec_simulates_def
proof (intro allI impI)
  fix s :: "qcow_file blk_state" assume ok: "q_ok k M [] (bs_disk s)"
  obtain r t where r: "m (bs_timer s) = Return (r, t)"
    using assms [of "bs_timer s"] by (cases "m (bs_timer s)") auto
  show "\<exists>x s'. exec_timer err m s = Return (x, s') \<and> (\<forall>y. x = Inr y \<longrightarrow>
    q_ok k M [] (bs_disk s') \<and> exec_timer err m (on_flat k s) = Return (Inr y, on_flat k s'))"
    using ok r by (auto simp: exec_timer_def)
qed

lemma timer_no_panic: "timer_is_armed t \<noteq> Panic" "timer_reset t \<noteq> Panic" "timer_clear t \<noteq> Panic"
  by (auto simp: timer_is_armed_def timer_reset_def timer_clear_def timer_call_def io_bind_def io_return_def io_get_def io_modify_def
      outcome_bind_def split: list.splits)

lemma exec_simulates_disk:
  assumes "\<And>q. q_ok k M [] q \<Longrightarrow>
    wp m (\<lambda>x q'. flat_step op (flat k q) = Some (g x, flat k q') \<and> q_ok k M [] q') (\<lambda>_ _. True) q"
    and "\<And>x. f (g x) = x"
  shows "exec_simulates k M (exec_disk err m) (exec_disk err (flat_io f op))"
  unfolding exec_simulates_def
proof (intro allI impI)
  fix s :: "qcow_file blk_state" assume ok: "q_ok k M [] (bs_disk s)"
  show "\<exists>x s'. exec_disk err m s = Return (x, s') \<and> (\<forall>y. x = Inr y \<longrightarrow>
    q_ok k M [] (bs_disk s') \<and> exec_disk err (flat_io f op) (on_flat k s) = Return (Inr y, on_flat k s'))"
    using assms(1) [OF ok] unfolding wp_Return
    by (elim disjE) (auto simp: exec_disk_def flat_io_def assms(2) simp del: flat_step.simps)
qed

lemma exec_simulates_read:
  assumes "is_order order"
  shows "exec_simulates k M (exec_read_to_memory (qcow_disk order left) rq) (exec_read_to_memory flat_file rq)"
  unfolding exec_simulates_def
proof (intro allI impI)
  fix s :: "qcow_file blk_state" assume ok: "q_ok k M [] (bs_disk s)"
  from read_exact_simulates [OF ok assms] obtain c bs q' where
    "read_exact (qcow_disk order left) (unat (ucast (rq_data_len rq) :: usize)) (bs_disk s) = Return (c, bs, q')"
    "c \<longrightarrow> q_ok k M [] q' \<and>
       read_exact flat_file (unat (ucast (rq_data_len rq) :: usize)) (flat k (bs_disk s)) = Return (True, bs, flat k q')"
    by blast
  then show "\<exists>x s'. exec_read_to_memory (qcow_disk order left) rq s = Return (x, s') \<and> (\<forall>y. x = Inr y \<longrightarrow>
    q_ok k M [] (bs_disk s') \<and> exec_read_to_memory flat_file rq (on_flat k s) = Return (Inr y, on_flat k s'))"
    using ok by (cases "transfer_in (rq_data_addr rq) (ucast (rq_data_len rq)) (bs_mem s)")
      (auto simp: exec_read_to_memory_def read_to_memory_eq exact_from_def)
qed

lemma exec_simulates_write:
  assumes "is_order order"
  shows "exec_simulates k M (exec_write_from_memory (qcow_disk order left) rq) (exec_write_from_memory flat_file rq)"
  unfolding exec_simulates_def
proof (intro allI impI)
  fix s :: "qcow_file blk_state" assume ok: "q_ok k M [] (bs_disk s)"
  show "\<exists>x s'. exec_write_from_memory (qcow_disk order left) rq s = Return (x, s') \<and> (\<forall>y. x = Inr y \<longrightarrow>
    q_ok k M [] (bs_disk s') \<and> exec_write_from_memory flat_file rq (on_flat k s) = Return (Inr y, on_flat k s'))"
  proof (cases "transfer_out (rq_data_addr rq) (ucast (rq_data_len rq)) (bs_mem s)")
    case (Inr bs)
    from write_all_simulates [OF ok assms] obtain c q' where
      "write_all (qcow_disk order left) bs (bs_disk s) = Return (c, q')"
      "c \<longrightarrow> q_ok k M [] q' \<and> write_all flat_file bs (flat k (bs_disk s)) = Return (True, flat k q')"
      by blast
    with Inr show ?thesis
      using ok by (auto simp: exec_write_from_memory_def write_from_memory_eq all_to_def)
  qed (use ok in \<open>auto simp: exec_write_from_memory_def write_from_memory_eq\<close>)
qed

lemma exec_simulates_seek:
  "exec_simulates k M (exec_disk err (df_seek (qcow_disk order left) off)) (exec_disk err (df_seek flat_file off))"
  unfolding disk_simps
  by (rule exec_simulates_disk [where g = Count]) (rule wp_qcow_seek, simp_all)

lemma exec_simulates_zero:
  assumes "is_order order"
  shows "exec_simulates k M (exec_disk err (df_write_zeroes (qcow_disk order left) n)) (exec_disk err (df_write_zeroes flat_file n))"
  unfolding disk_simps
  by (rule exec_simulates_disk [where g = Count]) (rule wp_qcow_write_zeroes [OF _ assms], simp_all)

lemma exec_simulates_flush:
  assumes "is_order order"
  shows "exec_simulates k M (exec_disk err (df_flush (qcow_disk order left))) (exec_disk err (df_flush flat_file))"
  unfolding disk_simps
  by (rule exec_simulates_disk [where g = "\<lambda>_. Flushed"]) (rule wp_qcow_flush [OF _ assms], simp_all)

lemmas exec_simulates_rules = exec_simulates_return exec_simulates_fail exec_simulates_bind exec_simulates_seek
  exec_simulates_timer [OF timer_no_panic(1)] exec_simulates_timer [OF timer_no_panic(2)] exec_simulates_timer [OF timer_no_panic(3)]

lemma exec_simulates_discard:
  assumes "is_order order"
  shows "exec_simulates k M (exec_discard (qcow_disk order left) ty seg) (exec_discard flat_file ty seg)"
  unfolding exec_discard_def Let_def
  by (auto intro!: exec_simulates_rules exec_simulates_zero assms)

lemma exec_simulates_execute:
  assumes "is_order order"
  shows "exec_simulates k M (request_execute (qcow_disk order left) rq) (request_execute flat_file rq)"
  unfolding request_execute_def
  by (auto intro!: exec_simulates_rules exec_simulates_read exec_simulates_write exec_simulates_flush exec_simulates_discard assms
      split: blk_request_type.split option.split)

text \<open>Requests one after the other, up to the first that fails.\<close>

fun execute_all :: "'d disk_file \<Rightarrow> request list \<Rightarrow> ('d, u32 list) exec" where
  "execute_all df [] = exec_return []"
| "execute_all df (rq # rqs) =
     exec_bind (request_execute df rq) (\<lambda>n. exec_bind (execute_all df rqs) (\<lambda>ns. exec_return (n # ns)))"

lemma exec_simulates_all:
  assumes "is_order order"
  shows "exec_simulates k M (execute_all (qcow_disk order left) rqs) (execute_all flat_file rqs)"
  by (induction rqs) (auto intro!: exec_simulates_rules exec_simulates_execute assms)


text \<open>Three bytes of memory written to sector one, and read to another place of memory.\<close>

definition small_requests :: "request list" where
  "small_requests =
     [\<lparr>rq_type = Rt_out, rq_sector = 1, rq_data_addr = 1, rq_data_len = 3, rq_status_addr = 7, rq_seg = None\<rparr>,
      \<lparr>rq_type = Rt_in, rq_sector = 1, rq_data_addr = 4, rq_data_len = 2, rq_status_addr = 7, rq_seg = None\<rparr>]"

definition small_state :: "qcow_file blk_state" where
  "small_state = \<lparr>bs_disk = small_image, bs_timer = timer_new [],
     bs_mem = [\<lparr>mapping = [0, 11, 12, 13, 0, 0, 0, 0], guest_base = 0\<rparr>]\<rparr>"

lemma small_requests_flat:
  "\<exists>d t. execute_all flat_file small_requests (on_flat 9 small_state) =
     Return (Inr [0, 2], \<lparr>bs_disk = d, bs_timer = t, bs_mem = [\<lparr>mapping = [0, 11, 12, 13, 11, 12, 0, 0], guest_base = 0\<rparr>]\<rparr>)"
  unfolding small_requests_def small_state_def on_flat_def
  by (simp add: exec_bind_def exec_return_def request_execute_def exec_disk_def disk_simps flat_io_def small_image_flat
      exec_write_from_memory_def exec_read_to_memory_def read_to_memory_eq write_from_memory_eq all_to_def exact_from_def
      write_all.simps read_exact.simps fd_count_def disk_get_def disk_put_def slice_def splice_def range_end_def checked_add_def
      region_end_def offset_from_def exec_timer_def timer_is_armed_def timer_reset_def timer_call_def timer_new_def
      io_bind_def io_return_def io_get_def io_modify_def upt_rec mapping_size_def unchecked_add_def)


end
