(* ===== verification/P9_Wire.thy ===== *)
theory P9_Wire
  imports Prelude "HOL-Library.Sublist"
begin

text \<open>
  The wire format of the 9P protocol (\<^verbatim>\<open>p9/src/protocol/wire_format.rs\<close> and
  \<^verbatim>\<open>p9/wire_format_derive\<close>): how numbers, strings, vectors, data and structs are encoded and
  decoded. The locale \<open>wire_law\<close> is what a format promises; it is proved once for every way
  of building a format, so the formats of the messages satisfy it by construction.
\<close>

section \<open>Errors and readers\<close>

text \<open>\<^verbatim>\<open>std::io::Error\<close>: an error number of the operating system, or a kind.\<close>

datatype error_kind =
    Not_found | Permission_denied | Connection_refused | Connection_reset | Connection_aborted | Not_connected
  | Addr_in_use | Addr_not_available | Broken_pipe | Already_exists | Would_block | Invalid_input | Invalid_data
  | Timed_out | Write_zero | Interrupted | Other_kind | Eof_kind

datatype p9_error = Raw_os u32 | Kind error_kind

text \<open>
  A reader is the bytes it still yields, and the error it then reports; without an error it is
  at the end of its input.
\<close>

record reader =
  rd_bytes :: "u8 list"
  rd_failure :: "p9_error option"

type_synonym 'a decoder = "reader \<Rightarrow> (p9_error + 'a) \<times> reader"

definition dec_return :: "'a \<Rightarrow> 'a decoder" where
  "dec_return x r = (Inr x, r)"

definition dec_fail :: "p9_error \<Rightarrow> 'a decoder" where
  "dec_fail e r = (Inl e, r)"

definition dec_bind :: "'a decoder \<Rightarrow> ('a \<Rightarrow> 'b decoder) \<Rightarrow> 'b decoder" where
  "dec_bind d f r = (case d r of (Inl e, r') \<Rightarrow> (Inl e, r') | (Inr x, r') \<Rightarrow> f x r')"

definition dec_map :: "('a \<Rightarrow> 'b) \<Rightarrow> 'a decoder \<Rightarrow> 'b decoder" where
  "dec_map f d = dec_bind d (\<lambda>x. dec_return (f x))"

text \<open>\<^verbatim>\<open>read_exact\<close>, \<^verbatim>\<open>read_to_end\<close> and \<^verbatim>\<open>take\<close> of \<^verbatim>\<open>std::io::Read\<close>.\<close>

definition rd_exact :: "nat \<Rightarrow> u8 list decoder" where
  "rd_exact n r =
     (if n \<le> length (rd_bytes r) then (Inr (take n (rd_bytes r)), r\<lparr>rd_bytes := drop n (rd_bytes r)\<rparr>)
      else (Inl (case rd_failure r of None \<Rightarrow> Kind Eof_kind | Some e \<Rightarrow> e), r\<lparr>rd_bytes := []\<rparr>))"

definition rd_to_end :: "u8 list decoder" where
  "rd_to_end r = (case rd_failure r of None \<Rightarrow> Inr (rd_bytes r) | Some e \<Rightarrow> Inl e, r\<lparr>rd_bytes := []\<rparr>)"

definition rd_take :: "nat \<Rightarrow> 'a decoder \<Rightarrow> 'a decoder" where
  "rd_take n d r =
     (let bs = rd_bytes r;
          (x, r') = d (r\<lparr>rd_bytes := take n bs, rd_failure := (if n \<le> length bs then None else rd_failure r)\<rparr>)
      in (x, r\<lparr>rd_bytes := rd_bytes r' @ drop n bs\<rparr>))"

text \<open>An encoder returns an error or not, and the bytes it has written.\<close>

type_synonym 'a encoder = "'a \<Rightarrow> (p9_error + unit) \<times> u8 list"

definition enc_seq :: "(p9_error + unit) \<times> u8 list \<Rightarrow> (p9_error + unit) \<times> u8 list \<Rightarrow> (p9_error + unit) \<times> u8 list" where
  "enc_seq a b = (case a of (Inl e, bs) \<Rightarrow> (Inl e, bs) | (Inr _, bs) \<Rightarrow> (fst b, bs @ snd b))"

definition enc_ok :: "u8 list \<Rightarrow> (p9_error + unit) \<times> u8 list" where
  "enc_ok bs = (Inr (), bs)"

text \<open>The trait \<^verbatim>\<open>WireFormat\<close>.\<close>

record 'a wire_format =
  wf_size :: "'a \<Rightarrow> u32"
  wf_encode :: "'a encoder"
  wf_decode :: "'a decoder"

section \<open>The formats\<close>

definition uint_format :: "'a::len word wire_format" where
  "uint_format = \<lparr>wf_size = (\<lambda>_. of_nat (LENGTH('a) div 8)), wf_encode = (\<lambda>x. enc_ok (to_le x)),
     wf_decode = dec_bind (rd_exact (LENGTH('a) div 8)) (\<lambda>buf. dec_return (from_le buf))\<rparr>"

text \<open>
  A string is its bytes. The width of the first character of a byte string, if it is
  well-formed UTF-8.
\<close>

definition utf8_tail :: "u8 \<Rightarrow> bool" where
  "utf8_tail b \<longleftrightarrow> 0x80 \<le> b \<and> b \<le> 0xBF"

definition utf8_width :: "u8 list \<Rightarrow> nat option" where
  "utf8_width bs =
     (case bs of
        [] \<Rightarrow> None
      | a # as \<Rightarrow>
          if a < 0x80 then Some 1
          else case as of
            [] \<Rightarrow> None
          | b # bs \<Rightarrow>
              if 0xC2 \<le> a \<and> a \<le> 0xDF then (if utf8_tail b then Some 2 else None)
              else case bs of
                [] \<Rightarrow> None
              | c # cs \<Rightarrow>
                  if 0xE0 \<le> a \<and> a \<le> 0xEF then
                    (if utf8_tail b \<and> utf8_tail c \<and> (a = 0xE0 \<longrightarrow> 0xA0 \<le> b) \<and> (a = 0xED \<longrightarrow> b \<le> 0x9F) then Some 3 else None)
                  else case cs of
                    [] \<Rightarrow> None
                  | d # _ \<Rightarrow>
                      if 0xF0 \<le> a \<and> a \<le> 0xF4 \<and> utf8_tail b \<and> utf8_tail c \<and> utf8_tail d
                        \<and> (a = 0xF0 \<longrightarrow> 0x90 \<le> b) \<and> (a = 0xF4 \<longrightarrow> b \<le> 0x8F)
                      then Some 4 else None)"

lemma utf8_width_pos: "utf8_width bs = Some n \<Longrightarrow> 0 < n \<and> bs \<noteq> []"
  by (auto simp: utf8_width_def split: list.splits if_splits)

function utf8_valid :: "u8 list \<Rightarrow> bool" where
  "utf8_valid bs \<longleftrightarrow> bs = [] \<or> (case utf8_width bs of None \<Rightarrow> False | Some n \<Rightarrow> utf8_valid (drop n bs))"
  by pat_completeness auto
termination
  by (relation "measure length") (auto dest: utf8_width_pos)

declare utf8_valid.simps [simp del]

type_synonym p9_string = "u8 list"

definition string_format :: "p9_string wire_format" where
  "string_format = \<lparr>wf_size = (\<lambda>s. of_nat (2 + length s)),
     wf_encode = (\<lambda>s.
       if length s > 65535 then (Inl (Kind Invalid_input), [])
       else enc_seq (wf_encode uint_format (of_nat (length s) :: u16)) (enc_ok s)),
     wf_decode =
       dec_bind (wf_decode uint_format) (\<lambda>len :: u16.
       dec_bind (rd_take (unat len) rd_to_end) (\<lambda>bs.
       if utf8_valid bs then dec_return bs else dec_fail (Kind Invalid_data)))\<rparr>"

primrec encode_all :: "'a encoder \<Rightarrow> 'a list encoder" where
  "encode_all enc [] = enc_ok []"
| "encode_all enc (x # xs) = enc_seq (enc x) (encode_all enc xs)"

primrec decode_times :: "'a decoder \<Rightarrow> nat \<Rightarrow> 'a list decoder" where
  "decode_times dec 0 = dec_return []"
| "decode_times dec (Suc n) = dec_bind dec (\<lambda>x. dec_bind (decode_times dec n) (\<lambda>xs. dec_return (x # xs)))"

definition vec_format :: "'a wire_format \<Rightarrow> 'a list wire_format" where
  "vec_format F = \<lparr>wf_size = (\<lambda>xs. 2 + sum_list (map (wf_size F) xs)),
     wf_encode = (\<lambda>xs.
       if length xs > 65535 then (Inl (Kind Invalid_input), [])
       else enc_seq (wf_encode uint_format (of_nat (length xs) :: u16)) (encode_all (wf_encode F) xs)),
     wf_decode = dec_bind (wf_decode uint_format) (\<lambda>len :: u16. decode_times (wf_decode F) (unat len))\<rparr>"

text \<open>\<^verbatim>\<open>Data\<close>: bytes with a count of 32 bits, of which the decoder accepts at most 32 MiB.\<close>

definition data_format :: "u8 list wire_format" where
  "data_format = \<lparr>wf_size = (\<lambda>bs. 4 + sum_list (map (\<lambda>_. 1) bs)),
     wf_encode = (\<lambda>bs.
       if length bs > 4294967295 then (Inl (Kind Invalid_input), [])
       else enc_seq (wf_encode uint_format (of_nat (length bs) :: u32)) (enc_ok bs)),
     wf_decode =
       dec_bind (wf_decode uint_format) (\<lambda>len :: u32.
       if len > 33554432 then dec_fail (Kind Invalid_data)
       else dec_bind (rd_take (unat len) rd_to_end) (\<lambda>buf.
         if length buf = unat len then dec_return buf else dec_fail (Kind Eof_kind)))\<rparr>"

text \<open>
  The derived formats: the fields of a struct one after the other. A struct with the fields
  \<open>a\<close>, \<open>b\<close>, \ldots{} is taken apart to the tuple \<open>(a, b, \<dots>, ())\<close>.
\<close>

definition no_fields :: "unit wire_format" where
  "no_fields = \<lparr>wf_size = (\<lambda>_. 0), wf_encode = (\<lambda>_. enc_ok []), wf_decode = dec_return ()\<rparr>"

definition field :: "'a wire_format \<Rightarrow> 'b wire_format \<Rightarrow> ('a \<times> 'b) wire_format" where
  "field F G = \<lparr>wf_size = (\<lambda>(x, y). wf_size F x + wf_size G y),
     wf_encode = (\<lambda>(x, y). enc_seq (wf_encode F x) (wf_encode G y)),
     wf_decode = dec_bind (wf_decode F) (\<lambda>x. dec_bind (wf_decode G) (\<lambda>y. dec_return (x, y)))\<rparr>"

definition struct :: "('s \<Rightarrow> 'f) \<Rightarrow> ('f \<Rightarrow> 's) \<Rightarrow> 'f wire_format \<Rightarrow> 's wire_format" where
  "struct parts build F = \<lparr>wf_size = (\<lambda>s. wf_size F (parts s)), wf_encode = (\<lambda>s. wf_encode F (parts s)),
     wf_decode = dec_bind (wf_decode F) (\<lambda>x. dec_return (build x))\<rparr>"

section \<open>The law of wire formats\<close>

text \<open>
  What is decoded is valid, was at the front of the input and is not longer when encoded; what
  is valid is encoded without an error, in as many bytes as announced, and decoded again.
\<close>

locale wire_law =
  fixes F :: "'a wire_format" and valid :: "'a \<Rightarrow> bool"
  assumes encodes: "valid x \<Longrightarrow> fst (wf_encode F x) = Inr ()"
    and size: "fst (wf_encode F x) = Inr () \<Longrightarrow> wf_size F x = of_nat (length (snd (wf_encode F x)))"
    and decodes: "valid x \<Longrightarrow> rd_bytes r = snd (wf_encode F x) @ rest \<Longrightarrow> wf_decode F r = (Inr x, r\<lparr>rd_bytes := rest\<rparr>)"
    and decoded: "wf_decode F r = (Inr x, r') \<Longrightarrow>
      valid x \<and> rd_failure r' = rd_failure r \<and> suffix (rd_bytes r') (rd_bytes r)
      \<and> length (snd (wf_encode F x)) + length (rd_bytes r') \<le> length (rd_bytes r)"

lemma dec_bind_Inr:
  "dec_bind d f r = (Inr y, r'') \<longleftrightarrow> (\<exists>x r'. d r = (Inr x, r') \<and> f x r' = (Inr y, r''))"
  by (auto simp: dec_bind_def split: prod.splits sum.splits)

lemma dec_bind_Return: "d r = (Inr x, r') \<Longrightarrow> dec_bind d f r = f x r'"
  by (simp add: dec_bind_def)

lemma fst_enc_seq [simp]: "fst (enc_seq a b) = (case fst a of Inl e \<Rightarrow> Inl e | Inr _ \<Rightarrow> fst b)"
  by (auto simp: enc_seq_def split: prod.splits sum.splits)

lemma snd_enc_seq: "fst a = Inr () \<Longrightarrow> snd (enc_seq a b) = snd a @ snd b"
  by (auto simp: enc_seq_def split: prod.splits)

lemma enc_ok_simps [simp]: "fst (enc_ok bs) = Inr ()" "snd (enc_ok bs) = bs"
  by (simp_all add: enc_ok_def)

lemma reader_same [simp]: "rd_bytes r = bs \<Longrightarrow> r\<lparr>rd_bytes := bs\<rparr> = r"
  by auto

lemma rd_exact_append:
  "rd_bytes r = bs @ rest \<Longrightarrow> rd_exact (length bs) r = (Inr bs, r\<lparr>rd_bytes := rest\<rparr>)"
  by (simp add: rd_exact_def)

lemma rd_take_to_end_append:
  "rd_bytes r = bs @ rest \<Longrightarrow> rd_take (length bs) rd_to_end r = (Inr bs, r\<lparr>rd_bytes := rest\<rparr>)"
  by (simp add: rd_take_def rd_to_end_def Let_def)

lemma rd_take_to_end_Inr:
  "rd_take n rd_to_end r = (Inr bs, r') \<Longrightarrow> bs = take n (rd_bytes r) \<and> r' = r\<lparr>rd_bytes := drop n (rd_bytes r)\<rparr>"
  by (auto simp: rd_take_def rd_to_end_def Let_def split: option.splits if_splits)

named_theorems wire_laws \<open>laws of the wire formats\<close>

lemma uint_law:
  assumes "LENGTH('a::len) = 8 * n" "0 < n"
  shows "wire_law (uint_format :: 'a word wire_format) (\<lambda>_. True)"
proof (unfold_locales, goal_cases)
  case (3 x r rest)
  then show ?case
    using rd_exact_append [of r "to_le x" rest] assms by (simp add: uint_format_def dec_bind_def dec_return_def)
next
  case (4 r x r')
  then show ?case
    by (auto simp: uint_format_def dec_bind_Inr dec_return_def rd_exact_def suffix_drop split: if_splits)
qed (simp_all add: uint_format_def)

lemmas [wire_laws] = uint_law [where 'a = 8 and n = 1, simplified] uint_law [where 'a = 16 and n = 2, simplified]
  uint_law [where 'a = 32 and n = 4, simplified] uint_law [where 'a = 64 and n = 8, simplified]

interpretation u8w: wire_law "uint_format :: u8 wire_format" "\<lambda>_. True" by (rule wire_laws)
interpretation u16w: wire_law "uint_format :: u16 wire_format" "\<lambda>_. True" by (rule wire_laws)
interpretation u32w: wire_law "uint_format :: u32 wire_format" "\<lambda>_. True" by (rule wire_laws)

definition string_valid :: "p9_string \<Rightarrow> bool" where
  "string_valid s \<longleftrightarrow> length s \<le> 65535 \<and> utf8_valid s"

lemma string_law [wire_laws]: "wire_law string_format string_valid"
proof (unfold_locales, goal_cases)
  case (3 x r rest)
  have "wf_decode uint_format r = (Inr (of_nat (length x) :: u16), r\<lparr>rd_bytes := x @ rest\<rparr>)"
    using 3 by (intro u16w.decodes) (auto simp: string_format_def string_valid_def snd_enc_seq u16w.encodes)
  moreover have "unat (of_nat (length x) :: u16) = length x"
    using 3(1) by (simp add: string_valid_def unsigned_of_nat take_bit_nat_eq_self)
  ultimately show ?case
    using 3 rd_take_to_end_append [of "r\<lparr>rd_bytes := x @ rest\<rparr>" x rest]
    by (simp add: string_format_def dec_bind_def dec_return_def string_valid_def)
next
  case (4 r x r')
  then obtain len :: u16 and r1 where r: "wf_decode uint_format r = (Inr len, r1)"
    "rd_take (unat len) rd_to_end r1 = (Inr x, r')" "utf8_valid x"
    by (auto simp: string_format_def dec_bind_Inr dec_return_def dec_fail_def split: if_splits)
  have "unat len < 2 ^ 16" using unsigned_less [of len] by simp
  with r rd_take_to_end_Inr [OF r(2)] u16w.decoded [OF r(1)] show ?case
    by (auto simp: string_valid_def string_format_def snd_enc_seq uint_format_def intro: suffix_order.trans [OF suffix_drop])
qed (auto simp: string_format_def string_valid_def uint_format_def snd_enc_seq)

definition data_valid :: "u8 list \<Rightarrow> bool" where
  "data_valid bs \<longleftrightarrow> length bs \<le> 33554432"

lemma data_law [wire_laws]: "wire_law data_format data_valid"
proof (unfold_locales, goal_cases)
  case (2 x)
  then show ?case by (simp add: data_format_def uint_format_def snd_enc_seq sum_list_triv split: if_splits)
next
  case (3 x r rest)
  have "wf_decode uint_format r = (Inr (of_nat (length x) :: u32), r\<lparr>rd_bytes := x @ rest\<rparr>)"
    using 3 by (intro u32w.decodes) (auto simp: data_format_def data_valid_def snd_enc_seq u32w.encodes)
  moreover have "unat (of_nat (length x) :: u32) = length x"
    using 3(1) by (simp add: data_valid_def unsigned_of_nat take_bit_nat_eq_self)
  ultimately show ?case
    using 3 rd_take_to_end_append [of "r\<lparr>rd_bytes := x @ rest\<rparr>" x rest]
    by (simp add: data_format_def dec_bind_def dec_return_def data_valid_def word_less_nat_alt)
next
  case (4 r x r')
  then obtain len :: u32 and r1 where r: "wf_decode uint_format r = (Inr len, r1)" "\<not> 33554432 < len"
    "rd_take (unat len) rd_to_end r1 = (Inr x, r')" "length x = unat len"
    by (auto simp: data_format_def dec_bind_Inr dec_return_def dec_fail_def split: if_splits)
  with rd_take_to_end_Inr [OF r(3)] u32w.decoded [OF r(1)] show ?case
    by (auto simp: data_valid_def data_format_def snd_enc_seq uint_format_def word_less_nat_alt
        intro: suffix_order.trans [OF suffix_drop])
qed (auto simp: data_format_def data_valid_def uint_format_def snd_enc_seq)

context wire_law
begin

lemma encode_all_encodes: "list_all valid xs \<Longrightarrow> fst (encode_all (wf_encode F) xs) = Inr ()"
  by (induction xs) (simp_all add: encodes)

lemma encode_all_size:
  "fst (encode_all (wf_encode F) xs) = Inr () \<Longrightarrow>
     sum_list (map (wf_size F) xs) = of_nat (length (snd (encode_all (wf_encode F) xs)))"
proof (induction xs)
  case (Cons x xs)
  then show ?case using size [of x] by (simp add: snd_enc_seq split: sum.splits)
qed simp

lemma decode_times_decodes:
  "list_all valid xs \<Longrightarrow> rd_bytes r = snd (encode_all (wf_encode F) xs) @ rest \<Longrightarrow>
     decode_times (wf_decode F) (length xs) r = (Inr xs, r\<lparr>rd_bytes := rest\<rparr>)"
proof (induction xs arbitrary: r)
  case (Cons x xs)
  then have "wf_decode F r = (Inr x, r\<lparr>rd_bytes := snd (encode_all (wf_encode F) xs) @ rest\<rparr>)"
    by (intro decodes) (simp_all add: snd_enc_seq encodes)
  moreover from Cons.prems have "decode_times (wf_decode F) (length xs) (r\<lparr>rd_bytes := snd (encode_all (wf_encode F) xs) @ rest\<rparr>)
      = (Inr xs, r\<lparr>rd_bytes := snd (encode_all (wf_encode F) xs) @ rest\<rparr>\<lparr>rd_bytes := rest\<rparr>)"
    by (intro Cons.IH) simp_all
  ultimately show ?case by (simp add: dec_bind_def dec_return_def)
qed (simp add: dec_return_def)

lemma decode_times_decoded:
  "decode_times (wf_decode F) n r = (Inr xs, r') \<Longrightarrow>
     length xs = n \<and> list_all valid xs \<and> rd_failure r' = rd_failure r \<and> suffix (rd_bytes r') (rd_bytes r)
     \<and> length (snd (encode_all (wf_encode F) xs)) + length (rd_bytes r') \<le> length (rd_bytes r)"
proof (induction n arbitrary: r xs)
  case (Suc n)
  then obtain x r1 ys where r: "wf_decode F r = (Inr x, r1)" "decode_times (wf_decode F) n r1 = (Inr ys, r')" "xs = x # ys"
    by (auto simp: dec_bind_Inr dec_return_def)
  with Suc.IH [OF r(2)] decoded [OF r(1)] show ?case
    by (auto simp: snd_enc_seq encodes intro: suffix_order.trans)
qed (simp add: dec_return_def)

end

definition vec_valid :: "('a \<Rightarrow> bool) \<Rightarrow> 'a list \<Rightarrow> bool" where
  "vec_valid P xs \<longleftrightarrow> length xs \<le> 65535 \<and> list_all P xs"

lemma vec_law [wire_laws]:
  assumes "wire_law F P"
  shows "wire_law (vec_format F) (vec_valid P)"
proof (unfold_locales, goal_cases)
  case (1 x)
  then show ?case
    using wire_law.encode_all_encodes [OF assms] by (simp add: vec_format_def vec_valid_def u16w.encodes)
next
  case (2 x)
  then show ?case
    using wire_law.encode_all_size [OF assms, of x]
    by (simp add: vec_format_def snd_enc_seq u16w.encodes uint_format_def split: if_splits)
next
  case (3 x r rest)
  let ?bs = "snd (encode_all (wf_encode F) x) @ rest"
  have "wf_decode uint_format r = (Inr (of_nat (length x) :: u16), r\<lparr>rd_bytes := ?bs\<rparr>)"
    using 3 by (intro u16w.decodes) (auto simp: vec_format_def vec_valid_def snd_enc_seq u16w.encodes)
  moreover have "unat (of_nat (length x) :: u16) = length x"
    using 3(1) by (simp add: vec_valid_def unsigned_of_nat take_bit_nat_eq_self)
  moreover have "decode_times (wf_decode F) (length x) (r\<lparr>rd_bytes := ?bs\<rparr>) = (Inr x, r\<lparr>rd_bytes := ?bs\<rparr>\<lparr>rd_bytes := rest\<rparr>)"
    using 3(1) by (intro wire_law.decode_times_decodes [OF assms]) (simp_all add: vec_valid_def)
  ultimately show ?case by (simp add: vec_format_def dec_bind_def)
next
  case (4 r x r')
  then obtain len :: u16 and r1 where r: "wf_decode uint_format r = (Inr len, r1)"
    "decode_times (wf_decode F) (unat len) r1 = (Inr x, r')"
    by (auto simp: vec_format_def dec_bind_Inr)
  have "unat len < 2 ^ 16" using unsigned_less [of len] by simp
  with wire_law.decode_times_decoded [OF assms r(2)] u16w.decoded [OF r(1)] show ?case
    by (auto simp: vec_valid_def vec_format_def snd_enc_seq u16w.encodes uint_format_def intro: suffix_order.trans)
qed

lemma no_fields_law [wire_laws]: "wire_law no_fields (\<lambda>_. True)"
  by unfold_locales (auto simp: no_fields_def dec_return_def)

lemma field_law [wire_laws]:
  assumes F: "wire_law F P" and G: "wire_law G Q"
  shows "wire_law (field F G) (\<lambda>(x, y). P x \<and> Q y)"
proof (unfold_locales, goal_cases)
  case (1 z)
  then show ?case
    using wire_law.encodes [OF F] wire_law.encodes [OF G] by (auto simp: field_def)
next
  case (2 z)
  then show ?case
    using wire_law.size [OF F, of "fst z"] wire_law.size [OF G, of "snd z"]
    by (simp add: field_def case_prod_unfold snd_enc_seq split: sum.splits)
next
  case (3 z r rest)
  obtain x y where z: "z = (x, y)" "P x" "Q y" using 3(1) by auto
  let ?r = "r\<lparr>rd_bytes := snd (wf_encode G y) @ rest\<rparr>"
  have "wf_decode F r = (Inr x, ?r)"
    using 3(2) z by (intro wire_law.decodes [OF F]) (simp_all add: field_def snd_enc_seq wire_law.encodes [OF F])
  moreover have "wf_decode G ?r = (Inr y, ?r\<lparr>rd_bytes := rest\<rparr>)"
    using z by (intro wire_law.decodes [OF G]) simp_all
  ultimately show ?case using z by (simp add: field_def dec_bind_def dec_return_def)
next
  case (4 r z r')
  then obtain x y r1 where r: "wf_decode F r = (Inr x, r1)" "wf_decode G r1 = (Inr y, r')" "z = (x, y)"
    by (auto simp: field_def dec_bind_Inr dec_return_def)
  with wire_law.decoded [OF F r(1)] wire_law.decoded [OF G r(2)] show ?case
    by (auto simp: field_def snd_enc_seq wire_law.encodes [OF F] intro: suffix_order.trans)
qed

lemma struct_law:
  assumes F: "wire_law F P" and inv: "\<And>s. build (parts s) = s" "\<And>x. parts (build x) = x"
  shows "wire_law (struct parts build F) (\<lambda>s. P (parts s))"
proof (unfold_locales, goal_cases)
  case (3 s r rest)
  then show ?case
    using wire_law.decodes [OF F, of "parts s" r rest] by (simp add: struct_def dec_bind_def dec_return_def inv)
next
  case (4 r s r')
  then show ?case
    by (auto simp: struct_def dec_bind_Inr dec_return_def inv dest: wire_law.decoded [OF F])
qed (simp_all add: struct_def wire_law.encodes [OF F] wire_law.size [OF F])

lemma wire_law_cong:
  assumes "wire_law F P" "\<And>x. P x = Q x"
  shows "wire_law F Q"
proof -
  have "P = Q" using assms(2) by blast
  with assms(1) show ?thesis by simp
qed

end
