(* ===== verification/P9_Requests.thy ===== *)
theory P9_Requests
  imports P9_Wire
begin

text \<open>
  The requests of the 9P protocol (\<^verbatim>\<open>p9/src/protocol/messages.rs\<close>): their structs with the
  derived wire formats, and the type of the messages a client sends.
\<close>

record tversion =
  tversion_msize :: u32
  tversion_version :: p9_string

definition tversion_format :: "tversion wire_format" where
  "tversion_format = struct
     (\<lambda>s. (tversion_msize s, tversion_version s, ()))
     (\<lambda>(a, b, _). \<lparr>tversion_msize = a, tversion_version = b\<rparr>)
     (field uint_format (field string_format no_fields))"

definition tversion_valid :: "tversion \<Rightarrow> bool" where
  "tversion_valid s \<longleftrightarrow> string_valid (tversion_version s)"

lemma tversion_law [wire_laws]: "wire_law tversion_format tversion_valid"
  unfolding tversion_format_def by (rule wire_law_cong, rule struct_law, (rule wire_laws)+, auto simp: tversion_valid_def vec_valid_def list_all_iff)

record tflush =
  tflush_oldtag :: u16

definition tflush_format :: "tflush wire_format" where
  "tflush_format = struct
     (\<lambda>s. (tflush_oldtag s, ()))
     (\<lambda>(a, _). \<lparr>tflush_oldtag = a\<rparr>)
     (field uint_format no_fields)"

lemma tflush_law [wire_laws]: "wire_law tflush_format (\<lambda>_. True)"
  unfolding tflush_format_def by (rule wire_law_cong, rule struct_law, (rule wire_laws)+, auto)

record twalk =
  twalk_fid :: u32
  twalk_newfid :: u32
  twalk_wnames :: "p9_string list"

definition twalk_format :: "twalk wire_format" where
  "twalk_format = struct
     (\<lambda>s. (twalk_fid s, twalk_newfid s, twalk_wnames s, ()))
     (\<lambda>(a, b, c, _). \<lparr>twalk_fid = a, twalk_newfid = b, twalk_wnames = c\<rparr>)
     (field uint_format (field uint_format (field (vec_format string_format) no_fields)))"

definition twalk_valid :: "twalk \<Rightarrow> bool" where
  "twalk_valid s \<longleftrightarrow> vec_valid string_valid (twalk_wnames s)"

lemma twalk_law [wire_laws]: "wire_law twalk_format twalk_valid"
  unfolding twalk_format_def by (rule wire_law_cong, rule struct_law, (rule wire_laws)+, auto simp: twalk_valid_def vec_valid_def list_all_iff)

record tread =
  tread_fid :: u32
  tread_offset :: u64
  tread_count :: u32

definition tread_format :: "tread wire_format" where
  "tread_format = struct
     (\<lambda>s. (tread_fid s, tread_offset s, tread_count s, ()))
     (\<lambda>(a, b, c, _). \<lparr>tread_fid = a, tread_offset = b, tread_count = c\<rparr>)
     (field uint_format (field uint_format (field uint_format no_fields)))"

lemma tread_law [wire_laws]: "wire_law tread_format (\<lambda>_. True)"
  unfolding tread_format_def by (rule wire_law_cong, rule struct_law, (rule wire_laws)+, auto)

record twrite =
  twrite_fid :: u32
  twrite_offset :: u64
  twrite_data :: "u8 list"

definition twrite_format :: "twrite wire_format" where
  "twrite_format = struct
     (\<lambda>s. (twrite_fid s, twrite_offset s, twrite_data s, ()))
     (\<lambda>(a, b, c, _). \<lparr>twrite_fid = a, twrite_offset = b, twrite_data = c\<rparr>)
     (field uint_format (field uint_format (field data_format no_fields)))"

definition twrite_valid :: "twrite \<Rightarrow> bool" where
  "twrite_valid s \<longleftrightarrow> data_valid (twrite_data s)"

lemma twrite_law [wire_laws]: "wire_law twrite_format twrite_valid"
  unfolding twrite_format_def by (rule wire_law_cong, rule struct_law, (rule wire_laws)+, auto simp: twrite_valid_def vec_valid_def list_all_iff)

record tclunk =
  tclunk_fid :: u32

definition tclunk_format :: "tclunk wire_format" where
  "tclunk_format = struct
     (\<lambda>s. (tclunk_fid s, ()))
     (\<lambda>(a, _). \<lparr>tclunk_fid = a\<rparr>)
     (field uint_format no_fields)"

lemma tclunk_law [wire_laws]: "wire_law tclunk_format (\<lambda>_. True)"
  unfolding tclunk_format_def by (rule wire_law_cong, rule struct_law, (rule wire_laws)+, auto)

record tremove =
  tremove_fid :: u32

definition tremove_format :: "tremove wire_format" where
  "tremove_format = struct
     (\<lambda>s. (tremove_fid s, ()))
     (\<lambda>(a, _). \<lparr>tremove_fid = a\<rparr>)
     (field uint_format no_fields)"

lemma tremove_law [wire_laws]: "wire_law tremove_format (\<lambda>_. True)"
  unfolding tremove_format_def by (rule wire_law_cong, rule struct_law, (rule wire_laws)+, auto)

record tauth =
  tauth_afid :: u32
  tauth_uname :: p9_string
  tauth_aname :: p9_string
  tauth_n_uname :: u32

definition tauth_format :: "tauth wire_format" where
  "tauth_format = struct
     (\<lambda>s. (tauth_afid s, tauth_uname s, tauth_aname s, tauth_n_uname s, ()))
     (\<lambda>(a, b, c, d, _). \<lparr>tauth_afid = a, tauth_uname = b, tauth_aname = c,
        tauth_n_uname = d\<rparr>)
     (field uint_format (field string_format (field string_format (field uint_format no_fields))))"

definition tauth_valid :: "tauth \<Rightarrow> bool" where
  "tauth_valid s \<longleftrightarrow> string_valid (tauth_uname s) \<and> string_valid (tauth_aname s)"

lemma tauth_law [wire_laws]: "wire_law tauth_format tauth_valid"
  unfolding tauth_format_def by (rule wire_law_cong, rule struct_law, (rule wire_laws)+, auto simp: tauth_valid_def vec_valid_def list_all_iff)

record tattach =
  tattach_fid :: u32
  tattach_afid :: u32
  tattach_uname :: p9_string
  tattach_aname :: p9_string
  tattach_n_uname :: u32

definition tattach_format :: "tattach wire_format" where
  "tattach_format = struct
     (\<lambda>s. (tattach_fid s, tattach_afid s, tattach_uname s, tattach_aname s, tattach_n_uname s, ()))
     (\<lambda>(a, b, c, d, e, _). \<lparr>tattach_fid = a, tattach_afid = b, tattach_uname = c,
        tattach_aname = d, tattach_n_uname = e\<rparr>)
     (field uint_format (field uint_format (field string_format (field string_format (field uint_format
      no_fields)))))"

definition tattach_valid :: "tattach \<Rightarrow> bool" where
  "tattach_valid s \<longleftrightarrow> string_valid (tattach_uname s) \<and> string_valid (tattach_aname s)"

lemma tattach_law [wire_laws]: "wire_law tattach_format tattach_valid"
  unfolding tattach_format_def by (rule wire_law_cong, rule struct_law, (rule wire_laws)+, auto simp: tattach_valid_def vec_valid_def list_all_iff)

record tstatfs =
  tstatfs_fid :: u32

definition tstatfs_format :: "tstatfs wire_format" where
  "tstatfs_format = struct
     (\<lambda>s. (tstatfs_fid s, ()))
     (\<lambda>(a, _). \<lparr>tstatfs_fid = a\<rparr>)
     (field uint_format no_fields)"

lemma tstatfs_law [wire_laws]: "wire_law tstatfs_format (\<lambda>_. True)"
  unfolding tstatfs_format_def by (rule wire_law_cong, rule struct_law, (rule wire_laws)+, auto)

record tlopen =
  tlopen_fid :: u32
  tlopen_flags :: u32

definition tlopen_format :: "tlopen wire_format" where
  "tlopen_format = struct
     (\<lambda>s. (tlopen_fid s, tlopen_flags s, ()))
     (\<lambda>(a, b, _). \<lparr>tlopen_fid = a, tlopen_flags = b\<rparr>)
     (field uint_format (field uint_format no_fields))"

lemma tlopen_law [wire_laws]: "wire_law tlopen_format (\<lambda>_. True)"
  unfolding tlopen_format_def by (rule wire_law_cong, rule struct_law, (rule wire_laws)+, auto)

record tlcreate =
  tlcreate_fid :: u32
  tlcreate_name :: p9_string
  tlcreate_flags :: u32
  tlcreate_mode :: u32
  tlcreate_gid :: u32

definition tlcreate_format :: "tlcreate wire_format" where
  "tlcreate_format = struct
     (\<lambda>s. (tlcreate_fid s, tlcreate_name s, tlcreate_flags s, tlcreate_mode s, tlcreate_gid s, ()))
     (\<lambda>(a, b, c, d, e, _). \<lparr>tlcreate_fid = a, tlcreate_name = b, tlcreate_flags = c,
        tlcreate_mode = d, tlcreate_gid = e\<rparr>)
     (field uint_format (field string_format (field uint_format (field uint_format (field uint_format
      no_fields)))))"

definition tlcreate_valid :: "tlcreate \<Rightarrow> bool" where
  "tlcreate_valid s \<longleftrightarrow> string_valid (tlcreate_name s)"

lemma tlcreate_law [wire_laws]: "wire_law tlcreate_format tlcreate_valid"
  unfolding tlcreate_format_def by (rule wire_law_cong, rule struct_law, (rule wire_laws)+, auto simp: tlcreate_valid_def vec_valid_def list_all_iff)

record tsymlink =
  tsymlink_fid :: u32
  tsymlink_name :: p9_string
  tsymlink_symtgt :: p9_string
  tsymlink_gid :: u32

definition tsymlink_format :: "tsymlink wire_format" where
  "tsymlink_format = struct
     (\<lambda>s. (tsymlink_fid s, tsymlink_name s, tsymlink_symtgt s, tsymlink_gid s, ()))
     (\<lambda>(a, b, c, d, _). \<lparr>tsymlink_fid = a, tsymlink_name = b, tsymlink_symtgt = c,
        tsymlink_gid = d\<rparr>)
     (field uint_format (field string_format (field string_format (field uint_format no_fields))))"

definition tsymlink_valid :: "tsymlink \<Rightarrow> bool" where
  "tsymlink_valid s \<longleftrightarrow> string_valid (tsymlink_name s) \<and> string_valid (tsymlink_symtgt s)"

lemma tsymlink_law [wire_laws]: "wire_law tsymlink_format tsymlink_valid"
  unfolding tsymlink_format_def by (rule wire_law_cong, rule struct_law, (rule wire_laws)+, auto simp: tsymlink_valid_def vec_valid_def list_all_iff)

record tmknod =
  tmknod_dfid :: u32
  tmknod_name :: p9_string
  tmknod_mode :: u32
  tmknod_major :: u32
  tmknod_minor :: u32
  tmknod_gid :: u32

definition tmknod_format :: "tmknod wire_format" where
  "tmknod_format = struct
     (\<lambda>s. (tmknod_dfid s, tmknod_name s, tmknod_mode s, tmknod_major s, tmknod_minor s, tmknod_gid s, ()))
     (\<lambda>(a, b, c, d, e, f, _). \<lparr>tmknod_dfid = a, tmknod_name = b, tmknod_mode = c, tmknod_major = d,
        tmknod_minor = e, tmknod_gid = f\<rparr>)
     (field uint_format (field string_format (field uint_format (field uint_format (field uint_format (field
      uint_format no_fields))))))"

definition tmknod_valid :: "tmknod \<Rightarrow> bool" where
  "tmknod_valid s \<longleftrightarrow> string_valid (tmknod_name s)"

lemma tmknod_law [wire_laws]: "wire_law tmknod_format tmknod_valid"
  unfolding tmknod_format_def by (rule wire_law_cong, rule struct_law, (rule wire_laws)+, auto simp: tmknod_valid_def vec_valid_def list_all_iff)

record trename =
  trename_fid :: u32
  trename_dfid :: u32
  trename_name :: p9_string

definition trename_format :: "trename wire_format" where
  "trename_format = struct
     (\<lambda>s. (trename_fid s, trename_dfid s, trename_name s, ()))
     (\<lambda>(a, b, c, _). \<lparr>trename_fid = a, trename_dfid = b, trename_name = c\<rparr>)
     (field uint_format (field uint_format (field string_format no_fields)))"

definition trename_valid :: "trename \<Rightarrow> bool" where
  "trename_valid s \<longleftrightarrow> string_valid (trename_name s)"

lemma trename_law [wire_laws]: "wire_law trename_format trename_valid"
  unfolding trename_format_def by (rule wire_law_cong, rule struct_law, (rule wire_laws)+, auto simp: trename_valid_def vec_valid_def list_all_iff)

record treadlink =
  treadlink_fid :: u32

definition treadlink_format :: "treadlink wire_format" where
  "treadlink_format = struct
     (\<lambda>s. (treadlink_fid s, ()))
     (\<lambda>(a, _). \<lparr>treadlink_fid = a\<rparr>)
     (field uint_format no_fields)"

lemma treadlink_law [wire_laws]: "wire_law treadlink_format (\<lambda>_. True)"
  unfolding treadlink_format_def by (rule wire_law_cong, rule struct_law, (rule wire_laws)+, auto)

record tgetattr =
  tgetattr_fid :: u32
  tgetattr_request_mask :: u64

definition tgetattr_format :: "tgetattr wire_format" where
  "tgetattr_format = struct
     (\<lambda>s. (tgetattr_fid s, tgetattr_request_mask s, ()))
     (\<lambda>(a, b, _). \<lparr>tgetattr_fid = a, tgetattr_request_mask = b\<rparr>)
     (field uint_format (field uint_format no_fields))"

lemma tgetattr_law [wire_laws]: "wire_law tgetattr_format (\<lambda>_. True)"
  unfolding tgetattr_format_def by (rule wire_law_cong, rule struct_law, (rule wire_laws)+, auto)

record tsetattr =
  tsetattr_fid :: u32
  tsetattr_valid :: u32
  tsetattr_mode :: u32
  tsetattr_uid :: u32
  tsetattr_gid :: u32
  tsetattr_size :: u64
  tsetattr_atime_sec :: u64
  tsetattr_atime_nsec :: u64
  tsetattr_mtime_sec :: u64
  tsetattr_mtime_nsec :: u64

definition tsetattr_format :: "tsetattr wire_format" where
  "tsetattr_format = struct
     (\<lambda>s. (tsetattr_fid s, tsetattr_valid s, tsetattr_mode s, tsetattr_uid s, tsetattr_gid s, tsetattr_size s,
        tsetattr_atime_sec s, tsetattr_atime_nsec s, tsetattr_mtime_sec s, tsetattr_mtime_nsec s, ()))
     (\<lambda>(a, b, c, d, e, f, g, h, i, j, _). \<lparr>tsetattr_fid = a, tsetattr_valid = b, tsetattr_mode = c,
        tsetattr_uid = d, tsetattr_gid = e, tsetattr_size = f, tsetattr_atime_sec = g, tsetattr_atime_nsec = h,
        tsetattr_mtime_sec = i, tsetattr_mtime_nsec = j\<rparr>)
     (field uint_format (field uint_format (field uint_format (field uint_format (field uint_format (field
      uint_format (field uint_format (field uint_format (field uint_format (field uint_format no_fields))))))))))"

lemma tsetattr_law [wire_laws]: "wire_law tsetattr_format (\<lambda>_. True)"
  unfolding tsetattr_format_def by (rule wire_law_cong, rule struct_law, (rule wire_laws)+, auto)

record txattrwalk =
  txattrwalk_fid :: u32
  txattrwalk_newfid :: u32
  txattrwalk_name :: p9_string

definition txattrwalk_format :: "txattrwalk wire_format" where
  "txattrwalk_format = struct
     (\<lambda>s. (txattrwalk_fid s, txattrwalk_newfid s, txattrwalk_name s, ()))
     (\<lambda>(a, b, c, _). \<lparr>txattrwalk_fid = a, txattrwalk_newfid = b, txattrwalk_name = c\<rparr>)
     (field uint_format (field uint_format (field string_format no_fields)))"

definition txattrwalk_valid :: "txattrwalk \<Rightarrow> bool" where
  "txattrwalk_valid s \<longleftrightarrow> string_valid (txattrwalk_name s)"

lemma txattrwalk_law [wire_laws]: "wire_law txattrwalk_format txattrwalk_valid"
  unfolding txattrwalk_format_def by (rule wire_law_cong, rule struct_law, (rule wire_laws)+, auto simp: txattrwalk_valid_def vec_valid_def list_all_iff)

record txattrcreate =
  txattrcreate_fid :: u32
  txattrcreate_name :: p9_string
  txattrcreate_attr_size :: u64
  txattrcreate_flags :: u32

definition txattrcreate_format :: "txattrcreate wire_format" where
  "txattrcreate_format = struct
     (\<lambda>s. (txattrcreate_fid s, txattrcreate_name s, txattrcreate_attr_size s, txattrcreate_flags s, ()))
     (\<lambda>(a, b, c, d, _). \<lparr>txattrcreate_fid = a, txattrcreate_name = b, txattrcreate_attr_size = c,
        txattrcreate_flags = d\<rparr>)
     (field uint_format (field string_format (field uint_format (field uint_format no_fields))))"

definition txattrcreate_valid :: "txattrcreate \<Rightarrow> bool" where
  "txattrcreate_valid s \<longleftrightarrow> string_valid (txattrcreate_name s)"

lemma txattrcreate_law [wire_laws]: "wire_law txattrcreate_format txattrcreate_valid"
  unfolding txattrcreate_format_def by (rule wire_law_cong, rule struct_law, (rule wire_laws)+, auto simp: txattrcreate_valid_def vec_valid_def list_all_iff)

record treaddir =
  treaddir_fid :: u32
  treaddir_offset :: u64
  treaddir_count :: u32

definition treaddir_format :: "treaddir wire_format" where
  "treaddir_format = struct
     (\<lambda>s. (treaddir_fid s, treaddir_offset s, treaddir_count s, ()))
     (\<lambda>(a, b, c, _). \<lparr>treaddir_fid = a, treaddir_offset = b, treaddir_count = c\<rparr>)
     (field uint_format (field uint_format (field uint_format no_fields)))"

lemma treaddir_law [wire_laws]: "wire_law treaddir_format (\<lambda>_. True)"
  unfolding treaddir_format_def by (rule wire_law_cong, rule struct_law, (rule wire_laws)+, auto)

record tfsync =
  tfsync_fid :: u32
  tfsync_datasync :: u32

definition tfsync_format :: "tfsync wire_format" where
  "tfsync_format = struct
     (\<lambda>s. (tfsync_fid s, tfsync_datasync s, ()))
     (\<lambda>(a, b, _). \<lparr>tfsync_fid = a, tfsync_datasync = b\<rparr>)
     (field uint_format (field uint_format no_fields))"

lemma tfsync_law [wire_laws]: "wire_law tfsync_format (\<lambda>_. True)"
  unfolding tfsync_format_def by (rule wire_law_cong, rule struct_law, (rule wire_laws)+, auto)

record tlock =
  tlock_fid :: u32
  tlock_type :: u8
  tlock_flags :: u32
  tlock_start :: u64
  tlock_length :: u64
  tlock_proc_id :: u32
  tlock_client_id :: p9_string

definition tlock_format :: "tlock wire_format" where
  "tlock_format = struct
     (\<lambda>s. (tlock_fid s, tlock_type s, tlock_flags s, tlock_start s, tlock_length s, tlock_proc_id s,
        tlock_client_id s, ()))
     (\<lambda>(a, b, c, d, e, f, g, _). \<lparr>tlock_fid = a, tlock_type = b, tlock_flags = c, tlock_start = d,
        tlock_length = e, tlock_proc_id = f, tlock_client_id = g\<rparr>)
     (field uint_format (field uint_format (field uint_format (field uint_format (field uint_format (field
      uint_format (field string_format no_fields)))))))"

definition tlock_valid :: "tlock \<Rightarrow> bool" where
  "tlock_valid s \<longleftrightarrow> string_valid (tlock_client_id s)"

lemma tlock_law [wire_laws]: "wire_law tlock_format tlock_valid"
  unfolding tlock_format_def by (rule wire_law_cong, rule struct_law, (rule wire_laws)+, auto simp: tlock_valid_def vec_valid_def list_all_iff)

record tgetlock =
  tgetlock_fid :: u32
  tgetlock_type :: u8
  tgetlock_start :: u64
  tgetlock_length :: u64
  tgetlock_proc_id :: u32
  tgetlock_client_id :: p9_string

definition tgetlock_format :: "tgetlock wire_format" where
  "tgetlock_format = struct
     (\<lambda>s. (tgetlock_fid s, tgetlock_type s, tgetlock_start s, tgetlock_length s, tgetlock_proc_id s,
        tgetlock_client_id s, ()))
     (\<lambda>(a, b, c, d, e, f, _). \<lparr>tgetlock_fid = a, tgetlock_type = b, tgetlock_start = c,
        tgetlock_length = d, tgetlock_proc_id = e, tgetlock_client_id = f\<rparr>)
     (field uint_format (field uint_format (field uint_format (field uint_format (field uint_format (field
      string_format no_fields))))))"

definition tgetlock_valid :: "tgetlock \<Rightarrow> bool" where
  "tgetlock_valid s \<longleftrightarrow> string_valid (tgetlock_client_id s)"

lemma tgetlock_law [wire_laws]: "wire_law tgetlock_format tgetlock_valid"
  unfolding tgetlock_format_def by (rule wire_law_cong, rule struct_law, (rule wire_laws)+, auto simp: tgetlock_valid_def vec_valid_def list_all_iff)

record tlink =
  tlink_dfid :: u32
  tlink_fid :: u32
  tlink_name :: p9_string

definition tlink_format :: "tlink wire_format" where
  "tlink_format = struct
     (\<lambda>s. (tlink_dfid s, tlink_fid s, tlink_name s, ()))
     (\<lambda>(a, b, c, _). \<lparr>tlink_dfid = a, tlink_fid = b, tlink_name = c\<rparr>)
     (field uint_format (field uint_format (field string_format no_fields)))"

definition tlink_valid :: "tlink \<Rightarrow> bool" where
  "tlink_valid s \<longleftrightarrow> string_valid (tlink_name s)"

lemma tlink_law [wire_laws]: "wire_law tlink_format tlink_valid"
  unfolding tlink_format_def by (rule wire_law_cong, rule struct_law, (rule wire_laws)+, auto simp: tlink_valid_def vec_valid_def list_all_iff)

record tmkdir =
  tmkdir_dfid :: u32
  tmkdir_name :: p9_string
  tmkdir_mode :: u32
  tmkdir_gid :: u32

definition tmkdir_format :: "tmkdir wire_format" where
  "tmkdir_format = struct
     (\<lambda>s. (tmkdir_dfid s, tmkdir_name s, tmkdir_mode s, tmkdir_gid s, ()))
     (\<lambda>(a, b, c, d, _). \<lparr>tmkdir_dfid = a, tmkdir_name = b, tmkdir_mode = c, tmkdir_gid = d\<rparr>)
     (field uint_format (field string_format (field uint_format (field uint_format no_fields))))"

definition tmkdir_valid :: "tmkdir \<Rightarrow> bool" where
  "tmkdir_valid s \<longleftrightarrow> string_valid (tmkdir_name s)"

lemma tmkdir_law [wire_laws]: "wire_law tmkdir_format tmkdir_valid"
  unfolding tmkdir_format_def by (rule wire_law_cong, rule struct_law, (rule wire_laws)+, auto simp: tmkdir_valid_def vec_valid_def list_all_iff)

record trenameat =
  trenameat_olddirfid :: u32
  trenameat_oldname :: p9_string
  trenameat_newdirfid :: u32
  trenameat_newname :: p9_string

definition trenameat_format :: "trenameat wire_format" where
  "trenameat_format = struct
     (\<lambda>s. (trenameat_olddirfid s, trenameat_oldname s, trenameat_newdirfid s, trenameat_newname s, ()))
     (\<lambda>(a, b, c, d, _). \<lparr>trenameat_olddirfid = a, trenameat_oldname = b, trenameat_newdirfid = c,
        trenameat_newname = d\<rparr>)
     (field uint_format (field string_format (field uint_format (field string_format no_fields))))"

definition trenameat_valid :: "trenameat \<Rightarrow> bool" where
  "trenameat_valid s \<longleftrightarrow> string_valid (trenameat_oldname s) \<and> string_valid (trenameat_newname s)"

lemma trenameat_law [wire_laws]: "wire_law trenameat_format trenameat_valid"
  unfolding trenameat_format_def by (rule wire_law_cong, rule struct_law, (rule wire_laws)+, auto simp: trenameat_valid_def vec_valid_def list_all_iff)

record tunlinkat =
  tunlinkat_dirfd :: u32
  tunlinkat_name :: p9_string
  tunlinkat_flags :: u32

definition tunlinkat_format :: "tunlinkat wire_format" where
  "tunlinkat_format = struct
     (\<lambda>s. (tunlinkat_dirfd s, tunlinkat_name s, tunlinkat_flags s, ()))
     (\<lambda>(a, b, c, _). \<lparr>tunlinkat_dirfd = a, tunlinkat_name = b, tunlinkat_flags = c\<rparr>)
     (field uint_format (field string_format (field uint_format no_fields)))"

definition tunlinkat_valid :: "tunlinkat \<Rightarrow> bool" where
  "tunlinkat_valid s \<longleftrightarrow> string_valid (tunlinkat_name s)"

lemma tunlinkat_law [wire_laws]: "wire_law tunlinkat_format tunlinkat_valid"
  unfolding tunlinkat_format_def by (rule wire_law_cong, rule struct_law, (rule wire_laws)+, auto simp: tunlinkat_valid_def vec_valid_def list_all_iff)

datatype tmessage =
    T_version tversion
  | T_flush tflush
  | T_walk twalk
  | T_read tread
  | T_write twrite
  | T_clunk tclunk
  | T_remove tremove
  | T_attach tattach
  | T_auth tauth
  | T_statfs tstatfs
  | T_lopen tlopen
  | T_lcreate tlcreate
  | T_symlink tsymlink
  | T_mknod tmknod
  | T_rename trename
  | T_readlink treadlink
  | T_get_attr tgetattr
  | T_set_attr tsetattr
  | T_xattr_walk txattrwalk
  | T_xattr_create txattrcreate
  | T_readdir treaddir
  | T_fsync tfsync
  | T_lock tlock
  | T_get_lock tgetlock
  | T_link tlink
  | T_mkdir tmkdir
  | T_rename_at trenameat
  | T_unlink_at tunlinkat

fun tmessage_size :: "tmessage \<Rightarrow> u32" where
  "tmessage_size (T_version m) = wf_size tversion_format m"
| "tmessage_size (T_flush m) = wf_size tflush_format m"
| "tmessage_size (T_walk m) = wf_size twalk_format m"
| "tmessage_size (T_read m) = wf_size tread_format m"
| "tmessage_size (T_write m) = wf_size twrite_format m"
| "tmessage_size (T_clunk m) = wf_size tclunk_format m"
| "tmessage_size (T_remove m) = wf_size tremove_format m"
| "tmessage_size (T_attach m) = wf_size tattach_format m"
| "tmessage_size (T_auth m) = wf_size tauth_format m"
| "tmessage_size (T_statfs m) = wf_size tstatfs_format m"
| "tmessage_size (T_lopen m) = wf_size tlopen_format m"
| "tmessage_size (T_lcreate m) = wf_size tlcreate_format m"
| "tmessage_size (T_symlink m) = wf_size tsymlink_format m"
| "tmessage_size (T_mknod m) = wf_size tmknod_format m"
| "tmessage_size (T_rename m) = wf_size trename_format m"
| "tmessage_size (T_readlink m) = wf_size treadlink_format m"
| "tmessage_size (T_get_attr m) = wf_size tgetattr_format m"
| "tmessage_size (T_set_attr m) = wf_size tsetattr_format m"
| "tmessage_size (T_xattr_walk m) = wf_size txattrwalk_format m"
| "tmessage_size (T_xattr_create m) = wf_size txattrcreate_format m"
| "tmessage_size (T_readdir m) = wf_size treaddir_format m"
| "tmessage_size (T_fsync m) = wf_size tfsync_format m"
| "tmessage_size (T_lock m) = wf_size tlock_format m"
| "tmessage_size (T_get_lock m) = wf_size tgetlock_format m"
| "tmessage_size (T_link m) = wf_size tlink_format m"
| "tmessage_size (T_mkdir m) = wf_size tmkdir_format m"
| "tmessage_size (T_rename_at m) = wf_size trenameat_format m"
| "tmessage_size (T_unlink_at m) = wf_size tunlinkat_format m"

fun tmessage_type :: "tmessage \<Rightarrow> u8" where
  "tmessage_type (T_version _) = 100"
| "tmessage_type (T_flush _) = 108"
| "tmessage_type (T_walk _) = 110"
| "tmessage_type (T_read _) = 116"
| "tmessage_type (T_write _) = 118"
| "tmessage_type (T_clunk _) = 120"
| "tmessage_type (T_remove _) = 122"
| "tmessage_type (T_attach _) = 104"
| "tmessage_type (T_auth _) = 102"
| "tmessage_type (T_statfs _) = 8"
| "tmessage_type (T_lopen _) = 12"
| "tmessage_type (T_lcreate _) = 14"
| "tmessage_type (T_symlink _) = 16"
| "tmessage_type (T_mknod _) = 18"
| "tmessage_type (T_rename _) = 20"
| "tmessage_type (T_readlink _) = 22"
| "tmessage_type (T_get_attr _) = 24"
| "tmessage_type (T_set_attr _) = 26"
| "tmessage_type (T_xattr_walk _) = 30"
| "tmessage_type (T_xattr_create _) = 32"
| "tmessage_type (T_readdir _) = 40"
| "tmessage_type (T_fsync _) = 50"
| "tmessage_type (T_lock _) = 52"
| "tmessage_type (T_get_lock _) = 54"
| "tmessage_type (T_link _) = 70"
| "tmessage_type (T_mkdir _) = 72"
| "tmessage_type (T_rename_at _) = 74"
| "tmessage_type (T_unlink_at _) = 76"

fun tmessage_encode :: "tmessage encoder" where
  "tmessage_encode (T_version m) = wf_encode tversion_format m"
| "tmessage_encode (T_flush m) = wf_encode tflush_format m"
| "tmessage_encode (T_walk m) = wf_encode twalk_format m"
| "tmessage_encode (T_read m) = wf_encode tread_format m"
| "tmessage_encode (T_write m) = wf_encode twrite_format m"
| "tmessage_encode (T_clunk m) = wf_encode tclunk_format m"
| "tmessage_encode (T_remove m) = wf_encode tremove_format m"
| "tmessage_encode (T_attach m) = wf_encode tattach_format m"
| "tmessage_encode (T_auth m) = wf_encode tauth_format m"
| "tmessage_encode (T_statfs m) = wf_encode tstatfs_format m"
| "tmessage_encode (T_lopen m) = wf_encode tlopen_format m"
| "tmessage_encode (T_lcreate m) = wf_encode tlcreate_format m"
| "tmessage_encode (T_symlink m) = wf_encode tsymlink_format m"
| "tmessage_encode (T_mknod m) = wf_encode tmknod_format m"
| "tmessage_encode (T_rename m) = wf_encode trename_format m"
| "tmessage_encode (T_readlink m) = wf_encode treadlink_format m"
| "tmessage_encode (T_get_attr m) = wf_encode tgetattr_format m"
| "tmessage_encode (T_set_attr m) = wf_encode tsetattr_format m"
| "tmessage_encode (T_xattr_walk m) = wf_encode txattrwalk_format m"
| "tmessage_encode (T_xattr_create m) = wf_encode txattrcreate_format m"
| "tmessage_encode (T_readdir m) = wf_encode treaddir_format m"
| "tmessage_encode (T_fsync m) = wf_encode tfsync_format m"
| "tmessage_encode (T_lock m) = wf_encode tlock_format m"
| "tmessage_encode (T_get_lock m) = wf_encode tgetlock_format m"
| "tmessage_encode (T_link m) = wf_encode tlink_format m"
| "tmessage_encode (T_mkdir m) = wf_encode tmkdir_format m"
| "tmessage_encode (T_rename_at m) = wf_encode trenameat_format m"
| "tmessage_encode (T_unlink_at m) = wf_encode tunlinkat_format m"

definition tmessage_decode :: "u8 \<Rightarrow> tmessage decoder" where
  "tmessage_decode ty =
     (if ty = 100 then dec_map T_version (wf_decode tversion_format)
      else if ty = 108 then dec_map T_flush (wf_decode tflush_format)
      else if ty = 110 then dec_map T_walk (wf_decode twalk_format)
      else if ty = 116 then dec_map T_read (wf_decode tread_format)
      else if ty = 118 then dec_map T_write (wf_decode twrite_format)
      else if ty = 120 then dec_map T_clunk (wf_decode tclunk_format)
      else if ty = 122 then dec_map T_remove (wf_decode tremove_format)
      else if ty = 104 then dec_map T_attach (wf_decode tattach_format)
      else if ty = 102 then dec_map T_auth (wf_decode tauth_format)
      else if ty = 8 then dec_map T_statfs (wf_decode tstatfs_format)
      else if ty = 12 then dec_map T_lopen (wf_decode tlopen_format)
      else if ty = 14 then dec_map T_lcreate (wf_decode tlcreate_format)
      else if ty = 16 then dec_map T_symlink (wf_decode tsymlink_format)
      else if ty = 18 then dec_map T_mknod (wf_decode tmknod_format)
      else if ty = 20 then dec_map T_rename (wf_decode trename_format)
      else if ty = 22 then dec_map T_readlink (wf_decode treadlink_format)
      else if ty = 24 then dec_map T_get_attr (wf_decode tgetattr_format)
      else if ty = 26 then dec_map T_set_attr (wf_decode tsetattr_format)
      else if ty = 30 then dec_map T_xattr_walk (wf_decode txattrwalk_format)
      else if ty = 32 then dec_map T_xattr_create (wf_decode txattrcreate_format)
      else if ty = 40 then dec_map T_readdir (wf_decode treaddir_format)
      else if ty = 50 then dec_map T_fsync (wf_decode tfsync_format)
      else if ty = 52 then dec_map T_lock (wf_decode tlock_format)
      else if ty = 54 then dec_map T_get_lock (wf_decode tgetlock_format)
      else if ty = 70 then dec_map T_link (wf_decode tlink_format)
      else if ty = 72 then dec_map T_mkdir (wf_decode tmkdir_format)
      else if ty = 74 then dec_map T_rename_at (wf_decode trenameat_format)
      else if ty = 76 then dec_map T_unlink_at (wf_decode tunlinkat_format)
      else dec_fail (Kind Invalid_data))"

fun tmessage_valid :: "tmessage \<Rightarrow> bool" where
  "tmessage_valid (T_version m) = tversion_valid m"
| "tmessage_valid (T_walk m) = twalk_valid m"
| "tmessage_valid (T_write m) = twrite_valid m"
| "tmessage_valid (T_attach m) = tattach_valid m"
| "tmessage_valid (T_auth m) = tauth_valid m"
| "tmessage_valid (T_lcreate m) = tlcreate_valid m"
| "tmessage_valid (T_symlink m) = tsymlink_valid m"
| "tmessage_valid (T_mknod m) = tmknod_valid m"
| "tmessage_valid (T_rename m) = trename_valid m"
| "tmessage_valid (T_xattr_walk m) = txattrwalk_valid m"
| "tmessage_valid (T_xattr_create m) = txattrcreate_valid m"
| "tmessage_valid (T_lock m) = tlock_valid m"
| "tmessage_valid (T_get_lock m) = tgetlock_valid m"
| "tmessage_valid (T_link m) = tlink_valid m"
| "tmessage_valid (T_mkdir m) = tmkdir_valid m"
| "tmessage_valid (T_rename_at m) = trenameat_valid m"
| "tmessage_valid (T_unlink_at m) = tunlinkat_valid m"
| "tmessage_valid _ = True"
end
