(* ===== verification/P9_Responses.thy ===== *)
theory P9_Responses
  imports P9_Wire
begin

text \<open>
  The responses of the 9P protocol (\<^verbatim>\<open>p9/src/protocol/messages.rs\<close>): their structs with the
  derived wire formats, and the type of the messages a server sends.
\<close>

record qid =
  qid_ty :: u8
  qid_version :: u32
  qid_path :: u64

definition qid_format :: "qid wire_format" where
  "qid_format = struct
     (\<lambda>s. (qid_ty s, qid_version s, qid_path s, ()))
     (\<lambda>(a, b, c, _). \<lparr>qid_ty = a, qid_version = b, qid_path = c\<rparr>)
     (field uint_format (field uint_format (field uint_format no_fields)))"

lemma qid_law [wire_laws]: "wire_law qid_format (\<lambda>_. True)"
  unfolding qid_format_def by (rule wire_law_cong, rule struct_law, (rule wire_laws)+, auto)

record dirent =
  dirent_qid :: qid
  dirent_offset :: u64
  dirent_ty :: u8
  dirent_name :: p9_string

definition dirent_format :: "dirent wire_format" where
  "dirent_format = struct
     (\<lambda>s. (dirent_qid s, dirent_offset s, dirent_ty s, dirent_name s, ()))
     (\<lambda>(a, b, c, d, _). \<lparr>dirent_qid = a, dirent_offset = b, dirent_ty = c, dirent_name = d\<rparr>)
     (field qid_format (field uint_format (field uint_format (field string_format no_fields))))"

definition dirent_valid :: "dirent \<Rightarrow> bool" where
  "dirent_valid s \<longleftrightarrow> string_valid (dirent_name s)"

lemma dirent_law [wire_laws]: "wire_law dirent_format dirent_valid"
  unfolding dirent_format_def by (rule wire_law_cong, rule struct_law, (rule wire_laws)+, auto simp: dirent_valid_def vec_valid_def list_all_iff)

record rversion =
  rversion_msize :: u32
  rversion_version :: p9_string

definition rversion_format :: "rversion wire_format" where
  "rversion_format = struct
     (\<lambda>s. (rversion_msize s, rversion_version s, ()))
     (\<lambda>(a, b, _). \<lparr>rversion_msize = a, rversion_version = b\<rparr>)
     (field uint_format (field string_format no_fields))"

definition rversion_valid :: "rversion \<Rightarrow> bool" where
  "rversion_valid s \<longleftrightarrow> string_valid (rversion_version s)"

lemma rversion_law [wire_laws]: "wire_law rversion_format rversion_valid"
  unfolding rversion_format_def by (rule wire_law_cong, rule struct_law, (rule wire_laws)+, auto simp: rversion_valid_def vec_valid_def list_all_iff)

record rwalk =
  rwalk_wqids :: "qid list"

definition rwalk_format :: "rwalk wire_format" where
  "rwalk_format = struct
     (\<lambda>s. (rwalk_wqids s, ()))
     (\<lambda>(a, _). \<lparr>rwalk_wqids = a\<rparr>)
     (field (vec_format qid_format) no_fields)"

definition rwalk_valid :: "rwalk \<Rightarrow> bool" where
  "rwalk_valid s \<longleftrightarrow> length (rwalk_wqids s) \<le> 65535"

lemma rwalk_law [wire_laws]: "wire_law rwalk_format rwalk_valid"
  unfolding rwalk_format_def by (rule wire_law_cong, rule struct_law, (rule wire_laws)+, auto simp: rwalk_valid_def vec_valid_def list_all_iff)

record rread =
  rread_data :: "u8 list"

definition rread_format :: "rread wire_format" where
  "rread_format = struct
     (\<lambda>s. (rread_data s, ()))
     (\<lambda>(a, _). \<lparr>rread_data = a\<rparr>)
     (field data_format no_fields)"

definition rread_valid :: "rread \<Rightarrow> bool" where
  "rread_valid s \<longleftrightarrow> data_valid (rread_data s)"

lemma rread_law [wire_laws]: "wire_law rread_format rread_valid"
  unfolding rread_format_def by (rule wire_law_cong, rule struct_law, (rule wire_laws)+, auto simp: rread_valid_def vec_valid_def list_all_iff)

record rwrite =
  rwrite_count :: u32

definition rwrite_format :: "rwrite wire_format" where
  "rwrite_format = struct
     (\<lambda>s. (rwrite_count s, ()))
     (\<lambda>(a, _). \<lparr>rwrite_count = a\<rparr>)
     (field uint_format no_fields)"

lemma rwrite_law [wire_laws]: "wire_law rwrite_format (\<lambda>_. True)"
  unfolding rwrite_format_def by (rule wire_law_cong, rule struct_law, (rule wire_laws)+, auto)

record rauth =
  rauth_aqid :: qid

definition rauth_format :: "rauth wire_format" where
  "rauth_format = struct
     (\<lambda>s. (rauth_aqid s, ()))
     (\<lambda>(a, _). \<lparr>rauth_aqid = a\<rparr>)
     (field qid_format no_fields)"

lemma rauth_law [wire_laws]: "wire_law rauth_format (\<lambda>_. True)"
  unfolding rauth_format_def by (rule wire_law_cong, rule struct_law, (rule wire_laws)+, auto)

record rattach =
  rattach_qid :: qid

definition rattach_format :: "rattach wire_format" where
  "rattach_format = struct
     (\<lambda>s. (rattach_qid s, ()))
     (\<lambda>(a, _). \<lparr>rattach_qid = a\<rparr>)
     (field qid_format no_fields)"

lemma rattach_law [wire_laws]: "wire_law rattach_format (\<lambda>_. True)"
  unfolding rattach_format_def by (rule wire_law_cong, rule struct_law, (rule wire_laws)+, auto)

record rlerror =
  rlerror_ecode :: u32

definition rlerror_format :: "rlerror wire_format" where
  "rlerror_format = struct
     (\<lambda>s. (rlerror_ecode s, ()))
     (\<lambda>(a, _). \<lparr>rlerror_ecode = a\<rparr>)
     (field uint_format no_fields)"

lemma rlerror_law [wire_laws]: "wire_law rlerror_format (\<lambda>_. True)"
  unfolding rlerror_format_def by (rule wire_law_cong, rule struct_law, (rule wire_laws)+, auto)

record rstatfs =
  rstatfs_ty :: u32
  rstatfs_bsize :: u32
  rstatfs_blocks :: u64
  rstatfs_bfree :: u64
  rstatfs_bavail :: u64
  rstatfs_files :: u64
  rstatfs_ffree :: u64
  rstatfs_fsid :: u64
  rstatfs_namelen :: u32

definition rstatfs_format :: "rstatfs wire_format" where
  "rstatfs_format = struct
     (\<lambda>s. (rstatfs_ty s, rstatfs_bsize s, rstatfs_blocks s, rstatfs_bfree s, rstatfs_bavail s, rstatfs_files s,
        rstatfs_ffree s, rstatfs_fsid s, rstatfs_namelen s, ()))
     (\<lambda>(a, b, c, d, e, f, g, h, i, _). \<lparr>rstatfs_ty = a, rstatfs_bsize = b, rstatfs_blocks = c,
        rstatfs_bfree = d, rstatfs_bavail = e, rstatfs_files = f, rstatfs_ffree = g, rstatfs_fsid = h,
        rstatfs_namelen = i\<rparr>)
     (field uint_format (field uint_format (field uint_format (field uint_format (field uint_format (field
      uint_format (field uint_format (field uint_format (field uint_format no_fields)))))))))"

lemma rstatfs_law [wire_laws]: "wire_law rstatfs_format (\<lambda>_. True)"
  unfolding rstatfs_format_def by (rule wire_law_cong, rule struct_law, (rule wire_laws)+, auto)

record rlopen =
  rlopen_qid :: qid
  rlopen_iounit :: u32

definition rlopen_format :: "rlopen wire_format" where
  "rlopen_format = struct
     (\<lambda>s. (rlopen_qid s, rlopen_iounit s, ()))
     (\<lambda>(a, b, _). \<lparr>rlopen_qid = a, rlopen_iounit = b\<rparr>)
     (field qid_format (field uint_format no_fields))"

lemma rlopen_law [wire_laws]: "wire_law rlopen_format (\<lambda>_. True)"
  unfolding rlopen_format_def by (rule wire_law_cong, rule struct_law, (rule wire_laws)+, auto)

record rlcreate =
  rlcreate_qid :: qid
  rlcreate_iounit :: u32

definition rlcreate_format :: "rlcreate wire_format" where
  "rlcreate_format = struct
     (\<lambda>s. (rlcreate_qid s, rlcreate_iounit s, ()))
     (\<lambda>(a, b, _). \<lparr>rlcreate_qid = a, rlcreate_iounit = b\<rparr>)
     (field qid_format (field uint_format no_fields))"

lemma rlcreate_law [wire_laws]: "wire_law rlcreate_format (\<lambda>_. True)"
  unfolding rlcreate_format_def by (rule wire_law_cong, rule struct_law, (rule wire_laws)+, auto)

record rsymlink =
  rsymlink_qid :: qid

definition rsymlink_format :: "rsymlink wire_format" where
  "rsymlink_format = struct
     (\<lambda>s. (rsymlink_qid s, ()))
     (\<lambda>(a, _). \<lparr>rsymlink_qid = a\<rparr>)
     (field qid_format no_fields)"

lemma rsymlink_law [wire_laws]: "wire_law rsymlink_format (\<lambda>_. True)"
  unfolding rsymlink_format_def by (rule wire_law_cong, rule struct_law, (rule wire_laws)+, auto)

record rmknod =
  rmknod_qid :: qid

definition rmknod_format :: "rmknod wire_format" where
  "rmknod_format = struct
     (\<lambda>s. (rmknod_qid s, ()))
     (\<lambda>(a, _). \<lparr>rmknod_qid = a\<rparr>)
     (field qid_format no_fields)"

lemma rmknod_law [wire_laws]: "wire_law rmknod_format (\<lambda>_. True)"
  unfolding rmknod_format_def by (rule wire_law_cong, rule struct_law, (rule wire_laws)+, auto)

record rreadlink =
  rreadlink_target :: p9_string

definition rreadlink_format :: "rreadlink wire_format" where
  "rreadlink_format = struct
     (\<lambda>s. (rreadlink_target s, ()))
     (\<lambda>(a, _). \<lparr>rreadlink_target = a\<rparr>)
     (field string_format no_fields)"

definition rreadlink_valid :: "rreadlink \<Rightarrow> bool" where
  "rreadlink_valid s \<longleftrightarrow> string_valid (rreadlink_target s)"

lemma rreadlink_law [wire_laws]: "wire_law rreadlink_format rreadlink_valid"
  unfolding rreadlink_format_def by (rule wire_law_cong, rule struct_law, (rule wire_laws)+, auto simp: rreadlink_valid_def vec_valid_def list_all_iff)

record rgetattr =
  rgetattr_valid :: u64
  rgetattr_qid :: qid
  rgetattr_mode :: u32
  rgetattr_uid :: u32
  rgetattr_gid :: u32
  rgetattr_nlink :: u64
  rgetattr_rdev :: u64
  rgetattr_size :: u64
  rgetattr_blksize :: u64
  rgetattr_blocks :: u64
  rgetattr_atime_sec :: u64
  rgetattr_atime_nsec :: u64
  rgetattr_mtime_sec :: u64
  rgetattr_mtime_nsec :: u64
  rgetattr_ctime_sec :: u64
  rgetattr_ctime_nsec :: u64
  rgetattr_btime_sec :: u64
  rgetattr_btime_nsec :: u64
  rgetattr_gen :: u64
  rgetattr_data_version :: u64

definition rgetattr_format :: "rgetattr wire_format" where
  "rgetattr_format = struct
     (\<lambda>s. (rgetattr_valid s, rgetattr_qid s, rgetattr_mode s, rgetattr_uid s, rgetattr_gid s, rgetattr_nlink s,
        rgetattr_rdev s, rgetattr_size s, rgetattr_blksize s, rgetattr_blocks s, rgetattr_atime_sec s,
        rgetattr_atime_nsec s, rgetattr_mtime_sec s, rgetattr_mtime_nsec s, rgetattr_ctime_sec s,
        rgetattr_ctime_nsec s, rgetattr_btime_sec s, rgetattr_btime_nsec s, rgetattr_gen s, rgetattr_data_version s,
        ()))
     (\<lambda>(x1, x2, x3, x4, x5, x6, x7, x8, x9, x10, x11, x12, x13, x14, x15, x16, x17, x18, x19, x20,
        _). \<lparr>rgetattr_valid = x1, rgetattr_qid = x2, rgetattr_mode = x3, rgetattr_uid = x4,
        rgetattr_gid = x5, rgetattr_nlink = x6, rgetattr_rdev = x7, rgetattr_size = x8, rgetattr_blksize = x9,
        rgetattr_blocks = x10, rgetattr_atime_sec = x11, rgetattr_atime_nsec = x12, rgetattr_mtime_sec = x13,
        rgetattr_mtime_nsec = x14, rgetattr_ctime_sec = x15, rgetattr_ctime_nsec = x16, rgetattr_btime_sec = x17,
        rgetattr_btime_nsec = x18, rgetattr_gen = x19, rgetattr_data_version = x20\<rparr>)
     (field uint_format (field qid_format (field uint_format (field uint_format (field uint_format (field
      uint_format (field uint_format (field uint_format (field uint_format (field uint_format (field uint_format
      (field uint_format (field uint_format (field uint_format (field uint_format (field uint_format (field
      uint_format (field uint_format (field uint_format (field uint_format no_fields))))))))))))))))))))"

lemma rgetattr_law [wire_laws]: "wire_law rgetattr_format (\<lambda>_. True)"
  unfolding rgetattr_format_def by (rule wire_law_cong, rule struct_law, (rule wire_laws)+, auto)

record rxattrwalk =
  rxattrwalk_size :: u64

definition rxattrwalk_format :: "rxattrwalk wire_format" where
  "rxattrwalk_format = struct
     (\<lambda>s. (rxattrwalk_size s, ()))
     (\<lambda>(a, _). \<lparr>rxattrwalk_size = a\<rparr>)
     (field uint_format no_fields)"

lemma rxattrwalk_law [wire_laws]: "wire_law rxattrwalk_format (\<lambda>_. True)"
  unfolding rxattrwalk_format_def by (rule wire_law_cong, rule struct_law, (rule wire_laws)+, auto)

record rreaddir =
  rreaddir_data :: "u8 list"

definition rreaddir_format :: "rreaddir wire_format" where
  "rreaddir_format = struct
     (\<lambda>s. (rreaddir_data s, ()))
     (\<lambda>(a, _). \<lparr>rreaddir_data = a\<rparr>)
     (field data_format no_fields)"

definition rreaddir_valid :: "rreaddir \<Rightarrow> bool" where
  "rreaddir_valid s \<longleftrightarrow> data_valid (rreaddir_data s)"

lemma rreaddir_law [wire_laws]: "wire_law rreaddir_format rreaddir_valid"
  unfolding rreaddir_format_def by (rule wire_law_cong, rule struct_law, (rule wire_laws)+, auto simp: rreaddir_valid_def vec_valid_def list_all_iff)

record rlock =
  rlock_status :: u8

definition rlock_format :: "rlock wire_format" where
  "rlock_format = struct
     (\<lambda>s. (rlock_status s, ()))
     (\<lambda>(a, _). \<lparr>rlock_status = a\<rparr>)
     (field uint_format no_fields)"

lemma rlock_law [wire_laws]: "wire_law rlock_format (\<lambda>_. True)"
  unfolding rlock_format_def by (rule wire_law_cong, rule struct_law, (rule wire_laws)+, auto)

record rgetlock =
  rgetlock_ty :: u8
  rgetlock_start :: u64
  rgetlock_length :: u64
  rgetlock_proc_id :: u32
  rgetlock_client_id :: p9_string

definition rgetlock_format :: "rgetlock wire_format" where
  "rgetlock_format = struct
     (\<lambda>s. (rgetlock_ty s, rgetlock_start s, rgetlock_length s, rgetlock_proc_id s, rgetlock_client_id s, ()))
     (\<lambda>(a, b, c, d, e, _). \<lparr>rgetlock_ty = a, rgetlock_start = b, rgetlock_length = c,
        rgetlock_proc_id = d, rgetlock_client_id = e\<rparr>)
     (field uint_format (field uint_format (field uint_format (field uint_format (field string_format
      no_fields)))))"

definition rgetlock_valid :: "rgetlock \<Rightarrow> bool" where
  "rgetlock_valid s \<longleftrightarrow> string_valid (rgetlock_client_id s)"

lemma rgetlock_law [wire_laws]: "wire_law rgetlock_format rgetlock_valid"
  unfolding rgetlock_format_def by (rule wire_law_cong, rule struct_law, (rule wire_laws)+, auto simp: rgetlock_valid_def vec_valid_def list_all_iff)

record rmkdir =
  rmkdir_qid :: qid

definition rmkdir_format :: "rmkdir wire_format" where
  "rmkdir_format = struct
     (\<lambda>s. (rmkdir_qid s, ()))
     (\<lambda>(a, _). \<lparr>rmkdir_qid = a\<rparr>)
     (field qid_format no_fields)"

lemma rmkdir_law [wire_laws]: "wire_law rmkdir_format (\<lambda>_. True)"
  unfolding rmkdir_format_def by (rule wire_law_cong, rule struct_law, (rule wire_laws)+, auto)

datatype rmessage =
    R_version rversion
  | R_flush
  | R_walk rwalk
  | R_read rread
  | R_write rwrite
  | R_clunk
  | R_remove
  | R_attach rattach
  | R_auth rauth
  | R_statfs rstatfs
  | R_lopen rlopen
  | R_lcreate rlcreate
  | R_symlink rsymlink
  | R_mknod rmknod
  | R_rename
  | R_readlink rreadlink
  | R_get_attr rgetattr
  | R_set_attr
  | R_xattr_walk rxattrwalk
  | R_xattr_create
  | R_readdir rreaddir
  | R_fsync
  | R_lock rlock
  | R_get_lock rgetlock
  | R_link
  | R_mkdir rmkdir
  | R_rename_at
  | R_unlink_at
  | R_lerror rlerror

fun rmessage_size :: "rmessage \<Rightarrow> u32" where
  "rmessage_size (R_version m) = wf_size rversion_format m"
| "rmessage_size R_flush = 0"
| "rmessage_size (R_walk m) = wf_size rwalk_format m"
| "rmessage_size (R_read m) = wf_size rread_format m"
| "rmessage_size (R_write m) = wf_size rwrite_format m"
| "rmessage_size R_clunk = 0"
| "rmessage_size R_remove = 0"
| "rmessage_size (R_attach m) = wf_size rattach_format m"
| "rmessage_size (R_auth m) = wf_size rauth_format m"
| "rmessage_size (R_statfs m) = wf_size rstatfs_format m"
| "rmessage_size (R_lopen m) = wf_size rlopen_format m"
| "rmessage_size (R_lcreate m) = wf_size rlcreate_format m"
| "rmessage_size (R_symlink m) = wf_size rsymlink_format m"
| "rmessage_size (R_mknod m) = wf_size rmknod_format m"
| "rmessage_size R_rename = 0"
| "rmessage_size (R_readlink m) = wf_size rreadlink_format m"
| "rmessage_size (R_get_attr m) = wf_size rgetattr_format m"
| "rmessage_size R_set_attr = 0"
| "rmessage_size (R_xattr_walk m) = wf_size rxattrwalk_format m"
| "rmessage_size R_xattr_create = 0"
| "rmessage_size (R_readdir m) = wf_size rreaddir_format m"
| "rmessage_size R_fsync = 0"
| "rmessage_size (R_lock m) = wf_size rlock_format m"
| "rmessage_size (R_get_lock m) = wf_size rgetlock_format m"
| "rmessage_size R_link = 0"
| "rmessage_size (R_mkdir m) = wf_size rmkdir_format m"
| "rmessage_size R_rename_at = 0"
| "rmessage_size R_unlink_at = 0"
| "rmessage_size (R_lerror m) = wf_size rlerror_format m"

fun rmessage_type :: "rmessage \<Rightarrow> u8" where
  "rmessage_type (R_version _) = 101"
| "rmessage_type R_flush = 109"
| "rmessage_type (R_walk _) = 111"
| "rmessage_type (R_read _) = 117"
| "rmessage_type (R_write _) = 119"
| "rmessage_type R_clunk = 121"
| "rmessage_type R_remove = 123"
| "rmessage_type (R_attach _) = 105"
| "rmessage_type (R_auth _) = 103"
| "rmessage_type (R_statfs _) = 9"
| "rmessage_type (R_lopen _) = 13"
| "rmessage_type (R_lcreate _) = 15"
| "rmessage_type (R_symlink _) = 17"
| "rmessage_type (R_mknod _) = 19"
| "rmessage_type R_rename = 21"
| "rmessage_type (R_readlink _) = 23"
| "rmessage_type (R_get_attr _) = 25"
| "rmessage_type R_set_attr = 27"
| "rmessage_type (R_xattr_walk _) = 31"
| "rmessage_type R_xattr_create = 33"
| "rmessage_type (R_readdir _) = 41"
| "rmessage_type R_fsync = 51"
| "rmessage_type (R_lock _) = 53"
| "rmessage_type (R_get_lock _) = 55"
| "rmessage_type R_link = 71"
| "rmessage_type (R_mkdir _) = 73"
| "rmessage_type R_rename_at = 75"
| "rmessage_type R_unlink_at = 77"
| "rmessage_type (R_lerror _) = 7"

fun rmessage_encode :: "rmessage encoder" where
  "rmessage_encode (R_version m) = wf_encode rversion_format m"
| "rmessage_encode R_flush = enc_ok []"
| "rmessage_encode (R_walk m) = wf_encode rwalk_format m"
| "rmessage_encode (R_read m) = wf_encode rread_format m"
| "rmessage_encode (R_write m) = wf_encode rwrite_format m"
| "rmessage_encode R_clunk = enc_ok []"
| "rmessage_encode R_remove = enc_ok []"
| "rmessage_encode (R_attach m) = wf_encode rattach_format m"
| "rmessage_encode (R_auth m) = wf_encode rauth_format m"
| "rmessage_encode (R_statfs m) = wf_encode rstatfs_format m"
| "rmessage_encode (R_lopen m) = wf_encode rlopen_format m"
| "rmessage_encode (R_lcreate m) = wf_encode rlcreate_format m"
| "rmessage_encode (R_symlink m) = wf_encode rsymlink_format m"
| "rmessage_encode (R_mknod m) = wf_encode rmknod_format m"
| "rmessage_encode R_rename = enc_ok []"
| "rmessage_encode (R_readlink m) = wf_encode rreadlink_format m"
| "rmessage_encode (R_get_attr m) = wf_encode rgetattr_format m"
| "rmessage_encode R_set_attr = enc_ok []"
| "rmessage_encode (R_xattr_walk m) = wf_encode rxattrwalk_format m"
| "rmessage_encode R_xattr_create = enc_ok []"
| "rmessage_encode (R_readdir m) = wf_encode rreaddir_format m"
| "rmessage_encode R_fsync = enc_ok []"
| "rmessage_encode (R_lock m) = wf_encode rlock_format m"
| "rmessage_encode (R_get_lock m) = wf_encode rgetlock_format m"
| "rmessage_encode R_link = enc_ok []"
| "rmessage_encode (R_mkdir m) = wf_encode rmkdir_format m"
| "rmessage_encode R_rename_at = enc_ok []"
| "rmessage_encode R_unlink_at = enc_ok []"
| "rmessage_encode (R_lerror m) = wf_encode rlerror_format m"

definition rmessage_decode :: "u8 \<Rightarrow> rmessage decoder" where
  "rmessage_decode ty =
     (if ty = 101 then dec_map R_version (wf_decode rversion_format)
      else if ty = 109 then dec_return R_flush
      else if ty = 111 then dec_map R_walk (wf_decode rwalk_format)
      else if ty = 117 then dec_map R_read (wf_decode rread_format)
      else if ty = 119 then dec_map R_write (wf_decode rwrite_format)
      else if ty = 121 then dec_return R_clunk
      else if ty = 123 then dec_return R_remove
      else if ty = 105 then dec_map R_attach (wf_decode rattach_format)
      else if ty = 103 then dec_map R_auth (wf_decode rauth_format)
      else if ty = 9 then dec_map R_statfs (wf_decode rstatfs_format)
      else if ty = 13 then dec_map R_lopen (wf_decode rlopen_format)
      else if ty = 15 then dec_map R_lcreate (wf_decode rlcreate_format)
      else if ty = 17 then dec_map R_symlink (wf_decode rsymlink_format)
      else if ty = 19 then dec_map R_mknod (wf_decode rmknod_format)
      else if ty = 21 then dec_return R_rename
      else if ty = 23 then dec_map R_readlink (wf_decode rreadlink_format)
      else if ty = 25 then dec_map R_get_attr (wf_decode rgetattr_format)
      else if ty = 27 then dec_return R_set_attr
      else if ty = 31 then dec_map R_xattr_walk (wf_decode rxattrwalk_format)
      else if ty = 33 then dec_return R_xattr_create
      else if ty = 41 then dec_map R_readdir (wf_decode rreaddir_format)
      else if ty = 51 then dec_return R_fsync
      else if ty = 53 then dec_map R_lock (wf_decode rlock_format)
      else if ty = 55 then dec_map R_get_lock (wf_decode rgetlock_format)
      else if ty = 71 then dec_return R_link
      else if ty = 73 then dec_map R_mkdir (wf_decode rmkdir_format)
      else if ty = 75 then dec_return R_rename_at
      else if ty = 77 then dec_return R_unlink_at
      else if ty = 7 then dec_map R_lerror (wf_decode rlerror_format)
      else dec_fail (Kind Invalid_data))"

fun rmessage_valid :: "rmessage \<Rightarrow> bool" where
  "rmessage_valid (R_version m) = rversion_valid m"
| "rmessage_valid (R_walk m) = rwalk_valid m"
| "rmessage_valid (R_read m) = rread_valid m"
| "rmessage_valid (R_readlink m) = rreadlink_valid m"
| "rmessage_valid (R_readdir m) = rreaddir_valid m"
| "rmessage_valid (R_get_lock m) = rgetlock_valid m"
| "rmessage_valid _ = True"
end
