(* ===== verification/P9_Frames.thy ===== *)
theory P9_Frames
  imports P9_Requests P9_Responses
begin

text \<open>
  The frames of the 9P protocol (\<^verbatim>\<open>Tframe\<close> and \<^verbatim>\<open>Rframe\<close> of
  \<^verbatim>\<open>p9/src/protocol/messages.rs\<close>): a message with its size, its type and its tag.
\<close>

section \<open>Frames\<close>

text \<open>The size on the wire counts the size itself, the type, the tag and the message.\<close>

definition frame_encode :: "u32 \<Rightarrow> u8 \<Rightarrow> u16 \<Rightarrow> (p9_error + unit) \<times> u8 list \<Rightarrow> (p9_error + unit) \<times> u8 list" where
  "frame_encode n ty tag msg =
     enc_seq (wf_encode uint_format n) (enc_seq (wf_encode uint_format ty) (enc_seq (wf_encode uint_format tag) msg))"

definition frame_body :: "(u8 \<Rightarrow> 'm decoder) \<Rightarrow> (u16 \<times> 'm) decoder" where
  "frame_body dec =
     dec_bind (rd_exact 1) (\<lambda>ty.
     dec_bind (wf_decode uint_format) (\<lambda>tag.
     dec_bind (dec (ty ! 0)) (\<lambda>msg. dec_return (tag, msg))))"

record tframe =
  tframe_tag :: u16
  tframe_msg :: tmessage

definition tframe_size :: "tframe \<Rightarrow> u32" where
  "tframe_size f = 7 + tmessage_size (tframe_msg f)"

definition tframe_encode :: "tframe encoder" where
  "tframe_encode f = frame_encode (tframe_size f) (tmessage_type (tframe_msg f)) (tframe_tag f) (tmessage_encode (tframe_msg f))"

definition tframe_decode :: "tframe decoder" where
  "tframe_decode =
     dec_bind (wf_decode uint_format) (\<lambda>byte_size :: u32.
     if byte_size < 4 then dec_fail (Kind Invalid_data)
     else rd_take (unat (byte_size - 4))
       (dec_map (\<lambda>(tag, msg). \<lparr>tframe_tag = tag, tframe_msg = msg\<rparr>) (frame_body tmessage_decode)))"

record rframe =
  rframe_tag :: u16
  rframe_msg :: rmessage

definition rframe_size :: "rframe \<Rightarrow> u32" where
  "rframe_size f = 7 + rmessage_size (rframe_msg f)"

definition rframe_encode :: "rframe encoder" where
  "rframe_encode f = frame_encode (rframe_size f) (rmessage_type (rframe_msg f)) (rframe_tag f) (rmessage_encode (rframe_msg f))"

definition rframe_decode :: "rframe decoder" where
  "rframe_decode =
     dec_bind (wf_decode uint_format) (\<lambda>byte_size :: u32.
     rd_take (unat (byte_size - 4))
       (dec_map (\<lambda>(tag, msg). \<lparr>rframe_tag = tag, rframe_msg = msg\<rparr>) (frame_body rmessage_decode)))"

text \<open>A frame is valid if its message is, and if its length is a number of 32 bits.\<close>

definition tframe_valid :: "tframe \<Rightarrow> bool" where
  "tframe_valid f \<longleftrightarrow> tmessage_valid (tframe_msg f) \<and> 7 + length (snd (tmessage_encode (tframe_msg f))) < 2 ^ 32"

definition rframe_valid :: "rframe \<Rightarrow> bool" where
  "rframe_valid f \<longleftrightarrow> rmessage_valid (rframe_msg f) \<and> 7 + length (snd (rmessage_encode (rframe_msg f))) < 2 ^ 32"

section \<open>Messages by type\<close>

text \<open>What the frames rely on: the decoder that belongs to the type of a message reads it.\<close>

locale message_law =
  fixes ty :: "'m \<Rightarrow> u8" and msize :: "'m \<Rightarrow> u32" and enc :: "'m encoder" and dec :: "u8 \<Rightarrow> 'm decoder" and valid :: "'m \<Rightarrow> bool"
  assumes encodes: "valid m \<Longrightarrow> fst (enc m) = Inr ()"
    and size: "fst (enc m) = Inr () \<Longrightarrow> msize m = of_nat (length (snd (enc m)))"
    and decodes: "valid m \<Longrightarrow> rd_bytes r = snd (enc m) @ rest \<Longrightarrow> dec (ty m) r = (Inr m, r\<lparr>rd_bytes := rest\<rparr>)"
    and decoded: "dec t r = (Inr m, r') \<Longrightarrow>
      valid m \<and> rd_failure r' = rd_failure r \<and> suffix (rd_bytes r') (rd_bytes r)
      \<and> length (snd (enc m)) + length (rd_bytes r') \<le> length (rd_bytes r)"
begin

lemma frame_body_decodes:
  assumes "valid m" "rd_bytes r = snd (wf_encode uint_format (ty m)) @ snd (wf_encode uint_format tag) @ snd (enc m) @ rest"
  shows "frame_body dec r = (Inr (tag, m), r\<lparr>rd_bytes := rest\<rparr>)"
proof -
  let ?r1 = "r\<lparr>rd_bytes := snd (wf_encode uint_format tag) @ snd (enc m) @ rest\<rparr>"
    and ?r2 = "r\<lparr>rd_bytes := snd (enc m) @ rest\<rparr>"
  have t: "length (to_le (ty m)) = 1" by simp
  have "rd_exact 1 r = (Inr (to_le (ty m)), ?r1)"
    using rd_exact_append [of r "to_le (ty m)"] assms(2) t by (simp add: uint_format_def)
  moreover have "to_le (ty m) ! 0 = ty m" by (simp add: to_le_def)
  moreover have "wf_decode uint_format ?r1 = (Inr tag, ?r1\<lparr>rd_bytes := snd (enc m) @ rest\<rparr>)"
    by (rule u16w.decodes) simp_all
  moreover have "dec (ty m) ?r2 = (Inr m, ?r2\<lparr>rd_bytes := rest\<rparr>)" by (rule decodes) (use assms in simp_all)
  ultimately show ?thesis by (simp add: frame_body_def dec_bind_def dec_return_def)
qed

lemma frame_body_decoded:
  assumes "frame_body dec r = (Inr (tag, m), r')"
  shows "valid m" "3 + length (snd (enc m)) + length (rd_bytes r') \<le> length (rd_bytes r)" "suffix (rd_bytes r') (rd_bytes r)"
proof -
  obtain t r1 r2 where r: "rd_exact 1 r = (Inr t, r1)" "wf_decode uint_format r1 = (Inr tag, r2)" "dec (t ! 0) r2 = (Inr m, r')"
    using assms by (auto simp: frame_body_def dec_bind_Inr dec_return_def)
  have "r1 = r\<lparr>rd_bytes := drop 1 (rd_bytes r)\<rparr>" "1 \<le> length (rd_bytes r)"
    using r(1) by (auto simp: rd_exact_def split: if_splits)
  with u16w.decoded [OF r(2)] decoded [OF r(3)] suffix_drop [of 1 "rd_bytes r"]
  show "valid m" "3 + length (snd (enc m)) + length (rd_bytes r') \<le> length (rd_bytes r)" "suffix (rd_bytes r') (rd_bytes r)"
    by (auto simp: uint_format_def intro: suffix_order.trans)
qed

lemma frame_encode_encodes:
  assumes "valid m"
  shows "frame_encode n (ty m) tag (enc m) =
    (Inr (), to_le n @ to_le (ty m) @ to_le tag @ snd (enc m))"
  using assms encodes by (simp add: prod_eq_iff frame_encode_def snd_enc_seq uint_format_def)

text \<open>A frame in front of other input, the size of which has been read.\<close>

lemma frame_take_decodes:
  assumes "valid m" "rd_bytes r = to_le (ty m) @ to_le tag @ snd (enc m) @ rest"
  shows "rd_take (3 + length (snd (enc m))) (dec_map f (frame_body dec)) r = (Inr (f (tag, m)), r\<lparr>rd_bytes := rest\<rparr>)"
proof -
  let ?r = "r\<lparr>rd_bytes := to_le (ty m) @ to_le tag @ snd (enc m), rd_failure := None\<rparr>"
  have l: "length (to_le (ty m) @ to_le tag @ snd (enc m)) = 3 + length (snd (enc m))" by simp
  have "frame_body dec ?r = (Inr (tag, m), ?r\<lparr>rd_bytes := []\<rparr>)"
    by (rule frame_body_decodes) (simp_all add: assms(1) uint_format_def)
  moreover have "take (3 + length (snd (enc m))) (rd_bytes r) = to_le (ty m) @ to_le tag @ snd (enc m)"
    "drop (3 + length (snd (enc m))) (rd_bytes r) = rest"
    using l by (simp_all add: assms(2) flip: append_assoc)
  moreover have "3 + length (snd (enc m)) \<le> length (rd_bytes r)" by (simp add: assms(2))
  ultimately show ?thesis by (simp add: rd_take_def Let_def dec_map_def dec_bind_def dec_return_def)
qed

lemma frame_take_decoded:
  assumes "rd_take n (dec_map f (frame_body dec)) r = (Inr x, r')"
  shows "\<exists>tag m. x = f (tag, m) \<and> valid m \<and> 3 + length (snd (enc m)) \<le> n"
proof -
  from assms obtain tag m r2 where
    "frame_body dec (r\<lparr>rd_bytes := take n (rd_bytes r), rd_failure := (if n \<le> length (rd_bytes r) then None else rd_failure r)\<rparr>)
       = (Inr (tag, m), r2)" "x = f (tag, m)"
    by (auto simp: rd_take_def Let_def dec_map_def dec_bind_Inr dec_return_def split: prod.splits)
  with frame_body_decoded [OF this(1)] show ?thesis by (intro exI [of _ tag] exI [of _ m]) simp
qed

end

lemma dec_map_decodes:
  assumes "wire_law F P" "P x" "rd_bytes r = snd (wf_encode F x) @ rest"
  shows "dec_map C (wf_decode F) r = (Inr (C x), r\<lparr>rd_bytes := rest\<rparr>)"
  using wire_law.decodes [OF assms] by (simp add: dec_map_def dec_bind_def dec_return_def)

lemma dec_map_decoded:
  assumes "wire_law F P" "dec_map C (wf_decode F) r = (Inr m, r')"
  shows "\<exists>x. m = C x \<and> P x \<and> rd_failure r' = rd_failure r \<and> suffix (rd_bytes r') (rd_bytes r)
    \<and> length (snd (wf_encode F x)) + length (rd_bytes r') \<le> length (rd_bytes r)"
  using assms(2) wire_law.decoded [OF assms(1)] by (auto simp: dec_map_def dec_bind_Inr dec_return_def)

lemmas t_decoded =
  dec_map_decoded [OF tversion_law] dec_map_decoded [OF tflush_law] dec_map_decoded [OF twalk_law]
  dec_map_decoded [OF tread_law] dec_map_decoded [OF twrite_law] dec_map_decoded [OF tclunk_law]
  dec_map_decoded [OF tremove_law] dec_map_decoded [OF tattach_law] dec_map_decoded [OF tauth_law]
  dec_map_decoded [OF tstatfs_law] dec_map_decoded [OF tlopen_law] dec_map_decoded [OF tlcreate_law]
  dec_map_decoded [OF tsymlink_law] dec_map_decoded [OF tmknod_law] dec_map_decoded [OF trename_law]
  dec_map_decoded [OF treadlink_law] dec_map_decoded [OF tgetattr_law] dec_map_decoded [OF tsetattr_law]
  dec_map_decoded [OF txattrwalk_law] dec_map_decoded [OF txattrcreate_law] dec_map_decoded [OF treaddir_law]
  dec_map_decoded [OF tfsync_law] dec_map_decoded [OF tlock_law] dec_map_decoded [OF tgetlock_law]
  dec_map_decoded [OF tlink_law] dec_map_decoded [OF tmkdir_law] dec_map_decoded [OF trenameat_law]
  dec_map_decoded [OF tunlinkat_law]

lemmas r_decoded =
  dec_map_decoded [OF rversion_law] dec_map_decoded [OF rwalk_law] dec_map_decoded [OF rread_law]
  dec_map_decoded [OF rwrite_law] dec_map_decoded [OF rattach_law] dec_map_decoded [OF rauth_law]
  dec_map_decoded [OF rstatfs_law] dec_map_decoded [OF rlopen_law] dec_map_decoded [OF rlcreate_law]
  dec_map_decoded [OF rsymlink_law] dec_map_decoded [OF rmknod_law] dec_map_decoded [OF rreadlink_law]
  dec_map_decoded [OF rgetattr_law] dec_map_decoded [OF rxattrwalk_law] dec_map_decoded [OF rreaddir_law]
  dec_map_decoded [OF rlock_law] dec_map_decoded [OF rgetlock_law] dec_map_decoded [OF rmkdir_law]
  dec_map_decoded [OF rlerror_law]

lemma message_law_by_cases:
  "wire_law F P \<Longrightarrow> P x \<Longrightarrow> fst (wf_encode F x) = Inr ()"
  "wire_law F P \<Longrightarrow> fst (wf_encode F x) = Inr () \<Longrightarrow> wf_size F x = of_nat (length (snd (wf_encode F x)))"
  by (rule wire_law.encodes, assumption+) (rule wire_law.size, assumption+)

interpretation tm: message_law tmessage_type tmessage_size tmessage_encode tmessage_decode tmessage_valid
proof (unfold_locales, goal_cases)
  case (1 m)
  then show ?case by (cases m) (simp_all, (rule message_law_by_cases, rule wire_laws, simp)+)
next
  case (2 m)
  then show ?case by (cases m) (simp_all, (rule message_law_by_cases, rule wire_laws, simp)+)
next
  case (3 m r rest)
  then show ?case
    by (cases m) (simp_all add: tmessage_decode_def, (rule dec_map_decodes, rule wire_laws, simp_all)+)
next
  case (4 t r m r')
  then show ?case
    unfolding tmessage_decode_def by (auto simp: dec_fail_def split: if_splits dest!: t_decoded)
qed

interpretation rm: message_law rmessage_type rmessage_size rmessage_encode rmessage_decode rmessage_valid
proof (unfold_locales, goal_cases)
  case (1 m)
  then show ?case by (cases m) (simp_all, (rule message_law_by_cases, rule wire_laws, simp)+)
next
  case (2 m)
  then show ?case by (cases m) (simp_all, (rule message_law_by_cases, rule wire_laws, simp)+)
next
  case (3 m r rest)
  then show ?case
    by (cases m) (simp_all add: rmessage_decode_def dec_return_def, (rule dec_map_decodes, rule wire_laws, simp_all)+)
next
  case (4 t r m r')
  then show ?case
    unfolding rmessage_decode_def by (auto simp: dec_fail_def dec_return_def split: if_splits dest!: r_decoded)
qed

section \<open>Frames round trip\<close>

lemma tframe_sizes:
  assumes "tframe_valid f"
  shows "unat (tframe_size f) = 7 + length (snd (tmessage_encode (tframe_msg f)))"
  using assms tm.size [OF tm.encodes, of "tframe_msg f"]
  by (simp add: tframe_size_def tframe_valid_def unat_word_ariths unsigned_of_nat take_bit_nat_def)

lemma rframe_sizes:
  assumes "rframe_valid f"
  shows "unat (rframe_size f) = 7 + length (snd (rmessage_encode (rframe_msg f)))"
  using assms rm.size [OF rm.encodes, of "rframe_msg f"]
  by (simp add: rframe_size_def rframe_valid_def unat_word_ariths unsigned_of_nat take_bit_nat_def)

lemma tframe_encodes:
  assumes "tframe_valid f"
  shows "tframe_encode f = (Inr (), snd (tframe_encode f))" "length (snd (tframe_encode f)) = unat (tframe_size f)"
  using assms tm.frame_encode_encodes [of "tframe_msg f"] tframe_sizes [OF assms]
  by (simp_all add: tframe_encode_def tframe_valid_def)

lemma rframe_encodes:
  assumes "rframe_valid f"
  shows "rframe_encode f = (Inr (), snd (rframe_encode f))" "length (snd (rframe_encode f)) = unat (rframe_size f)"
  using assms rm.frame_encode_encodes [of "rframe_msg f"] rframe_sizes [OF assms]
  by (simp_all add: rframe_encode_def rframe_valid_def)

lemma size_minus_4: "unat n = 7 + k \<Longrightarrow> \<not> n < 4 \<and> unat (n - 4 :: u32) = 3 + k"
  by (simp add: word_less_nat_alt unat_sub_if')

lemma tframe_decodes:
  assumes "tframe_valid f" "rd_bytes r = snd (tframe_encode f) @ rest"
  shows "tframe_decode r = (Inr f, r\<lparr>rd_bytes := rest\<rparr>)"
proof -
  let ?m = "tframe_msg f"
  let ?bs = "to_le (tmessage_type ?m) @ to_le (tframe_tag f) @ snd (tmessage_encode ?m) @ rest"
  have v: "tmessage_valid ?m" using assms(1) by (simp add: tframe_valid_def)
  have "rd_bytes r = snd (wf_encode uint_format (tframe_size f)) @ ?bs"
    using assms(2) tm.frame_encode_encodes [OF v] by (simp add: tframe_encode_def uint_format_def)
  then have "wf_decode uint_format r = (Inr (tframe_size f), r\<lparr>rd_bytes := ?bs\<rparr>)" by (intro u32w.decodes) simp_all
  then show ?thesis
    using size_minus_4 [OF tframe_sizes [OF assms(1)]] tm.frame_take_decodes [OF v, of "r\<lparr>rd_bytes := ?bs\<rparr>" "tframe_tag f" rest "\<lambda>(tag, msg). \<lparr>tframe_tag = tag, tframe_msg = msg\<rparr>"]
    by (simp add: tframe_decode_def dec_bind_def)
qed

lemma rframe_decodes:
  assumes "rframe_valid f" "rd_bytes r = snd (rframe_encode f) @ rest"
  shows "rframe_decode r = (Inr f, r\<lparr>rd_bytes := rest\<rparr>)"
proof -
  let ?m = "rframe_msg f"
  let ?bs = "to_le (rmessage_type ?m) @ to_le (rframe_tag f) @ snd (rmessage_encode ?m) @ rest"
  have v: "rmessage_valid ?m" using assms(1) by (simp add: rframe_valid_def)
  have "rd_bytes r = snd (wf_encode uint_format (rframe_size f)) @ ?bs"
    using assms(2) rm.frame_encode_encodes [OF v] by (simp add: rframe_encode_def uint_format_def)
  then have "wf_decode uint_format r = (Inr (rframe_size f), r\<lparr>rd_bytes := ?bs\<rparr>)" by (intro u32w.decodes) simp_all
  then show ?thesis
    using size_minus_4 [OF rframe_sizes [OF assms(1)]] rm.frame_take_decodes [OF v, of "r\<lparr>rd_bytes := ?bs\<rparr>" "rframe_tag f" rest "\<lambda>(tag, msg). \<lparr>rframe_tag = tag, rframe_msg = msg\<rparr>"]
    by (simp add: rframe_decode_def dec_bind_def)
qed

lemma tframe_decode_valid:
  assumes "tframe_decode r = (Inr f, r')"
  shows "tframe_valid f"
proof -
  obtain n :: u32 and r1 where n: "\<not> n < 4"
    "rd_take (unat (n - 4)) (dec_map (\<lambda>(tag, msg). \<lparr>tframe_tag = tag, tframe_msg = msg\<rparr>) (frame_body tmessage_decode)) r1 = (Inr f, r')"
    using assms by (auto simp: tframe_decode_def dec_bind_Inr dec_fail_def split: if_splits)
  have "unat (n - 4) = unat n - 4" using n(1) by (simp add: word_less_nat_alt unat_sub_if')
  moreover have "unat n < 2 ^ 32" using unsigned_less [of n] by simp
  ultimately show ?thesis
    using tm.frame_take_decoded [OF n(2)] n(1) by (auto simp: tframe_valid_def word_less_nat_alt)
qed

text \<open>
  C8. Frames of the 9P protocol round trip. A valid request is encoded without an error, in as
  many bytes as its size says, and decoding these bytes, whatever follows them, gives the request
  back and consumes exactly them; the same holds for the responses.
\<close>

theorem p9_frames_roundtrip:
  assumes "tframe_valid f" "rframe_valid g"
  shows "(\<exists>bs. tframe_encode f = (Inr (), bs) \<and> length bs = unat (tframe_size f)
      \<and> tframe_decode \<lparr>rd_bytes = bs @ rest, rd_failure = e\<rparr> = (Inr f, \<lparr>rd_bytes = rest, rd_failure = e\<rparr>))
    \<and> (\<exists>bs. rframe_encode g = (Inr (), bs) \<and> length bs = unat (rframe_size g)
      \<and> rframe_decode \<lparr>rd_bytes = bs @ rest, rd_failure = e\<rparr> = (Inr g, \<lparr>rd_bytes = rest, rd_failure = e\<rparr>))"
proof (intro conjI exI)
  show "tframe_encode f = (Inr (), snd (tframe_encode f))" "length (snd (tframe_encode f)) = unat (tframe_size f)"
    "rframe_encode g = (Inr (), snd (rframe_encode g))" "length (snd (rframe_encode g)) = unat (rframe_size g)"
    using tframe_encodes [OF assms(1)] rframe_encodes [OF assms(2)] by simp_all
  show "tframe_decode \<lparr>rd_bytes = snd (tframe_encode f) @ rest, rd_failure = e\<rparr> = (Inr f, \<lparr>rd_bytes = rest, rd_failure = e\<rparr>)"
    using tframe_decodes [OF assms(1), of "\<lparr>rd_bytes = snd (tframe_encode f) @ rest, rd_failure = e\<rparr>"] by simp
  show "rframe_decode \<lparr>rd_bytes = snd (rframe_encode g) @ rest, rd_failure = e\<rparr> = (Inr g, \<lparr>rd_bytes = rest, rd_failure = e\<rparr>)"
    using rframe_decodes [OF assms(2), of "\<lparr>rd_bytes = snd (rframe_encode g) @ rest, rd_failure = e\<rparr>"] by simp
qed

definition walk_frame :: tframe where
  "walk_frame = \<lparr>tframe_tag = 7, tframe_msg = T_walk \<lparr>twalk_fid = 1, twalk_newfid = 2, twalk_wnames = [[0x61], [0xC3, 0xA9]]\<rparr>\<rparr>"

lemma walk_frame_valid: "tframe_valid walk_frame"
  by (simp add: tframe_valid_def walk_frame_def twalk_valid_def vec_valid_def string_valid_def utf8_valid.simps utf8_width_def utf8_tail_def
      twalk_format_def struct_def field_def no_fields_def uint_format_def vec_format_def string_format_def snd_enc_seq)

theorem p9_frames_roundtrip_witness:
  "\<exists>bs. tframe_encode walk_frame = (Inr (), bs) \<and> length bs = 24
     \<and> tframe_decode \<lparr>rd_bytes = bs @ [1, 2], rd_failure = None\<rparr> = (Inr walk_frame, \<lparr>rd_bytes = [1, 2], rd_failure = None\<rparr>)"
proof -
  have "rframe_valid \<lparr>rframe_tag = 7, rframe_msg = R_clunk\<rparr>" by (simp add: rframe_valid_def)
  note conjunct1 [OF p9_frames_roundtrip [OF walk_frame_valid this, of "[1, 2]" None]]
  moreover have "unat (tframe_size walk_frame) = 24"
    by (simp add: tframe_size_def walk_frame_def twalk_format_def struct_def field_def no_fields_def uint_format_def vec_format_def string_format_def)
  ultimately show ?thesis by simp
qed

text \<open>
  C11. Whatever bytes a client sends, a request that is accepted by the decoder is well formed:
  its strings are UTF-8 of at most 65535 bytes, its vectors have at most 65535 elements, its
  data has at most 32 MiB and its length fits the size field.
\<close>

theorem p9_decoded_requests_valid:
  assumes "tframe_decode r = (Inr f, r')"
  shows "tframe_valid f"
  by (rule tframe_decode_valid [OF assms])

theorem p9_decoded_requests_valid_witness:
  "tframe_valid \<lparr>tframe_tag = 5, tframe_msg = T_remove \<lparr>tremove_fid = 9\<rparr>\<rparr>"
proof (rule p9_decoded_requests_valid)
  show "tframe_decode \<lparr>rd_bytes = [11, 0, 0, 0, 122, 5, 0, 9, 0, 0, 0], rd_failure = None\<rparr>
    = (Inr \<lparr>tframe_tag = 5, tframe_msg = T_remove \<lparr>tremove_fid = 9\<rparr>\<rparr>, \<lparr>rd_bytes = [], rd_failure = None\<rparr>)"
    by (simp add: tframe_decode_def frame_body_def tmessage_decode_def dec_map_def dec_bind_def dec_return_def uint_format_def
        tremove_format_def struct_def field_def no_fields_def rd_exact_def rd_take_def)
qed

end
