(* ===== verification/P9_Server.thy ===== *)
theory P9_Server
  imports P9_Frames
begin

text \<open>
  The 9P server (\<^verbatim>\<open>p9/src/server.rs\<close>). The file system of the host is a parameter: a record of
  its operations, each of which answers with a value or an error that may depend on every call
  made before. The server keeps the calls it makes.
\<close>

section \<open>Paths\<close>

text \<open>
  A \<^verbatim>\<open>Path\<close> is its components, by which the library compares paths; \<open>path_components\<close> takes
  the bytes of a path apart.
\<close>

datatype component = Root_dir | Cur_dir | Parent_dir | Normal "u8 list"

type_synonym path = "component list"

fun split_path :: "u8 list \<Rightarrow> u8 list list" where
  "split_path [] = [[]]"
| "split_path (c # cs) =
     (if c = 0x2F then [] # split_path cs
      else case split_path cs of [] \<Rightarrow> [[c]] | p # ps \<Rightarrow> (c # p) # ps)"

definition component_of :: "u8 list \<Rightarrow> component list" where
  "component_of p = (if p = [] \<or> p = [0x2E] then [] else if p = [0x2E, 0x2E] then [Parent_dir] else [Normal p])"

definition path_components :: "u8 list \<Rightarrow> component list" where
  "path_components s =
     (case s of [] \<Rightarrow> [] | c # _ \<Rightarrow> if c = 0x2F then [Root_dir] else if hd (split_path s) = [0x2E] then [Cur_dir] else [])
     @ concat (map component_of (split_path s))"

definition path_pop :: "path \<Rightarrow> path" where
  "path_pop p = (if p = [] \<or> last p = Root_dir then p else butlast p)"

abbreviation EINVAL :: p9_error where "EINVAL \<equiv> Raw_os 22"
abbreviation EBADF :: p9_error where "EBADF \<equiv> Raw_os 9"
abbreviation EPERM :: p9_error where "EPERM \<equiv> Raw_os 1"
abbreviation EACCES :: p9_error where "EACCES \<equiv> Raw_os 13"
abbreviation ENOTDIR :: p9_error where "ENOTDIR \<equiv> Raw_os 20"
abbreviation EISDIR :: p9_error where "EISDIR \<equiv> Raw_os 21"
abbreviation EOPNOTSUPP :: p9_error where "EOPNOTSUPP \<equiv> Raw_os 95"

fun join_components :: "path \<Rightarrow> component list \<Rightarrow> path \<Rightarrow> p9_error + path" where
  "join_components root [] buf = Inr buf"
| "join_components root (Root_dir # cs) buf = Inl EINVAL"
| "join_components root (Cur_dir # cs) buf = Inl EINVAL"
| "join_components root (Parent_dir # cs) buf = join_components root cs (if buf \<noteq> root then path_pop buf else buf)"
| "join_components root (Normal e # cs) buf = join_components root cs (buf @ [Normal e])"

definition join_path :: "path \<Rightarrow> u8 list \<Rightarrow> path \<Rightarrow> p9_error + path" where
  "join_path buf name root =
     (if length (path_components name) > 1 then Inl EINVAL else join_components root (path_components name) buf)"

section \<open>The host\<close>

record metadata =
  md_is_dir :: bool
  md_is_file :: bool
  md_mode :: u32
  md_uid :: u32
  md_gid :: u32
  md_ino :: u64
  md_nlink :: u64
  md_rdev :: u64
  md_size :: u64
  md_blksize :: u64
  md_blocks :: u64
  md_atime :: u64
  md_atime_nsec :: u64
  md_mtime :: u64
  md_mtime_nsec :: u64
  md_ctime :: u64
  md_ctime_nsec :: u64

record host_statfs =
  sf_type :: u64
  sf_bsize :: u64
  sf_blocks :: u64
  sf_bfree :: u64
  sf_bavail :: u64
  sf_files :: u64
  sf_ffree :: u64
  sf_namelen :: u64

datatype open_flag =
  O_CLOEXEC | O_NOCTTY | O_NONBLOCK | O_DSYNC | O_DIRECT | O_LARGEFILE | O_DIRECTORY | O_NOFOLLOW | O_NOATIME | O_SYNC

record open_options =
  oo_read :: bool
  oo_write :: bool
  oo_append :: bool
  oo_truncate :: bool
  oo_create :: bool
  oo_create_new :: bool
  oo_flags :: "open_flag list"
  oo_mode :: u32

datatype utime = Utime_omit | Utime_now | Utime u64

text \<open>Open files are the numbers the host gives them.\<close>

type_synonym handle = nat

datatype host_call =
    Call_metadata path
  | Call_open path open_options
  | Call_file_metadata handle
  | Call_read_at handle nat u64
  | Call_write_at handle "u8 list" u64
  | Call_set_len handle u64
  | Call_futimens handle u64 utime u64 utime
  | Call_fchown handle
  | Call_sync_all handle
  | Call_sync_data handle
  | Call_remove_dir path
  | Call_remove_file path
  | Call_rename path path
  | Call_hard_link path path
  | Call_create_dir path u32
  | Call_read_dir path
  | Call_statfs path

text \<open>
  The answers of the host, by the calls made so far, of which the last is the one answered. An
  entry of a directory is its name and its metadata, or the error of reading it.
\<close>

type_synonym 'a answer = "host_call list \<Rightarrow> p9_error + 'a"

record host =
  ho_metadata :: "metadata answer"
  ho_open :: "handle answer"
  ho_read_at :: "u8 list answer"
  ho_write_at :: "nat answer"
  ho_unit :: "unit answer"
  ho_read_dir :: "(p9_error + u8 list \<times> (p9_error + metadata)) list answer"
  ho_statfs :: "host_statfs answer"

section \<open>The server\<close>

record fid =
  fid_path :: path
  fid_metadata :: metadata
  fid_file :: "handle option"
  fid_dirents :: "dirent list option"

record server =
  sv_root :: path
  sv_msize :: u32
  sv_fids :: "u32 \<Rightarrow> fid option"
  sv_calls :: "host_call list"

definition server_new :: "path \<Rightarrow> server" where
  "server_new root = \<lparr>sv_root = root, sv_msize = 65535, sv_fids = Map.empty, sv_calls = []\<rparr>"

type_synonym 'a srv = "server \<Rightarrow> (p9_error + 'a) \<times> server"

definition srv_return :: "'a \<Rightarrow> 'a srv" where
  "srv_return x s = (Inr x, s)"

definition srv_fail :: "p9_error \<Rightarrow> 'a srv" where
  "srv_fail e s = (Inl e, s)"

definition srv_bind :: "'a srv \<Rightarrow> ('a \<Rightarrow> 'b srv) \<Rightarrow> 'b srv" where
  "srv_bind m f s = (case m s of (Inl e, s') \<Rightarrow> (Inl e, s') | (Inr x, s') \<Rightarrow> f x s')"

definition srv_lift :: "p9_error + 'a \<Rightarrow> 'a srv" where
  "srv_lift r s = (r, s)"

definition srv_get :: "(server \<Rightarrow> 'a) \<Rightarrow> 'a srv" where
  "srv_get f s = (Inr (f s), s)"

definition ask :: "'a answer \<Rightarrow> host_call \<Rightarrow> 'a srv" where
  "ask answer c s = (let cs = sv_calls s @ [c] in (answer cs, s\<lparr>sv_calls := cs\<rparr>))"

definition get_fid :: "u32 \<Rightarrow> p9_error \<Rightarrow> fid srv" where
  "get_fid n err s = (case sv_fids s n of None \<Rightarrow> (Inl err, s) | Some f \<Rightarrow> (Inr f, s))"

definition set_fid :: "u32 \<Rightarrow> fid option \<Rightarrow> unit srv" where
  "set_fid n f s = (Inr (), s\<lparr>sv_fids := (sv_fids s)(n := f)\<rparr>)"

definition get_file :: "u32 \<Rightarrow> handle srv" where
  "get_file n = srv_bind (get_fid n EBADF) (\<lambda>f. case fid_file f of None \<Rightarrow> srv_fail EBADF | Some h \<Rightarrow> srv_return h)"

definition srv_join :: "path \<Rightarrow> u8 list \<Rightarrow> path srv" where
  "srv_join buf name = srv_bind (srv_get sv_root) (\<lambda>root. srv_lift (join_path buf name root))"

definition metadata_to_qid :: "metadata \<Rightarrow> qid" where
  "metadata_to_qid md =
     \<lparr>qid_ty = (if md_is_dir md then 0x80 else if md_is_file md then 0 else 0), qid_version = ucast (md_mtime md), qid_path = md_ino md\<rparr>"

fun kind_errno :: "error_kind \<Rightarrow> u32" where
  "kind_errno Not_found = 2"
| "kind_errno Permission_denied = 1"
| "kind_errno Connection_refused = 111"
| "kind_errno Connection_reset = 104"
| "kind_errno Connection_aborted = 103"
| "kind_errno Not_connected = 107"
| "kind_errno Addr_in_use = 98"
| "kind_errno Addr_not_available = 99"
| "kind_errno Broken_pipe = 32"
| "kind_errno Already_exists = 17"
| "kind_errno Would_block = 11"
| "kind_errno Invalid_input = 22"
| "kind_errno Invalid_data = 22"
| "kind_errno Timed_out = 110"
| "kind_errno Write_zero = 5"
| "kind_errno Interrupted = 4"
| "kind_errno Other_kind = 5"
| "kind_errno Eof_kind = 5"

fun error_to_rmessage :: "p9_error \<Rightarrow> rmessage" where
  "error_to_rmessage (Raw_os errno) = R_lerror \<lparr>rlerror_ecode = errno\<rparr>"
| "error_to_rmessage (Kind k) = R_lerror \<lparr>rlerror_ecode = kind_errno k\<rparr>"

section \<open>The requests\<close>

definition p9_auth :: "tauth \<Rightarrow> rmessage srv" where
  "p9_auth _ = srv_fail EOPNOTSUPP"

definition p9_attach :: "host \<Rightarrow> tattach \<Rightarrow> rmessage srv" where
  "p9_attach host t =
     srv_bind (srv_get (\<lambda>s. (sv_fids s (tattach_fid t), sv_root s))) (\<lambda>(entry, root).
     case entry of
       None \<Rightarrow>
         srv_bind (ask (ho_metadata host) (Call_metadata root)) (\<lambda>md.
         srv_bind (set_fid (tattach_fid t) (Some \<lparr>fid_path = root, fid_metadata = md, fid_file = None, fid_dirents = None\<rparr>)) (\<lambda>_.
         srv_return (R_attach \<lparr>rattach_qid = metadata_to_qid md\<rparr>)))
     | Some _ \<Rightarrow> srv_fail EBADF)"

text \<open>The text \<^verbatim>\<open>9P2000.L\<close> and the text \<^verbatim>\<open>unknown\<close>.\<close>

definition version_9p2000_l :: p9_string where
  "version_9p2000_l = [0x39, 0x50, 0x32, 0x30, 0x30, 0x30, 0x2E, 0x4C]"

definition version_unknown :: p9_string where
  "version_unknown = [0x75, 0x6E, 0x6B, 0x6E, 0x6F, 0x77, 0x6E]"

definition p9_version :: "tversion \<Rightarrow> rmessage srv" where
  "p9_version t s =
     (if tversion_msize t < 256 then (Inl EINVAL, s)
      else
        let s' = s\<lparr>sv_fids := Map.empty, sv_msize := min 65535 (tversion_msize t)\<rparr>
        in (Inr (R_version \<lparr>rversion_msize = sv_msize s',
              rversion_version = (if tversion_version t = version_9p2000_l then version_9p2000_l else version_unknown)\<rparr>), s'))"

definition p9_flush :: "tflush \<Rightarrow> rmessage srv" where
  "p9_flush _ = srv_return R_flush"

text \<open>The walk stops at the first error; the metadata found so far is kept.\<close>

fun do_walk :: "host \<Rightarrow> path \<Rightarrow> p9_string list \<Rightarrow> path \<Rightarrow> metadata list \<Rightarrow> server \<Rightarrow> ((p9_error + path) \<times> metadata list) \<times> server" where
  "do_walk host root [] buf mds s = ((Inr buf, mds), s)"
| "do_walk host root (wname # wnames) buf mds s =
     (case join_path buf wname root of
        Inl e \<Rightarrow> ((Inl e, mds), s)
      | Inr buf \<Rightarrow>
          case ask (ho_metadata host) (Call_metadata buf) s of
            (Inl e, s) \<Rightarrow> ((Inl e, mds), s)
          | (Inr md, s) \<Rightarrow> do_walk host root wnames buf (mds @ [md]) s)"

definition p9_walk :: "host \<Rightarrow> twalk \<Rightarrow> rmessage srv" where
  "p9_walk host t =
     srv_bind (srv_get (\<lambda>s. (sv_fids s (twalk_newfid t), sv_root s))) (\<lambda>(entry, root).
     if twalk_fid t \<noteq> twalk_newfid t \<and> entry \<noteq> None then srv_fail EBADF
     else
       srv_bind (get_fid (twalk_fid t) EBADF) (\<lambda>f.
       srv_bind (\<lambda>s. case do_walk host root (twalk_wnames t) (fid_path f) [] s of (x, s) \<Rightarrow> (Inr x, s)) (\<lambda>(r, mds).
       let answer = srv_return (R_walk \<lparr>rwalk_wqids = map metadata_to_qid mds\<rparr>) in
       case r of
         Inr buf \<Rightarrow>
           if length mds = length (twalk_wnames t)
           then srv_bind (set_fid (twalk_newfid t)
                  (Some \<lparr>fid_path = buf, fid_metadata = (if mds = [] then fid_metadata f else last mds),
                     fid_file = None, fid_dirents = None\<rparr>)) (\<lambda>_. answer)
           else answer
       | Inl e \<Rightarrow> if mds = [] then srv_fail e else answer)))"

definition p9_read :: "host \<Rightarrow> tread \<Rightarrow> rmessage srv" where
  "p9_read host t =
     srv_bind (get_file (tread_fid t)) (\<lambda>h.
     srv_bind (srv_get sv_msize) (\<lambda>msize.
     let header_size = rframe_size \<lparr>rframe_tag = 0, rframe_msg = R_read \<lparr>rread_data = []\<rparr>\<rparr>;
         capacity = min (msize - header_size) (tread_count t)
     in srv_bind (ask (ho_read_at host) (Call_read_at h (unat capacity) (tread_offset t))) (\<lambda>buf.
        srv_return (R_read \<lparr>rread_data = buf\<rparr>))))"

definition p9_write :: "host \<Rightarrow> twrite \<Rightarrow> rmessage srv" where
  "p9_write host t =
     srv_bind (get_file (twrite_fid t)) (\<lambda>h.
     srv_bind (ask (ho_write_at host) (Call_write_at h (twrite_data t) (twrite_offset t))) (\<lambda>count.
     srv_return (R_write \<lparr>rwrite_count = of_nat count\<rparr>)))"

definition p9_clunk :: "tclunk \<Rightarrow> rmessage srv" where
  "p9_clunk t = srv_bind (get_fid (tclunk_fid t) EBADF) (\<lambda>_. srv_bind (set_fid (tclunk_fid t) None) (\<lambda>_. srv_return R_clunk))"

definition p9_remove :: "host \<Rightarrow> tremove \<Rightarrow> rmessage srv" where
  "p9_remove host t =
     srv_bind (get_fid (tremove_fid t) EBADF) (\<lambda>f.
     srv_bind (set_fid (tremove_fid t) None) (\<lambda>_.
     srv_bind (ask (ho_unit host) (if md_is_dir (fid_metadata f) then Call_remove_dir (fid_path f) else Call_remove_file (fid_path f)))
       (\<lambda>_. srv_return R_remove)))"

text \<open>
  The path becomes a C string if it is UTF-8 and has no zero byte.
\<close>

fun c_component :: "component \<Rightarrow> bool" where
  "c_component (Normal n) \<longleftrightarrow> utf8_valid n \<and> 0 \<notin> set n"
| "c_component _ \<longleftrightarrow> True"

definition p9_statfs :: "host \<Rightarrow> tstatfs \<Rightarrow> rmessage srv" where
  "p9_statfs host t =
     srv_bind (get_fid (tstatfs_fid t) EBADF) (\<lambda>f.
     if \<not> list_all c_component (fid_path f) then srv_fail EINVAL
     else
       srv_bind (ask (ho_statfs host) (Call_statfs (fid_path f))) (\<lambda>out.
       srv_return (R_statfs \<lparr>rstatfs_ty = ucast (sf_type out), rstatfs_bsize = ucast (sf_bsize out), rstatfs_blocks = sf_blocks out,
         rstatfs_bfree = sf_bfree out, rstatfs_bavail = sf_bavail out, rstatfs_files = sf_files out, rstatfs_ffree = sf_ffree out,
         rstatfs_fsid = 0, rstatfs_namelen = ucast (sf_namelen out)\<rparr>)))"

definition mapped_flags :: "(u32 \<times> open_flag list) list" where
  "mapped_flags =
     [(0x100, [O_NOCTTY]), (0x800, [O_NONBLOCK]), (0x1000, [O_DSYNC]), (0x2000, []), (0x4000, [O_DIRECT]),
      (0x8000, [O_LARGEFILE]), (0x10000, [O_DIRECTORY]), (0x20000, [O_NOFOLLOW]), (0x40000, [O_NOATIME]), (0x100000, [O_SYNC])]"

definition open_flags :: "u32 \<Rightarrow> open_flag list" where
  "open_flags flags = O_CLOEXEC # concat (map snd (filter (\<lambda>(p9f, _). flags AND p9f \<noteq> 0) mapped_flags))"

definition lopen_options :: "u32 \<Rightarrow> open_options" where
  "lopen_options flags =
     \<lparr>oo_read = (flags AND 3 = 0 \<or> flags AND 2 \<noteq> 0), oo_write = (flags AND 1 \<noteq> 0 \<or> flags AND 2 \<noteq> 0),
      oo_append = (flags AND 0x400 \<noteq> 0), oo_truncate = (flags AND 0x200 \<noteq> 0), oo_create = (flags AND 0x40 \<noteq> 0),
      oo_create_new = (flags AND 0x40 \<noteq> 0 \<and> flags AND 0x80 \<noteq> 0), oo_flags = open_flags flags, oo_mode = 0x1B6\<rparr>"

definition p9_lopen :: "host \<Rightarrow> tlopen \<Rightarrow> rmessage srv" where
  "p9_lopen host t =
     srv_bind (get_fid (tlopen_fid t) EBADF) (\<lambda>f.
     srv_bind (ask (ho_open host) (Call_open (fid_path f) (lopen_options (tlopen_flags t)))) (\<lambda>file.
     srv_bind (ask (ho_metadata host) (Call_file_metadata file)) (\<lambda>md.
     srv_bind (set_fid (tlopen_fid t) (Some (f\<lparr>fid_metadata := md, fid_file := Some file\<rparr>))) (\<lambda>_.
     srv_return (R_lopen \<lparr>rlopen_qid = metadata_to_qid md, rlopen_iounit = 0\<rparr>)))))"

definition lcreate_options :: "u32 \<Rightarrow> u32 \<Rightarrow> open_options" where
  "lcreate_options flags mode =
     \<lparr>oo_read = False, oo_write = True, oo_append = (flags AND 0x400 \<noteq> 0), oo_truncate = True, oo_create = True,
      oo_create_new = (flags AND 0x80 \<noteq> 0), oo_flags = open_flags flags, oo_mode = mode AND 0x1ED\<rparr>"

definition p9_lcreate :: "host \<Rightarrow> tlcreate \<Rightarrow> rmessage srv" where
  "p9_lcreate host t =
     srv_bind (get_fid (tlcreate_fid t) EBADF) (\<lambda>f.
     if \<not> md_is_dir (fid_metadata f) then srv_fail ENOTDIR
     else
       srv_bind (srv_join (fid_path f) (tlcreate_name t)) (\<lambda>path.
       srv_bind (ask (ho_open host) (Call_open path (lcreate_options (tlcreate_flags t) (tlcreate_mode t)))) (\<lambda>file.
       srv_bind (ask (ho_metadata host) (Call_file_metadata file)) (\<lambda>md.
       srv_bind (set_fid (tlcreate_fid t) (Some (f\<lparr>fid_metadata := md, fid_file := Some file, fid_path := path\<rparr>))) (\<lambda>_.
       srv_return (R_lcreate \<lparr>rlcreate_qid = metadata_to_qid md, rlcreate_iounit = 0\<rparr>))))))"

definition p9_symlink :: "tsymlink \<Rightarrow> rmessage srv" where
  "p9_symlink _ = srv_fail EACCES"

definition p9_mknod :: "tmknod \<Rightarrow> rmessage srv" where
  "p9_mknod _ = srv_fail EACCES"

definition p9_rename :: "host \<Rightarrow> trename \<Rightarrow> rmessage srv" where
  "p9_rename host t =
     srv_bind (get_fid (trename_dfid t) EBADF) (\<lambda>d.
     srv_bind (srv_join (fid_path d) (trename_name t)) (\<lambda>newpath.
     srv_bind (get_fid (trename_fid t) EINVAL) (\<lambda>f.
     srv_bind (ask (ho_unit host) (Call_rename (fid_path f) newpath)) (\<lambda>_.
     srv_bind (set_fid (trename_fid t) (Some (f\<lparr>fid_path := newpath\<rparr>))) (\<lambda>_.
     srv_return R_rename)))))"

definition p9_readlink :: "treadlink \<Rightarrow> rmessage srv" where
  "p9_readlink _ = srv_fail EACCES"

definition p9_get_attr :: "host \<Rightarrow> tgetattr \<Rightarrow> rmessage srv" where
  "p9_get_attr host t =
     srv_bind (get_fid (tgetattr_fid t) EBADF) (\<lambda>f.
     srv_bind (ask (ho_metadata host) (Call_metadata (fid_path f))) (\<lambda>md.
     srv_bind (set_fid (tgetattr_fid t) (Some (f\<lparr>fid_metadata := md\<rparr>))) (\<lambda>_.
     srv_return (R_get_attr \<lparr>rgetattr_valid = 0x7FF, rgetattr_qid = metadata_to_qid md, rgetattr_mode = md_mode md, rgetattr_uid = md_uid md,
       rgetattr_gid = md_gid md, rgetattr_nlink = md_nlink md, rgetattr_rdev = md_rdev md, rgetattr_size = md_size md,
       rgetattr_blksize = md_blksize md, rgetattr_blocks = md_blocks md, rgetattr_atime_sec = md_atime md,
       rgetattr_atime_nsec = md_atime_nsec md, rgetattr_mtime_sec = md_mtime md, rgetattr_mtime_nsec = md_mtime_nsec md,
       rgetattr_ctime_sec = md_ctime md, rgetattr_ctime_nsec = md_ctime_nsec md, rgetattr_btime_sec = 0, rgetattr_btime_nsec = 0,
       rgetattr_gen = 0, rgetattr_data_version = 0\<rparr>))))"

definition setattr_time :: "u32 \<Rightarrow> u32 \<Rightarrow> u32 \<Rightarrow> u64 \<Rightarrow> utime" where
  "setattr_time valid change given nsec =
     (if valid AND change = 0 then Utime_omit else if valid AND given = 0 then Utime_now else Utime nsec)"

definition p9_set_attr :: "host \<Rightarrow> tsetattr \<Rightarrow> rmessage srv" where
  "p9_set_attr host t =
     (let valid = tsetattr_valid t in
      if valid AND 7 \<noteq> 0 then srv_fail EPERM
      else
        srv_bind (get_fid (tsetattr_fid t) EBADF) (\<lambda>f.
        srv_bind (ask (ho_open host) (Call_open (fid_path f)
          \<lparr>oo_read = False, oo_write = True, oo_append = False, oo_truncate = False, oo_create = False, oo_create_new = False,
           oo_flags = [], oo_mode = 0x1B6\<rparr>)) (\<lambda>file.
        srv_bind (if valid AND 8 \<noteq> 0 then ask (ho_unit host) (Call_set_len file (tsetattr_size t)) else srv_return ()) (\<lambda>_.
        srv_bind
          (if valid AND 0x30 \<noteq> 0
           then ask (ho_unit host) (Call_futimens file
             (tsetattr_atime_sec t) (setattr_time valid 0x10 0x80 (tsetattr_atime_nsec t))
             (tsetattr_mtime_sec t) (setattr_time valid 0x20 0x100 (tsetattr_mtime_nsec t)))
           else srv_return ()) (\<lambda>_.
        srv_bind
          (if valid AND 0x40 \<noteq> 0 \<and> valid AND NOT 0x40 = 0 then ask (ho_unit host) (Call_fchown file) else srv_return ()) (\<lambda>_.
        srv_return R_set_attr))))))"

definition p9_xattr_walk :: "txattrwalk \<Rightarrow> rmessage srv" where
  "p9_xattr_walk _ = srv_fail EOPNOTSUPP"

definition p9_xattr_create :: "txattrcreate \<Rightarrow> rmessage srv" where
  "p9_xattr_create _ = srv_fail EOPNOTSUPP"

text \<open>The entries of a directory with the offsets behind them, up to the first error.\<close>

fun read_entries :: "u64 \<Rightarrow> (p9_error + u8 list \<times> (p9_error + metadata)) list \<Rightarrow> p9_error + dirent list" where
  "read_entries offset [] = Inr []"
| "read_entries offset (Inl e # items) = Inl e"
| "read_entries offset (Inr (name, Inl e) # items) = Inl e"
| "read_entries offset (Inr (name, Inr md) # items) =
     (if \<not> utf8_valid name then Inl EINVAL
      else
        let entry = \<lparr>dirent_qid = metadata_to_qid md, dirent_offset = 0,
              dirent_ty = (if md_is_dir md then 4 else if md_is_file md then 8 else 0), dirent_name = name\<rparr>;
            offset' = offset + ucast (wf_size dirent_format entry)
        in map_sum id (\<lambda>es. entry\<lparr>dirent_offset := offset'\<rparr> # es) (read_entries offset' items))"

text \<open>The loop that encodes entries while they fit the buffer.\<close>

fun fill_entries :: "nat \<Rightarrow> u8 list \<Rightarrow> dirent list \<Rightarrow> p9_error + u8 list" where
  "fill_entries capacity buf [] = Inr buf"
| "fill_entries capacity buf (entry # entries) =
     (if capacity - length buf < unat (wf_size dirent_format entry) then Inr buf
      else case wf_encode dirent_format entry of
        (Inl e, _) \<Rightarrow> Inl e
      | (Inr _, bs) \<Rightarrow> fill_entries capacity (buf @ bs) entries)"

definition p9_readdir :: "host \<Rightarrow> treaddir \<Rightarrow> rmessage srv" where
  "p9_readdir host t =
     srv_bind (get_fid (treaddir_fid t) EBADF) (\<lambda>f.
     if \<not> md_is_dir (fid_metadata f) then srv_fail ENOTDIR
     else
       srv_bind
         (if treaddir_offset t = 0 then
            srv_bind (ask (ho_read_dir host) (Call_read_dir (fid_path f))) (\<lambda>items.
            srv_bind (srv_lift (read_entries 0 items)) (\<lambda>dirents.
            srv_bind (set_fid (treaddir_fid t) (Some (f\<lparr>fid_dirents := Some dirents\<rparr>))) (\<lambda>_.
            srv_return (Some dirents))))
          else srv_return (fid_dirents f)) (\<lambda>dirents.
       case dirents of
         None \<Rightarrow> srv_fail EBADF
       | Some es \<Rightarrow>
           let entries = dropWhile (\<lambda>entry. dirent_offset entry \<le> treaddir_offset t) es;
               header_size = rframe_size \<lparr>rframe_tag = 0, rframe_msg = R_readdir \<lparr>rreaddir_data = []\<rparr>\<rparr>
           in srv_bind (srv_get sv_msize) (\<lambda>msize.
              let count = min (msize - header_size) (treaddir_count t)
              in srv_bind (srv_lift (fill_entries (unat count) [] entries)) (\<lambda>data.
                 srv_return (R_readdir \<lparr>rreaddir_data = data\<rparr>)))))"

definition p9_fsync :: "host \<Rightarrow> tfsync \<Rightarrow> rmessage srv" where
  "p9_fsync host t =
     srv_bind (get_file (tfsync_fid t)) (\<lambda>h.
     srv_bind (ask (ho_unit host) (if tfsync_datasync t = 0 then Call_sync_all h else Call_sync_data h)) (\<lambda>_.
     srv_return R_fsync))"

definition p9_lock :: "tlock \<Rightarrow> rmessage srv" where
  "p9_lock _ = srv_fail EOPNOTSUPP"

definition p9_get_lock :: "tgetlock \<Rightarrow> rmessage srv" where
  "p9_get_lock _ = srv_fail EOPNOTSUPP"

definition p9_link :: "host \<Rightarrow> tlink \<Rightarrow> rmessage srv" where
  "p9_link host t =
     srv_bind (get_fid (tlink_dfid t) EBADF) (\<lambda>d.
     srv_bind (srv_join (fid_path d) (tlink_name t)) (\<lambda>newpath.
     srv_bind (get_fid (tlink_fid t) EBADF) (\<lambda>f.
     srv_bind (ask (ho_unit host) (Call_hard_link (fid_path f) newpath)) (\<lambda>_.
     srv_return R_link))))"

definition p9_mkdir :: "host \<Rightarrow> tmkdir \<Rightarrow> rmessage srv" where
  "p9_mkdir host t =
     srv_bind (get_fid (tmkdir_dfid t) EBADF) (\<lambda>f.
     srv_bind (srv_join (fid_path f) (tmkdir_name t)) (\<lambda>newpath.
     srv_bind (ask (ho_unit host) (Call_create_dir newpath (tmkdir_mode t AND 0x1ED))) (\<lambda>_.
     srv_bind (ask (ho_metadata host) (Call_metadata newpath)) (\<lambda>md.
     srv_return (R_mkdir \<lparr>rmkdir_qid = metadata_to_qid md\<rparr>)))))"

definition p9_rename_at :: "host \<Rightarrow> trenameat \<Rightarrow> rmessage srv" where
  "p9_rename_at host t =
     srv_bind (get_fid (trenameat_olddirfid t) EBADF) (\<lambda>old.
     srv_bind (srv_join (fid_path old) (trenameat_oldname t)) (\<lambda>oldpath.
     srv_bind (get_fid (trenameat_newdirfid t) EBADF) (\<lambda>new.
     srv_bind (srv_join (fid_path new) (trenameat_newname t)) (\<lambda>newpath.
     srv_bind (ask (ho_unit host) (Call_rename oldpath newpath)) (\<lambda>_.
     srv_return R_rename_at)))))"

definition p9_unlink_at :: "host \<Rightarrow> tunlinkat \<Rightarrow> rmessage srv" where
  "p9_unlink_at host t =
     srv_bind (get_fid (tunlinkat_dirfd t) EBADF) (\<lambda>f.
     srv_bind (srv_join (fid_path f) (tunlinkat_name t)) (\<lambda>path.
     srv_bind (ask (ho_metadata host) (Call_metadata path)) (\<lambda>md.
     if md_is_dir md \<and> tunlinkat_flags t AND 0x200 = 0 then srv_fail EISDIR
     else
       srv_bind (ask (ho_unit host) (if md_is_dir md then Call_remove_dir path else Call_remove_file path)) (\<lambda>_.
       srv_return R_unlink_at))))"

section \<open>Handling a message\<close>

fun p9_dispatch :: "host \<Rightarrow> tmessage \<Rightarrow> rmessage srv" where
  "p9_dispatch host (T_version m) = p9_version m"
| "p9_dispatch host (T_flush m) = p9_flush m"
| "p9_dispatch host (T_walk m) = p9_walk host m"
| "p9_dispatch host (T_read m) = p9_read host m"
| "p9_dispatch host (T_write m) = p9_write host m"
| "p9_dispatch host (T_clunk m) = p9_clunk m"
| "p9_dispatch host (T_remove m) = p9_remove host m"
| "p9_dispatch host (T_attach m) = p9_attach host m"
| "p9_dispatch host (T_auth m) = p9_auth m"
| "p9_dispatch host (T_statfs m) = p9_statfs host m"
| "p9_dispatch host (T_lopen m) = p9_lopen host m"
| "p9_dispatch host (T_lcreate m) = p9_lcreate host m"
| "p9_dispatch host (T_symlink m) = p9_symlink m"
| "p9_dispatch host (T_mknod m) = p9_mknod m"
| "p9_dispatch host (T_rename m) = p9_rename host m"
| "p9_dispatch host (T_readlink m) = p9_readlink m"
| "p9_dispatch host (T_get_attr m) = p9_get_attr host m"
| "p9_dispatch host (T_set_attr m) = p9_set_attr host m"
| "p9_dispatch host (T_xattr_walk m) = p9_xattr_walk m"
| "p9_dispatch host (T_xattr_create m) = p9_xattr_create m"
| "p9_dispatch host (T_readdir m) = p9_readdir host m"
| "p9_dispatch host (T_fsync m) = p9_fsync host m"
| "p9_dispatch host (T_lock m) = p9_lock m"
| "p9_dispatch host (T_get_lock m) = p9_get_lock m"
| "p9_dispatch host (T_link m) = p9_link host m"
| "p9_dispatch host (T_mkdir m) = p9_mkdir host m"
| "p9_dispatch host (T_rename_at m) = p9_rename_at host m"
| "p9_dispatch host (T_unlink_at m) = p9_unlink_at host m"

text \<open>
  The response to a request. The writer has room for a number of bytes; when it is full,
  \<^verbatim>\<open>write_all\<close> reports that nothing more is written.
\<close>

definition p9_respond :: "host \<Rightarrow> tframe \<Rightarrow> server \<Rightarrow> rframe \<times> server" where
  "p9_respond host request s =
     (let (rmsg, s') = p9_dispatch host (tframe_msg request) s
      in (\<lparr>rframe_tag = tframe_tag request, rframe_msg = (case rmsg of Inr m \<Rightarrow> m | Inl e \<Rightarrow> error_to_rmessage e)\<rparr>, s'))"

definition write_out :: "nat \<Rightarrow> (p9_error + unit) \<times> u8 list \<Rightarrow> (p9_error + unit) \<times> u8 list" where
  "write_out room w = (if length (snd w) \<le> room then w else (Inl (Kind Write_zero), take room (snd w)))"

definition handle_message :: "host \<Rightarrow> reader \<Rightarrow> nat \<Rightarrow> server \<Rightarrow> ((p9_error + unit) \<times> u8 list) \<times> server" where
  "handle_message host rd room s =
     (case rd_take (unat (sv_msize s)) tframe_decode rd of
        (Inl e, _) \<Rightarrow> ((Inl e, []), s)
      | (Inr request, _) \<Rightarrow>
          let (response, s') = p9_respond host request s in (write_out room (rframe_encode response), s'))"

end
