(* ===== verification/P9_Safety.thy ===== *)
theory P9_Safety
  imports P9_Server
begin

text \<open>
  The 9P server confines its clients, answers every request, and respects the size of messages
  it has agreed on.
\<close>

section \<open>Paths below the root\<close>

fun is_name :: "component \<Rightarrow> bool" where
  "is_name (Normal n) \<longleftrightarrow> n \<noteq> [] \<and> 0x2F \<notin> set n \<and> n \<noteq> [0x2E] \<and> n \<noteq> [0x2E, 0x2E]"
| "is_name _ \<longleftrightarrow> False"

definition below :: "path \<Rightarrow> path \<Rightarrow> bool" where
  "below root p \<longleftrightarrow> (\<exists>ns. p = root @ ns \<and> list_all is_name ns)"

lemma split_path_no_slash: "p \<in> set (split_path s) \<Longrightarrow> 0x2F \<notin> set p"
proof (induction s arbitrary: p)
  case (Cons c cs)
  then show ?case by (auto split: if_splits list.splits)
qed simp

lemma path_components_names: "Normal n \<in> set (path_components s) \<Longrightarrow> is_name (Normal n)"
  by (auto simp: path_components_def component_of_def dest: split_path_no_slash split: list.splits if_splits)

lemma below_root [intro, simp]: "below root root"
  by (simp add: below_def)

lemma below_pop:
  assumes "below root p" "p \<noteq> root"
  shows "below root (path_pop p)"
proof -
  obtain ns where ns: "p = root @ ns" "list_all is_name ns" using assms(1) by (auto simp: below_def)
  then have "ns \<noteq> []" using assms(2) by auto
  then obtain ns' x where "ns = ns' @ [x]" by (metis rev_exhaust)
  with ns show ?thesis by (auto simp: below_def path_pop_def butlast_append)
qed

lemma join_components_below:
  assumes "join_components root cs buf = Inr p" "below root buf" "\<And>n. Normal n \<in> set cs \<Longrightarrow> is_name (Normal n)"
  shows "below root p"
  using assms
proof (induction root cs buf rule: join_components.induct)
  case (5 root e cs buf)
  have "below root (buf @ [Normal e])"
    using 5(3) 5(4) [of e] by (auto simp: below_def)
  with 5 show ?case by simp
qed (auto simp: below_pop split: if_splits)

lemma join_path_below: "join_path buf name root = Inr p \<Longrightarrow> below root buf \<Longrightarrow> below root p"
  by (auto simp: join_path_def split: if_splits intro: join_components_below path_components_names)

section \<open>The invariant\<close>

fun call_paths :: "host_call \<Rightarrow> path list" where
  "call_paths (Call_metadata p) = [p]"
| "call_paths (Call_open p _) = [p]"
| "call_paths (Call_remove_dir p) = [p]"
| "call_paths (Call_remove_file p) = [p]"
| "call_paths (Call_rename p q) = [p, q]"
| "call_paths (Call_hard_link p q) = [p, q]"
| "call_paths (Call_create_dir p _) = [p]"
| "call_paths (Call_read_dir p) = [p]"
| "call_paths (Call_statfs p) = [p]"
| "call_paths _ = []"

definition call_below :: "path \<Rightarrow> host_call \<Rightarrow> bool" where
  "call_below root c \<longleftrightarrow> list_all (below root) (call_paths c)"

definition confined :: "path \<Rightarrow> server \<Rightarrow> bool" where
  "confined root s \<longleftrightarrow> sv_root s = root \<and> (\<forall>n f. sv_fids s n = Some f \<longrightarrow> below root (fid_path f)) \<and> list_all (call_below root) (sv_calls s)
     \<and> 256 \<le> sv_msize s \<and> sv_msize s \<le> 65535"

text \<open>
  \<open>keeps root n m Q\<close>: the computation \<open>m\<close> keeps the server confined and its message size \<open>n\<close>,
  and a result satisfies \<open>Q\<close>.
\<close>

definition keeps :: "path \<Rightarrow> u32 \<Rightarrow> 'a srv \<Rightarrow> ('a \<Rightarrow> bool) \<Rightarrow> bool" where
  "keeps root n m Q \<longleftrightarrow>
     (\<forall>s. confined root s \<and> sv_msize s = n \<longrightarrow>
        confined root (snd (m s)) \<and> sv_msize (snd (m s)) = n \<and> (\<forall>x. fst (m s) = Inr x \<longrightarrow> Q x))"

named_theorems keeps_rules \<open>rules for computations of the server\<close>

lemma keeps_bind:
  assumes "keeps root n m P" "\<And>x. P x \<Longrightarrow> keeps root n (f x) Q"
  shows "keeps root n (srv_bind m f) Q"
  unfolding keeps_def
proof (intro allI impI)
  fix s assume s: "confined root s \<and> sv_msize s = n"
  obtain r s' where r: "m s = (r, s')" by fastforce
  with assms(1) s have ok: "confined root s' \<and> sv_msize s' = n" "\<forall>x. r = Inr x \<longrightarrow> P x" by (auto simp: keeps_def)
  show "confined root (snd (srv_bind m f s)) \<and> sv_msize (snd (srv_bind m f s)) = n \<and> (\<forall>x. fst (srv_bind m f s) = Inr x \<longrightarrow> Q x)"
  proof (cases r)
    case (Inl e)
    with r ok show ?thesis by (simp add: srv_bind_def)
  next
    case (Inr x)
    with r ok assms(2) [of x] show ?thesis by (simp add: srv_bind_def keeps_def)
  qed
qed

lemma keeps_return [keeps_rules]: "Q x \<Longrightarrow> keeps root n (srv_return x) Q"
  by (simp add: keeps_def srv_return_def)

lemma keeps_fail [keeps_rules]: "keeps root n (srv_fail e) Q"
  by (simp add: keeps_def srv_fail_def)

lemma keeps_lift [keeps_rules]: "keeps root n (srv_lift r) (\<lambda>x. r = Inr x)"
  by (simp add: keeps_def srv_lift_def)

lemma keeps_msize [keeps_rules]: "keeps root n (srv_get sv_msize) (\<lambda>x. x = n \<and> 256 \<le> n \<and> n \<le> 65535)"
  by (auto simp: keeps_def srv_get_def confined_def)

lemma keeps_entry [keeps_rules]: "keeps root n (srv_get (\<lambda>s. (sv_fids s i, sv_root s))) (\<lambda>(_, r). r = root)"
  by (auto simp: keeps_def srv_get_def confined_def)

lemma keeps_get_fid [keeps_rules]: "keeps root n (get_fid i e) (\<lambda>f. below root (fid_path f))"
  by (auto simp: keeps_def get_fid_def confined_def split: option.splits)

lemma keeps_set_fid [keeps_rules]: "(\<And>f. x = Some f \<Longrightarrow> below root (fid_path f)) \<Longrightarrow> keeps root n (set_fid i x) (\<lambda>_. True)"
  by (auto simp: keeps_def set_fid_def confined_def)

lemma keeps_get_file [keeps_rules]: "keeps root n (get_file i) (\<lambda>_. True)"
  unfolding get_file_def
  by (rule keeps_bind [OF keeps_get_fid]) (auto intro: keeps_rules split: option.split)

lemma keeps_ask:
  "call_below root c \<Longrightarrow> keeps root n (ask answer c) (\<lambda>x. \<exists>cs. answer (cs @ [c]) = Inr x)"
  by (auto simp: keeps_def ask_def confined_def Let_def)

lemma keeps_join [keeps_rules]: "below root buf \<Longrightarrow> keeps root n (srv_join buf name) (below root)"
  by (auto simp: keeps_def srv_join_def srv_bind_def srv_get_def srv_lift_def confined_def dest: join_path_below)

lemma keeps_if: "(b \<Longrightarrow> keeps root n m Q) \<Longrightarrow> (\<not> b \<Longrightarrow> keeps root n m' Q) \<Longrightarrow> keeps root n (if b then m else m') Q"
  by simp

lemma keeps_mono: "keeps root n m P \<Longrightarrow> (\<And>x. P x \<Longrightarrow> Q x) \<Longrightarrow> keeps root n m Q"
  by (auto simp: keeps_def)

lemma keeps_prod:
  "(\<And>a b. x = (a, b) \<Longrightarrow> keeps root n (f a b) Q) \<Longrightarrow> keeps root n (case x of (a, b) \<Rightarrow> f a b) Q"
  by (cases x) simp

lemma keeps_option:
  "(x = None \<Longrightarrow> keeps root n m Q) \<Longrightarrow> (\<And>y. x = Some y \<Longrightarrow> keeps root n (f y) Q) \<Longrightarrow>
     keeps root n (case x of None \<Rightarrow> m | Some y \<Rightarrow> f y) Q"
  by (cases x) simp_all

lemma keeps_sum:
  "(\<And>e. x = Inl e \<Longrightarrow> keeps root n (f e) Q) \<Longrightarrow> (\<And>y. x = Inr y \<Longrightarrow> keeps root n (g y) Q) \<Longrightarrow>
     keeps root n (case x of Inl e \<Rightarrow> f e | Inr y \<Rightarrow> g y) Q"
  by (cases x) simp_all

lemma keeps_ask_if: "call_below root c \<Longrightarrow> keeps root n (if b then ask answer c else srv_return x) (\<lambda>_. True)"
  by (auto intro: keeps_mono [OF keeps_ask] keeps_return)

lemmas keeps_intros = keeps_bind keeps_ask_if keeps_if keeps_prod keeps_option keeps_sum keeps_ask keeps_rules

section \<open>Answers\<close>

text \<open>Reading \<open>n\<close> bytes of a file yields at most \<open>n\<close> bytes.\<close>

definition host_ok :: "host \<Rightarrow> bool" where
  "host_ok host \<longleftrightarrow> (\<forall>cs h n off bs. ho_read_at host (cs @ [Call_read_at h n off]) = Inr bs \<longrightarrow> length bs \<le> n)"

fun short_walk :: "tmessage \<Rightarrow> bool" where
  "short_walk (T_walk w) \<longleftrightarrow> length (twalk_wnames w) \<le> 16"
| "short_walk _ \<longleftrightarrow> True"

definition answer_ok :: "host \<Rightarrow> u32 \<Rightarrow> tmessage \<Rightarrow> rmessage \<Rightarrow> bool" where
  "answer_ok host n t m \<longleftrightarrow>
     (host_ok host \<and> tmessage_valid t \<longrightarrow> rmessage_valid m)
     \<and> (host_ok host \<and> short_walk t \<longrightarrow> 7 + length (snd (rmessage_encode m)) \<le> unat n)"

lemmas format_defs = struct_def field_def no_fields_def uint_format_def vec_format_def string_format_def data_format_def
  qid_format_def dirent_format_def rattach_format_def rlopen_format_def rlcreate_format_def rmkdir_format_def rwrite_format_def rstatfs_format_def
  rgetattr_format_def rlerror_format_def rwalk_format_def rread_format_def rreaddir_format_def rversion_format_def

lemma qid_length: "fst (wf_encode qid_format q) = Inr ()" "length (snd (wf_encode qid_format q)) = 13"
  by (simp_all add: format_defs snd_enc_seq)

lemma qids_length:
  "fst (encode_all (wf_encode qid_format) qs) = Inr ()" "length (snd (encode_all (wf_encode qid_format) qs)) = 13 * length qs"
  by (induction qs) (simp_all add: qid_length snd_enc_seq)

lemma response_lengths:
  "length (snd (wf_encode rattach_format a)) = 13"
  "length (snd (wf_encode rlopen_format b)) = 17"
  "length (snd (wf_encode rlcreate_format c)) = 17"
  "length (snd (wf_encode rmkdir_format d)) = 13"
  "length (snd (wf_encode rwrite_format e)) = 4"
  "length (snd (wf_encode rstatfs_format f)) = 60"
  "length (snd (wf_encode rgetattr_format g)) = 153"
  "length (snd (wf_encode rlerror_format h)) = 4"
  by (simp_all add: format_defs snd_enc_seq)

lemma fixed_answer_ok:
  assumes "256 \<le> n" "rmessage_valid m" "length (snd (rmessage_encode m)) \<le> 249"
  shows "answer_ok host n t m"
  using assms by (simp add: answer_ok_def word_le_nat_alt)

lemma fixed_answers:
  assumes "256 \<le> n"
  shows "answer_ok host n t (R_attach a)" "answer_ok host n t (R_lopen b)" "answer_ok host n t (R_lcreate c)"
    "answer_ok host n t (R_mkdir d)" "answer_ok host n t (R_write e)" "answer_ok host n t (R_statfs f)"
    "answer_ok host n t (R_get_attr g)" "answer_ok host n t (R_lerror h)" "answer_ok host n t R_flush" "answer_ok host n t R_clunk"
    "answer_ok host n t R_remove" "answer_ok host n t R_rename" "answer_ok host n t R_set_attr" "answer_ok host n t R_fsync"
    "answer_ok host n t R_link" "answer_ok host n t R_rename_at" "answer_ok host n t R_unlink_at"
  by (simp_all add: fixed_answer_ok [OF assms] response_lengths)

text \<open>The requests with answers of a fixed length.\<close>

lemma keeps_attach: "256 \<le> n \<Longrightarrow> keeps root n (p9_attach host t) (answer_ok host n m)"
  unfolding p9_attach_def Let_def by (rule keeps_intros fixed_answers | assumption | (auto simp: call_below_def)[1])+

lemma keeps_auth: "256 \<le> n \<Longrightarrow> keeps root n (p9_auth t) (answer_ok host n m)"
  unfolding p9_auth_def Let_def by (rule keeps_intros fixed_answers | assumption | (auto simp: call_below_def)[1])+

lemma keeps_flush: "256 \<le> n \<Longrightarrow> keeps root n (p9_flush t) (answer_ok host n m)"
  unfolding p9_flush_def Let_def by (rule keeps_intros fixed_answers | assumption | (auto simp: call_below_def)[1])+

lemma keeps_write: "256 \<le> n \<Longrightarrow> keeps root n (p9_write host t) (answer_ok host n m)"
  unfolding p9_write_def Let_def by (rule keeps_intros fixed_answers | assumption | (auto simp: call_below_def)[1])+

lemma keeps_clunk: "256 \<le> n \<Longrightarrow> keeps root n (p9_clunk t) (answer_ok host n m)"
  unfolding p9_clunk_def Let_def by (rule keeps_intros fixed_answers | assumption | (auto simp: call_below_def)[1])+

lemma keeps_remove: "256 \<le> n \<Longrightarrow> keeps root n (p9_remove host t) (answer_ok host n m)"
  unfolding p9_remove_def Let_def by (rule keeps_intros fixed_answers | assumption | (auto simp: call_below_def)[1])+

lemma keeps_statfs: "256 \<le> n \<Longrightarrow> keeps root n (p9_statfs host t) (answer_ok host n m)"
  unfolding p9_statfs_def Let_def by (rule keeps_intros fixed_answers | assumption | (auto simp: call_below_def)[1])+

lemma keeps_lopen: "256 \<le> n \<Longrightarrow> keeps root n (p9_lopen host t) (answer_ok host n m)"
  unfolding p9_lopen_def Let_def by (rule keeps_intros fixed_answers | assumption | (auto simp: call_below_def)[1])+

lemma keeps_lcreate: "256 \<le> n \<Longrightarrow> keeps root n (p9_lcreate host t) (answer_ok host n m)"
  unfolding p9_lcreate_def Let_def by (rule keeps_intros fixed_answers | assumption | (auto simp: call_below_def)[1])+

lemma keeps_symlink: "256 \<le> n \<Longrightarrow> keeps root n (p9_symlink t) (answer_ok host n m)"
  unfolding p9_symlink_def Let_def by (rule keeps_intros fixed_answers | assumption | (auto simp: call_below_def)[1])+

lemma keeps_mknod: "256 \<le> n \<Longrightarrow> keeps root n (p9_mknod t) (answer_ok host n m)"
  unfolding p9_mknod_def Let_def by (rule keeps_intros fixed_answers | assumption | (auto simp: call_below_def)[1])+

lemma keeps_rename: "256 \<le> n \<Longrightarrow> keeps root n (p9_rename host t) (answer_ok host n m)"
  unfolding p9_rename_def Let_def by (rule keeps_intros fixed_answers | assumption | (auto simp: call_below_def)[1])+

lemma keeps_readlink: "256 \<le> n \<Longrightarrow> keeps root n (p9_readlink t) (answer_ok host n m)"
  unfolding p9_readlink_def Let_def by (rule keeps_intros fixed_answers | assumption | (auto simp: call_below_def)[1])+

lemma keeps_get_attr: "256 \<le> n \<Longrightarrow> keeps root n (p9_get_attr host t) (answer_ok host n m)"
  unfolding p9_get_attr_def Let_def by (rule keeps_intros fixed_answers | assumption | (auto simp: call_below_def)[1])+

lemma keeps_set_attr: "256 \<le> n \<Longrightarrow> keeps root n (p9_set_attr host t) (answer_ok host n m)"
  unfolding p9_set_attr_def Let_def by (rule keeps_intros fixed_answers | assumption | (auto simp: call_below_def)[1])+

lemma keeps_xattr_walk: "256 \<le> n \<Longrightarrow> keeps root n (p9_xattr_walk t) (answer_ok host n m)"
  unfolding p9_xattr_walk_def Let_def by (rule keeps_intros fixed_answers | assumption | (auto simp: call_below_def)[1])+

lemma keeps_xattr_create: "256 \<le> n \<Longrightarrow> keeps root n (p9_xattr_create t) (answer_ok host n m)"
  unfolding p9_xattr_create_def Let_def by (rule keeps_intros fixed_answers | assumption | (auto simp: call_below_def)[1])+

lemma keeps_fsync: "256 \<le> n \<Longrightarrow> keeps root n (p9_fsync host t) (answer_ok host n m)"
  unfolding p9_fsync_def Let_def by (rule keeps_intros fixed_answers | assumption | (auto simp: call_below_def)[1])+

lemma keeps_lock: "256 \<le> n \<Longrightarrow> keeps root n (p9_lock t) (answer_ok host n m)"
  unfolding p9_lock_def Let_def by (rule keeps_intros fixed_answers | assumption | (auto simp: call_below_def)[1])+

lemma keeps_get_lock: "256 \<le> n \<Longrightarrow> keeps root n (p9_get_lock t) (answer_ok host n m)"
  unfolding p9_get_lock_def Let_def by (rule keeps_intros fixed_answers | assumption | (auto simp: call_below_def)[1])+

lemma keeps_link: "256 \<le> n \<Longrightarrow> keeps root n (p9_link host t) (answer_ok host n m)"
  unfolding p9_link_def Let_def by (rule keeps_intros fixed_answers | assumption | (auto simp: call_below_def)[1])+

lemma keeps_mkdir: "256 \<le> n \<Longrightarrow> keeps root n (p9_mkdir host t) (answer_ok host n m)"
  unfolding p9_mkdir_def Let_def by (rule keeps_intros fixed_answers | assumption | (auto simp: call_below_def)[1])+

lemma keeps_rename_at: "256 \<le> n \<Longrightarrow> keeps root n (p9_rename_at host t) (answer_ok host n m)"
  unfolding p9_rename_at_def Let_def by (rule keeps_intros fixed_answers | assumption | (auto simp: call_below_def)[1])+

lemma keeps_unlink_at: "256 \<le> n \<Longrightarrow> keeps root n (p9_unlink_at host t) (answer_ok host n m)"
  unfolding p9_unlink_at_def Let_def by (rule keeps_intros fixed_answers | assumption | (auto simp: call_below_def)[1])+

text \<open>The requests with answers of a length that varies.\<close>

lemma read_room:
  assumes "256 \<le> n" "n \<le> (65535 :: u32)"
  shows "unat (n - 11) = unat n - 11" "11 \<le> unat n" "unat n \<le> 65535"
  using assms by (auto simp: unat_sub_if' word_le_nat_alt)

lemma header_sizes:
  "rframe_size \<lparr>rframe_tag = 0, rframe_msg = R_read \<lparr>rread_data = []\<rparr>\<rparr> = 11"
  "rframe_size \<lparr>rframe_tag = 0, rframe_msg = R_readdir \<lparr>rreaddir_data = []\<rparr>\<rparr> = 11"
  by (simp_all add: rframe_size_def format_defs)

lemma data_answers:
  assumes "256 \<le> n" "n \<le> 65535" "length bs \<le> unat (min (n - 11) c)"
  shows "answer_ok host n t (R_read \<lparr>rread_data = bs\<rparr>)" "answer_ok host n t (R_readdir \<lparr>rreaddir_data = bs\<rparr>)"
proof -
  have "length bs \<le> unat (n - 11)" using assms(3) by (auto simp: min_def word_le_nat_alt split: if_splits)
  with read_room [OF assms(1, 2)] have bs: "11 + length bs \<le> unat n" "length bs \<le> 65535" by simp_all
  then show "answer_ok host n t (R_read \<lparr>rread_data = bs\<rparr>)" "answer_ok host n t (R_readdir \<lparr>rreaddir_data = bs\<rparr>)"
    by (simp_all add: answer_ok_def rread_valid_def rreaddir_valid_def data_valid_def format_defs snd_enc_seq)
qed

lemma read_answer:
  assumes "256 \<le> n" "n \<le> 65535" "ho_read_at host (cs @ [Call_read_at h (unat (min (n - 11) c)) off]) = Inr bs"
  shows "answer_ok host n t (R_read \<lparr>rread_data = bs\<rparr>)"
proof (cases "host_ok host")
  case True
  then have "length bs \<le> unat (min (n - 11) c)" using assms(3) by (simp add: host_ok_def)
  then show ?thesis by (rule data_answers [OF assms(1, 2)])
qed (simp add: answer_ok_def)

lemma keeps_read: "256 \<le> n \<Longrightarrow> n \<le> 65535 \<Longrightarrow> keeps root n (p9_read host t) (answer_ok host n m)"
  unfolding p9_read_def Let_def header_sizes
  by (rule keeps_intros fixed_answers | assumption | (auto simp: call_below_def intro: read_answer)[1])+

lemma dirent_encodes:
  assumes "length (dirent_name e) \<le> 65535"
  shows "wf_encode dirent_format e = (Inr (), snd (wf_encode dirent_format e))"
    "length (snd (wf_encode dirent_format e)) = 24 + length (dirent_name e)" "unat (wf_size dirent_format e) = 24 + length (dirent_name e)"
proof -
  have ok: "fst (wf_encode dirent_format e) = Inr ()" using assms by (simp add: format_defs)
  show "wf_encode dirent_format e = (Inr (), snd (wf_encode dirent_format e))" using ok by (simp add: prod_eq_iff)
  show l: "length (snd (wf_encode dirent_format e)) = 24 + length (dirent_name e)"
    using assms by (simp add: format_defs snd_enc_seq)
  show "unat (wf_size dirent_format e) = 24 + length (dirent_name e)"
    using wire_law.size [OF dirent_law ok] l assms by (simp add: unat_word_ariths unsigned_of_nat take_bit_nat_def)
qed

lemma dirent_fails: "65535 < length (dirent_name e) \<Longrightarrow> fst (wf_encode dirent_format e) = Inl (Kind Invalid_input)"
  by (simp add: format_defs)

lemma fill_entries_length: "fill_entries c buf es = Inr bs \<Longrightarrow> length buf \<le> c \<Longrightarrow> length bs \<le> c"
proof (induction c buf es rule: fill_entries.induct)
  case (2 c buf e es)
  show ?case
  proof (cases "c - length buf < unat (wf_size dirent_format e)")
    case False
    show ?thesis
    proof (cases "length (dirent_name e) \<le> 65535")
      case True
      note e = dirent_encodes [OF True]
      from 2(2) False e have "fill_entries c (buf @ snd (wf_encode dirent_format e)) es = Inr bs"
        by (simp split: prod.splits sum.splits)
      moreover have "length (buf @ snd (wf_encode dirent_format e)) \<le> c"
        using False e 2(3) by simp
      ultimately show ?thesis using 2(1) [OF False e(1) [symmetric] refl] by simp
    next
      case long: False
      then show ?thesis using 2(2) False dirent_fails [of e] by (auto split: prod.splits)
    qed
  qed (use 2 in simp)
qed simp

lemma keeps_dirents:
  "below root (fid_path f) \<Longrightarrow> keeps root n
    (if b then
       srv_bind (ask (ho_read_dir host) (Call_read_dir (fid_path f))) (\<lambda>items.
       srv_bind (srv_lift (read_entries 0 items)) (\<lambda>dirents.
       srv_bind (set_fid i (Some (f\<lparr>fid_dirents := Some dirents\<rparr>))) (\<lambda>_.
       srv_return (Some dirents))))
     else srv_return (fid_dirents f)) (\<lambda>_. True)"
  by (rule keeps_intros | assumption | (auto simp: call_below_def)[1])+

lemma readdir_answer:
  assumes "256 \<le> n" "n \<le> 65535" "fill_entries (unat (min (n - 11) c)) [] es = Inr bs"
  shows "answer_ok host n t (R_readdir \<lparr>rreaddir_data = bs\<rparr>)"
  using fill_entries_length [OF assms(3)] by (intro data_answers [OF assms(1, 2)]) simp

lemma keeps_readdir: "256 \<le> n \<Longrightarrow> n \<le> 65535 \<Longrightarrow> keeps root n (p9_readdir host t) (answer_ok host n m)"
  unfolding p9_readdir_def Let_def header_sizes
  by (rule keeps_dirents keeps_intros fixed_answers | assumption
      | (auto intro: readdir_answer)[1])+

text \<open>A walk.\<close>

lemma do_walk_keeps:
  assumes "do_walk host root names buf mds s = ((r, mds'), s')" "confined root s" "below root buf"
  shows "confined root s' \<and> sv_msize s' = sv_msize s \<and> length mds' \<le> length mds + length names \<and> (\<forall>p. r = Inr p \<longrightarrow> below root p)"
  using assms
proof (induction names arbitrary: buf mds s)
  case (Cons name names)
  show ?case
  proof (cases "join_path buf name root")
    case (Inr p)
    have p: "below root p" using join_path_below [OF Inr Cons.prems(3)] .
    obtain x s1 where x: "ask (ho_metadata host) (Call_metadata p) s = (x, s1)" by fastforce
    have s1: "confined root s1" "sv_msize s1 = sv_msize s"
      using x Cons.prems(2) p by (auto simp: ask_def Let_def confined_def call_below_def)
    show ?thesis
    proof (cases x)
      case (Inr md)
      then have "do_walk host root names p (mds @ [md]) s1 = ((r, mds'), s')"
        using Cons.prems(1) \<open>join_path buf name root = Inr p\<close> x by simp
      from Cons.IH [OF this s1(1) p] s1(2) show ?thesis by simp
    qed (use Cons.prems(1) Inr x s1 in auto)
  qed (use Cons.prems in auto)
qed auto

lemma keeps_do_walk:
  assumes "below root (fid_path f)"
  shows "keeps root n (\<lambda>s. case do_walk host root names (fid_path f) [] s of (x, s) \<Rightarrow> (Inr x, s))
    (\<lambda>(r, mds). length mds \<le> length names \<and> (\<forall>p. r = Inr p \<longrightarrow> below root p))"
  unfolding keeps_def
proof (intro allI impI)
  fix s assume s: "confined root s \<and> sv_msize s = n"
  obtain r mds s' where w: "do_walk host root names (fid_path f) [] s = ((r, mds), s')" by (metis prod.exhaust)
  from do_walk_keeps [OF w _ assms] s w
  show "confined root (snd (case do_walk host root names (fid_path f) [] s of (x, s) \<Rightarrow> (Inr x, s)))
    \<and> sv_msize (snd (case do_walk host root names (fid_path f) [] s of (x, s) \<Rightarrow> (Inr x, s))) = n
    \<and> (\<forall>x. fst (case do_walk host root names (fid_path f) [] s of (x, s) \<Rightarrow> (Inr x, s)) = Inr x \<longrightarrow>
         (case x of (r, mds) \<Rightarrow> length mds \<le> length names \<and> (\<forall>p. r = Inr p \<longrightarrow> below root p)))"
    by auto
qed

lemma walk_answer:
  assumes "256 \<le> n" "length mds \<le> length (twalk_wnames t)"
  shows "answer_ok host n (T_walk t) (R_walk \<lparr>rwalk_wqids = map metadata_to_qid mds\<rparr>)"
  using assms by (auto simp: answer_ok_def rwalk_valid_def twalk_valid_def vec_valid_def word_le_nat_alt rwalk_format_def struct_def field_def
      no_fields_def vec_format_def uint_format_def snd_enc_seq qids_length)

lemma keeps_walk: "256 \<le> n \<Longrightarrow> keeps root n (p9_walk host t) (answer_ok host n (T_walk t))"
  unfolding p9_walk_def Let_def
  apply (rule keeps_bind, rule keeps_entry)
  apply (rule keeps_prod, rule keeps_if, rule keeps_fail, rule keeps_bind, rule keeps_get_fid)
  apply (rule keeps_bind, simp, erule keeps_do_walk)
  apply (auto intro!: keeps_intros walk_answer split: sum.splits)
  done

lemma version_keeps:
  assumes "confined root s"
  shows "confined root (snd (p9_version t s))"
    "fst (p9_version t s) = Inr m \<Longrightarrow> answer_ok host (sv_msize (snd (p9_version t s))) x m"
  subgoal using assms by (auto simp: p9_version_def confined_def Let_def min_def word_le_nat_alt word_less_nat_alt)
  subgoal
    by (auto simp: p9_version_def Let_def min_def version_9p2000_l_def version_unknown_def rversion_valid_def string_valid_def utf8_valid.simps
        utf8_width_def format_defs snd_enc_seq intro!: fixed_answer_ok split: if_splits)
  done

section \<open>All requests\<close>

lemmas keeps_all = keeps_attach keeps_auth keeps_flush keeps_write keeps_clunk keeps_remove keeps_statfs keeps_lopen keeps_lcreate keeps_symlink
  keeps_mknod keeps_rename keeps_readlink keeps_get_attr keeps_set_attr keeps_xattr_walk keeps_xattr_create keeps_fsync keeps_lock
  keeps_get_lock keeps_link keeps_mkdir keeps_rename_at keeps_unlink_at keeps_read keeps_readdir keeps_walk

fun is_version :: "tmessage \<Rightarrow> bool" where
  "is_version (T_version _) \<longleftrightarrow> True"
| "is_version _ \<longleftrightarrow> False"

lemma dispatch_keeps: "256 \<le> n \<Longrightarrow> n \<le> 65535 \<Longrightarrow> \<not> is_version m \<Longrightarrow> keeps root n (p9_dispatch host m) (answer_ok host n m)"
  by (cases m) (simp_all add: keeps_all)

lemma dispatch_confined:
  assumes "confined root s" "p9_dispatch host m s = (r, s')"
  shows "confined root s' \<and> (\<forall>a. r = Inr a \<longrightarrow> answer_ok host (sv_msize s') m a)"
proof (cases "is_version m")
  case True
  then obtain t where m: "m = T_version t" by (cases m) auto
  with assms version_keeps [OF assms(1), of t] show ?thesis by auto
next
  case False
  have n: "256 \<le> sv_msize s" "sv_msize s \<le> 65535" using assms(1) by (simp_all add: confined_def)
  from dispatch_keeps [OF n False, of root host] assms show ?thesis by (auto simp: keeps_def)
qed

lemma respond_confined:
  assumes "confined root s" "p9_respond host f s = (g, s')"
  shows "confined root s'" "rframe_tag g = tframe_tag f" "answer_ok host (sv_msize s') (tframe_msg f) (rframe_msg g)"
proof -
  obtain r where r: "p9_dispatch host (tframe_msg f) s = (r, s')"
    "g = \<lparr>rframe_tag = tframe_tag f, rframe_msg = (case r of Inr m \<Rightarrow> m | Inl e \<Rightarrow> error_to_rmessage e)\<rparr>"
    using assms(2) by (auto simp: p9_respond_def Let_def split: prod.splits)
  note ok = dispatch_confined [OF assms(1) r(1)]
  show "confined root s'" "rframe_tag g = tframe_tag f" using ok r(2) by simp_all
  have n: "256 \<le> sv_msize s'" using ok by (simp add: confined_def)
  have "answer_ok host (sv_msize s') (tframe_msg f) (error_to_rmessage e)" for e
    by (cases e) (simp_all add: fixed_answers [OF n])
  with ok r(2) show "answer_ok host (sv_msize s') (tframe_msg f) (rframe_msg g)" by (cases r) simp_all
qed

lemma rmessage_small: "rmessage_valid m \<Longrightarrow> length (snd (rmessage_encode m)) < 2 ^ 30"
  by (cases m) (simp_all add: response_lengths, simp_all add: struct_def field_def no_fields_def uint_format_def vec_format_def
      string_format_def data_format_def snd_enc_seq qid_length qids_length rversion_format_def rwalk_format_def rread_format_def
      rauth_format_def rsymlink_format_def rmknod_format_def rreadlink_format_def rxattrwalk_format_def rreaddir_format_def
      rlock_format_def rgetlock_format_def rversion_valid_def rwalk_valid_def rread_valid_def rreadlink_valid_def rreaddir_valid_def
      rgetlock_valid_def string_valid_def data_valid_def)

text \<open>Messages one after the other, each with a reader and the room for its answer.\<close>

fun serve :: "host \<Rightarrow> (reader \<times> nat) list \<Rightarrow> server \<Rightarrow> server" where
  "serve host [] s = s"
| "serve host ((rd, room) # ms) s = serve host ms (snd (handle_message host rd room s))"

lemma handle_message_confined: "confined root s \<Longrightarrow> confined root (snd (handle_message host rd room s))"
  by (auto simp: handle_message_def Let_def split: prod.splits sum.splits dest: respond_confined(1))

lemma serve_confined: "confined root s \<Longrightarrow> confined root (serve host ms s)"
  by (induction host ms s rule: serve.induct) (simp_all add: handle_message_confined)

lemma new_confined: "confined root (server_new root)"
  by (simp add: confined_def server_new_def)

text \<open>
  C7. A client of the 9P server cannot name a file outside the shared directory. Whatever bytes
  it sends, in any number of messages, and whatever the host answers, every path the server
  hands to the file system is the root followed by plain names: no component is empty, a
  \<^verbatim>\<open>.\<close> or a \<^verbatim>\<open>..\<close>, or contains a slash. (Symbolic links in the directory are followed by the
  host.)
\<close>

theorem p9_server_confined:
  "list_all (call_below root) (sv_calls (serve host msgs (server_new root)))"
  using serve_confined [OF new_confined] by (simp add: confined_def)

text \<open>
  C9. The 9P server answers every request it can decode, also when handling it fails. If reading
  a file never yields more bytes than asked for, it writes one response frame, with the tag of
  the request, that the client can decode, and apart from walks of more than sixteen names the
  frame is not longer than the message size agreed on.
\<close>

theorem p9_server_answers:
  assumes "host_ok host" "s = serve host msgs (server_new root)"
    "rd_take (unat (sv_msize s)) tframe_decode rd = (Inr f, rd')"
  shows "\<exists>g s'. handle_message host rd room s = (write_out room (rframe_encode g), s')
    \<and> rframe_tag g = tframe_tag f
    \<and> (\<forall>rest e. rframe_decode \<lparr>rd_bytes = snd (rframe_encode g) @ rest, rd_failure = e\<rparr> = (Inr g, \<lparr>rd_bytes = rest, rd_failure = e\<rparr>))
    \<and> (short_walk (tframe_msg f) \<longrightarrow> length (snd (rframe_encode g)) \<le> unat (sv_msize s'))"
proof -
  obtain g s' where g: "p9_respond host f s = (g, s')" by fastforce
  have "confined root s" using assms(2) serve_confined [OF new_confined] by simp
  note ok = respond_confined [OF this g]
  have "tframe_valid f"
    using assms(3) by (auto simp: rd_take_def Let_def split: prod.splits intro: tframe_decode_valid)
  with ok(3) assms(1) have v: "rmessage_valid (rframe_msg g)"
    "short_walk (tframe_msg f) \<longrightarrow> 7 + length (snd (rmessage_encode (rframe_msg g))) \<le> unat (sv_msize s')"
    by (simp_all add: answer_ok_def tframe_valid_def)
  have rv: "rframe_valid g" using v(1) rmessage_small [OF v(1)] by (simp add: rframe_valid_def)
  have "handle_message host rd room s = (write_out room (rframe_encode g), s')"
    using assms(3) g by (simp add: handle_message_def)
  moreover have "length (snd (rframe_encode g)) \<le> unat (sv_msize s')" if "short_walk (tframe_msg f)"
    using v(2) that rframe_encodes(2) [OF rv] rframe_sizes [OF rv] by simp
  moreover have "rframe_decode \<lparr>rd_bytes = snd (rframe_encode g) @ rest, rd_failure = e\<rparr> = (Inr g, \<lparr>rd_bytes = rest, rd_failure = e\<rparr>)" for rest e
    using rframe_decodes [OF rv, of "\<lparr>rd_bytes = snd (rframe_encode g) @ rest, rd_failure = e\<rparr>"] by simp
  ultimately show ?thesis using ok(2) by blast
qed

text \<open>A host that knows a single directory, which is empty.\<close>

definition some_metadata :: metadata where
  "some_metadata = \<lparr>md_is_dir = True, md_is_file = False, md_mode = 0x41ED, md_uid = 0, md_gid = 0, md_ino = 1, md_nlink = 2, md_rdev = 0,
     md_size = 0, md_blksize = 0x1000, md_blocks = 0, md_atime = 0, md_atime_nsec = 0, md_mtime = 0, md_mtime_nsec = 0, md_ctime = 0,
     md_ctime_nsec = 0\<rparr>"

definition empty_host :: host where
  "empty_host = \<lparr>ho_metadata = (\<lambda>_. Inr some_metadata), ho_open = (\<lambda>_. Inl EACCES), ho_read_at = (\<lambda>_. Inr []), ho_write_at = (\<lambda>_. Inr 0),
     ho_unit = (\<lambda>_. Inl EACCES), ho_read_dir = (\<lambda>_. Inr []), ho_statfs = (\<lambda>_. Inl EACCES)\<rparr>"

lemma empty_host_ok: "host_ok empty_host"
  by (auto simp: host_ok_def empty_host_def)

definition remove_frame :: tframe where
  "remove_frame = \<lparr>tframe_tag = 5, tframe_msg = T_remove \<lparr>tremove_fid = 9\<rparr>\<rparr>"

theorem p9_server_answers_witness:
  "\<exists>g s'. handle_message empty_host \<lparr>rd_bytes = [11, 0, 0, 0, 122, 5, 0, 9, 0, 0, 0], rd_failure = None\<rparr> 100 (server_new [Root_dir])
       = (write_out 100 (rframe_encode g), s')
    \<and> rframe_tag g = 5 \<and> length (snd (rframe_encode g)) \<le> unat (sv_msize s')"
proof -
  let ?rd = "\<lparr>rd_bytes = [11, 0, 0, 0, 122, 5, 0, 9, 0, 0, 0], rd_failure = None\<rparr>"
  have "rd_take (unat (sv_msize (server_new [Root_dir]))) tframe_decode ?rd = (Inr remove_frame, \<lparr>rd_bytes = [], rd_failure = None\<rparr>)"
    by (simp add: server_new_def remove_frame_def tframe_decode_def frame_body_def tmessage_decode_def dec_map_def dec_bind_def dec_return_def
        uint_format_def tremove_format_def struct_def field_def no_fields_def rd_exact_def rd_take_def)
  from p9_server_answers [where msgs = "[]", OF empty_host_ok _ this, of "[Root_dir]" 100] show ?thesis
    by (auto simp: remove_frame_def )
qed

section \<open>Long walks\<close>

text \<open>A walk over empty names stays where it is, and yields metadata for every name.\<close>

lemma join_path_empty: "join_path buf [] root = Inr buf"
  by (simp add: join_path_def path_components_def component_of_def)

lemma do_walk_empty:
  "\<exists>cs. do_walk empty_host root (replicate k []) buf mds s = ((Inr buf, mds @ replicate k some_metadata), s\<lparr>sv_calls := cs\<rparr>)"
proof (induction k arbitrary: mds s)
  case 0
  show ?case by (intro exI [of _ "sv_calls s"]) simp
next
  case (Suc k)
  let ?s = "s\<lparr>sv_calls := sv_calls s @ [Call_metadata buf]\<rparr>"
  obtain cs where "do_walk empty_host root (replicate k []) buf (mds @ [some_metadata]) ?s
      = ((Inr buf, (mds @ [some_metadata]) @ replicate k some_metadata), ?s\<lparr>sv_calls := cs\<rparr>)"
    using Suc.IH by blast
  then show ?case
    by (intro exI [of _ cs]) (simp add: join_path_empty ask_def empty_host_def)
qed

definition long_walk :: tframe where
  "long_walk = \<lparr>tframe_tag = 1, tframe_msg = T_walk \<lparr>twalk_fid = 0, twalk_newfid = 1, twalk_wnames = replicate 100 []\<rparr>\<rparr>"

text \<open>A server with messages of 256 bytes, and a client that has attached.\<close>

definition small_server :: server where
  "small_server = (server_new [Root_dir])\<lparr>sv_msize := 256,
     sv_fids := [0 \<mapsto> \<lparr>fid_path = [Root_dir], fid_metadata = some_metadata, fid_file = None, fid_dirents = None\<rparr>]\<rparr>"

lemma encode_all_empty:
  "fst (encode_all (wf_encode string_format) (replicate k [])) = Inr ()"
  "length (snd (encode_all (wf_encode string_format) (replicate k []))) = 2 * k"
  by (induction k) (simp_all add: string_format_def uint_format_def snd_enc_seq)

text \<open>
  C12. The number of names of a walk is not limited, so that its answer can be longer than the
  message size agreed on: a request of a hundred empty names, which fits into 256 bytes, is
  answered with a frame of more than 1300 bytes.
\<close>

theorem p9_walk_exceeds_msize:
  "length (snd (tframe_encode long_walk)) \<le> unat (sv_msize small_server)
   \<and> tframe_valid long_walk \<and> host_ok empty_host
   \<and> length (snd (rframe_encode (fst (p9_respond empty_host long_walk small_server)))) = 1309"
proof (intro conjI)
  show v: "tframe_valid long_walk"
    by (simp add: tframe_valid_def long_walk_def twalk_valid_def vec_valid_def string_valid_def utf8_valid.simps list_all_iff
        twalk_format_def struct_def field_def no_fields_def uint_format_def vec_format_def snd_enc_seq encode_all_empty)
  show "length (snd (tframe_encode long_walk)) \<le> unat (sv_msize small_server)"
    unfolding tframe_encodes(2) [OF v] tframe_sizes [OF v]
    by (simp add: long_walk_def small_server_def twalk_format_def struct_def field_def no_fields_def uint_format_def vec_format_def snd_enc_seq
        encode_all_empty)
  show "host_ok empty_host" by (rule empty_host_ok)
  obtain cs where walk: "do_walk empty_host [Root_dir] (replicate 100 []) [Root_dir] [] small_server
      = ((Inr [Root_dir], [] @ replicate 100 some_metadata), small_server\<lparr>sv_calls := cs\<rparr>)"
    using do_walk_empty by blast
  have fids: "sv_fids small_server 1 = None" "sv_root small_server = [Root_dir]" "sv_fids small_server 0
      = Some \<lparr>fid_path = [Root_dir], fid_metadata = some_metadata, fid_file = None, fid_dirents = None\<rparr>"
    by (simp_all add: small_server_def server_new_def)
  have "rframe_msg (fst (p9_respond empty_host long_walk small_server)) = R_walk \<lparr>rwalk_wqids = replicate 100 (metadata_to_qid some_metadata)\<rparr>"
    using walk fids by (simp add: p9_respond_def long_walk_def p9_walk_def srv_bind_def srv_get_def get_fid_def set_fid_def srv_return_def)
  then show "length (snd (rframe_encode (fst (p9_respond empty_host long_walk small_server)))) = 1309"
    by (simp add: rframe_encode_def frame_encode_def snd_enc_seq uint_format_def rwalk_format_def struct_def field_def no_fields_def
        vec_format_def qids_length)
qed

end
