(* ===== verification/P9_Directory.thy ===== *)
theory P9_Directory
  imports P9_Safety
begin

text \<open>
  Listing a directory over 9P: a client that asks for the entries behind the last one it has seen
  gets every entry once, in the order of the host.
\<close>

section \<open>The client\<close>

text \<open>Decoding the entries of a response; the number bounds them.\<close>

fun decode_dirents :: "nat \<Rightarrow> u8 list \<Rightarrow> dirent list option" where
  "decode_dirents n [] = Some []"
| "decode_dirents 0 bs = None"
| "decode_dirents (Suc n) bs =
     (case wf_decode dirent_format \<lparr>rd_bytes = bs, rd_failure = None\<rparr> of
        (Inl _, _) \<Rightarrow> None
      | (Inr e, r) \<Rightarrow> map_option ((#) e) (decode_dirents n (rd_bytes r)))"

text \<open>
  Asking for entries until there are none; the number bounds the requests, and \<^const>\<open>None\<close> is an
  error or too many requests.
\<close>

fun list_dir :: "host \<Rightarrow> u32 \<Rightarrow> u32 \<Rightarrow> nat \<Rightarrow> u64 \<Rightarrow> server \<Rightarrow> dirent list option \<times> server" where
  "list_dir host i count 0 offset s = (None, s)"
| "list_dir host i count (Suc n) offset s =
     (case p9_readdir host \<lparr>treaddir_fid = i, treaddir_offset = offset, treaddir_count = count\<rparr> s of
        (Inr (R_readdir m), s) \<Rightarrow>
          (case decode_dirents (length (rreaddir_data m)) (rreaddir_data m) of
             None \<Rightarrow> (None, s)
           | Some [] \<Rightarrow> (Some [], s)
           | Some es \<Rightarrow>
               (case list_dir host i count n (dirent_offset (last es)) s of
                  (None, s) \<Rightarrow> (None, s)
                | (Some rest, s) \<Rightarrow> (Some (es @ rest), s)))
      | (_, s) \<Rightarrow> (None, s))"

section \<open>Entries\<close>

abbreviation encoded :: "dirent list \<Rightarrow> u8 list" where
  "encoded es \<equiv> concat (map (\<lambda>e. snd (wf_encode dirent_format e)) es)"

lemma dirent_valid_encodes:
  assumes "dirent_valid e"
  shows "wf_encode dirent_format e = (Inr (), snd (wf_encode dirent_format e))"
    "length (snd (wf_encode dirent_format e)) = 24 + length (dirent_name e)" "unat (wf_size dirent_format e) = 24 + length (dirent_name e)"
  using assms by (auto simp: dirent_valid_def string_valid_def intro: dirent_encodes)

lemma decode_dirents_encoded:
  assumes "list_all dirent_valid es" "length es \<le> n"
  shows "decode_dirents n (encoded es) = Some es"
  using assms
proof (induction es arbitrary: n)
  case (Cons e es)
  then obtain k where n: "n = Suc k" by (cases n) auto
  have v: "dirent_valid e" using Cons.prems by simp
  have "encoded (e # es) \<noteq> []" using dirent_valid_encodes(2) [OF v] by auto
  then obtain b bs where bs: "encoded (e # es) = b # bs" by (cases "encoded (e # es)") auto
  have "wf_decode dirent_format \<lparr>rd_bytes = encoded (e # es), rd_failure = None\<rparr>
      = (Inr e, \<lparr>rd_bytes = encoded (e # es), rd_failure = None\<rparr>\<lparr>rd_bytes := encoded es\<rparr>)"
    by (rule wire_law.decodes [OF dirent_law v]) simp
  then show ?case
    using Cons.IH [of k] Cons.prems n unfolding bs by simp
qed simp

lemma length_encoded: "list_all dirent_valid es \<Longrightarrow> length es \<le> length (encoded es)"
  by (induction es) (auto simp: dirent_valid_encodes(2))

text \<open>A response holds the longest sequence of entries that fits.\<close>

lemma fill_entries_prefix:
  assumes "list_all dirent_valid es" "length buf \<le> c"
  shows "\<exists>k \<le> length es. fill_entries c buf es = Inr (buf @ encoded (take k es))
    \<and> (es \<noteq> [] \<and> 24 + length (dirent_name (hd es)) \<le> c - length buf \<longrightarrow> 0 < k)"
  using assms
proof (induction es arbitrary: buf)
  case (Cons e es)
  have v: "dirent_valid e" using Cons.prems by simp
  note e = dirent_valid_encodes [OF v]
  show ?case
  proof (cases "c - length buf < unat (wf_size dirent_format e)")
    case True
    then show ?thesis using e by (intro exI [of _ 0]) simp
  next
    case False
    let ?buf = "buf @ snd (wf_encode dirent_format e)"
    have "length ?buf \<le> c" using False e Cons.prems(2) by simp
    then obtain k where k: "k \<le> length es" "fill_entries c ?buf es = Inr (?buf @ encoded (take k es))"
      using Cons.IH [of ?buf] Cons.prems(1) by auto
    have "fill_entries c buf (e # es) = fill_entries c ?buf es"
      using False e(1) by (cases "wf_encode dirent_format e") simp
    with k show ?thesis by (intro exI [of _ "Suc k"]) simp
  qed
qed simp

text \<open>The offsets of the entries increase.\<close>

lemma read_entries_sorted:
  assumes "read_entries off items = Inr es" "\<forall>e \<in> set es. length (dirent_name e) \<le> 65535"
    "unat off + sum_list (map (\<lambda>e. 24 + length (dirent_name e)) es) < 2 ^ 64"
  shows "list_all dirent_valid es \<and> sorted_wrt (<) (off # map dirent_offset es)"
  using assms
proof (induction off items arbitrary: es rule: read_entries.induct)
  case (4 off name md items)
  let ?entry = "\<lparr>dirent_qid = metadata_to_qid md, dirent_offset = 0,
    dirent_ty = (if md_is_dir md then 4 else if md_is_file md then 8 else 0), dirent_name = name\<rparr>"
  let ?off = "off + ucast (wf_size dirent_format ?entry)"
  from "4.prems"(1) obtain es' where es: "utf8_valid name" "read_entries ?off items = Inr es'"
    "es = ?entry\<lparr>dirent_offset := ?off\<rparr> # es'"
    by (auto simp: Let_def map_sum_def split: if_splits sum.splits)
  have len: "length name \<le> 65535" using "4.prems"(2) es(3) by simp
  have sz: "unat (wf_size dirent_format ?entry) = 24 + length name" using dirent_encodes(3) [of ?entry] len by simp
  have off: "unat ?off = unat off + (24 + length name)"
    using "4.prems"(3) es(3) sz by (simp add: unat_word_ariths unat_ucast_up)
  have "list_all dirent_valid es' \<and> sorted_wrt (<) (?off # map dirent_offset es')"
    using "4.IH" [OF _ refl refl, of es'] es "4.prems" off by simp
  moreover have "off < ?off" using off by (simp add: word_less_nat_alt)
  moreover have "dirent_valid (?entry\<lparr>dirent_offset := ?off\<rparr>)" using es(1) len by (simp add: dirent_valid_def string_valid_def)
  ultimately show ?case unfolding es(3) by (auto intro: less_trans)
qed (auto simp: Let_def)

section \<open>Listing a directory\<close>

lemma dropWhile_offsets:
  assumes "sorted_wrt (<) (map dirent_offset es)" "j < length es"
  shows "dropWhile (\<lambda>e. dirent_offset e \<le> dirent_offset (es ! j)) es = drop (Suc j) es"
proof -
  have lt: "dirent_offset (es ! a) < dirent_offset (es ! b)" if "a < b" "b < length es" for a b
    using assms(1) that by (simp add: sorted_wrt_iff_nth_less)
  have "takeWhile (\<lambda>e. dirent_offset e \<le> dirent_offset (es ! j)) es = take (Suc j) es"
  proof (rule takeWhile_eq_take_P_nth)
    fix i assume "i < Suc j" "i < length es"
    then show "dirent_offset (es ! i) \<le> dirent_offset (es ! j)"
      using lt [of i j] assms(2) by (cases "i = j") auto
  next
    assume "Suc j < length es"
    then show "\<not> dirent_offset (es ! Suc j) \<le> dirent_offset (es ! j)" using lt [of j "Suc j"] by simp
  qed
  then show ?thesis using assms(2) by (simp add: dropWhile_eq_drop min_absorb2)
qed

text \<open>The entries are kept and each of them fits a response.\<close>

definition listing :: "server \<Rightarrow> u32 \<Rightarrow> u32 \<Rightarrow> fid \<Rightarrow> dirent list \<Rightarrow> bool" where
  "listing s i count f es \<longleftrightarrow> sv_fids s i = Some f \<and> md_is_dir (fid_metadata f) \<and> fid_dirents f = Some es
     \<and> list_all dirent_valid es \<and> sorted_wrt (<) (0 # map dirent_offset es)
     \<and> (\<forall>e \<in> set es. 24 + length (dirent_name e) \<le> unat (min (sv_msize s - 11) count))"

text \<open>The response to a request for the entries after the first \<open>j\<close>.\<close>

lemma readdir_page:
  assumes "listing s i count f es" "0 < j" "j \<le> length es"
  shows "\<exists>k \<le> length es - j. p9_readdir host \<lparr>treaddir_fid = i, treaddir_offset = dirent_offset (es ! (j - 1)), treaddir_count = count\<rparr> s
      = (Inr (R_readdir \<lparr>rreaddir_data = encoded (take k (drop j es))\<rparr>), s) \<and> (j < length es \<longrightarrow> 0 < k)"
proof -
  let ?c = "unat (min (sv_msize s - 11) count)"
  have es: "list_all dirent_valid (drop j es)" using assms(1) by (auto simp: listing_def list_all_iff dest: in_set_dropD)
  have drop: "dropWhile (\<lambda>e. dirent_offset e \<le> dirent_offset (es ! (j - 1))) es = drop j es"
    using dropWhile_offsets [of es "j - 1"] assms by (simp add: listing_def)
  have "es ! (j - 1) \<in> set es" using assms(2, 3) by (intro nth_mem) simp
  then have "0 < dirent_offset (es ! (j - 1))" using assms(1) unfolding listing_def sorted_wrt.simps by auto
  then have off: "dirent_offset (es ! (j - 1)) \<noteq> 0" by simp
  from fill_entries_prefix [OF es, of "[]" ?c] obtain k where k: "k \<le> length (drop j es)"
    "fill_entries ?c [] (drop j es) = Inr (encoded (take k (drop j es)))"
    "drop j es \<noteq> [] \<and> 24 + length (dirent_name (hd (drop j es))) \<le> ?c \<longrightarrow> 0 < k" by auto
  have "0 < k" if "j < length es"
    using k(3) that assms(1) by (auto simp: listing_def hd_drop_conv_nth)
  with k assms(1) off drop show ?thesis
    by (intro exI [of _ k]) (simp add: listing_def p9_readdir_def srv_bind_def get_fid_def srv_return_def srv_get_def srv_lift_def header_sizes)
qed

lemma list_dir_rest:
  assumes "listing s i count f es" "0 < j" "j \<le> length es" "length es - j < n"
  shows "list_dir host i count n (dirent_offset (es ! (j - 1))) s = (Some (drop j es), s)"
  using assms(2-)
proof (induction n arbitrary: j)
  case (Suc n)
  from readdir_page [OF assms(1) Suc.prems(1, 2), of host] obtain k where k: "k \<le> length es - j"
    "p9_readdir host \<lparr>treaddir_fid = i, treaddir_offset = dirent_offset (es ! (j - 1)), treaddir_count = count\<rparr> s
      = (Inr (R_readdir \<lparr>rreaddir_data = encoded (take k (drop j es))\<rparr>), s)" "j < length es \<longrightarrow> 0 < k" by blast
  let ?es = "take k (drop j es)"
  have v: "list_all dirent_valid ?es"
    using assms(1) by (auto simp: listing_def list_all_iff dest!: in_set_takeD in_set_dropD)
  have dec: "decode_dirents (length (encoded ?es)) (encoded ?es) = Some ?es"
    using decode_dirents_encoded [OF v length_encoded [OF v]] .
  show ?case
  proof (cases "j = length es")
    case True
    then show ?thesis using k(2) by simp
  next
    case False
    then have pos: "0 < k" using k(3) Suc.prems(2) by simp
    then have ne: "?es \<noteq> []" using k(1) False Suc.prems(2) by simp
    have "last ?es = es ! (j + k - 1)"
      using pos k(1) ne by (simp add: last_conv_nth)
    moreover have "list_dir host i count n (dirent_offset (es ! (j + k - 1))) s = (Some (drop (j + k) es), s)"
      using Suc.IH [of "j + k"] Suc.prems k(1) pos by simp
    moreover have "?es @ drop (j + k) es = drop j es"
      by (metis append_take_drop_id drop_drop add.commute)
    moreover obtain x xs where "?es = x # xs" using ne by (cases ?es) auto
    ultimately show ?thesis using k(2) dec by simp
  qed
qed simp

text \<open>The first request reads the directory.\<close>

definition entries_read :: "server \<Rightarrow> u32 \<Rightarrow> fid \<Rightarrow> dirent list \<Rightarrow> server" where
  "entries_read s i f es =
     s\<lparr>sv_calls := sv_calls s @ [Call_read_dir (fid_path f)], sv_fids := (sv_fids s)(i \<mapsto> f\<lparr>fid_dirents := Some es\<rparr>)\<rparr>"

lemma readdir_first_page:
  assumes "sv_fids s i = Some f" "md_is_dir (fid_metadata f)"
    "ho_read_dir host (sv_calls s @ [Call_read_dir (fid_path f)]) = Inr items" "read_entries 0 items = Inr es"
    "listing (entries_read s i f es) i count (f\<lparr>fid_dirents := Some es\<rparr>) es"
  shows "\<exists>k \<le> length es. p9_readdir host \<lparr>treaddir_fid = i, treaddir_offset = 0, treaddir_count = count\<rparr> s
      = (Inr (R_readdir \<lparr>rreaddir_data = encoded (take k es)\<rparr>), entries_read s i f es) \<and> (es \<noteq> [] \<longrightarrow> 0 < k)"
proof -
  let ?c = "unat (min (sv_msize s - 11) count)"
  have es: "list_all dirent_valid es" "\<forall>e \<in> set es. 24 + length (dirent_name e) \<le> ?c" "\<forall>e \<in> set es. 0 < dirent_offset e"
    using assms(5) by (auto simp: listing_def entries_read_def)
  have drop: "dropWhile (\<lambda>e. dirent_offset e \<le> 0) es = es"
    using es(3) by (cases es) auto
  from fill_entries_prefix [OF es(1), of "[]" ?c] obtain k where k: "k \<le> length es"
    "fill_entries ?c [] es = Inr (encoded (take k es))"
    "es \<noteq> [] \<and> 24 + length (dirent_name (hd es)) \<le> ?c \<longrightarrow> 0 < k" by auto
  have "0 < k" if "es \<noteq> []" using k(3) that es(2) hd_in_set [OF that] by blast
  with k assms(1-4) drop show ?thesis
    by (intro exI [of _ k]) (simp add: p9_readdir_def srv_bind_def get_fid_def set_fid_def srv_return_def srv_get_def srv_lift_def
        ask_def Let_def header_sizes entries_read_def)
qed

lemma list_dir_all:
  assumes "sv_fids s i = Some f" "md_is_dir (fid_metadata f)"
    "ho_read_dir host (sv_calls s @ [Call_read_dir (fid_path f)]) = Inr items" "read_entries 0 items = Inr es"
    "listing (entries_read s i f es) i count (f\<lparr>fid_dirents := Some es\<rparr>) es" "length es < n"
  shows "list_dir host i count n 0 s = (Some es, entries_read s i f es)"
proof -
  obtain m where n: "n = Suc m" using assms(6) by (cases n) auto
  obtain k where k: "k \<le> length es" "p9_readdir host \<lparr>treaddir_fid = i, treaddir_offset = 0, treaddir_count = count\<rparr> s
      = (Inr (R_readdir \<lparr>rreaddir_data = encoded (take k es)\<rparr>), entries_read s i f es)" "es \<noteq> [] \<longrightarrow> 0 < k"
    using readdir_first_page [OF assms(1-5)] by blast
  have v: "list_all dirent_valid (take k es)"
    using assms(5) by (auto simp: listing_def list_all_iff dest: in_set_takeD)
  have dec: "decode_dirents (length (encoded (take k es))) (encoded (take k es)) = Some (take k es)"
    using decode_dirents_encoded [OF v length_encoded [OF v]] .
  show ?thesis
  proof (cases "es = []")
    case True
    then show ?thesis using k(2) n by simp
  next
    case False
    then have pos: "0 < k" using k(3) by simp
    then obtain x xs where es: "take k es = x # xs" using False by (cases "take k es") auto
    have "last (take k es) = es ! (k - 1)"
      using pos k(1) False by (simp add: last_conv_nth)
    moreover have "list_dir host i count m (dirent_offset (es ! (k - 1))) (entries_read s i f es) = (Some (drop k es), entries_read s i f es)"
      using list_dir_rest [OF assms(5) pos k(1), of m host] assms(6) n k(1) pos by simp
    moreover have "take k es @ drop k es = es" by simp
    ultimately show ?thesis using k(2) dec es n by simp
  qed
qed

text \<open>Names and metadata as the host yields them.\<close>

lemma read_entries_all:
  assumes "list_all (\<lambda>(name, md). utf8_valid name) xs"
  shows "\<exists>es. read_entries off (map (\<lambda>(name, md). Inr (name, Inr md)) xs) = Inr es
    \<and> map (\<lambda>e. (dirent_name e, dirent_qid e)) es = map (\<lambda>(name, md). (name, metadata_to_qid md)) xs"
  using assms
proof (induction xs arbitrary: off)
  case (Cons x xs)
  obtain name md where x: "x = (name, md)" by fastforce
  let ?entry = "\<lparr>dirent_qid = metadata_to_qid md, dirent_offset = 0,
    dirent_ty = (if md_is_dir md then 4 else if md_is_file md then 8 else 0), dirent_name = name\<rparr>"
  let ?off = "off + ucast (wf_size dirent_format ?entry)"
  obtain es where es: "read_entries ?off (map (\<lambda>(name, md). Inr (name, Inr md)) xs) = Inr es"
    "map (\<lambda>e. (dirent_name e, dirent_qid e)) es = map (\<lambda>(name, md). (name, metadata_to_qid md)) xs"
    using Cons.IH [of ?off] Cons.prems by auto
  with Cons.prems x show ?case by (intro exI [of _ "?entry\<lparr>dirent_offset := ?off\<rparr> # es"]) (simp add: Let_def)
qed simp

text \<open>
  C10. Listing a directory over 9P is complete. When the host yields the entries of a directory,
  with names that are UTF-8 and fit a response, a client that starts at offset zero and goes on
  with the offset of the last entry it got receives every entry exactly once and in order, after
  at most one request more than there are entries.
\<close>

theorem p9_directory_listing:
  assumes "sv_fids s i = Some f" "md_is_dir (fid_metadata f)" "sv_msize s \<le> 65535" "256 \<le> sv_msize s"
    "ho_read_dir host (sv_calls s @ [Call_read_dir (fid_path f)]) = Inr (map (\<lambda>(name, md). Inr (name, Inr md)) xs)"
    "list_all (\<lambda>(name, md). utf8_valid name \<and> 24 + length name \<le> unat (min (sv_msize s - 11) count)) xs"
    "length xs < 2 ^ 32" "length xs < n"
  shows "\<exists>es. fst (list_dir host i count n 0 s) = Some es
    \<and> map (\<lambda>e. (dirent_name e, dirent_qid e)) es = map (\<lambda>(name, md). (name, metadata_to_qid md)) xs"
proof -
  have "list_all (\<lambda>(name, md). utf8_valid name) xs" using assms(6) by (auto simp: list_all_iff)
  from read_entries_all [OF this] obtain es where es: "read_entries 0 (map (\<lambda>(name, md). Inr (name, Inr md)) xs) = Inr es"
    "map (\<lambda>e. (dirent_name e, dirent_qid e)) es = map (\<lambda>(name, md). (name, metadata_to_qid md)) xs" by blast
  have names: "map dirent_name es = map fst xs" using arg_cong [OF es(2), of "map fst"] by (simp add: case_prod_unfold comp_def)
  have len: "length es = length xs" using arg_cong [OF names, of length] by simp
  have fit: "24 + length (dirent_name e) \<le> unat (min (sv_msize s - 11) count)" if "e \<in> set es" for e
  proof -
    have "dirent_name e \<in> fst ` set xs" using that names by (metis imageI list.set_map)
    then show ?thesis using assms(6) by (auto simp: list_all_iff)
  qed
  have room: "unat (min (sv_msize s - 11) count) \<le> 65535"
    using assms(3, 4) by (auto simp: min_def unat_sub_if' word_le_nat_alt split: if_splits)
  have "sum_list (map (\<lambda>e. 24 + length (dirent_name e)) es) \<le> sum_list (map (\<lambda>_. 65535) es)"
    by (rule sum_list_mono) (use fit room in fastforce)
  also have "\<dots> < 2 ^ 64" using assms(7) len by (simp add: sum_list_triv)
  finally have "list_all dirent_valid es \<and> sorted_wrt (<) (0 # map dirent_offset es)"
    using fit room by (intro read_entries_sorted [OF es(1)]) fastforce+
  then have "listing (entries_read s i f es) i count (f\<lparr>fid_dirents := Some es\<rparr>) es"
    using assms(2) fit by (simp add: listing_def entries_read_def)
  from list_dir_all [OF assms(1, 2, 5) es(1) this, of n] assms(8) len es(2) show ?thesis by simp
qed

text \<open>Two files, of which a response holds one.\<close>

definition two_files :: "(u8 list \<times> metadata) list" where
  "two_files = [([0x61], some_metadata), ([0x62, 0x63], some_metadata)]"

definition two_files_host :: host where
  "two_files_host = empty_host\<lparr>ho_read_dir := \<lambda>_. Inr (map (\<lambda>(name, md). Inr (name, Inr md)) two_files)\<rparr>"

theorem p9_directory_listing_witness:
  "\<exists>es. fst (list_dir two_files_host 0 30 3 0 small_server) = Some es \<and> map dirent_name es = [[0x61], [0x62, 0x63]]"
proof -
  let ?f = "\<lparr>fid_path = [Root_dir], fid_metadata = some_metadata, fid_file = None, fid_dirents = None\<rparr>"
  have "\<exists>es. fst (list_dir two_files_host 0 30 3 0 small_server) = Some es
      \<and> map (\<lambda>e. (dirent_name e, dirent_qid e)) es = map (\<lambda>(name, md). (name, metadata_to_qid md)) two_files"
    by (rule p9_directory_listing [where f = ?f])
      (simp_all add: small_server_def server_new_def some_metadata_def two_files_host_def two_files_def utf8_valid.simps utf8_width_def)
  then obtain es where es: "fst (list_dir two_files_host 0 30 3 0 small_server) = Some es"
    "map (\<lambda>e. (dirent_name e, dirent_qid e)) es = map (\<lambda>(name, md). (name, metadata_to_qid md)) two_files" by blast
  from arg_cong [OF es(2), of "map fst"] have "map dirent_name es = [[0x61], [0x62, 0x63]]" by (simp add: two_files_def comp_def)
  with es(1) show ?thesis by (intro exI [of _ es] conjI)
qed

end
