(* ===== verification/Spec2Isabelle.thy ===== *)
theory Spec2Isabelle
  imports System_Allocator Io_Bus Virtio_Block_Raw Virtio_Block_Qcow P9_Directory
begin

text \<open>
  A verification development for crosvm, a virtual machine monitor written in Rust.
\<close>

end
